(* ===== verification/Prelude.thy ===== *)
theory Prelude
  imports Main "HOL-Library.AList"
begin

text \<open>
  The prelude of the development: Python exceptions as values, the state-and-exception
  shape every effectful function of the model has, insertion-ordered dictionaries, the
  relational operations the code performs through its database session, and the interface
  of the versioned tables (rows of which at most one per key is current).
\<close>

named_theorems keeps_intros \<open>rules that show that a piece of Python code keeps an invariant\<close>
named_theorems row_simps \<open>rewriting of row accessors after updates\<close>

section \<open>Python values and exceptions\<close>

text \<open>
  The exceptions the modelled code raises itself, or that Python raises at a place the code
  relies on. \<open>IndexingError\<close> carries the arguments of its constructor: the type, the block
  number, the block hash, the transaction hash (which may be None) and the message.
\<close>

datatype exc =
    IndexingError (exc_type: string) (exc_blocknumber: "int option") (exc_blockhash: string)
      (exc_txhash: "string option") (exc_message: string)
  | EntityMissingRequiredFieldError string
  | AssertionError string
  | KeyError string
  | AttributeError string
  | TypeError string
  | RuntimeError string
  | UnicodeDecodeError
  | PyException string

text \<open>\<open>str(e)\<close>: the message an exception was constructed with.\<close>

fun exc_str :: "exc \<Rightarrow> string" where
  "exc_str (IndexingError t n h x m) = m"
| "exc_str (EntityMissingRequiredFieldError m) = m"
| "exc_str (AssertionError m) = m"
| "exc_str (KeyError k) = k"
| "exc_str (AttributeError m) = m"
| "exc_str (TypeError m) = m"
| "exc_str (RuntimeError m) = m"
| "exc_str UnicodeDecodeError = ''invalid utf-8''"
| "exc_str (PyException m) = m"

text \<open>The class \<open>except EntityMissingRequiredFieldError\<close> selects.\<close>

fun missing_required :: "exc \<Rightarrow> bool" where
  "missing_required (EntityMissingRequiredFieldError m) = True"
| "missing_required e = False"

text \<open>JSON documents, as the metadata the content nodes serve and Redis stores.\<close>

datatype json =
    JNull
  | JBool bool
  | JInt int
  | JStr string
  | JList "json list"
  | JObj "(string \<times> json) list"

fun json_truthy :: "json \<Rightarrow> bool" where
  "json_truthy JNull = False"
| "json_truthy (JBool b) = b"
| "json_truthy (JInt i) = (i \<noteq> 0)"
| "json_truthy (JStr s) = (s \<noteq> [])"
| "json_truthy (JList xs) = (xs \<noteq> [])"
| "json_truthy (JObj kvs) = (kvs \<noteq> [])"

text \<open>Sequencing of pure computations that may raise.\<close>

definition exc_bind :: "exc + 'a \<Rightarrow> ('a \<Rightarrow> exc + 'b) \<Rightarrow> exc + 'b" where
  "exc_bind r f = (case r of Inl e \<Rightarrow> Inl e | Inr x \<Rightarrow> f x)"

lemma exc_bind_simps [simp]:
  "exc_bind (Inl e) f = Inl e"
  "exc_bind (Inr x) f = f x"
  by (simp_all add: exc_bind_def)

lemma exc_bind_Inr_iff: "exc_bind r f = Inr y \<longleftrightarrow> (\<exists>x. r = Inr x \<and> f x = Inr y)"
  by (cases r) auto

lemma exc_bind_Inl_iff:
  "exc_bind r f = Inl e \<longleftrightarrow> r = Inl e \<or> (\<exists>x. r = Inr x \<and> f x = Inl e)"
  by (cases r) auto

text \<open>A list comprehension whose expression may raise.\<close>

primrec exc_map :: "('a \<Rightarrow> exc + 'b) \<Rightarrow> 'a list \<Rightarrow> exc + 'b list" where
  "exc_map f [] = Inr []"
| "exc_map f (x # xs) = exc_bind (f x) (\<lambda>y. exc_bind (exc_map f xs) (\<lambda>ys. Inr (y # ys)))"

lemma exc_map_list_all2: "exc_map f xs = Inr ys \<Longrightarrow> list_all2 (\<lambda>x y. f x = Inr y) xs ys"
  by (induction xs arbitrary: ys) (auto simp: exc_bind_Inr_iff)

lemma exc_map_Inr: "(\<And>x. x \<in> set xs \<Longrightarrow> f x = Inr (g x)) \<Longrightarrow> exc_map f xs = Inr (map g xs)"
  by (induction xs) auto

lemma exc_map_map: "exc_map f (map g xs) = exc_map (\<lambda>x. f (g x)) xs"
  by (induction xs) auto

lemma exc_fold_inv:
  assumes "fold (\<lambda>x acc. exc_bind acc (f x)) xs acc = Inr r"
    and "\<And>x a b. I a \<Longrightarrow> f x a = Inr b \<Longrightarrow> I b" and "\<And>a. acc = Inr a \<Longrightarrow> I a"
  shows "I r"
  using assms(1,3)
proof (induction xs arbitrary: acc)
  case Nil
  then show ?case by simp
next
  case (Cons x xs)
  have "I b" if "exc_bind acc (f x) = Inr b" for b
    using that Cons.prems(2) assms(2) by (auto simp: exc_bind_Inr_iff)
  with Cons.IH Cons.prems(1) show ?case by simp
qed

section \<open>State and exceptions\<close>

text \<open>
  An effectful Python function is a function of the state that returns either the exception
  it raised or its result, together with the state at that moment: what was mutated before
  an exception stays mutated, as in Python. Loops thread the local variables they assign.
\<close>

type_synonym ('s, 'a) py = "'s \<Rightarrow> (exc + 'a) \<times> 's"

definition py_return :: "'a \<Rightarrow> ('s, 'a) py" where
  "py_return x s = (Inr x, s)"

definition py_raise :: "exc \<Rightarrow> ('s, 'a) py" where
  "py_raise e s = (Inl e, s)"

definition py_bind :: "('s, 'a) py \<Rightarrow> ('a \<Rightarrow> ('s, 'b) py) \<Rightarrow> ('s, 'b) py" where
  "py_bind m f s = (case m s of (Inl e, t) \<Rightarrow> (Inl e, t) | (Inr x, t) \<Rightarrow> f x t)"

definition py_seq :: "('s, unit) py \<Rightarrow> ('s, 'b) py \<Rightarrow> ('s, 'b) py" where
  "py_seq m k = py_bind m (\<lambda>_. k)"

text \<open>\<open>try: m except Exception as e: h e\<close>\<close>

definition py_try :: "('s, 'a) py \<Rightarrow> (exc \<Rightarrow> ('s, 'a) py) \<Rightarrow> ('s, 'a) py" where
  "py_try m h s = (case m s of (Inl e, t) \<Rightarrow> h e t | (Inr x, t) \<Rightarrow> (Inr x, t))"

definition py_gets :: "('s \<Rightarrow> 'a) \<Rightarrow> ('s, 'a) py" where
  "py_gets f s = (Inr (f s), s)"

definition py_modify :: "('s \<Rightarrow> 's) \<Rightarrow> ('s, unit) py" where
  "py_modify f s = (Inr (), f s)"

text \<open>A pure computation that may raise.\<close>

definition py_lift :: "exc + 'a \<Rightarrow> ('s, 'a) py" where
  "py_lift r s = (r, s)"

text \<open>\<open>for x in xs: acc = body(x, acc)\<close>, stopping at the first exception.\<close>

primrec py_for :: "('x \<Rightarrow> 'acc \<Rightarrow> ('s, 'acc) py) \<Rightarrow> 'x list \<Rightarrow> 'acc \<Rightarrow> ('s, 'acc) py" where
  "py_for body [] acc = py_return acc"
| "py_for body (x # xs) acc = py_bind (body x acc) (py_for body xs)"

text \<open>\<open>py_assert c m\<close> is \<open>assert c, m\<close>.\<close>

definition py_assert :: "bool \<Rightarrow> string \<Rightarrow> ('s, unit) py" where
  "py_assert c m = (if c then py_return () else py_raise (AssertionError m))"

lemmas py_defs = py_return_def py_raise_def py_bind_def py_seq_def py_try_def py_gets_def
  py_modify_def py_lift_def py_assert_def

subsection \<open>Invariants of effectful code\<close>

text \<open>
  \<open>py_keeps I m\<close>: whenever \<open>I\<close> holds before \<open>m\<close> runs, it holds afterwards, whether
  \<open>m\<close> returned or raised. The rules below reduce the claim for a handler to its primitive
  state updates.
\<close>

definition py_keeps :: "('s \<Rightarrow> bool) \<Rightarrow> ('s, 'a) py \<Rightarrow> bool" where
  "py_keeps I m \<longleftrightarrow> (\<forall>s. I s \<longrightarrow> I (snd (m s)))"

lemma py_keepsI: "(\<And>s. I s \<Longrightarrow> I (snd (m s))) \<Longrightarrow> py_keeps I m"
  by (simp add: py_keeps_def)

lemma py_keepsD: "py_keeps I m \<Longrightarrow> I s \<Longrightarrow> I (snd (m s))"
  by (simp add: py_keeps_def)

lemma py_keeps_return [keeps_intros]: "py_keeps I (py_return x)"
  by (simp add: py_keeps_def py_return_def)

lemma py_keeps_raise [keeps_intros]: "py_keeps I (py_raise e)"
  by (simp add: py_keeps_def py_raise_def)

lemma py_keeps_gets [keeps_intros]: "py_keeps I (py_gets f)"
  by (simp add: py_keeps_def py_gets_def)

lemma py_keeps_lift [keeps_intros]: "py_keeps I (py_lift r)"
  by (simp add: py_keeps_def py_lift_def)

lemma py_keeps_assert [keeps_intros]: "py_keeps I (py_assert c m)"
  by (simp add: py_keeps_def py_defs)

lemma py_keeps_modify [keeps_intros]: "(\<And>s. I s \<Longrightarrow> I (f s)) \<Longrightarrow> py_keeps I (py_modify f)"
  by (simp add: py_keeps_def py_modify_def)

lemma py_keeps_bind [keeps_intros]:
  "py_keeps I m \<Longrightarrow> (\<And>x. py_keeps I (f x)) \<Longrightarrow> py_keeps I (py_bind m f)"
  unfolding py_keeps_def py_bind_def by (auto split: prod.split sum.split)

lemma py_keeps_seq [keeps_intros]:
  "py_keeps I m \<Longrightarrow> py_keeps I k \<Longrightarrow> py_keeps I (py_seq m k)"
  unfolding py_seq_def by (rule py_keeps_bind)

lemma py_keeps_try [keeps_intros]:
  "py_keeps I m \<Longrightarrow> (\<And>e. py_keeps I (h e)) \<Longrightarrow> py_keeps I (py_try m h)"
  unfolding py_keeps_def py_try_def by (auto split: prod.split sum.split)

lemma py_keeps_for [keeps_intros]:
  "(\<And>x acc. py_keeps I (body x acc)) \<Longrightarrow> py_keeps I (py_for body xs acc)"
  by (induction xs arbitrary: acc) (auto intro!: keeps_intros)

lemma py_keeps_if [keeps_intros]:
  "(c \<Longrightarrow> py_keeps I m) \<Longrightarrow> (\<not> c \<Longrightarrow> py_keeps I k) \<Longrightarrow> py_keeps I (if c then m else k)"
  by simp

lemma py_keeps_option [keeps_intros]:
  "(x = None \<Longrightarrow> py_keeps I m) \<Longrightarrow> (\<And>y. x = Some y \<Longrightarrow> py_keeps I (f y)) \<Longrightarrow>
    py_keeps I (case x of None \<Rightarrow> m | Some y \<Rightarrow> f y)"
  by (simp split: option.split)

lemma py_keeps_prod [keeps_intros]:
  "(\<And>y z. x = (y, z) \<Longrightarrow> py_keeps I (f y z)) \<Longrightarrow> py_keeps I (case x of (y, z) \<Rightarrow> f y z)"
  by (simp split: prod.split)

lemma py_keeps_sum [keeps_intros]:
  "(\<And>y. x = Inl y \<Longrightarrow> py_keeps I (f y)) \<Longrightarrow> (\<And>z. x = Inr z \<Longrightarrow> py_keeps I (g z)) \<Longrightarrow>
    py_keeps I (case x of Inl y \<Rightarrow> f y | Inr z \<Rightarrow> g z)"
  by (simp split: sum.split)

lemma py_keeps_Let [keeps_intros]: "(\<And>y. y = x \<Longrightarrow> py_keeps I (f y)) \<Longrightarrow> py_keeps I (Let x f)"
  by (simp add: Let_def)

subsection \<open>Results of effectful code\<close>

text \<open>\<open>py_yields P m\<close>: whatever \<open>m\<close> returns, when it returns, satisfies \<open>P\<close>.\<close>

definition py_yields :: "('a \<Rightarrow> bool) \<Rightarrow> ('s, 'a) py \<Rightarrow> bool" where
  "py_yields P m \<longleftrightarrow> (\<forall>s x t. m s = (Inr x, t) \<longrightarrow> P x)"

lemma py_yieldsD: "py_yields P m \<Longrightarrow> m s = (Inr x, t) \<Longrightarrow> P x"
  by (auto simp: py_yields_def)

lemma py_yields_return [keeps_intros]: "P x \<Longrightarrow> py_yields P (py_return x)"
  by (simp add: py_yields_def py_return_def)

lemma py_yields_raise [keeps_intros]: "py_yields P (py_raise e)"
  by (simp add: py_yields_def py_raise_def)

lemma py_yields_bind [keeps_intros]: "(\<And>x. py_yields P (f x)) \<Longrightarrow> py_yields P (py_bind m f)"
  unfolding py_yields_def py_bind_def by (auto split: prod.splits sum.splits)

lemma py_yields_seq [keeps_intros]: "py_yields P k \<Longrightarrow> py_yields P (py_seq m k)"
  unfolding py_seq_def by (rule py_yields_bind)

lemma py_yields_lift: "(\<And>x. r = Inr x \<Longrightarrow> P x) \<Longrightarrow> py_yields P (py_lift r)"
  by (simp add: py_yields_def py_lift_def)

lemma py_yields_bind_using:
  "py_yields Q m \<Longrightarrow> (\<And>x. Q x \<Longrightarrow> py_yields P (f x)) \<Longrightarrow> py_yields P (py_bind m f)"
  unfolding py_yields_def py_bind_def by (fastforce split: prod.splits sum.splits)

lemma py_yields_for:
  assumes "\<And>x acc. P acc \<Longrightarrow> py_yields P (body x acc)" and "P acc"
  shows "py_yields P (py_for body xs acc)"
  using assms(2)
proof (induction xs arbitrary: acc)
  case Nil
  then show ?case by (simp add: py_yields_return)
next
  case (Cons x xs)
  then show ?case
    using assms(1) [OF Cons.prems]
    by (simp add: py_yields_def py_bind_def split: prod.splits sum.splits) (metis surj_pair)
qed

subsection \<open>Running loops\<close>

lemma py_bind_Inr: "m s = (Inr x, t) \<Longrightarrow> py_bind m f s = f x t"
  by (simp add: py_bind_def)

lemma py_bind_Inl: "m s = (Inl e, t) \<Longrightarrow> py_bind m f s = (Inl e, t)"
  by (simp add: py_bind_def)

lemma py_bind_InrE:
  assumes "py_bind m f s = (Inr y, u)"
  obtains x t where "m s = (Inr x, t)" and "f x t = (Inr y, u)"
  using assms by (auto simp: py_bind_def split: prod.splits sum.splits)

text \<open>
  What a loop that returned has accumulated, in terms of the log of what its iterations
  processed: \<open>J\<close> relates a log to an accumulator.
\<close>

lemma py_for_log:
  assumes "py_for body xs acc s = (Inr acc', s')" and "J log acc"
    and "\<And>x log acc acc' s s'. J log acc \<Longrightarrow> body x acc s = (Inr acc', s') \<Longrightarrow> J (log @ entries x) acc'"
  shows "J (log @ concat (map entries xs)) acc'"
  using assms(1,2)
proof (induction xs arbitrary: acc s log)
  case Nil
  then show ?case by (simp add: py_return_def)
next
  case (Cons x xs)
  from Cons.prems(1) obtain acc1 s1 where step: "body x acc s = (Inr acc1, s1)"
    and rest: "py_for body xs acc1 s1 = (Inr acc', s')"
    by (auto elim: py_bind_InrE)
  from Cons.IH [OF rest assms(3) [OF Cons.prems(2) step]] show ?case by simp
qed

text \<open>A loop whose body never raises is a fold over the pair of locals and state.\<close>

lemma py_for_total:
  assumes "\<And>x acc s. x \<in> set xs \<Longrightarrow> body x acc s = (Inr (fst (g x (acc, s))), snd (g x (acc, s)))"
  shows "py_for body xs acc s = (Inr (fst (fold g xs (acc, s))), snd (fold g xs (acc, s)))"
  using assms
proof (induction xs arbitrary: acc s)
  case Nil
  then show ?case by (simp add: py_return_def)
next
  case (Cons x xs)
  show ?case
    by (cases "g x (acc, s)") (simp add: Cons py_bind_def)
qed

lemma set_map_filter: "set (List.map_filter f xs) = {y. \<exists>x\<in>set xs. f x = Some y}"
  by (induction xs) (auto simp: List.map_filter_simps split: option.splits)

lemma set_update_subset: "set (AList.update k v al) \<subseteq> insert (k, v) (set al)"
  by (induction al) auto

lemma update_nonmem: "k \<notin> fst ` set al \<Longrightarrow> AList.update k v al = al @ [(k, v)]"
  by (induction al) auto

end
