(* ===== verification/Sql.thy ===== *)
theory Sql
  imports Prelude
begin

text \<open>
  The database operations the indexer performs through its session. A table is the list of
  its rows in insertion order; \<open>session.query(T).filter(P).all()\<close> is \<open>filter P\<close>,
  \<open>.update(...)\<close> maps the matching rows, \<open>.delete()\<close> drops them, \<open>session.add\<close>
  appends (a query flushes pending additions first, so every later query sees them) and
  \<open>.order_by(c.desc()).first()\<close> picks a row with the greatest value, where the database
  sorts NULL first in descending order. Then come the nested per-block dictionaries of the
  handlers and the interface of the versioned tables.
\<close>

section \<open>Queries\<close>

definition sql_update :: "('r \<Rightarrow> bool) \<Rightarrow> ('r \<Rightarrow> 'r) \<Rightarrow> 'r list \<Rightarrow> 'r list" where
  "sql_update P f tbl = map (\<lambda>r. if P r then f r else r) tbl"

definition sql_delete :: "('r \<Rightarrow> bool) \<Rightarrow> 'r list \<Rightarrow> 'r list" where
  "sql_delete P tbl = filter (\<lambda>r. \<not> P r) tbl"

definition sql_count :: "('r \<Rightarrow> bool) \<Rightarrow> 'r list \<Rightarrow> nat" where
  "sql_count P tbl = length (filter P tbl)"

definition sql_first :: "('r \<Rightarrow> bool) \<Rightarrow> 'r list \<Rightarrow> 'r option" where
  "sql_first P tbl = find P tbl"

text \<open>A comparison with NULL is not true in SQL.\<close>

fun sql_less :: "int option \<Rightarrow> int option \<Rightarrow> bool" where
  "sql_less (Some a) (Some b) = (a < b)"
| "sql_less _ _ = False"

text \<open>\<open>a\<close> comes strictly before \<open>b\<close> in descending order, NULL first.\<close>

fun desc_before :: "int option \<Rightarrow> int option \<Rightarrow> bool" where
  "desc_before None (Some b) = True"
| "desc_before (Some a) (Some b) = (b < a)"
| "desc_before _ None = False"

fun first_desc :: "('r \<Rightarrow> int option) \<Rightarrow> 'r list \<Rightarrow> 'r option" where
  "first_desc c [] = None"
| "first_desc c (r # rs) =
     (case first_desc c rs of
        None \<Rightarrow> Some r
      | Some q \<Rightarrow> if desc_before (c q) (c r) then Some q else Some r)"

lemma first_desc_None [simp]: "first_desc c rs = None \<longleftrightarrow> rs = []"
  by (cases rs) (auto split: option.splits)

lemma first_desc_mem: "first_desc c rs = Some q \<Longrightarrow> q \<in> set rs"
  by (induction rs arbitrary: q) (auto split: option.splits if_splits)

lemma first_desc_max:
  assumes "first_desc c rs = Some q" and "r \<in> set rs"
  shows "\<not> desc_before (c r) (c q)"
  using assms
proof (induction rs arbitrary: q r)
  case Nil
  then show ?case by simp
next
  case (Cons a rs)
  show ?case
  proof (cases "first_desc c rs")
    case None
    with Cons.prems show ?thesis by (cases "c a") auto
  next
    case (Some p)
    have IH: "\<not> desc_before (c x) (c p)" if "x \<in> set rs" for x
      using Cons.IH Some that by blast
    from Some Cons.prems IH show ?thesis
      by (cases "c a"; cases "c p"; cases "c r") (force split: if_splits)+
  qed
qed

lemma first_desc_unique:
  assumes "q \<in> set rs" and "\<And>r. r \<in> set rs \<Longrightarrow> r \<noteq> q \<Longrightarrow> desc_before (c q) (c r)"
  shows "first_desc c rs = Some q"
proof -
  from assms(1) obtain p where p: "first_desc c rs = Some p"
    by (cases "first_desc c rs") auto
  then have "p \<in> set rs" by (rule first_desc_mem)
  moreover have "\<not> desc_before (c q) (c p)"
    using first_desc_max [OF p assms(1)] .
  ultimately have "p = q" using assms(2) by blast
  with p show ?thesis by simp
qed

lemma sql_first_SomeD: "sql_first P tbl = Some r \<Longrightarrow> P r \<and> r \<in> set tbl"
  by (auto simp: sql_first_def find_Some_iff)

lemma length_sql_update [simp]: "length (sql_update P f tbl) = length tbl"
  by (simp add: sql_update_def)

lemma sql_update_append [simp]:
  "sql_update P f (xs @ ys) = sql_update P f xs @ sql_update P f ys"
  by (simp add: sql_update_def)

lemma sql_update_Nil [simp]: "sql_update P f [] = []"
  by (simp add: sql_update_def)

lemma sql_update_idle: "(\<And>r. r \<in> set tbl \<Longrightarrow> P r \<Longrightarrow> f r = r) \<Longrightarrow> sql_update P f tbl = tbl"
  unfolding sql_update_def by (rule map_idI) auto

lemma set_sql_delete [simp]: "set (sql_delete P tbl) = {r \<in> set tbl. \<not> P r}"
  by (simp add: sql_delete_def)

lemma sql_delete_append [simp]:
  "sql_delete P (xs @ ys) = sql_delete P xs @ sql_delete P ys"
  by (simp add: sql_delete_def)

lemma sql_delete_none: "(\<And>r. r \<in> set tbl \<Longrightarrow> \<not> P r) \<Longrightarrow> sql_delete P tbl = tbl"
  by (simp add: sql_delete_def)

lemma sql_delete_all: "(\<And>r. r \<in> set tbl \<Longrightarrow> P r) \<Longrightarrow> sql_delete P tbl = []"
  by (simp add: sql_delete_def)

lemma sql_count_append [simp]: "sql_count P (xs @ ys) = sql_count P xs + sql_count P ys"
  by (simp add: sql_count_def)

lemma sql_count_Nil [simp]: "sql_count P [] = 0"
  by (simp add: sql_count_def)

lemma sql_count_Cons [simp]: "sql_count P (x # xs) = (if P x then 1 else 0) + sql_count P xs"
  by (simp add: sql_count_def)

lemma sql_count_0: "sql_count P tbl = 0 \<longleftrightarrow> (\<forall>r\<in>set tbl. \<not> P r)"
  by (simp add: sql_count_def filter_empty_conv)

section \<open>The per-block dictionaries of the handlers\<close>

text \<open>
  \<open>Dict[int, Dict[int, R]]\<close>: the handlers of social features and of the user library keep,
  for one block, the pending row of each (user, item) pair. Dictionaries iterate in
  insertion order, so they are association lists; \<open>AList.update\<close> replaces in place or
  appends, as a Python dictionary does.
\<close>

type_synonym 'r changes = "(int \<times> (int \<times> 'r) list) list"

definition get_change :: "'r changes \<Rightarrow> int \<Rightarrow> int \<Rightarrow> 'r option" where
  "get_change d u i = Option.bind (map_of d u) (\<lambda>m. map_of m i)"

text \<open>
  \<open>if u in d and i in d[u]: d[u][i].is_delete = ...\<close>, else create the row and store it,
  in the user's dictionary if there is one, in a new one otherwise.
\<close>

definition put_change :: "('r \<Rightarrow> 'r) \<Rightarrow> 'r \<Rightarrow> int \<Rightarrow> int \<Rightarrow> 'r changes \<Rightarrow> 'r changes" where
  "put_change upd new u i d =
     (case map_of d u of
        Some m \<Rightarrow>
          (case map_of m i of
             Some r \<Rightarrow> AList.update u (AList.update i (upd r) m) d
           | None \<Rightarrow> AList.update u (AList.update i new m) d)
      | None \<Rightarrow> AList.update u [(i, new)] d)"

text \<open>The rows in the order the nested loops \<open>for u, m in d.items(): for i in m\<close> visit them.\<close>

definition change_items :: "'r changes \<Rightarrow> ((int \<times> int) \<times> 'r) list" where
  "change_items d = concat (map (\<lambda>(u, m). map (\<lambda>(i, r). ((u, i), r)) m) d)"

definition changes_ok :: "'r changes \<Rightarrow> bool" where
  "changes_ok d \<longleftrightarrow> distinct (map fst d) \<and> (\<forall>(u, m) \<in> set d. distinct (map fst m))"

lemma get_change_Nil [simp]: "get_change [] u i = None"
  by (simp add: get_change_def)

lemma changes_ok_Nil [simp]: "changes_ok []"
  by (simp add: changes_ok_def)

lemma get_put_change:
  "get_change (put_change upd new u i d) v j =
     (if v = u \<and> j = i
      then Some (case get_change d u i of None \<Rightarrow> new | Some r \<Rightarrow> upd r)
      else get_change d v j)"
  by (auto simp: get_change_def put_change_def update_conv' split: option.splits)

lemma changes_ok_put:
  assumes "changes_ok d"
  shows "changes_ok (put_change upd new u i d)"
proof -
  have upd_ok: "changes_ok (AList.update u m d)" if "distinct (map fst m)" for m
    using assms that set_update_subset [of u m d]
    by (auto simp: changes_ok_def distinct_update)
  show ?thesis
  proof (cases "map_of d u")
    case None
    then show ?thesis by (simp add: put_change_def upd_ok)
  next
    case (Some m)
    with assms have "distinct (map fst m)"
      by (auto simp: changes_ok_def dest!: map_of_SomeD)
    with Some show ?thesis
      by (auto simp: put_change_def intro!: upd_ok distinct_update split: option.split)
  qed
qed

lemma map_of_pair_key: "map_of (map (\<lambda>(i, r). ((u, i), r)) m) (v, j) = (if v = u then map_of m j else None)"
  by (induction m) auto

lemma map_of_change_items:
  assumes "distinct (map fst d)"
  shows "map_of (change_items d) (v, j) = get_change d v j"
  using assms
proof (induction d)
  case Nil
  then show ?case by (simp add: change_items_def)
next
  case (Cons p d)
  obtain u m where p: "p = (u, m)" by (cases p)
  have none: "map_of d u = None" using Cons.prems p by (simp add: map_of_eq_None_iff)
  have IH: "map_of (change_items d) (v, j) = get_change d v j" using Cons by simp
  show ?case using IH none
    by (cases "v = u")
      (auto simp: p change_items_def map_add_def map_of_pair_key get_change_def split: option.splits)
qed

lemma distinct_change_items:
  assumes "changes_ok d"
  shows "distinct (map fst (change_items d))"
  using assms
proof (induction d)
  case Nil
  then show ?case by (simp add: change_items_def)
next
  case (Cons p d)
  obtain u m where p: "p = (u, m)" by (cases p)
  have m: "distinct (map fst m)" and d: "changes_ok d" and u: "u \<notin> fst ` set d"
    using Cons.prems p by (auto simp: changes_ok_def)
  have split: "change_items (p # d) = map (\<lambda>(i, r). ((u, i), r)) m @ change_items d"
    by (simp add: p change_items_def)
  have "map fst (map (\<lambda>(i, r). ((u, i), r)) m) = map (Pair u) (map fst m)"
    by (simp add: case_prod_unfold)
  then have "distinct (map fst (map (\<lambda>(i, r). ((u, i), r)) m))"
    using m by (simp only: distinct_map) (simp add: inj_on_def)
  moreover have "(u, i) \<notin> fst ` set (change_items d)" for i
    using u by (force simp: change_items_def)
  then have "set (map fst (map (\<lambda>(i, r). ((u, i), r)) m)) \<inter> set (map fst (change_items d)) = {}"
    by (force simp: image_iff)
  ultimately show ?case
    using Cons.IH [OF d] unfolding split map_append distinct_append by blast
qed

text \<open>
  \<open>changes_wf P d\<close>: the dictionary is well formed and every stored row satisfies \<open>P\<close> of its
  pair. \<open>live_pairs del d g\<close>: the pairs that are live once the net changes \<open>d\<close> are applied
  to the live pairs \<open>g\<close>; \<open>apply_edge\<close> is one add or delete event on a set.
\<close>

definition changes_wf :: "(int \<times> int \<Rightarrow> 'r \<Rightarrow> bool) \<Rightarrow> 'r changes \<Rightarrow> bool" where
  "changes_wf P d \<longleftrightarrow> changes_ok d \<and> (\<forall>u i r. get_change d u i = Some r \<longrightarrow> P (u, i) r)"

definition live_pairs :: "('r \<Rightarrow> bool) \<Rightarrow> 'r changes \<Rightarrow> (int \<times> int) set \<Rightarrow> (int \<times> int) set" where
  "live_pairs del d g = {(u, i). case get_change d u i of None \<Rightarrow> (u, i) \<in> g | Some r \<Rightarrow> \<not> del r}"

fun apply_edge :: "bool \<times> 'k \<Rightarrow> 'k set \<Rightarrow> 'k set" where
  "apply_edge (True, k) g = insert k g"
| "apply_edge (False, k) g = g - {k}"

lemma changes_wf_Nil [simp]: "changes_wf P []"
  by (simp add: changes_wf_def)

lemma changes_wf_put:
  assumes "changes_wf P d" and "P (u, i) new" and "\<And>r. P (u, i) r \<Longrightarrow> P (u, i) (upd r)"
  shows "changes_wf P (put_change upd new u i d)"
  using assms by (auto simp: changes_wf_def changes_ok_put get_put_change split: option.splits if_splits)

lemma changes_wf_fold:
  assumes "changes_wf P d" and "\<And>e. e \<in> set es \<Longrightarrow> P (fu e, fi e) (new e)"
    and "\<And>e r. e \<in> set es \<Longrightarrow> P (fu e, fi e) r \<Longrightarrow> P (fu e, fi e) (upd r)"
  shows "changes_wf P (fold (\<lambda>e. put_change upd (new e) (fu e) (fi e)) es d)"
  using assms
proof (induction es arbitrary: d)
  case Nil
  then show ?case by simp
next
  case (Cons e es)
  have "changes_wf P (put_change upd (new e) (fu e) (fi e) d)"
    using Cons.prems by (intro changes_wf_put) auto
  with Cons show ?case by simp
qed

lemma live_pairs_Nil [simp]: "live_pairs del [] g = g"
  by (auto simp: live_pairs_def)

lemma live_pairs_put:
  assumes "\<And>r. del (upd r) = (\<not> x)" and "del new = (\<not> x)"
  shows "live_pairs del (put_change upd new u i d) g = apply_edge (x, (u, i)) (live_pairs del d g)"
  using assms by (cases x) (auto simp: live_pairs_def get_put_change split: option.splits if_splits)

lemma live_pairs_fold:
  assumes "\<And>r. del (upd r) = (\<not> x)" and "\<And>e. del (new e) = (\<not> x)"
  shows "live_pairs del (fold (\<lambda>e. put_change upd (new e) (fu e) (fi e)) es d) g
    = fold apply_edge (map (\<lambda>e. (x, (fu e, fi e))) es) (live_pairs del d g)"
  using assms by (induction es arbitrary: d) (simp_all add: live_pairs_put)

lemma map_of_change_items_wf: "changes_wf P d \<Longrightarrow> map_of (change_items d) (u, i) = get_change d u i"
  by (simp add: changes_wf_def changes_ok_def map_of_change_items)

lemma changes_wf_items:
  assumes "changes_wf P d" and "(k, r) \<in> set (change_items d)"
  shows "P k r"
proof -
  have "map_of (change_items d) k = Some r"
    using assms by (intro map_of_is_SomeI) (auto simp: changes_wf_def distinct_change_items)
  then show ?thesis
    using assms(1) map_of_change_items_wf [OF assms(1)] by (cases k) (auto simp: changes_wf_def)
qed

lemma map_of_rev_distinct: "distinct (map fst xs) \<Longrightarrow> map_of (rev xs) = map_of xs"
  by (rule map_of_inject_set [THEN iffD2]) (auto simp: rev_map [symmetric])

section \<open>Versioned tables\<close>

text \<open>
  Most tables are versioned: a change of an entity appends a row and clears the flag
  \<open>is_current\<close> of the row it supersedes. \<open>upsert\<close> is that step, \<open>cur_rows\<close> the current
  rows of a key.
\<close>

definition cur_rows :: "('r \<Rightarrow> 'k) \<Rightarrow> ('r \<Rightarrow> bool) \<Rightarrow> 'r list \<Rightarrow> 'k \<Rightarrow> 'r list" where
  "cur_rows key cur tbl k = filter (\<lambda>r. key r = k \<and> cur r) tbl"

definition invalidate :: "('r \<Rightarrow> 'k) \<Rightarrow> ('r \<Rightarrow> bool) \<Rightarrow> (bool \<Rightarrow> 'r \<Rightarrow> 'r) \<Rightarrow> 'k \<Rightarrow> 'r list \<Rightarrow> 'r list" where
  "invalidate key cur set_cur k tbl = sql_update (\<lambda>r. key r = k \<and> cur r) (set_cur False) tbl"

definition upsert :: "('r \<Rightarrow> 'k) \<Rightarrow> ('r \<Rightarrow> bool) \<Rightarrow> (bool \<Rightarrow> 'r \<Rightarrow> 'r) \<Rightarrow> 'r \<Rightarrow> 'r list \<Rightarrow> 'r list" where
  "upsert key cur set_cur f tbl = invalidate key cur set_cur (key f) tbl @ [f]"

lemma cur_rows_single: "cur_rows key cur [r] k = (if key r = k \<and> cur r then [r] else [])"
  by (simp add: cur_rows_def)

text \<open>The live keys of a table: those with a current row that is not a deletion.\<close>

definition live_keys :: "('r \<Rightarrow> 'k) \<Rightarrow> ('r \<Rightarrow> bool) \<Rightarrow> ('r \<Rightarrow> bool) \<Rightarrow> 'r list \<Rightarrow> 'k set" where
  "live_keys key cur del tbl = {k. \<exists>r\<in>set (cur_rows key cur tbl k). \<not> del r}"

text \<open>
  The undo of one row of a reverted block: the row that \<open>order_by(blocknumber.desc()).first()\<close>
  finds among the rows \<open>prev\<close> selects becomes current again, and the reverted row is
  deleted. \<open>same\<close> is the identity of a mapped object; two rows are the same object when they
  agree in every column but \<open>is_current\<close> (or in the surrogate \<open>id\<close> where there is one).
\<close>

definition revert_entry ::
  "('r \<Rightarrow> 'r \<Rightarrow> bool) \<Rightarrow> ('r \<Rightarrow> 'r \<Rightarrow> bool) \<Rightarrow> ('r \<Rightarrow> int option) \<Rightarrow> (bool \<Rightarrow> 'r \<Rightarrow> 'r) \<Rightarrow>
    'r \<Rightarrow> 'r list \<Rightarrow> 'r list" where
  "revert_entry same prev c set_cur e tbl =
     sql_delete (same e)
       (case first_desc c (filter (prev e) tbl) of
          None \<Rightarrow> tbl
        | Some p \<Rightarrow> sql_update (same p) (set_cur True) tbl)"

text \<open>
  \<open>settled n h tbl\<close>: every row was written before block \<open>n\<close> and not by the block with
  hash \<open>h\<close>, no two rows are the same object, and the rows of each key have exactly one
  current row, the one with the greatest block number. This is the state of a versioned
  table between two blocks.
\<close>

definition same_row :: "(bool \<Rightarrow> 'r \<Rightarrow> 'r) \<Rightarrow> 'r \<Rightarrow> 'r \<Rightarrow> bool" where
  "same_row set_cur p r \<longleftrightarrow> set_cur True p = set_cur True r"

definition settled ::
  "('r \<Rightarrow> 'k) \<Rightarrow> ('r \<Rightarrow> bool) \<Rightarrow> (bool \<Rightarrow> 'r \<Rightarrow> 'r) \<Rightarrow> ('r \<Rightarrow> int option) \<Rightarrow> ('r \<Rightarrow> string option) \<Rightarrow>
    int \<Rightarrow> string \<Rightarrow> 'r list \<Rightarrow> bool" where
  "settled key cur set_cur bn bh n h tbl \<longleftrightarrow>
     (\<forall>r\<in>set tbl. sql_less (bn r) (Some n) \<and> bh r \<noteq> Some h) \<and>
     distinct (map (set_cur True) tbl) \<and>
     (\<forall>r\<in>set tbl. \<exists>q\<in>set tbl. key q = key r \<and> cur q \<and>
        (\<forall>s\<in>set tbl. key s = key r \<and> s \<noteq> q \<longrightarrow> \<not> cur s \<and> sql_less (bn s) (bn q)))"

locale versioned =
  fixes key :: "'r \<Rightarrow> 'k"
    and cur :: "'r \<Rightarrow> bool"
    and set_cur :: "bool \<Rightarrow> 'r \<Rightarrow> 'r"
  assumes key_set_cur [simp]: "key (set_cur b r) = key r"
    and cur_set_cur [simp]: "cur (set_cur b r) = b"
    and set_cur_set_cur [simp]: "set_cur b (set_cur c r) = set_cur b r"
    and set_cur_same: "cur r = b \<Longrightarrow> set_cur b r = r"
begin

lemma cur_rows_append [simp]: "cur_rows key cur (xs @ ys) k = cur_rows key cur xs k @ cur_rows key cur ys k"
  by (simp add: cur_rows_def)

lemma cur_rows_invalidate:
  "cur_rows key cur (invalidate key cur set_cur k tbl) = (cur_rows key cur tbl)(k := [])"
  by (rule ext) (induction tbl, auto simp: cur_rows_def invalidate_def sql_update_def)

lemma cur_rows_upsert:
  "cur f \<Longrightarrow> cur_rows key cur (upsert key cur set_cur f tbl) = (cur_rows key cur tbl)(key f := [f])"
  by (rule ext) (simp add: upsert_def cur_rows_invalidate, simp add: cur_rows_def)

lemma cur_rows_fold_upsert:
  assumes "\<And>f. f \<in> set fs \<Longrightarrow> cur f"
  shows "cur_rows key cur (fold (upsert key cur set_cur) fs tbl) k =
    (case map_of (rev (map (\<lambda>f. (key f, f)) fs)) k of
       Some f \<Rightarrow> [f] | None \<Rightarrow> cur_rows key cur tbl k)"
  using assms
proof (induction fs arbitrary: tbl)
  case Nil
  then show ?case by simp
next
  case (Cons f fs)
  then show ?case
    by (auto simp: cur_rows_upsert map_add_def split: option.split)
qed

lemma one_current_upsert:
  assumes "\<And>k. length (cur_rows key cur tbl k) \<le> 1" and "cur f"
  shows "length (cur_rows key cur (upsert key cur set_cur f tbl) k) \<le> 1"
  using assms by (simp add: cur_rows_upsert)

lemma one_current_fold_upsert:
  assumes "\<And>k. length (cur_rows key cur tbl k) \<le> 1" and "\<And>f. f \<in> set fs \<Longrightarrow> cur f"
  shows "length (cur_rows key cur (fold (upsert key cur set_cur) fs tbl) k) \<le> 1"
  using assms by (simp add: cur_rows_fold_upsert split: option.split)

text \<open>
  Storing the collected rows of a block: \<open>f\<close> maps the pair a row was collected under to the
  key of the table.
\<close>

lemma cur_rows_store:
  assumes dist: "distinct (map fst items)" and inj: "inj f"
    and rows: "\<And>p r. (p, r) \<in> set items \<Longrightarrow> key r = f p \<and> cur r"
  shows "cur_rows key cur (fold (upsert key cur set_cur) (map snd items) tbl) k =
    (if k \<in> range f
     then case map_of items (inv f k) of Some r \<Rightarrow> [r] | None \<Rightarrow> cur_rows key cur tbl k
     else cur_rows key cur tbl k)"
proof -
  have eq: "map (\<lambda>r. (key r, r)) (map snd items) = map (\<lambda>(p, r). (f p, r)) items"
    using rows by auto
  have dist': "distinct (map fst (map (\<lambda>(p, r). (f p, r)) items))"
    using dist inj by (simp add: case_prod_unfold distinct_map inj_on_def image_iff)
  have "map_of (rev (map (\<lambda>r. (key r, r)) (map snd items))) k
      = map_of (map (\<lambda>(p, r). (f p, r)) items) k"
    by (simp only: eq map_of_rev_distinct [OF dist'])
  also have "\<dots> = (if k \<in> range f then map_of items (inv f k) else None)"
    using inj by (induction items) (auto simp: inv_f_f inj_eq split: if_splits)
  finally have "map_of (rev (map (\<lambda>r. (key r, r)) (map snd items))) k
      = (if k \<in> range f then map_of items (inv f k) else None)" .
  then show ?thesis
    using rows by (subst cur_rows_fold_upsert) (auto split: option.split)
qed

lemma live_keys_store:
  assumes wf: "changes_wf P d" and inj: "inj f" and P: "\<And>p r. P p r \<Longrightarrow> key r = f p \<and> cur r"
  shows "k \<in> live_keys key cur del (fold (upsert key cur set_cur) (map snd (change_items d)) tbl) \<longleftrightarrow>
    (if k \<in> range f then inv f k \<in> live_pairs del d {p. f p \<in> live_keys key cur del tbl}
     else k \<in> live_keys key cur del tbl)"
proof -
  have "distinct (map fst (change_items d))"
    using wf by (simp add: changes_wf_def distinct_change_items)
  from cur_rows_store [OF this inj] wf P
  have "cur_rows key cur (fold (upsert key cur set_cur) (map snd (change_items d)) tbl) k =
    (if k \<in> range f
     then case map_of (change_items d) (inv f k) of Some r \<Rightarrow> [r] | None \<Rightarrow> cur_rows key cur tbl k
     else cur_rows key cur tbl k)"
    by (blast dest: changes_wf_items)
  then show ?thesis
    using inj map_of_change_items_wf [OF wf]
    by (cases "inv f k") (auto simp: live_keys_def live_pairs_def f_inv_into_f split: option.splits)
qed

text \<open>After any number of steps the old rows are the same up to the flag.\<close>

definition superseded :: "'k set \<Rightarrow> 'r list \<Rightarrow> 'r list" where
  "superseded K tbl = map (\<lambda>r. if key r \<in> K \<and> cur r then set_cur False r else r) tbl"

lemma superseded_empty [simp]: "superseded {} tbl = tbl"
  by (simp add: superseded_def)

lemma invalidate_superseded:
  "invalidate key cur set_cur k (superseded K tbl) = superseded (insert k K) tbl"
  by (auto simp: invalidate_def sql_update_def superseded_def)

lemma invalidate_other:
  "(\<And>r. r \<in> set tbl \<Longrightarrow> key r \<noteq> k) \<Longrightarrow> invalidate key cur set_cur k tbl = tbl"
  by (auto simp: invalidate_def intro!: sql_update_idle)

lemma invalidate_append [simp]:
  "invalidate key cur set_cur k (xs @ ys) = invalidate key cur set_cur k xs @ invalidate key cur set_cur k ys"
  by (simp add: invalidate_def)

lemma fold_upsert_distinct:
  assumes "distinct (map key fs)"
  shows "fold (upsert key cur set_cur) fs tbl = superseded (key ` set fs) tbl @ fs"
proof -
  have "fold (upsert key cur set_cur) fs (superseded K tbl @ gs)
      = superseded (key ` set fs \<union> K) tbl @ gs @ fs"
    if "distinct (map key fs)" and "key ` set fs \<inter> key ` set gs = {}" for K gs
    using that
  proof (induction fs arbitrary: K gs)
    case Nil
    then show ?case by simp
  next
    case (Cons f fs)
    have gs: "invalidate key cur set_cur (key f) gs = gs"
      using Cons.prems by (intro invalidate_other) (auto simp: image_iff)
    have "upsert key cur set_cur f (superseded K tbl @ gs)
        = superseded (insert (key f) K) tbl @ (gs @ [f])"
      by (simp add: upsert_def invalidate_superseded gs)
    then show ?case
      using Cons.IH [of "gs @ [f]" "insert (key f) K"] Cons.prems by auto
  qed
  from this [where K = "{}" and gs = "[]"] assms show ?thesis by simp
qed

end

text \<open>
  The rows also carry the number and the hash of the block that wrote them, and a block is
  undone row by row. Then indexing a block and reverting it is the identity on a table whose
  current rows are the latest ones.
\<close>

locale versioned_blocks = versioned key cur set_cur
  for key :: "'r \<Rightarrow> 'k" and cur :: "'r \<Rightarrow> bool" and set_cur :: "bool \<Rightarrow> 'r \<Rightarrow> 'r" +
  fixes bn :: "'r \<Rightarrow> int option" and bh :: "'r \<Rightarrow> string option"
  assumes bn_set_cur [simp]: "bn (set_cur b r) = bn r"
    and bh_set_cur [simp]: "bh (set_cur b r) = bh r"
begin

lemma desc_before_less: "sql_less a b \<Longrightarrow> desc_before b a"
  by (cases a; cases b) auto

lemma settled_distinctD:
  "settled key cur set_cur bn bh n h tbl \<Longrightarrow> r \<in> set tbl \<Longrightarrow> q \<in> set tbl \<Longrightarrow> same_row set_cur q r \<Longrightarrow> r = q"
  by (auto simp: settled_def same_row_def distinct_map inj_on_def)

text \<open>The row the undo of \<open>f\<close> finds is the row \<open>f\<close> superseded.\<close>

lemma revert_finds:
  assumes st: "settled key cur set_cur bn bh n h tbl" and q: "q \<in> set tbl" "key q = k" "cur q" "k \<in> K"
    and fs: "\<And>g. g \<in> set gs \<Longrightarrow> bn g = Some n"
  shows "first_desc bn (filter (\<lambda>r. key r = k \<and> sql_less (bn r) (Some n)) (superseded K tbl @ gs))
    = Some (set_cur False q)"
proof (rule first_desc_unique)
  show "set_cur False q \<in> set (filter (\<lambda>r. key r = k \<and> sql_less (bn r) (Some n)) (superseded K tbl @ gs))"
    using st q by (force simp: superseded_def settled_def)
next
  fix r
  assume r: "r \<in> set (filter (\<lambda>r. key r = k \<and> sql_less (bn r) (Some n)) (superseded K tbl @ gs))"
    and ne: "r \<noteq> set_cur False q"
  have "r \<notin> set gs" using r fs by auto
  with r obtain s where s: "s \<in> set tbl" "key s = k"
    and rs: "r = (if key s \<in> K \<and> cur s then set_cur False s else s)"
    by (auto simp: superseded_def split: if_splits)
  have "s \<noteq> q" using rs ne q by auto
  obtain p where "p \<in> set tbl" "key p = k" "cur p"
    and p: "\<And>s. s \<in> set tbl \<Longrightarrow> key s = k \<Longrightarrow> s \<noteq> p \<Longrightarrow> \<not> cur s \<and> sql_less (bn s) (bn p)"
    using st q by (auto simp: settled_def)
  with q have "p = q" by blast
  with p s \<open>s \<noteq> q\<close> have "sql_less (bn s) (bn q)" by blast
  moreover have "bn r = bn s" using rs by simp
  ultimately show "desc_before (bn (set_cur False q)) (bn r)"
    by (simp add: desc_before_less)
qed

lemma revert_step:
  assumes st: "settled key cur set_cur bn bh n h tbl" and bnn: "\<And>g. g \<in> set (f # fs) \<Longrightarrow> bn g = Some n"
    and kd: "distinct (map key (f # fs))" and curf: "\<And>g. g \<in> set (f # fs) \<Longrightarrow> cur g"
  shows "revert_entry (same_row set_cur) (\<lambda>e r. key r = key e \<and> sql_less (bn r) (Some n)) bn set_cur f
      (superseded (key ` set (f # fs)) tbl @ f # fs) = superseded (key ` set fs) tbl @ fs"
    (is "revert_entry _ _ _ _ _ (?t @ _) = _")
proof -
  have old: "\<not> same_row set_cur f r" if "r \<in> set tbl" for r
    using that st bnn [of f] bn_set_cur [of True]
    by (metis list.set_intros(1) same_row_def settled_def sql_less.simps(1) less_irrefl)
  have olds: "\<not> same_row set_cur f r" if "r \<in> set (superseded K tbl)" for K r
    using that old by (fastforce simp: superseded_def same_row_def split: if_splits)
  have news: "\<not> same_row set_cur f g" if "g \<in> set fs" for g
    using that kd key_set_cur [of True] by (metis distinct.simps(2) image_eqI list.map(2) list.set_map same_row_def)
  have del: "sql_delete (same_row set_cur f) (superseded K tbl @ f # fs) = superseded K tbl @ fs" for K
    using olds news by (simp add: sql_delete_none) (simp add: sql_delete_def same_row_def)
  have frame: "superseded (key ` set (f # fs)) tbl = superseded (key ` set fs) tbl"
    if "\<And>r. r \<in> set tbl \<Longrightarrow> key r = key f \<Longrightarrow> \<not> cur r"
    using that by (auto simp: superseded_def)
  show ?thesis
  proof (cases "\<exists>r\<in>set tbl. key r = key f")
    case False
    then have none: "filter (\<lambda>r. key r = key f \<and> sql_less (bn r) (Some n)) (?t @ f # fs) = []"
      using bnn by (auto simp: superseded_def filter_empty_conv)
    have "revert_entry (same_row set_cur) (\<lambda>e r. key r = key e \<and> sql_less (bn r) (Some n)) bn set_cur f
        (?t @ f # fs) = ?t @ fs"
      by (simp only: revert_entry_def none first_desc.simps option.case del)
    moreover have "?t = superseded (key ` set fs) tbl"
      using False by (intro frame) auto
    ultimately show ?thesis by (simp only:)
  next
    case True
    then obtain q where q: "q \<in> set tbl" "key q = key f" "cur q"
      and uq: "\<And>s. s \<in> set tbl \<Longrightarrow> key s = key f \<Longrightarrow> s \<noteq> q \<Longrightarrow> \<not> cur s"
      using st unfolding settled_def by metis
    have find: "first_desc bn (filter (\<lambda>r. key r = key f \<and> sql_less (bn r) (Some n)) (?t @ f # fs))
        = Some (set_cur False q)"
      by (rule revert_finds [OF st q]) (use bnn in auto)
    have qf: "\<not> same_row set_cur (set_cur False q) g" if "g \<in> set (f # fs)" for g
      using that st q(1) bnn bn_set_cur [of True]
      by (metis same_row_def set_cur_set_cur settled_def sql_less.simps(1) less_irrefl)
    have "sql_update (same_row set_cur (set_cur False q)) (set_cur True) (f # fs) = f # fs"
      using qf by (intro sql_update_idle) auto
    moreover have "sql_update (same_row set_cur (set_cur False q)) (set_cur True) ?t = superseded (key ` set fs) tbl"
      unfolding sql_update_def superseded_def map_map comp_def
    proof (rule map_cong [OF refl])
      fix r assume r: "r \<in> set tbl"
      have sr: "same_row set_cur (set_cur False q) (set_cur b r) \<longleftrightarrow> r = q" for b
        using settled_distinctD [OF st r q(1)] by (auto simp: same_row_def)
      have sr': "same_row set_cur (set_cur False q) r \<longleftrightarrow> r = q"
        using settled_distinctD [OF st r q(1)] by (auto simp: same_row_def)
      have "key f \<notin> key ` set fs" using kd by auto
      then show "(if same_row set_cur (set_cur False q) (if key r \<in> key ` set (f # fs) \<and> cur r then set_cur False r else r)
            then set_cur True (if key r \<in> key ` set (f # fs) \<and> cur r then set_cur False r else r)
            else if key r \<in> key ` set (f # fs) \<and> cur r then set_cur False r else r)
          = (if key r \<in> key ` set fs \<and> cur r then set_cur False r else r)"
        using q uq [OF r] sr sr' set_cur_same [of q True] by auto
    qed
    ultimately show ?thesis
      by (simp only: revert_entry_def find option.case sql_update_append del)
  qed
qed

lemma revert_upsert_roundtrip:
  assumes st: "settled key cur set_cur bn bh n h tbl" and kd: "distinct (map key fs)"
    and new: "\<And>g. g \<in> set fs \<Longrightarrow> cur g \<and> bn g = Some n \<and> bh g = Some h"
  shows "fold (revert_entry (same_row set_cur) (\<lambda>e r. key r = key e \<and> sql_less (bn r) (Some n)) bn set_cur)
      (filter (\<lambda>r. bh r = Some h) (fold (upsert key cur set_cur) fs tbl))
      (fold (upsert key cur set_cur) fs tbl) = tbl"
proof -
  have "filter (\<lambda>r. bh r = Some h) (superseded (key ` set fs) tbl @ fs) = fs"
    using st new by (auto simp: superseded_def settled_def filter_empty_conv)
  moreover have "fold (revert_entry (same_row set_cur) (\<lambda>e r. key r = key e \<and> sql_less (bn r) (Some n)) bn set_cur)
      fs (superseded (key ` set fs) tbl @ fs) = tbl"
    using kd new
  proof (induction fs)
    case Nil
    then show ?case by simp
  next
    case (Cons f fs)
    have "revert_entry (same_row set_cur) (\<lambda>e r. key r = key e \<and> sql_less (bn r) (Some n)) bn set_cur f
        (superseded (key ` set (f # fs)) tbl @ f # fs) = superseded (key ` set fs) tbl @ fs"
      by (rule revert_step [OF st]) (use Cons.prems in auto)
    with Cons show ?case by simp
  qed
  ultimately show ?thesis by (simp add: fold_upsert_distinct [OF kd])
qed

text \<open>
  Where the predecessor is looked up among all rows of the key, the undo finds the reverted
  row itself: the new rows go, but what they superseded stays superseded.
\<close>

lemma revert_unbounded:
  assumes old: "\<And>r. r \<in> set tbl \<Longrightarrow> sql_less (bn r) (Some n) \<and> bh r \<noteq> Some h"
    and kd: "distinct (map key fs)"
    and new: "\<And>g. g \<in> set fs \<Longrightarrow> cur g \<and> bn g = Some n \<and> bh g = Some h"
  shows "fold (revert_entry (same_row set_cur) (\<lambda>e r. key r = key e) bn set_cur)
      (filter (\<lambda>r. bh r = Some h) (fold (upsert key cur set_cur) fs tbl))
      (fold (upsert key cur set_cur) fs tbl) = superseded (key ` set fs) tbl"
proof -
  define K where "K = key ` set fs"
  have bn_sup: "sql_less (bn r) (Some n)" if "r \<in> set (superseded K tbl)" for r
    using that old by (auto simp: superseded_def split: if_splits)
  have "filter (\<lambda>r. bh r = Some h) (superseded K tbl @ fs) = fs"
    using old new by (auto simp: superseded_def filter_empty_conv)
  moreover have "fold (revert_entry (same_row set_cur) (\<lambda>e r. key r = key e) bn set_cur)
      fs (superseded K tbl @ fs) = superseded K tbl"
    using kd new
  proof (induction fs)
    case Nil
    then show ?case by simp
  next
    case (Cons f fs)
    have f: "cur f" "bn f = Some n" using Cons.prems(2) by auto
    have others: "\<not> same_row set_cur f g" if "g \<in> set fs" for g
      using that Cons.prems(1) key_set_cur [of True]
      by (metis distinct.simps(2) image_eqI list.map(2) list.set_map same_row_def)
    have olds: "\<not> same_row set_cur f r" if "r \<in> set (superseded K tbl)" for r
      using bn_sup [OF that] f(2) bn_set_cur [of True] by (metis less_irrefl same_row_def sql_less.simps(1))
    have "first_desc bn (filter (\<lambda>r. key r = key f) (superseded K tbl @ f # fs)) = Some f"
    proof (rule first_desc_unique)
      fix r assume "r \<in> set (filter (\<lambda>r. key r = key f) (superseded K tbl @ f # fs))" and "r \<noteq> f"
      then have "r \<in> set (superseded K tbl)" using Cons.prems(1) by (auto simp: image_iff)
      from bn_sup [OF this] show "desc_before (bn f) (bn r)" by (simp add: f(2) desc_before_less)
    qed simp
    moreover have "sql_update (same_row set_cur f) (set_cur True) (superseded K tbl @ f # fs) = superseded K tbl @ f # fs"
      by (rule sql_update_idle) (use olds others set_cur_same [of f True] f(1) in auto)
    moreover have "sql_delete (same_row set_cur f) (superseded K tbl @ f # fs) = superseded K tbl @ fs"
      using olds others by (simp add: sql_delete_none) (simp add: sql_delete_def same_row_def)
    ultimately have "revert_entry (same_row set_cur) (\<lambda>e r. key r = key e) bn set_cur f
        (superseded K tbl @ f # fs) = superseded K tbl @ fs"
      by (simp only: revert_entry_def option.case)
    with Cons show ?case by simp
  qed
  ultimately show ?thesis unfolding K_def by (simp add: fold_upsert_distinct [OF kd])
qed

lemma cur_rows_superseded:
  "cur_rows key cur (superseded K tbl) k = (if k \<in> K then [] else cur_rows key cur tbl k)"
  by (induction tbl) (auto simp: cur_rows_def superseded_def)

end

end
