(* ===== verification/Tables.thy ===== *)
theory Tables
  imports Sql
begin

text \<open>
  The tables of the discovery database the indexer and the challenge system read and write,
  one record per model class of src/models, the Redis keys they use, and the state a handler
  runs in. Nullable columns are options. Hashes are the hexadecimal strings web3's
  \<open>toHex\<close> gives; a timestamp and the datetime \<open>utcfromtimestamp\<close> makes of it are both
  the number of seconds, an \<open>int\<close>.
\<close>

type_synonym hash = string
type_synonym timestamp = int

section \<open>Indexing tables\<close>

record block_row =
  b_blockhash :: hash
  b_parenthash :: "hash option"
  b_number :: "int option"
  b_is_current :: "bool"

datatype skipped_level = LevelNode | LevelNetwork

record skipped_row =
  sk_blocknumber :: int
  sk_blockhash :: hash
  sk_txhash :: "hash option"
  sk_level :: skipped_level

record ursm_row =
  cn_blockhash :: "hash option"
  cn_blocknumber :: "int option"
  cn_txhash :: hash
  cn_is_current :: bool
  cn_sp_id :: int
  cn_created_at :: timestamp
  cn_delegate_owner_wallet :: "string option"
  cn_owner_wallet :: "string option"
  cn_proposer_sp_ids :: "int list option"
  cn_proposer_1_delegate_owner_wallet :: "string option"
  cn_proposer_2_delegate_owner_wallet :: "string option"
  cn_proposer_3_delegate_owner_wallet :: "string option"
  cn_endpoint :: "string option"

section \<open>Social tables\<close>

text \<open>\<open>RepostType\<close> and \<open>SaveType\<close> have the same three members.\<close>

datatype item_type = ItemDigitalContent | ItemContentList | ItemAlbum

record follow_row =
  fl_blockhash :: "hash option"
  fl_blocknumber :: "int option"
  fl_txhash :: hash
  fl_follower_user_id :: int
  fl_followee_user_id :: int
  fl_is_current :: bool
  fl_is_delete :: bool
  fl_created_at :: timestamp

text \<open>Reposts and saves have the same columns (\<open>repost_item_id\<close> / \<open>save_item_id\<close> and so on).\<close>

record item_row =
  it_blockhash :: "hash option"
  it_blocknumber :: "int option"
  it_txhash :: hash
  it_user_id :: int
  it_item_id :: int
  it_type :: item_type
  it_is_current :: bool
  it_is_delete :: bool
  it_created_at :: timestamp

section \<open>Content\<close>

text \<open>One element of \<open>content_list_contents["digital_content_ids"]\<close>.\<close>

record cl_entry =
  ce_digital_content :: int
  ce_time :: int

record content_list_row =
  cl_blockhash :: "hash option"
  cl_blocknumber :: "int option"
  cl_txhash :: hash
  cl_id :: int
  cl_owner_id :: "int option"
  cl_is_album :: "bool option"
  cl_is_private :: "bool option"
  cl_name :: "string option"
  cl_contents :: "cl_entry list option"
  cl_image_multihash :: "string option"
  cl_image_sizes_multihash :: "string option"
  cl_is_current :: bool
  cl_is_delete :: bool
  cl_description :: "string option"
  cl_upc :: "string option"
  cl_created_at :: "timestamp option"
  cl_updated_at :: "timestamp option"
  cl_last_added_to :: "timestamp option"

record digital_content_row =
  dc_blockhash :: "hash option"
  dc_blocknumber :: "int option"
  dc_txhash :: hash
  dc_id :: int
  dc_owner_id :: "int option"
  dc_is_current :: bool
  dc_is_delete :: bool
  dc_title :: json
  dc_metadata :: "(string \<times> json) list"
  dc_cover_art :: json
  dc_cover_art_sizes :: json
  dc_is_unlisted :: json
  dc_stem_of :: json
  dc_remix_of :: json
  dc_download :: json
  dc_route_id :: "string option"
  dc_metadata_multihash :: "string option"
  dc_created_at :: "timestamp option"
  dc_updated_at :: "timestamp option"

record route_row =
  rt_slug :: string
  rt_title_slug :: string
  rt_collision_id :: int
  rt_owner_id :: "int option"
  rt_digital_content_id :: int
  rt_is_current :: bool
  rt_blockhash :: "hash option"
  rt_blocknumber :: "int option"
  rt_txhash :: hash

section \<open>Users\<close>

record user_row =
  us_blockhash :: "hash option"
  us_blocknumber :: "int option"
  us_txhash :: hash
  us_user_id :: int
  us_is_current :: bool
  us_handle :: "string option"
  us_handle_lc :: "string option"
  us_wallet :: "string option"
  us_name :: "json"
  us_profile_picture :: "json"
  us_profile_picture_sizes :: "json"
  us_cover_photo :: "json"
  us_cover_photo_sizes :: "json"
  us_bio :: "json"
  us_location :: "json"
  us_metadata_multihash :: "string option"
  us_content_node_endpoint :: "string option"
  us_is_verified :: bool
  us_created_at :: timestamp
  us_updated_at :: timestamp
  us_primary_id :: "int option"
  us_secondary_ids :: "int list option"
  us_replica_set_update_signer :: "string option"
  us_has_collectibles :: bool
  us_content_list_library :: json
  us_is_deactivated :: json

datatype wallet_chain = Eth | Sol

record wallet_row =
  aw_id :: nat
  aw_user_id :: int
  aw_wallet :: string
  aw_blockhash :: "hash option"
  aw_blocknumber :: "int option"
  aw_is_current :: bool
  aw_is_delete :: bool
  aw_chain :: wallet_chain

record user_event_row =
  ue_id :: nat
  ue_user_id :: int
  ue_is_current :: bool
  ue_blocknumber :: "int option"
  ue_blockhash :: "hash option"
  ue_referrer :: "int option"
  ue_is_mobile_user :: bool

section \<open>Rewards\<close>

datatype challenge_type = ChBoolean | ChNumeric | ChAggregate | ChTrending

record challenge_row =
  ch_id :: string
  ch_type :: challenge_type
  ch_amount :: string
  ch_active :: bool
  ch_step_count :: "int option"
  ch_starting_block :: "int option"

record user_challenge_row =
  uc_challenge_id :: string
  uc_user_id :: int
  uc_specifier :: string
  uc_is_complete :: bool
  uc_current_step_count :: "int option"
  uc_completed_blocknumber :: "int option"

record listen_streak_row =
  ls_user_id :: int
  ls_last_listen_date :: "timestamp option"
  ls_listen_streak :: int

record profile_row =
  pc_user_id :: int
  pc_profile_description :: bool
  pc_profile_name :: bool
  pc_profile_picture :: bool
  pc_profile_cover_photo :: bool
  pc_follows :: bool
  pc_favorites :: bool
  pc_reposts :: bool

text \<open>The values of a trending result come from the JSON of its event.\<close>

record trending_row =
  tr_user_id :: json
  tr_id :: json
  tr_rank :: json
  tr_type :: json
  tr_version :: json
  tr_week :: json

section \<open>The Solana programs\<close>

record disbursement_row =
  cd_challenge_id :: string
  cd_user_id :: int
  cd_specifier :: string
  cd_signature :: string
  cd_slot :: int
  cd_amount :: string

text \<open>\<open>RewardManagerTransaction\<close> and \<open>UserBankTx\<close> have the same columns.\<close>

record program_tx_row =
  pt_signature :: string
  pt_slot :: int
  pt_created_at :: timestamp

record bank_account_row =
  ba_signature :: string
  ba_ethereum_address :: string
  ba_bank_account :: string
  ba_created_at :: timestamp

record tip_row =
  tip_signature :: string
  tip_amount :: int
  tip_sender_user_id :: int
  tip_receiver_user_id :: int
  tip_slot :: int
  tip_created_at :: timestamp

record aggregate_tip_row =
  at_sender_user_id :: int
  at_receiver_user_id :: int
  at_amount :: int

record rank_up_row =
  ru_slot :: int
  ru_sender_user_id :: int
  ru_receiver_user_id :: int
  ru_rank :: int

record checkpoint_row =
  cp_tablename :: string
  cp_last_checkpoint :: int

text \<open>Of \<open>aggregate_user\<close> the columns the tips update.\<close>

record aggregate_user_row =
  au_user_id :: int
  au_supporter_count :: int
  au_supporting_count :: int

record reaction_row =
  rx_slot :: json
  rx_reaction_value :: json
  rx_sender_wallet :: json
  rx_reaction_type :: json
  rx_reacted_to :: json
  rx_timestamp :: json

record play_row =
  pl_user_id :: "int option"
  pl_play_item_id :: int
  pl_created_at :: timestamp
  pl_source :: json
  pl_city :: json
  pl_region :: json
  pl_country :: json
  pl_slot :: "int option"
  pl_signature :: "string option"

record spl_tx_row =
  st_last_scanned_slot :: int
  st_signature :: string

record balance_row =
  ub_user_id :: int
  ub_balance :: int
  ub_associated_wallets_balance :: int
  ub_wei_digitalcoin :: "int option"
  ub_associated_sol_wallets_balance :: int
  ub_created_at :: timestamp
  ub_updated_at :: timestamp

record balance_change_row =
  bc_user_id :: int
  bc_blocknumber :: int
  bc_current_balance :: int
  bc_previous_balance :: int

text \<open>The tables of the indexers that do not follow the chain of the data contracts.\<close>

record program_tables =
  challenge_disbursements :: "disbursement_row list"
  reward_manager_txs :: "program_tx_row list"
  user_bank_txs :: "program_tx_row list"
  user_bank_accounts :: "bank_account_row list"
  user_tips :: "tip_row list"
  aggregate_user_tips :: "aggregate_tip_row list"
  supporter_rank_ups :: "rank_up_row list"
  indexing_checkpoints :: "checkpoint_row list"
  aggregate_users :: "aggregate_user_row list"
  reactions :: "reaction_row list"
  plays :: "play_row list"
  spl_token_tx :: "spl_tx_row list"
  eth_blocks :: "int list"
  user_balances :: "balance_row list"
  user_balance_changes :: "balance_change_row list"

section \<open>The state a handler runs in\<close>

record db =
  blocks :: "block_row list"
  skipped_transactions :: "skipped_row list"
  ursm_content_nodes :: "ursm_row list"
  follows :: "follow_row list"
  reposts :: "item_row list"
  saves :: "item_row list"
  content_lists :: "content_list_row list"
  digital_contents :: "digital_content_row list"
  digital_content_routes :: "route_row list"
  stems :: "(int \<times> int) list"
  remixes :: "(int \<times> int) list"
  users :: "user_row list"
  associated_wallets :: "wallet_row list"
  user_events :: "user_event_row list"
  challenges :: "challenge_row list"
  user_challenges :: "user_challenge_row list"
  listen_streaks :: "listen_streak_row list"
  profile_completions :: "profile_row list"
  trending_results :: "trending_row list"
  programs :: program_tables

text \<open>\<open>ChallengeEvent\<close>\<close>

datatype challenge_event =
    profile_update | repost | follow | favorite | digital_content_listen
  | digital_content_upload | referral_signup | referred_signup | connect_verified
  | mobile_install | trending_digital_content | trending_underground
  | trending_content_list | send_tip | first_content_list

text \<open>\<open>InternalEvent\<close>\<close>

record internal_event =
  ie_event :: challenge_event
  ie_block_number :: int
  ie_user_id :: int
  ie_extra :: "(string \<times> json) list"

text \<open>The document under the Redis key \<open>indexing:error\<close>.\<close>

record indexing_error =
  er_count :: int
  er_blocknumber :: "int option"
  er_blockhash :: hash
  er_txhash :: "hash option"
  er_message :: string
  er_has_consensus :: bool

record redis =
  r_indexing_error :: "indexing_error option"
  r_event_queue :: "internal_event list"
  r_most_recent_block :: "int option"
  r_most_recent_hash :: "hash option"
  r_immediate_refresh :: "int list"
  r_lazy_refresh :: "int list"
  r_cached_keys :: "string list"
  r_values :: "(string \<times> json) list"
  r_lists :: "(string \<times> json list) list"

record world =
  w_db :: db
  w_queue :: "internal_event list"
  w_redis :: redis

definition update_db :: "(db \<Rightarrow> db) \<Rightarrow> world \<Rightarrow> world" where
  "update_db f w = w\<lparr>w_db := f (w_db w)\<rparr>"

text \<open>\<open>redis.set\<close> of a number, a string or a JSON document.\<close>

definition redis_set :: "string \<Rightarrow> json \<Rightarrow> world \<Rightarrow> world" where
  "redis_set key v w = w\<lparr>w_redis := (w_redis w)\<lparr>r_values := AList.update key v (r_values (w_redis w))\<rparr>\<rparr>"

definition redis_get :: "string \<Rightarrow> world \<Rightarrow> json option" where
  "redis_get key w = map_of (r_values (w_redis w)) key"

definition update_programs :: "(program_tables \<Rightarrow> program_tables) \<Rightarrow> world \<Rightarrow> world" where
  "update_programs f w = update_db (\<lambda>d. d\<lparr>programs := f (programs d)\<rparr>) w"

abbreviation w_programs :: "world \<Rightarrow> program_tables" where
  "w_programs w \<equiv> programs (w_db w)"

definition empty_programs :: program_tables where
  "empty_programs = \<lparr>challenge_disbursements = [], reward_manager_txs = [], user_bank_txs = [],
     user_bank_accounts = [], user_tips = [], aggregate_user_tips = [], supporter_rank_ups = [],
     indexing_checkpoints = [], aggregate_users = [], reactions = [], plays = [], spl_token_tx = [],
     eth_blocks = [], user_balances = [], user_balance_changes = []\<rparr>"

definition empty_db :: db where
  "empty_db = \<lparr>blocks = [], skipped_transactions = [], ursm_content_nodes = [], follows = [],
     reposts = [], saves = [], content_lists = [], digital_contents = [],
     digital_content_routes = [], stems = [], remixes = [], users = [],
     associated_wallets = [], user_events = [], challenges = [], user_challenges = [],
     listen_streaks = [], profile_completions = [], trending_results = [], programs = empty_programs\<rparr>"

definition empty_redis :: redis where
  "empty_redis = \<lparr>r_indexing_error = None, r_event_queue = [], r_most_recent_block = None,
     r_most_recent_hash = None, r_immediate_refresh = [], r_lazy_refresh = [],
     r_cached_keys = [], r_values = [], r_lists = []\<rparr>"

definition empty_world :: world where
  "empty_world = \<lparr>w_db = empty_db, w_queue = [], w_redis = empty_redis\<rparr>"

lemma update_db_simps [simp, row_simps]:
  "w_db (update_db f w) = f (w_db w)"
  "w_queue (update_db f w) = w_queue w"
  "w_redis (update_db f w) = w_redis w"
  by (simp_all add: update_db_def)

lemma redis_set_simps [simp, row_simps]:
  "w_db (redis_set k v w) = w_db w"
  "w_queue (redis_set k v w) = w_queue w"
  by (simp_all add: redis_set_def)

lemma redis_get_set [simp]: "redis_get k (redis_set j v w) = (if k = j then Some v else redis_get k w)"
  by (simp add: redis_get_def redis_set_def update_conv')

lemma update_programs_simps [simp, row_simps]:
  "programs (w_db (update_programs f w)) = f (programs (w_db w))"
  "users (w_db (update_programs f w)) = users (w_db w)"
  "user_challenges (w_db (update_programs f w)) = user_challenges (w_db w)"
  "challenges (w_db (update_programs f w)) = challenges (w_db w)"
  "associated_wallets (w_db (update_programs f w)) = associated_wallets (w_db w)"
  "w_queue (update_programs f w) = w_queue w"
  "w_redis (update_programs f w) = w_redis w"
  by (simp_all add: update_programs_def)

text \<open>
  The entries web3's \<open>processReceipt\<close> decodes from a transaction receipt, per event type of
  the contract: an argument of the model (the receipt carries the decoded entries, or the
  exception decoding raised). \<open>'a\<close> is the record of the event's arguments.
\<close>

record 'a entry =
  e_blockHash :: hash
  e_args :: 'a

record ('t, 'a) tx_receipt =
  transactionHash :: hash
  processReceipt :: "'t \<Rightarrow> exc + 'a entry list"

definition receipt_entries :: "('t, 'a) tx_receipt \<Rightarrow> 't \<Rightarrow> 'a entry list" where
  "receipt_entries tx t = (case processReceipt tx t of Inl e \<Rightarrow> [] | Inr es \<Rightarrow> es)"

lemma receipt_entries_Inr [simp]: "processReceipt tx t = Inr es \<Longrightarrow> receipt_entries tx t = es"
  by (simp add: receipt_entries_def)

text \<open>A receipt with the given event arguments, for examples.\<close>

definition sample_receipt :: "hash \<Rightarrow> ('t \<Rightarrow> 'a list) \<Rightarrow> ('t, 'a) tx_receipt" where
  "sample_receipt h events = \<lparr>transactionHash = h,
     processReceipt = (\<lambda>t. Inr (map (\<lambda>a. \<lparr>e_blockHash = ''0xb'', e_args = a\<rparr>) (events t)))\<rparr>"

lemma sample_receipt_entries [simp]:
  "receipt_entries (sample_receipt h events) t = map (\<lambda>a. \<lparr>e_blockHash = ''0xb'', e_args = a\<rparr>) (events t)"
  by (simp add: sample_receipt_def receipt_entries_def)

section \<open>The versioned tables\<close>

abbreviation follow_key :: "follow_row \<Rightarrow> int \<times> int" where
  "follow_key r \<equiv> (fl_follower_user_id r, fl_followee_user_id r)"

abbreviation item_key :: "item_row \<Rightarrow> int \<times> int \<times> item_type" where
  "item_key r \<equiv> (it_user_id r, it_item_id r, it_type r)"

abbreviation fl_set_current :: "bool \<Rightarrow> follow_row \<Rightarrow> follow_row" where
  "fl_set_current b r \<equiv> r\<lparr>fl_is_current := b\<rparr>"

abbreviation it_set_current :: "bool \<Rightarrow> item_row \<Rightarrow> item_row" where
  "it_set_current b r \<equiv> r\<lparr>it_is_current := b\<rparr>"

abbreviation cl_set_current :: "bool \<Rightarrow> content_list_row \<Rightarrow> content_list_row" where
  "cl_set_current b r \<equiv> r\<lparr>cl_is_current := b\<rparr>"

abbreviation dc_set_current :: "bool \<Rightarrow> digital_content_row \<Rightarrow> digital_content_row" where
  "dc_set_current b r \<equiv> r\<lparr>dc_is_current := b\<rparr>"

abbreviation us_set_current :: "bool \<Rightarrow> user_row \<Rightarrow> user_row" where
  "us_set_current b r \<equiv> r\<lparr>us_is_current := b\<rparr>"

abbreviation cn_set_current :: "bool \<Rightarrow> ursm_row \<Rightarrow> ursm_row" where
  "cn_set_current b r \<equiv> r\<lparr>cn_is_current := b\<rparr>"

interpretation fl: versioned_blocks follow_key fl_is_current fl_set_current fl_blocknumber fl_blockhash
  by unfold_locales auto

interpretation it: versioned_blocks item_key it_is_current it_set_current it_blocknumber it_blockhash
  by unfold_locales auto

interpretation cl: versioned_blocks cl_id cl_is_current cl_set_current cl_blocknumber cl_blockhash
  by unfold_locales auto

interpretation dc: versioned_blocks dc_id dc_is_current dc_set_current dc_blocknumber dc_blockhash
  by unfold_locales auto

interpretation us: versioned_blocks us_user_id us_is_current us_set_current us_blocknumber us_blockhash
  by unfold_locales auto

interpretation cn: versioned_blocks cn_sp_id cn_is_current cn_set_current cn_blocknumber cn_blockhash
  by unfold_locales auto

end
