(* ===== verification/Event_Bus.thy ===== *)
theory Event_Bus
  imports Tables
begin

text \<open>
  The sending side of \<open>ChallengeEventBus\<close> (src/challenges/challenge_event_bus.py): events are
  collected in an in-memory queue and pushed to the Redis queue when the scope of the
  dispatch queue closes. The consuming side is in the theory Challenges.
\<close>

text \<open>
  \<open>dispatch\<close>: the event type is one of \<open>ChallengeEvent\<close> and \<open>extra\<close> defaults to the empty
  dictionary; an event whose block number or user id is None is dropped.
\<close>

definition dispatch ::
  "challenge_event \<Rightarrow> int option \<Rightarrow> int option \<Rightarrow> (string \<times> json) list \<Rightarrow> world \<Rightarrow> world" where
  "dispatch ev bn uid extra w =
     (case (bn, uid) of
        (Some b, Some u) \<Rightarrow>
          w\<lparr>w_queue := w_queue w @
             [\<lparr>ie_event = ev, ie_block_number = b, ie_user_id = u, ie_extra = extra\<rparr>]\<rparr>
      | _ \<Rightarrow> w)"

text \<open>
  \<open>flush\<close>: pushes every event to the Redis list, in order. \<open>rpush_ok\<close> says for which events
  the Redis call succeeds; a failure is logged and the event is lost, since the in-memory
  queue is cleared in any case.
\<close>

definition flush :: "(internal_event \<Rightarrow> bool) \<Rightarrow> world \<Rightarrow> world" where
  "flush rpush_ok w =
     w\<lparr>w_redis := (w_redis w)\<lparr>r_event_queue :=
         r_event_queue (w_redis w) @ filter rpush_ok (w_queue w)\<rparr>,
       w_queue := []\<rparr>"

text \<open>
  \<open>use_scoped_dispatch_queue\<close>: the context manager flushes in its \<open>finally\<close> clause, so also
  when the body raised.
\<close>

definition use_scoped_dispatch_queue ::
  "(internal_event \<Rightarrow> bool) \<Rightarrow> (world, 'a) py \<Rightarrow> (world, 'a) py" where
  "use_scoped_dispatch_queue rpush_ok body w =
     (case body w of (r, w') \<Rightarrow> (r, flush rpush_ok w'))"

lemma dispatch_simps [simp, row_simps]:
  "w_db (dispatch ev bn uid extra w) = w_db w"
  "w_redis (dispatch ev bn uid extra w) = w_redis w"
  by (simp_all add: dispatch_def split: option.split)

lemma dispatch_queue [simp, row_simps]:
  "w_queue (dispatch ev (Some b) (Some u) extra w) = w_queue w @
     [\<lparr>ie_event = ev, ie_block_number = b, ie_user_id = u, ie_extra = extra\<rparr>]"
  by (simp add: dispatch_def)

lemma dispatch_malformed: "bn = None \<or> uid = None \<Longrightarrow> dispatch ev bn uid extra w = w"
  by (auto simp: dispatch_def split: option.split)

lemma dispatch_update_db:
  "dispatch ev bn uid extra (update_db f w) = update_db f (dispatch ev bn uid extra w)"
  by (simp add: dispatch_def update_db_def split: option.split)

lemma flush_simps [simp, row_simps]:
  "w_db (flush ok w) = w_db w"
  "w_queue (flush ok w) = []"
  "r_event_queue (w_redis (flush ok w)) = r_event_queue (w_redis w) @ filter ok (w_queue w)"
  by (simp_all add: flush_def)

end
