(* ===== verification/Helpers.thy ===== *)
theory Helpers
  imports Tables
begin

text \<open>
  The pure helpers of src/utils the handlers use: the variable-length integers and
  multihashes content identifiers are made of (varint.py, multihash.py), the decoding of
  bytes32 contract values and the slugs of digital contents (helpers.py). A byte is a
  \<open>nat\<close> below 256; a Python string is the list of the bytes of its UTF-8 encoding, so
  case conversion and the character classes of the regular expressions are the ASCII ones.
\<close>

type_synonym bytes = "nat list"

section \<open>Variable-length integers\<close>

text \<open>\<open>number & 0x7F\<close> is \<open>number mod 128\<close>, \<open>towrite | 0x80\<close> adds 128 to a value below 128.\<close>

fun to_varint :: "nat \<Rightarrow> bytes" where
  "to_varint number =
     (if number div 128 = 0 then [number mod 128]
      else (number mod 128 + 128) # to_varint (number div 128))"

declare to_varint.simps [simp del]

text \<open>
  The reading loop from the current position: \<open>k\<close> bytes have been read, \<open>result\<close> holds
  their bits. It returns the value and the number of bytes read. \<open>(i & 0x7F) << shift\<close> sets
  bits above those of \<open>result\<close>, so \<open>|=\<close> is an addition.
\<close>

fun from_stream :: "bytes \<Rightarrow> nat \<Rightarrow> nat \<Rightarrow> exc + nat \<times> nat" where
  "from_stream [] k result = Inl (PyException ''Unexpected EOF while reading bytes'')"
| "from_stream (i # rest) k result =
     (let result = result + (i mod 128) * 2 ^ (7 * k)
      in if i < 128 then Inr (result, k + 1) else from_stream rest (k + 1) result)"

definition from_varint :: "bytes \<Rightarrow> nat \<Rightarrow> exc + nat \<times> nat" where
  "from_varint data off =
     (case from_stream (drop off data) 0 0 of Inl e \<Rightarrow> Inl e | Inr (v, n) \<Rightarrow> Inr (v, off + n))"

section \<open>Multihashes\<close>

text \<open>The keys of \<open>constants.codes\<close>.\<close>

definition codes :: "nat list" where
  "codes = [0x11..<0x1E] @ [0x22, 0x23, 0x56, 0xD5] @ [0xB201..<0xB261] @ [0xB301..<0xB3E1]"

definition is_app_code :: "nat \<Rightarrow> bool" where
  "is_app_code code \<longleftrightarrow> 0 < code \<and> code < 0x10"

definition is_valid_code :: "nat \<Rightarrow> bool" where
  "is_valid_code code \<longleftrightarrow> (if is_app_code code then True else code \<in> set codes)"

text \<open>\<open>coerce_code\<close> on a number.\<close>

definition coerce_code :: "nat \<Rightarrow> exc + nat" where
  "coerce_code code =
     (if code \<notin> set codes \<and> \<not> is_app_code code then Inl (PyException ''Unrecognized function code'')
      else Inr code)"

definition encode :: "bytes \<Rightarrow> nat \<Rightarrow> exc + bytes" where
  "encode digest code =
     exc_bind (coerce_code code) (\<lambda>hash_function.
       Inr (to_varint hash_function @ to_varint (length digest) @ digest))"

record multihash =
  mh_code :: nat
  mh_length :: nat
  mh_digest :: bytes

text \<open>\<open>decode\<close>; the name it also returns is \<open>constants.codes[code]\<close>, a KeyError for an application code.\<close>

definition decode :: "bytes \<Rightarrow> exc + multihash" where
  "decode buf =
     (if length buf < 3 then Inl (PyException ''multihash too short. must be > 3 bytes.'')
      else exc_bind (from_varint buf 0) (\<lambda>(code, n).
        if \<not> is_valid_code code then Inl (PyException ''multihash unknown function code'')
        else exc_bind (from_varint buf n) (\<lambda>(len, n).
          if len < 1 then Inl (PyException ''multihash invalid length'')
          else let buf = drop n buf in
            if length buf \<noteq> len then Inl (PyException ''multihash length inconsistent'')
            else if code \<notin> set codes then Inl (KeyError ''code'')
            else Inr \<lparr>mh_code = code, mh_length = len, mh_digest = buf\<rparr>)))"

text \<open>
  \<open>multihash_digest_to_cid\<close>: hash function 18 (sha2-256) and base 58, which is the third-party
  package base58, a parameter.
\<close>

definition multihash_digest_to_cid :: "(bytes \<Rightarrow> string) \<Rightarrow> bytes \<Rightarrow> exc + string" where
  "multihash_digest_to_cid b58encode digest =
     exc_bind (encode digest 18) (\<lambda>buf. Inr (b58encode buf))"

subsection \<open>Lemmas\<close>

lemma to_varint_small: "n < 128 \<Longrightarrow> to_varint n = [n]"
  by (subst to_varint.simps) simp

lemma to_varint_big: "128 \<le> n \<Longrightarrow> to_varint n = (n mod 128 + 128) # to_varint (n div 128)"
  by (subst to_varint.simps) (simp add: div_eq_0_iff)

lemma to_varint_nonempty [simp]: "to_varint n \<noteq> []"
  by (subst to_varint.simps) simp

lemma from_stream_to_varint:
  "from_stream (to_varint n @ rest) k r = Inr (r + n * 2 ^ (7 * k), k + length (to_varint n))"
proof (induction n arbitrary: k r rule: less_induct)
  case (less n)
  show ?case
  proof (cases "n < 128")
    case True
    then show ?thesis by (simp add: to_varint_small)
  next
    case False
    then have big: "to_varint n = (n mod 128 + 128) # to_varint (n div 128)"
      by (simp add: to_varint_big)
    have "2 ^ (7 * (k + 1)) = (128::nat) * 2 ^ (7 * k)"
      by (simp add: power_add)
    then have "r + n mod 128 * 2 ^ (7 * k) + n div 128 * 2 ^ (7 * (k + 1))
        = r + (n mod 128 + n div 128 * 128) * 2 ^ (7 * k)"
      by (simp only: algebra_simps)
    also have "\<dots> = r + n * 2 ^ (7 * k)"
      by (simp only: mod_div_mult_eq)
    finally show ?thesis
      using less [of "n div 128" "k + 1" "r + n mod 128 * 2 ^ (7 * k)"] False
      by (simp add: big Let_def)
  qed
qed

lemma from_varint_to_varint:
  "from_varint (pre @ to_varint n @ rest) (length pre) = Inr (n, length pre + length (to_varint n))"
  by (simp add: from_varint_def from_stream_to_varint)

lemma coerce_code_valid [simp]: "code \<in> set codes \<Longrightarrow> coerce_code code = Inr code"
  by (simp add: coerce_code_def)

lemma code_18 [simp]: "18 \<in> set codes"
  by (simp add: codes_def)

lemma multihash_digest_to_cid_eq:
  "multihash_digest_to_cid b58 digest = Inr (b58 (18 # to_varint (length digest) @ digest))"
  by (simp add: multihash_digest_to_cid_def encode_def to_varint_small)

section \<open>Contract values\<close>

text \<open>The well-formed UTF-8 sequences, which are those \<open>decode("utf8")\<close> accepts.\<close>

definition cont :: "nat \<Rightarrow> bool" where
  "cont b \<longleftrightarrow> 128 \<le> b \<and> b \<le> 191"

fun valid_utf8 :: "bytes \<Rightarrow> bool" where
  "valid_utf8 [] = True"
| "valid_utf8 (a # r) =
     (if a < 128 then valid_utf8 r
      else if 194 \<le> a \<and> a \<le> 223 then
        (case r of b # r' \<Rightarrow> cont b \<and> valid_utf8 r' | _ \<Rightarrow> False)
      else if 224 \<le> a \<and> a \<le> 239 then
        (case r of b # c # r' \<Rightarrow> cont b \<and> cont c \<and> (a = 224 \<longrightarrow> 160 \<le> b) \<and> (a = 237 \<longrightarrow> b \<le> 159) \<and>
            valid_utf8 r' | _ \<Rightarrow> False)
      else if 240 \<le> a \<and> a \<le> 244 then
        (case r of b # c # d # r' \<Rightarrow> cont b \<and> cont c \<and> cont d \<and> (a = 240 \<longrightarrow> 144 \<le> b) \<and>
            (a = 244 \<longrightarrow> b \<le> 143) \<and> valid_utf8 r' | _ \<Rightarrow> False)
      else False)"

definition bytes32_to_str :: "bytes \<Rightarrow> exc + string" where
  "bytes32_to_str b =
     (let stripped = rev (dropWhile (\<lambda>x. x = 0) (rev b))
      in if valid_utf8 stripped then Inr (map char_of stripped) else Inl UnicodeDecodeError)"

definition lower_char :: "char \<Rightarrow> char" where
  "lower_char c = (let n = of_char c :: nat in if 65 \<le> n \<and> n \<le> 90 then char_of (n + 32) else c)"

definition str_lower :: "string \<Rightarrow> string" where
  "str_lower s = map lower_char s"

text \<open>
  What the attribute listener \<open>set_\<close> of src/models/model_utils.py makes of a string stored in
  a text column: NUL characters are dropped.
\<close>

definition column_text :: "string \<Rightarrow> string" where
  "column_text s = filter (\<lambda>c. c \<noteq> char_of (0::nat)) s"

section \<open>Properties\<close>

text \<open>
  Round trip of multihashes: decoding the encoding of a non-empty digest under a known
  hash function gives back the function, the length and the digest.
\<close>

theorem decode_encode:
  assumes "code \<in> set codes" and "digest \<noteq> []"
  shows "exc_bind (encode digest code) decode =
    Inr \<lparr>mh_code = code, mh_length = length digest, mh_digest = digest\<rparr>"
proof -
  let ?buf = "to_varint code @ to_varint (length digest) @ digest"
  have first: "from_varint ?buf 0 = Inr (code, length (to_varint code))"
    using from_varint_to_varint [of "[]" code] by simp
  have second: "from_varint ?buf (length (to_varint code)) =
      Inr (length digest, length (to_varint code) + length (to_varint (length digest)))"
    by (rule from_varint_to_varint)
  have pos: "1 \<le> length (to_varint code)" "1 \<le> length (to_varint (length digest))" "1 \<le> length digest"
    using assms(2) by (simp_all add: Suc_le_eq)
  then have "\<not> length ?buf < 3" by simp
  then show ?thesis
    using assms pos by (simp add: encode_def decode_def first second is_valid_code_def)
qed

theorem decode_encode_witness:
  "exc_bind (encode [1, 2, 3] 18) decode = Inr \<lparr>mh_code = 18, mh_length = 3, mh_digest = [1, 2, 3]\<rparr>"
  using decode_encode [of 18 "[1, 2, 3]"] by simp

end
