(* ===== verification/Skipped_Transactions.thy ===== *)
theory Skipped_Transactions
  imports Tables
begin

text \<open>
  How the indexer records failing and skipped transactions:
  src/queries/get_skipped_transactions.py (the queries and the document under the Redis key
  \<open>indexing:error\<close>), src/queries/skipped_transactions.py (the rows of skipped transactions)
  and src/queries/confirm_indexing_transaction_error.py (the vote of the other nodes).
\<close>

section \<open>Queries\<close>

definition get_skipped_transactions ::
  "int option \<Rightarrow> hash option \<Rightarrow> hash option \<Rightarrow> db \<Rightarrow> skipped_row list" where
  "get_skipped_transactions blocknumber blockhash txhash d =
     (let q = skipped_transactions d;
          q = (case blocknumber of None \<Rightarrow> q | Some n \<Rightarrow> filter (\<lambda>r. sk_blocknumber r = n) q);
          q = (case blockhash of None \<Rightarrow> q | Some h \<Rightarrow> filter (\<lambda>r. sk_blockhash r = h) q);
          q = (case txhash of None \<Rightarrow> q | Some x \<Rightarrow> filter (\<lambda>r. sk_txhash r = Some x) q)
      in q)"

datatype tx_status = FAILED | PASSED | NOT_FOUND

definition get_transaction_status ::
  "indexing_error option \<Rightarrow> db \<Rightarrow> int \<Rightarrow> hash \<Rightarrow> hash \<Rightarrow> exc + tx_status" where
  "get_transaction_status err d blocknumber blockhash txhash =
     (if (case err of None \<Rightarrow> False
          | Some e \<Rightarrow> er_blocknumber e = Some blocknumber \<and> er_blockhash e = blockhash \<and>
                      er_txhash e = Some txhash)
      then Inr FAILED
      else
        (let skipped = filter (\<lambda>r. sk_blocknumber r = blocknumber \<and> sk_blockhash r = blockhash \<and>
               sk_txhash r = Some txhash) (skipped_transactions d)
         in if length skipped > 1
            then Inl (PyException ''Expected no more than 1 row for skipped indexing transaction'')
            else if length skipped = 1 then Inr FAILED
            else
              (let found = filter (\<lambda>b. b_number b = Some blocknumber \<and> b_blockhash b = blockhash) (blocks d)
               in if length found > 1
                  then Inl (PyException ''Expected no more than 1 row for block'')
                  else if length found = 1 then Inr PASSED
                  else Inr NOT_FOUND)))"

section \<open>The indexing error in Redis\<close>

definition get_indexing_error :: "redis \<Rightarrow> indexing_error option" where
  "get_indexing_error r = r_indexing_error r"

definition set_indexing_error ::
  "int option \<Rightarrow> hash \<Rightarrow> hash option \<Rightarrow> string \<Rightarrow> bool \<Rightarrow> redis \<Rightarrow> redis" where
  "set_indexing_error blocknumber blockhash txhash message has_consensus r =
     r\<lparr>r_indexing_error := Some
        (case get_indexing_error r of
           None \<Rightarrow> \<lparr>er_count = 1, er_blocknumber = blocknumber, er_blockhash = blockhash,
                    er_txhash = txhash, er_message = message, er_has_consensus = has_consensus\<rparr>
         | Some e \<Rightarrow>
             if er_blocknumber e \<noteq> blocknumber \<or> er_blockhash e \<noteq> blockhash \<or> er_txhash e \<noteq> txhash
             then \<lparr>er_count = 1, er_blocknumber = blocknumber, er_blockhash = blockhash,
                   er_txhash = txhash, er_message = message, er_has_consensus = has_consensus\<rparr>
             else e\<lparr>er_count := er_count e + 1, er_has_consensus := has_consensus\<rparr>)\<rparr>"

definition clear_indexing_error :: "redis \<Rightarrow> redis" where
  "clear_indexing_error r = r\<lparr>r_indexing_error := None\<rparr>"

section \<open>Rows of skipped transactions\<close>

definition MAX_NETWORK_LEVEL_SKIPPED_TX :: nat where
  "MAX_NETWORK_LEVEL_SKIPPED_TX = 100"

definition add_node_level_skipped_transaction :: "int \<Rightarrow> hash \<Rightarrow> hash \<Rightarrow> db \<Rightarrow> db" where
  "add_node_level_skipped_transaction blocknumber blockhash txhash d =
     d\<lparr>skipped_transactions := skipped_transactions d @
        [\<lparr>sk_blocknumber = blocknumber, sk_blockhash = blockhash, sk_txhash = Some txhash,
          sk_level = LevelNode\<rparr>]\<rparr>"

definition num_network_skipped :: "db \<Rightarrow> nat" where
  "num_network_skipped d = sql_count (\<lambda>r. sk_level r = LevelNetwork) (skipped_transactions d)"

text \<open>
  The bare \<open>raise\<close> at the limit has no exception to raise again, which is itself a
  \<open>RuntimeError\<close>.
\<close>

definition add_network_level_skipped_transaction ::
  "int \<Rightarrow> hash \<Rightarrow> hash option \<Rightarrow> db \<Rightarrow> exc + db" where
  "add_network_level_skipped_transaction blocknumber blockhash txhash d =
     (if num_network_skipped d \<ge> MAX_NETWORK_LEVEL_SKIPPED_TX
      then Inl (RuntimeError ''No active exception to reraise'')
      else Inr (d\<lparr>skipped_transactions := skipped_transactions d @
        [\<lparr>sk_blocknumber = blocknumber, sk_blockhash = blockhash, sk_txhash = txhash,
          sk_level = LevelNetwork\<rparr>]\<rparr>))"

section \<open>The vote of the other nodes\<close>

text \<open>
  \<open>responses\<close>: for every other node what its status endpoint answered, the HTTP status code
  and the \<open>data\<close> field, or the exception the request raised.
\<close>

definition INDEXING_FAILURE_CONSENSUS_PERCENT :: nat where
  "INDEXING_FAILURE_CONSENSUS_PERCENT = 1"

definition reports_failure :: "exc + (int \<times> tx_status option) \<Rightarrow> bool" where
  "reports_failure resp =
     (case resp of Inl e \<Rightarrow> False | Inr (code, data) \<Rightarrow> code = 200 \<and> data = Some FAILED)"

definition confirm_indexing_transaction_error ::
  "(exc + (int \<times> tx_status option)) list \<Rightarrow> int option \<Rightarrow> hash \<Rightarrow> hash option \<Rightarrow> string \<Rightarrow>
    redis \<Rightarrow> redis" where
  "confirm_indexing_transaction_error responses blocknumber blockhash txhash message r =
     (let num_other_nodes = length responses;
          num_transaction_failures = fold (\<lambda>resp n. if reports_failure resp then n + 1 else n) responses 0
      in if num_other_nodes \<ge> 1 \<and>
            num_transaction_failures \<ge> num_other_nodes * INDEXING_FAILURE_CONSENSUS_PERCENT
         then set_indexing_error blocknumber blockhash txhash message True r
         else r)"

section \<open>Lemmas\<close>

lemma set_indexing_error_fields:
  obtains e where "r_indexing_error (set_indexing_error bn bh tx m c r) = Some e"
    and "er_blocknumber e = bn" and "er_blockhash e = bh" and "er_txhash e = tx"
    and "er_has_consensus e = c"
  by (cases "r_indexing_error r") (auto simp: set_indexing_error_def get_indexing_error_def)

lemma error_recorded:
  "\<exists>e. r_indexing_error (confirm_indexing_transaction_error responses bn bh tx m
      (set_indexing_error bn bh tx m False r)) = Some e \<and>
    er_txhash e = tx \<and> er_blocknumber e = bn \<and> er_blockhash e = bh"
proof -
  have set: "\<exists>e. r_indexing_error (set_indexing_error bn bh tx m c q) = Some e \<and>
      er_txhash e = tx \<and> er_blocknumber e = bn \<and> er_blockhash e = bh" for c q
    by (rule set_indexing_error_fields [of bn bh tx m c q]) auto
  show ?thesis
    unfolding confirm_indexing_transaction_error_def Let_def by (simp only: set split: if_split) (simp add: set)
qed

lemma set_indexing_error_frame [simp]:
  "r_event_queue (set_indexing_error bn bh tx m c r) = r_event_queue r"
  "r_most_recent_block (set_indexing_error bn bh tx m c r) = r_most_recent_block r"
  "r_cached_keys (set_indexing_error bn bh tx m c r) = r_cached_keys r"
  by (simp_all add: set_indexing_error_def)

lemma confirm_frame [simp]:
  "r_event_queue (confirm_indexing_transaction_error rs bn bh tx m r) = r_event_queue r"
  "r_most_recent_block (confirm_indexing_transaction_error rs bn bh tx m r) = r_most_recent_block r"
  by (simp_all add: confirm_indexing_transaction_error_def Let_def)

lemma count_failures: "fold (\<lambda>resp n. if P resp then n + 1 else n) xs k = k + length (filter P xs)"
  by (induction xs arbitrary: k) auto

lemma length_filter_all: "length xs \<le> length (filter P xs) \<longleftrightarrow> (\<forall>x\<in>set xs. P x)"
  by (metis filter_True length_filter_less linorder_not_less order_refl)

lemma num_network_skipped_node [simp]:
  "num_network_skipped (add_node_level_skipped_transaction n h x d) = num_network_skipped d"
  by (simp add: num_network_skipped_def add_node_level_skipped_transaction_def)

section \<open>Properties\<close>

text \<open>
  The vote: after recording an error without consensus and asking the other nodes, the
  recorded error has consensus exactly when there is another node and every other node
  answered with status 200 and FAILED; the block and transaction recorded are the failing
  ones.
\<close>

theorem error_consensus_iff_unanimous:
  "\<exists>e. r_indexing_error (confirm_indexing_transaction_error responses bn bh tx m
          (set_indexing_error bn bh tx m False r)) = Some e \<and>
       er_blocknumber e = bn \<and> er_blockhash e = bh \<and> er_txhash e = tx \<and>
       er_has_consensus e = (responses \<noteq> [] \<and> list_all reports_failure responses)"
proof -
  have vote: "length responses \<ge> 1 \<and>
      fold (\<lambda>resp n. if reports_failure resp then n + 1 else n) responses 0
        \<ge> length responses * INDEXING_FAILURE_CONSENSUS_PERCENT
    \<longleftrightarrow> responses \<noteq> [] \<and> list_all reports_failure responses"
    by (simp add: count_failures length_filter_all INDEXING_FAILURE_CONSENSUS_PERCENT_def
        list_all_iff Suc_le_eq)
  obtain e where e: "r_indexing_error (set_indexing_error bn bh tx m False r) = Some e"
    "er_blocknumber e = bn" "er_blockhash e = bh" "er_txhash e = tx" "\<not> er_has_consensus e"
    by (rule set_indexing_error_fields [of bn bh tx m False r]) auto
  show ?thesis
  proof (cases "responses \<noteq> [] \<and> list_all reports_failure responses")
    case True
    with vote show ?thesis
      by (auto simp: confirm_indexing_transaction_error_def Let_def
          intro: set_indexing_error_fields [of bn bh tx m True "set_indexing_error bn bh tx m False r"])
  next
    case False
    with vote have "confirm_indexing_transaction_error responses bn bh tx m
        (set_indexing_error bn bh tx m False r) = set_indexing_error bn bh tx m False r"
      unfolding confirm_indexing_transaction_error_def Let_def by (simp only: if_False)
    with e False show ?thesis by auto
  qed
qed

text \<open>
  The number of network-level skipped transactions stays at most
  \<open>MAX_NETWORK_LEVEL_SKIPPED_TX\<close>: an insertion beyond the limit raises, and one below it
  adds exactly one row and keeps the others.
\<close>

theorem network_skipped_bounded:
  assumes "num_network_skipped d \<le> MAX_NETWORK_LEVEL_SKIPPED_TX"
  shows "case add_network_level_skipped_transaction n h x d of
      Inl e \<Rightarrow> num_network_skipped d = MAX_NETWORK_LEVEL_SKIPPED_TX
    | Inr d' \<Rightarrow> num_network_skipped d' = num_network_skipped d + 1 \<and>
        num_network_skipped d' \<le> MAX_NETWORK_LEVEL_SKIPPED_TX \<and>
        (\<exists>r. skipped_transactions d' = skipped_transactions d @ [r])"
  using assms by (simp add: add_network_level_skipped_transaction_def num_network_skipped_def)

theorem network_skipped_bounded_witness:
  "\<exists>d'. add_network_level_skipped_transaction 7 ''0xb'' (Some ''0x1'') empty_db = Inr d' \<and>
     num_network_skipped d' = 1"
  using network_skipped_bounded [of empty_db 7 "''0xb''" "Some ''0x1''"]
  by (auto simp: num_network_skipped_def empty_db_def sql_count_def MAX_NETWORK_LEVEL_SKIPPED_TX_def
      split: sum.splits)

end
