(* ===== verification/Threads.thy ===== *)
theory Threads
  imports Prelude
begin

text \<open>
  Functions that run in the threads of a \<open>ThreadPoolExecutor\<close> and share a state. A thread is
  a tree of atomic actions: between two of them any other running thread may act. \<open>alone\<close> is
  the run of a thread nobody interferes with, \<open>run_pool\<close> the run of the threads of a pool
  under a schedule, and \<open>rg\<close> the rely and guarantee conditions of a thread, from which the
  lemma \<open>run_pool_sound\<close> derives what holds after every schedule.
\<close>

section \<open>Threads\<close>

text \<open>\<open>Act f k\<close> changes the state by \<open>f\<close> and goes on as \<open>k\<close> says, which sees the state before.\<close>

datatype ('s, 'a) proc = Done "exc + 'a" | Act "'s \<Rightarrow> 's" "'s \<Rightarrow> ('s, 'a) proc"

definition pr_return :: "'a \<Rightarrow> ('s, 'a) proc" where
  "pr_return x = Done (Inr x)"

definition pr_raise :: "exc \<Rightarrow> ('s, 'a) proc" where
  "pr_raise e = Done (Inl e)"

definition pr_lift :: "exc + 'a \<Rightarrow> ('s, 'a) proc" where
  "pr_lift r = Done r"

text \<open>One atomic action: a statement sent to the database, an access to a shared object.\<close>

definition pr_atom :: "('s, 'a) py \<Rightarrow> ('s, 'a) proc" where
  "pr_atom m = Act (\<lambda>s. snd (m s)) (\<lambda>s. Done (fst (m s)))"

abbreviation pr_gets :: "('s \<Rightarrow> 'a) \<Rightarrow> ('s, 'a) proc" where
  "pr_gets f \<equiv> pr_atom (py_gets f)"

abbreviation pr_modify :: "('s \<Rightarrow> 's) \<Rightarrow> ('s, unit) proc" where
  "pr_modify f \<equiv> pr_atom (py_modify f)"

primrec pr_bind :: "('s, 'a) proc \<Rightarrow> ('a \<Rightarrow> ('s, 'b) proc) \<Rightarrow> ('s, 'b) proc" where
  "pr_bind (Done r) g = (case r of Inl e \<Rightarrow> Done (Inl e) | Inr x \<Rightarrow> g x)"
| "pr_bind (Act f k) g = Act f (\<lambda>s. pr_bind (k s) g)"

definition pr_seq :: "('s, unit) proc \<Rightarrow> ('s, 'b) proc \<Rightarrow> ('s, 'b) proc" where
  "pr_seq p q = pr_bind p (\<lambda>_. q)"

primrec pr_try :: "('s, 'a) proc \<Rightarrow> (exc \<Rightarrow> ('s, 'a) proc) \<Rightarrow> ('s, 'a) proc" where
  "pr_try (Done r) h = (case r of Inl e \<Rightarrow> h e | Inr x \<Rightarrow> Done (Inr x))"
| "pr_try (Act f k) h = Act f (\<lambda>s. pr_try (k s) h)"

primrec pr_for :: "('x \<Rightarrow> 'acc \<Rightarrow> ('s, 'acc) proc) \<Rightarrow> 'x list \<Rightarrow> 'acc \<Rightarrow> ('s, 'acc) proc" where
  "pr_for body [] acc = pr_return acc"
| "pr_for body (x # xs) acc = pr_bind (body x acc) (pr_for body xs)"

text \<open>A thread on one component of a larger state.\<close>

primrec pr_fst :: "('s, 'a) proc \<Rightarrow> ('s \<times> 't, 'a) proc" where
  "pr_fst (Done r) = Done r"
| "pr_fst (Act f k) = Act (\<lambda>s. (f (fst s), snd s)) (\<lambda>s. pr_fst (k (fst s)))"

section \<open>A thread on its own\<close>

primrec alone :: "('s, 'a) proc \<Rightarrow> ('s, 'a) py" where
  "alone (Done r) s = (r, s)"
| "alone (Act f k) s = alone (k s) (f s)"

lemma alone_bind [simp]: "alone (pr_bind p g) = py_bind (alone p) (\<lambda>x. alone (g x))"
proof
  show "alone (pr_bind p g) s = py_bind (alone p) (\<lambda>x. alone (g x)) s" for s
    by (induction p arbitrary: s) (auto simp: py_bind_def split: sum.split)
qed

lemma alone_try [simp]: "alone (pr_try p h) = py_try (alone p) (\<lambda>e. alone (h e))"
proof
  show "alone (pr_try p h) s = py_try (alone p) (\<lambda>e. alone (h e)) s" for s
    by (induction p arbitrary: s) (auto simp: py_try_def split: sum.split)
qed

lemma alone_basic [simp]:
  "alone (pr_return x) = py_return x"
  "alone (pr_raise e) = py_raise e"
  "alone (pr_lift r) = py_lift r"
  "alone (pr_atom m) = m"
  "alone (pr_seq q p) = py_seq (alone q) (alone p)"
  by (auto simp: fun_eq_iff pr_return_def pr_raise_def pr_lift_def pr_atom_def pr_seq_def py_defs)

lemma alone_for [simp]: "alone (pr_for body xs acc) = py_for (\<lambda>x acc. alone (body x acc)) xs acc"
  by (induction xs arbitrary: acc) simp_all

section \<open>The pool\<close>

text \<open>
  \<open>ThreadPoolExecutor(max_workers=5)\<close> takes the submitted functions in order, so the threads
  that are running are the first five that have not finished. \<open>sc_picks\<close> says which of them
  acts next, at every action; when it is used up, the rest run one after the other. Every
  interleaving is that of some schedule. \<open>sc_failure\<close> picks the failure the main thread sees
  first, since \<open>as_completed\<close> returns the futures in an order that is not specified.
\<close>

record schedule =
  sc_picks :: "nat list"
  sc_failure :: nat

definition max_workers :: nat where
  "max_workers = 5"

fun unfinished :: "'k \<times> ('s, 'a) proc \<Rightarrow> bool" where
  "unfinished (k, Done r) = False"
| "unfinished (k, Act f g) = True"

definition running :: "('k \<times> ('s, 'a) proc) list \<Rightarrow> ('k \<times> ('s, 'a) proc) list" where
  "running ps = take max_workers (filter unfinished ps)"

fun pool :: "nat list \<Rightarrow> ('k \<times> ('s, 'a) proc) list \<Rightarrow> 's \<Rightarrow> ('k \<times> ('s, 'a) proc) list \<times> 's" where
  "pool [] ps s = (ps, s)"
| "pool (i # is) ps s =
     (let js = running ps in
      if js = [] then (ps, s)
      else case js ! (i mod length js) of
        (k, Done r) \<Rightarrow> (ps, s)
      | (k, Act f g) \<Rightarrow> pool is (AList.update k (g s) ps) (f s))"

fun finish :: "('k \<times> ('s, 'a) proc) list \<Rightarrow> 's \<Rightarrow> ('k \<times> (exc + 'a)) list \<times> 's" where
  "finish [] s = ([], s)"
| "finish ((k, p) # ps) s =
     (case alone p s of (r, t) \<Rightarrow> (case finish ps t of (rs, u) \<Rightarrow> ((k, r) # rs, u)))"

definition run_pool ::
  "schedule \<Rightarrow> ('k \<times> ('s, 'a) proc) list \<Rightarrow> 's \<Rightarrow> ('k \<times> (exc + 'a)) list \<times> 's" where
  "run_pool sched ps s = (case pool (sc_picks sched) ps s of (qs, t) \<Rightarrow> finish qs t)"

definition failures :: "('k \<times> (exc + 'a)) list \<Rightarrow> exc list" where
  "failures rs = List.map_filter (\<lambda>(k, r). case r of Inl e \<Rightarrow> Some e | Inr x \<Rightarrow> None) rs"

text \<open>The first failing \<open>future.result()\<close> of the loop over \<open>as_completed\<close>.\<close>

definition first_failure :: "schedule \<Rightarrow> ('k \<times> (exc + 'a)) list \<Rightarrow> exc option" where
  "first_failure sched rs =
     (let es = failures rs in if es = [] then None else Some (es ! (sc_failure sched mod length es)))"

section \<open>Rely and guarantee\<close>

text \<open>
  \<open>rg R G p Q s\<close>: when the others only make changes that satisfy \<open>R\<close>, every change that \<open>p\<close>
  makes from \<open>s\<close> on satisfies \<open>G\<close>, and it ends with a result and a state that satisfy \<open>Q\<close>.
\<close>

primrec rg ::
  "('s \<Rightarrow> 's \<Rightarrow> bool) \<Rightarrow> ('s \<Rightarrow> 's \<Rightarrow> bool) \<Rightarrow> ('s, 'a) proc \<Rightarrow> (exc + 'a \<Rightarrow> 's \<Rightarrow> bool) \<Rightarrow> 's \<Rightarrow> bool" where
  "rg R G (Done r) Q s = (\<forall>t. R s t \<longrightarrow> Q r t)"
| "rg R G (Act f k) Q s = (\<forall>t. R s t \<longrightarrow> G t (f t) \<and> rg R G (k t) Q (f t))"

definition rely :: "('s \<Rightarrow> 's \<Rightarrow> bool) \<Rightarrow> bool" where
  "rely R \<longleftrightarrow> reflp R \<and> transp R"

lemma rely_refl: "rely R \<Longrightarrow> R s s"
  by (simp add: rely_def reflpD)

lemma rely_trans: "rely R \<Longrightarrow> R s t \<Longrightarrow> R t u \<Longrightarrow> R s u"
  unfolding rely_def by (blast dest: transpD)

lemma rg_stable:
  assumes "rely R" and "rg R G p Q s" and "R s t"
  shows "rg R G p Q t"
  using assms by (cases p) (auto intro: rely_trans)

lemma rg_mono:
  assumes "rg R G p Q s" and "\<And>r t. Q r t \<Longrightarrow> Q' r t"
  shows "rg R G p Q' s"
  using assms(1) by (induction p arbitrary: s) (auto intro: assms(2))

lemma rg_bind:
  assumes "rely R"
  shows "rg R G (pr_bind p g) Q s \<longleftrightarrow>
    rg R G p (\<lambda>r t. case r of Inl e \<Rightarrow> Q (Inl e) t | Inr x \<Rightarrow> rg R G (g x) Q t) s"
proof (induction p arbitrary: s)
  case (Done r)
  show ?case
    using assms by (cases r) (auto intro: rg_stable rely_refl)
next
  case (Act f k)
  then show ?case by simp
qed

lemma rg_try:
  assumes "rely R"
  shows "rg R G (pr_try p h) Q s \<longleftrightarrow>
    rg R G p (\<lambda>r t. case r of Inl e \<Rightarrow> rg R G (h e) Q t | Inr x \<Rightarrow> Q (Inr x) t) s"
proof (induction p arbitrary: s)
  case (Done r)
  show ?case
    using assms by (cases r) (auto intro: rg_stable rely_refl)
next
  case (Act f k)
  then show ?case by simp
qed

subsection \<open>Rules\<close>

lemma rg_return [simp]: "rg R G (pr_return x) Q s \<longleftrightarrow> (\<forall>t. R s t \<longrightarrow> Q (Inr x) t)"
  by (simp add: pr_return_def)

lemma rg_raise [simp]: "rg R G (pr_raise e) Q s \<longleftrightarrow> (\<forall>t. R s t \<longrightarrow> Q (Inl e) t)"
  by (simp add: pr_raise_def)

lemma rg_lift [simp]: "rg R G (pr_lift r) Q s \<longleftrightarrow> (\<forall>t. R s t \<longrightarrow> Q r t)"
  by (simp add: pr_lift_def)

lemma rg_gets:
  assumes "rely R" and "\<And>t. R s t \<Longrightarrow> G t t" and "\<And>t u. R s t \<Longrightarrow> R t u \<Longrightarrow> Q (Inr (f t)) u"
  shows "rg R G (pr_gets f) Q s"
  using assms by (simp add: pr_atom_def py_gets_def)

lemma rg_modify:
  assumes "\<And>t. R s t \<Longrightarrow> G t (f t)" and "\<And>t u. R s t \<Longrightarrow> R (f t) u \<Longrightarrow> Q (Inr ()) u"
  shows "rg R G (pr_modify f) Q s"
  using assms by (simp add: pr_atom_def py_modify_def)

text \<open>Threads whose every change satisfies \<open>G\<close>, whatever the state and the others.\<close>

primrec steps :: "('s \<Rightarrow> 's \<Rightarrow> bool) \<Rightarrow> ('s, 'a) proc \<Rightarrow> bool" where
  "steps G (Done r) = True"
| "steps G (Act f k) = (\<forall>s. G s (f s) \<and> steps G (k s))"

text \<open>Threads whose results satisfy \<open>P\<close>, likewise.\<close>

primrec yields :: "('a \<Rightarrow> bool) \<Rightarrow> ('s, 'a) proc \<Rightarrow> bool" where
  "yields P (Done r) = (\<forall>x. r = Inr x \<longrightarrow> P x)"
| "yields P (Act f k) = (\<forall>s. yields P (k s))"

lemma steps_rg:
  assumes "steps G p" and "yields P p" and "\<And>r t. (\<And>x. r = Inr x \<Longrightarrow> P x) \<Longrightarrow> Q r t"
  shows "rg R G p Q s"
  using assms(1,2) by (induction p arbitrary: s) (auto intro: assms(3))

lemma yields_True [simp]: "yields (\<lambda>_. True) p"
  by (induction p) auto

lemma rg_yields:
  assumes "rg R G p (\<lambda>r t. True) s" and "yields P p" and "\<And>r t. (\<And>x. r = Inr x \<Longrightarrow> P x) \<Longrightarrow> Q r t"
  shows "rg R G p Q s"
  using assms(1,2) by (induction p arbitrary: s) (auto intro: assms(3))

named_theorems steps_intros \<open>rules for all the changes and for the results of a thread\<close>

lemma steps_basic [steps_intros]:
  "steps G (pr_return x)" "steps G (pr_raise e)" "steps G (pr_lift r)"
  by (simp_all add: pr_return_def pr_raise_def pr_lift_def)

lemma steps_gets [steps_intros]: "(\<And>s. G s s) \<Longrightarrow> steps G (pr_gets f)"
  by (simp add: pr_atom_def py_gets_def)

lemma steps_modify [steps_intros]: "(\<And>s. G s (f s)) \<Longrightarrow> steps G (pr_modify f)"
  by (simp add: pr_atom_def py_modify_def)

lemma steps_bind [steps_intros]: "steps G p \<Longrightarrow> (\<And>x. steps G (g x)) \<Longrightarrow> steps G (pr_bind p g)"
  by (induction p) (auto split: sum.split)

lemma steps_seq [steps_intros]: "steps G p \<Longrightarrow> steps G q \<Longrightarrow> steps G (pr_seq p q)"
  by (simp add: pr_seq_def steps_bind)

lemma steps_try [steps_intros]: "steps G p \<Longrightarrow> (\<And>e. steps G (h e)) \<Longrightarrow> steps G (pr_try p h)"
  by (induction p) (auto split: sum.split)

lemma steps_for [steps_intros]: "(\<And>x acc. steps G (body x acc)) \<Longrightarrow> steps G (pr_for body xs acc)"
  by (induction xs arbitrary: acc) (auto intro!: steps_intros)

lemma steps_if [steps_intros]: "(c \<Longrightarrow> steps G p) \<Longrightarrow> (\<not> c \<Longrightarrow> steps G q) \<Longrightarrow> steps G (if c then p else q)"
  by simp

lemma steps_option [steps_intros]:
  "(x = None \<Longrightarrow> steps G p) \<Longrightarrow> (\<And>y. x = Some y \<Longrightarrow> steps G (f y)) \<Longrightarrow>
    steps G (case x of None \<Rightarrow> p | Some y \<Rightarrow> f y)"
  by (simp split: option.split)

lemma steps_prod [steps_intros]:
  "(\<And>y z. x = (y, z) \<Longrightarrow> steps G (f y z)) \<Longrightarrow> steps G (case x of (y, z) \<Rightarrow> f y z)"
  by (simp split: prod.split)

lemma yields_mono: "yields P p \<Longrightarrow> (\<And>x. P x \<Longrightarrow> Q x) \<Longrightarrow> yields Q p"
  by (induction p) auto

lemma yields_lift: "(\<And>x. r = Inr x \<Longrightarrow> P x) \<Longrightarrow> yields P (pr_lift r)"
  by (simp add: pr_lift_def)

lemma yields_bind: "yields A p \<Longrightarrow> (\<And>x. A x \<Longrightarrow> yields P (g x)) \<Longrightarrow> yields P (pr_bind p g)"
  by (induction p) (auto split: sum.split)

lemma yields_seq: "yields P q \<Longrightarrow> yields P (pr_seq p q)"
  unfolding pr_seq_def by (rule yields_bind [where A = "\<lambda>_. True"]) simp_all

lemma yields_for:
  assumes "\<And>x acc. P acc \<Longrightarrow> yields P (body x acc)" and "P acc"
  shows "yields P (pr_for body xs acc)"
  using assms(2) by (induction xs arbitrary: acc) (auto simp: pr_return_def intro: yields_bind assms(1))

lemma steps_mono: "steps G p \<Longrightarrow> (\<And>s t. G s t \<Longrightarrow> G' s t) \<Longrightarrow> steps G' p"
  by (induction p) auto

text \<open>An assertion that neither the changes of the thread nor those of the others break.\<close>

lemma steps_rg_stable:
  assumes "steps H p" and "yields P p" and "A s"
    and "\<And>s t. H s t \<Longrightarrow> G s t" and "\<And>s t. H s t \<Longrightarrow> A s \<Longrightarrow> A t" and "\<And>s t. R s t \<Longrightarrow> A s \<Longrightarrow> A t"
  shows "rg R G p (\<lambda>r t. (\<forall>x. r = Inr x \<longrightarrow> P x) \<and> A t) s"
  using assms(1-3)
proof (induction p arbitrary: s)
  case (Done r)
  then show ?case by (auto intro: assms(6))
next
  case (Act f k)
  have "rg R G (k t) (\<lambda>r t. (\<forall>x. r = Inr x \<longrightarrow> P x) \<and> A t) (f t)" if "R s t" for t
  proof (rule Act.IH)
    show "A (f t)" using Act.prems assms(6) [OF that] by (auto intro: assms(5))
  qed (use Act.prems in auto)
  with Act.prems(1) show ?case by (auto intro: assms(4))
qed

lemma alone_steps:
  assumes "steps (\<lambda>s t. I s \<longrightarrow> I t) p"
  shows "py_keeps I (alone p)"
proof (rule py_keepsI)
  show "I s \<Longrightarrow> I (snd (alone p s))" for s
    using assms by (induction p arbitrary: s) auto
qed

subsection \<open>Guarantees alone\<close>

text \<open>\<open>guarded R G p\<close>: under the rely \<open>R\<close> every change of \<open>p\<close>, from any state, satisfies \<open>G\<close>.\<close>

definition guarded :: "('s \<Rightarrow> 's \<Rightarrow> bool) \<Rightarrow> ('s \<Rightarrow> 's \<Rightarrow> bool) \<Rightarrow> ('s, 'a) proc \<Rightarrow> bool" where
  "guarded R G p \<longleftrightarrow> (\<forall>s. rg R G p (\<lambda>r t. True) s)"

named_theorems guarded_intros \<open>rules for the guarantees of a thread\<close>

lemma guardedD: "guarded R G p \<Longrightarrow> (\<And>r t. Q r t) \<Longrightarrow> rg R G p Q s"
  unfolding guarded_def by (blast intro: rg_mono)

lemma guarded_basic [guarded_intros]:
  "guarded R G (pr_return x)" "guarded R G (pr_raise e)" "guarded R G (pr_lift r)"
  by (simp_all add: guarded_def)

lemma guarded_modify [guarded_intros]: "(\<And>s. G s (f s)) \<Longrightarrow> guarded R G (pr_modify f)"
  by (auto simp: guarded_def intro: rg_modify)

lemma guarded_bind:
  "rely R \<Longrightarrow> guarded R G p \<Longrightarrow> (\<And>x. guarded R G (g x)) \<Longrightarrow> guarded R G (pr_bind p g)"
  unfolding guarded_def by (auto simp: rg_bind split: sum.split elim: rg_mono)

lemma guarded_seq: "rely R \<Longrightarrow> guarded R G p \<Longrightarrow> guarded R G q \<Longrightarrow> guarded R G (pr_seq p q)"
  unfolding pr_seq_def by (rule guarded_bind)

lemma guarded_for:
  assumes "rely R" and "\<And>x acc. x \<in> set xs \<Longrightarrow> guarded R G (body x acc)"
  shows "guarded R G (pr_for body xs acc)"
  using assms(2) by (induction xs arbitrary: acc) (auto intro: guarded_basic guarded_bind [OF assms(1)])

lemma guarded_try: "rely R \<Longrightarrow> guarded R G p \<Longrightarrow> (\<And>e. guarded R G (h e)) \<Longrightarrow> guarded R G (pr_try p h)"
  unfolding guarded_def by (auto simp: rg_try split: sum.split elim: rg_mono)

lemma guarded_gets: "rely R \<Longrightarrow> (\<And>s. G s s) \<Longrightarrow> guarded R G (pr_gets f)"
  by (auto simp: guarded_def intro: rg_gets)

lemma guarded_lift_bind [guarded_intros]:
  "(\<And>x. r = Inr x \<Longrightarrow> guarded R G (g x)) \<Longrightarrow> guarded R G (pr_bind (pr_lift r) g)"
  by (cases r) (auto simp: pr_lift_def guarded_def)

lemma guarded_if [guarded_intros]:
  "(c \<Longrightarrow> guarded R G p) \<Longrightarrow> (\<not> c \<Longrightarrow> guarded R G q) \<Longrightarrow> guarded R G (if c then p else q)"
  by simp

lemma guarded_option [guarded_intros]:
  "(x = None \<Longrightarrow> guarded R G p) \<Longrightarrow> (\<And>y. x = Some y \<Longrightarrow> guarded R G (f y)) \<Longrightarrow>
    guarded R G (case x of None \<Rightarrow> p | Some y \<Rightarrow> f y)"
  by (simp split: option.split)

lemma steps_guarded: "steps G p \<Longrightarrow> guarded R G p"
  unfolding guarded_def by (auto intro: steps_rg [where P = "\<lambda>_. True"])

section \<open>What holds after every schedule\<close>

lemma rg_alone:
  assumes "rely R" and "rg R G p Q s"
  shows "G\<^sup>*\<^sup>* s (snd (alone p s)) \<and> (\<forall>t. R (snd (alone p s)) t \<longrightarrow> Q (fst (alone p s)) t)"
  using assms(2)
proof (induction p arbitrary: s)
  case (Done r)
  then show ?case by simp
next
  case (Act f k)
  then have "G s (f s)" and "rg R G (k s) Q (f s)"
    using rely_refl [OF assms(1)] by auto
  with Act.IH [OF rangeI this(2)] show ?case
    by (auto intro: converse_rtranclp_into_rtranclp)
qed

text \<open>
  The threads \<open>k\<close> of a pool with their rely and guarantee conditions: what one guarantees
  the others rely on.
\<close>

locale pool_conditions =
  fixes R :: "'k \<Rightarrow> 's \<Rightarrow> 's \<Rightarrow> bool" and G :: "'k \<Rightarrow> 's \<Rightarrow> 's \<Rightarrow> bool" and J :: "'s \<Rightarrow> bool"
  assumes relies: "rely (R k)"
    and guarantees: "G k s t \<Longrightarrow> k \<noteq> l \<Longrightarrow> R l s t"
    and invariant: "J s \<Longrightarrow> G k s t \<Longrightarrow> J t"
begin

lemma guarantees_run: "(G k)\<^sup>*\<^sup>* s t \<Longrightarrow> k \<noteq> l \<Longrightarrow> R l s t"
  by (induction rule: rtranclp_induct) (auto intro: rely_refl relies rely_trans [OF relies] guarantees)

lemma invariant_run: "(G k)\<^sup>*\<^sup>* s t \<Longrightarrow> J s \<Longrightarrow> J t"
  by (induction rule: rtranclp_induct) (auto intro: invariant)

definition safe :: "('k \<Rightarrow> exc + 'a \<Rightarrow> 's \<Rightarrow> bool) \<Rightarrow> ('k \<times> ('s, 'a) proc) list \<Rightarrow> 's \<Rightarrow> bool" where
  "safe Q ps s \<longleftrightarrow> distinct (map fst ps) \<and> J s \<and> (\<forall>(k, p)\<in>set ps. rg (R k) (G k) p (Q k) s)"

lemma safe_thread: "safe Q ps s \<Longrightarrow> (k, p) \<in> set ps \<Longrightarrow> rg (R k) (G k) p (Q k) s"
  by (auto simp: safe_def)

lemma safe_step:
  assumes "safe Q ps s" and "(k, Act f g) \<in> set ps"
  shows "safe Q (AList.update k (g s) ps) (f s)"
proof -
  have own: "G k s (f s)" "rg (R k) (G k) (g s) (Q k) (f s)"
    using safe_thread [OF assms] rely_refl [OF relies] by auto
  have dist: "distinct (map fst (AList.update k (g s) ps))"
    using assms(1) by (auto simp: safe_def intro: distinct_update)
  have "rg (R l) (G l) p (Q l) (f s)" if "(l, p) \<in> set (AList.update k (g s) ps)" for l p
  proof (cases "l = k")
    case True
    from that dist have "map_of (AList.update k (g s) ps) l = Some p" by simp
    with True own(2) show ?thesis by (simp add: update_conv)
  next
    case False
    with that have "(l, p) \<in> set ps"
      using set_update_subset [of k "g s" ps] by blast
    from safe_thread [OF assms(1) this] False show ?thesis
      by (blast intro: rg_stable relies guarantees own(1))
  qed
  with assms(1) dist invariant [OF _ own(1)] show ?thesis
    by (auto simp: safe_def)
qed

lemma safe_pool: "safe Q ps s \<Longrightarrow> pool is ps s = (qs, t) \<Longrightarrow> safe Q qs t"
proof (induction "is" ps s rule: pool.induct)
  case (1 ps s)
  then show ?case by simp
next
  case (2 i "is" ps s)
  let ?js = "running ps"
  show ?case
  proof (cases "?js = []")
    case True
    with 2 show ?thesis by simp
  next
    case False
    then have "?js ! (i mod length ?js) \<in> set ?js" by simp
    moreover have "set ?js \<subseteq> set ps"
      by (auto simp: running_def dest: in_set_takeD)
    ultimately have mem: "?js ! (i mod length ?js) \<in> set ps" by blast
    obtain k p where kp: "?js ! (i mod length ?js) = (k, p)" by fastforce
    show ?thesis
    proof (cases p)
      case (Done r)
      with 2 False kp show ?thesis by (simp add: Let_def)
    next
      case (Act f g)
      with mem kp have "safe Q (AList.update k (g s) ps) (f s)"
        by (auto intro: safe_step [OF 2(2)])
      with 2 False kp Act show ?thesis by (simp add: Let_def)
    qed
  qed
qed

lemma safe_finish:
  assumes "safe Q ps s" and "finish ps s = (rs, t)"
  shows "J t \<and> (\<forall>l. l \<notin> set (map fst ps) \<longrightarrow> R l s t) \<and> (\<forall>(k, r)\<in>set rs. Q k r t)"
  using assms
proof (induction ps arbitrary: s rs t)
  case Nil
  then show ?case by (simp add: safe_def rely_refl relies)
next
  case (Cons kp ps)
  obtain k p where kp: "kp = (k, p)" by (cases kp)
  obtain r u where p: "alone p s = (r, u)" by fastforce
  obtain qs v where ps: "finish ps u = (qs, v)" by fastforce
  have fin: "rs = (k, r) # qs" "t = v" using Cons.prems(2) p ps by (auto simp: kp)
  have dist: "k \<notin> set (map fst ps)" using Cons.prems(1) by (simp add: safe_def kp)
  have own: "(G k)\<^sup>*\<^sup>* s u" "\<And>v. R k u v \<Longrightarrow> Q k r v"
    using rg_alone [OF relies safe_thread [OF Cons.prems(1)], of k p] p by (auto simp: kp)
  have "rg (R l) (G l) q (Q l) u" if "(l, q) \<in> set ps" for l q
  proof -
    have "l \<noteq> k" using that dist by force
    moreover have "rg (R l) (G l) q (Q l) s" using that safe_thread [OF Cons.prems(1)] by simp
    ultimately show ?thesis by (blast intro: rg_stable relies guarantees_run own(1))
  qed
  then have "safe Q ps u"
    using Cons.prems(1) invariant_run [OF own(1)] by (auto simp: safe_def)
  note rest = Cons.IH [OF this ps]
  have "R l s t" if "l \<notin> set (map fst (kp # ps))" for l
    using that rest guarantees_run [OF own(1), of l] fin by (auto simp: kp intro: rely_trans [OF relies])
  moreover have "Q k r t" using own(2) rest dist fin by auto
  ultimately show ?case using rest fin by auto
qed

theorem run_pool_sound:
  assumes "distinct (map fst ps)" and "J s" and "\<And>k p. (k, p) \<in> set ps \<Longrightarrow> rg (R k) (G k) p (Q k) s"
    and "run_pool sched ps s = (rs, t)"
  shows "J t \<and> (\<forall>(k, r)\<in>set rs. Q k r t)"
proof -
  obtain qs u where qs: "pool (sc_picks sched) ps s = (qs, u)" by fastforce
  have "safe Q ps s" using assms(1-3) by (auto simp: safe_def)
  from safe_finish [OF safe_pool [OF this qs]] show ?thesis
    using assms(4) qs by (auto simp: run_pool_def)
qed

end

end
