(* ===== verification/Users.thy ===== *)
theory Users
  imports Event_Bus Helpers Skipped_Transactions Threads "HOL-Library.Sublist"
begin

text \<open>
  src/tasks/users.py: the handler of the UserFactory contract. The events of a block are
  grouped by user, and a pool of five threads works on the users: each user's events edit the
  pending row of the user in order, and update the associated wallets and the user events
  tables on the way; the pending rows supersede the current ones at the end. Every function a
  thread runs is a \<open>proc\<close>, whose atomic actions are the queries, the inserts and the calls on
  shared objects. Third-party signature checks and the base 58 encoding are the
  \<open>user_services\<close>.
\<close>

datatype user_event =
    AddUser | UpdateMultihash | UpdateName | UpdateLocation | UpdateBio | UpdateProfilePhoto
  | UpdateCoverPhoto | UpdateIsVerified | UpdateContentNodeEndpoint

definition user_event_types_arr :: "user_event list" where
  "user_event_types_arr =
     [AddUser, UpdateMultihash, UpdateName, UpdateLocation, UpdateBio, UpdateProfilePhoto,
      UpdateCoverPhoto, UpdateIsVerified, UpdateContentNodeEndpoint]"

record user_args =
  ua_userId :: int
  ua_handle :: bytes
  ua_wallet :: string
  ua_multihashDigest :: bytes
  ua_name :: bytes
  ua_location :: bytes
  ua_bio :: string
  ua_profilePhotoDigest :: bytes
  ua_coverPhotoDigest :: bytes
  ua_isVerified :: bool
  ua_contentNodeEndpoint :: string

type_synonym user_receipt = "(user_event, user_args) tx_receipt"

text \<open>
  \<open>b58\<close>: \<open>base58.b58encode\<close>; \<open>recoverHash\<close>: the wallet web3 recovers from a signature of
  the message of a user id, or the exception it raises; \<open>verify_sol\<close>: whether the nacl
  verification of wallet, user id and signature raises nothing.
\<close>

record user_services =
  b58 :: "bytes \<Rightarrow> string"
  recoverHash :: "int \<Rightarrow> string \<Rightarrow> exc + string"
  verify_sol :: "int \<Rightarrow> string \<Rightarrow> string \<Rightarrow> bool"

section \<open>Associated wallets\<close>

definition validate_signature ::
  "user_services \<Rightarrow> wallet_chain \<Rightarrow> int \<Rightarrow> string \<Rightarrow> string \<Rightarrow> exc + bool" where
  "validate_signature sv chain user_id associated_wallet signature =
     (case chain of
        Eth \<Rightarrow> exc_bind (recoverHash sv user_id signature) (\<lambda>signed. Inr (signed = associated_wallet))
      | Sol \<Rightarrow> Inr (verify_sol sv user_id associated_wallet signature))"

text \<open>
  \<open>"signature" not in m or not isinstance(m["signature"], str)\<close> on an arbitrary JSON value:
  None to skip the wallet, or the TypeError of testing or indexing a value that is no object.
\<close>

definition signature_of :: "json \<Rightarrow> exc + string option" where
  "signature_of m =
     (case m of
        JObj kvs \<Rightarrow> (case map_of kvs ''signature'' of Some (JStr s) \<Rightarrow> Inr (Some s) | _ \<Rightarrow> Inr None)
      | JList xs \<Rightarrow> if JStr ''signature'' \<in> set xs then Inl (TypeError ''list indices'') else Inr None
      | JStr s \<Rightarrow> if sublist ''signature'' s then Inl (TypeError ''string indices'') else Inr None
      | _ \<Rightarrow> Inl (TypeError ''argument is not iterable''))"

definition fresh_id :: "nat list \<Rightarrow> nat" where
  "fresh_id ids = Suc (fold max ids 0)"

definition add_wallet ::
  "user_row \<Rightarrow> string \<Rightarrow> wallet_chain \<Rightarrow> bool \<Rightarrow> db \<Rightarrow> db" where
  "add_wallet u wallet chain deleted d =
     d\<lparr>associated_wallets := associated_wallets d @
        [\<lparr>aw_id = fresh_id (map aw_id (associated_wallets d)), aw_user_id = us_user_id u,
          aw_wallet = wallet, aw_blockhash = us_blockhash u, aw_blocknumber = us_blocknumber u,
          aw_is_current = True, aw_is_delete = deleted, aw_chain = chain\<rparr>]\<rparr>"

definition wallet_exists :: "string \<Rightarrow> wallet_chain \<Rightarrow> db \<Rightarrow> bool" where
  "wallet_exists wallet chain d =
     (sql_count (\<lambda>r. aw_wallet r = wallet \<and> aw_is_current r \<and> \<not> aw_is_delete r \<and> aw_chain r = chain)
        (associated_wallets d) > 0)"

text \<open>One turn of the loop over the claimed wallets; the accumulator is \<open>added_associated_wallets\<close>.\<close>

definition claim_wallet ::
  "user_services \<Rightarrow> user_row \<Rightarrow> wallet_chain \<Rightarrow> string \<times> json \<Rightarrow> string list \<Rightarrow> (world, string list) proc" where
  "claim_wallet sv u chain claim added =
     (case claim of (wallet, meta) \<Rightarrow>
       pr_bind (pr_lift (signature_of meta)) (\<lambda>sig.
         case sig of
           None \<Rightarrow> pr_return added
         | Some s \<Rightarrow>
             pr_bind (pr_lift (validate_signature sv chain (us_user_id u) wallet s)) (\<lambda>valid.
               if valid then
                 pr_bind (pr_gets (\<lambda>w. wallet_exists wallet chain (w_db w))) (\<lambda>exists.
                   if exists then pr_return added
                   else pr_seq (pr_modify (update_db (add_wallet u wallet chain False)))
                     (pr_return (List.insert wallet added)))
               else pr_return added)))"

definition user_wallets :: "int \<Rightarrow> wallet_chain \<Rightarrow> db \<Rightarrow> string list" where
  "user_wallets uid chain d =
     map aw_wallet (filter (\<lambda>r. aw_user_id r = uid \<and> aw_is_current r \<and> \<not> aw_is_delete r \<and>
       aw_chain r = chain) (associated_wallets d))"

definition retire_wallets :: "int \<Rightarrow> wallet_chain \<Rightarrow> db \<Rightarrow> db" where
  "retire_wallets uid chain d =
     d\<lparr>associated_wallets := sql_update (\<lambda>r. aw_user_id r = uid \<and> aw_chain r = chain)
        (\<lambda>r. r\<lparr>aw_is_current := False\<rparr>) (associated_wallets d)\<rparr>"

definition enqueue_immediate_balance_refresh :: "int list \<Rightarrow> world \<Rightarrow> world" where
  "enqueue_immediate_balance_refresh user_ids w =
     w\<lparr>w_redis := (w_redis w)\<lparr>r_immediate_refresh :=
        fold List.insert user_ids (r_immediate_refresh (w_redis w))\<rparr>\<rparr>"

text \<open>The rows that mark the previous wallets which were not added again as deleted.\<close>

definition mark_removed ::
  "user_row \<Rightarrow> wallet_chain \<Rightarrow> string list \<Rightarrow> string list \<Rightarrow> db \<Rightarrow> db" where
  "mark_removed u chain added previous = fold (\<lambda>wallet d.
     if wallet \<notin> set added then add_wallet u wallet chain True d else d) previous"

text \<open>The body of the \<open>try\<close> of \<open>update_user_associated_wallets\<close>.\<close>

definition update_wallets_body ::
  "user_services \<Rightarrow> user_row \<Rightarrow> json \<Rightarrow> wallet_chain \<Rightarrow> (world, unit) proc" where
  "update_wallets_body sv u claims chain =
     (let kvs = (case claims of JObj kvs \<Rightarrow> kvs | _ \<Rightarrow> []) in
      pr_bind (pr_gets (\<lambda>w. user_wallets (us_user_id u) chain (w_db w))) (\<lambda>previous.
      pr_seq (pr_modify (update_db (retire_wallets (us_user_id u) chain)))
      (pr_bind (pr_for (claim_wallet sv u chain) kvs []) (\<lambda>added.
      pr_seq (pr_modify (update_db (mark_removed u chain added previous)))
      (if set previous \<noteq> set added
       then pr_modify (enqueue_immediate_balance_refresh [us_user_id u]) else pr_return ())))))"

definition update_user_associated_wallets ::
  "user_services \<Rightarrow> user_row \<Rightarrow> json \<Rightarrow> wallet_chain \<Rightarrow> (world, unit) proc" where
  "update_user_associated_wallets sv u claims chain =
     pr_try (update_wallets_body sv u claims chain) (\<lambda>e. pr_return ())"

section \<open>User events\<close>

text \<open>\<open>isinstance(value, int)\<close>: a Python bool is an int too.\<close>

fun json_int :: "json \<Rightarrow> int option" where
  "json_int (JInt i) = Some i"
| "json_int (JBool b) = Some (if b then 1 else 0)"
| "json_int j = None"

definition apply_user_event ::
  "user_row \<Rightarrow> string \<times> json \<Rightarrow> user_event_row \<Rightarrow> (world, user_event_row) proc" where
  "apply_user_event u ev r =
     (case ev of (name, value) \<Rightarrow>
        if name = ''referrer'' \<and> ue_referrer r = None \<and>
           (case json_int value of None \<Rightarrow> False | Some v \<Rightarrow> us_user_id u \<noteq> v) then
          pr_seq (pr_modify (dispatch referral_signup (us_blocknumber u) (json_int value)
              [(''referred_user_id'', JInt (us_user_id u))]))
            (pr_seq (pr_modify (dispatch referred_signup (us_blocknumber u) (Some (us_user_id u)) []))
              (pr_return (r\<lparr>ue_referrer := json_int value\<rparr>)))
        else if name = ''is_mobile_user'' \<and> (\<exists>b\<in>{True, False}. value = JBool b) \<and> \<not> ue_is_mobile_user r then
          pr_seq (if json_truthy value
              then pr_modify (dispatch mobile_install (us_blocknumber u) (Some (us_user_id u)) [])
              else pr_return ())
            (pr_return (r\<lparr>ue_is_mobile_user := json_truthy value\<rparr>))
        else pr_return r)"

definition current_user_events :: "int \<Rightarrow> db \<Rightarrow> user_event_row list" where
  "current_user_events uid d = filter (\<lambda>r. ue_user_id r = uid \<and> ue_is_current r) (user_events d)"

definition replace_user_events :: "user_event_row \<Rightarrow> db \<Rightarrow> db" where
  "replace_user_events r d =
     d\<lparr>user_events := sql_update (\<lambda>q. ue_user_id q = ue_user_id r \<and> ue_is_current q)
        (\<lambda>q. q\<lparr>ue_is_current := False\<rparr>) (user_events d) @
        [r\<lparr>ue_id := fresh_id (map ue_id (user_events d))\<rparr>]\<rparr>"

text \<open>The loop over the events and the new row, from the \<open>existing\<close> current rows on.\<close>

definition record_user_events ::
  "user_row \<Rightarrow> (string \<times> json) list \<Rightarrow> user_event_row list \<Rightarrow> (world, unit) proc" where
  "record_user_events u kvs existing =
     (let referrer = (case existing of [] \<Rightarrow> None | q # _ \<Rightarrow> ue_referrer q);
          mobile = (case existing of [] \<Rightarrow> False | q # _ \<Rightarrow> ue_is_mobile_user q)
      in pr_bind (pr_for (apply_user_event u) kvs
           \<lparr>ue_id = 0, ue_user_id = us_user_id u, ue_is_current = True,
            ue_blocknumber = us_blocknumber u, ue_blockhash = us_blockhash u,
            ue_referrer = referrer, ue_is_mobile_user = mobile\<rparr>) (\<lambda>r.
        if existing = [] \<or> ue_is_mobile_user r \<noteq> mobile \<or> ue_referrer r \<noteq> referrer
        then pr_modify (update_db (replace_user_events r))
        else pr_return ()))"

text \<open>
  The body of the \<open>try\<close> of \<open>update_user_events\<close>; \<open>one_or_none()\<close> raises when there are
  several current rows. Marking the old row and adding the new one is one action here, as
  only the thread of the user reads or writes the rows of the user.
\<close>

definition update_user_events_body :: "user_row \<Rightarrow> json \<Rightarrow> (world, unit) proc" where
  "update_user_events_body u events =
     (case events of
        JObj kvs \<Rightarrow>
          if us_blocknumber u = None \<or> us_blocknumber u = Some 0 then pr_return ()
          else pr_bind (pr_gets (\<lambda>w. current_user_events (us_user_id u) (w_db w))) (\<lambda>existing.
            if length existing > 1 then pr_raise (PyException ''MultipleResultsFound'')
            else record_user_events u kvs existing)
      | _ \<Rightarrow> pr_return ())"

definition update_user_events :: "user_row \<Rightarrow> json \<Rightarrow> (world, unit) proc" where
  "update_user_events u events = pr_try (update_user_events_body u events) (\<lambda>e. pr_return ())"

section \<open>Editing a row\<close>

text \<open>
  \<open>lookup_user_record\<close>, also called for the events of the replica set contract: \<open>i\<close> is the
  argument \<open>_userId\<close> of the entry and \<open>event_blockhash\<close> its block hash.
\<close>

definition lookup_user_record ::
  "db \<Rightarrow> int \<Rightarrow> hash \<Rightarrow> int \<Rightarrow> timestamp \<Rightarrow> hash \<Rightarrow> user_row" where
  "lookup_user_record d i event_blockhash block_number block_timestamp txhash =
     (let r = (case sql_first (\<lambda>r. us_user_id r = i \<and> us_is_current r) (users d) of
                 Some r \<Rightarrow> r
               | None \<Rightarrow>
                   \<lparr>us_blockhash = None, us_blocknumber = None, us_txhash = [], us_user_id = i,
                    us_is_current = True, us_handle = None, us_handle_lc = None, us_wallet = None,
                    us_name = JNull, us_profile_picture = JNull, us_profile_picture_sizes = JNull,
                    us_cover_photo = JNull, us_cover_photo_sizes = JNull, us_bio = JNull,
                    us_location = JNull, us_metadata_multihash = None,
                    us_content_node_endpoint = None, us_is_verified = False,
                    us_created_at = block_timestamp, us_updated_at = block_timestamp,
                    us_primary_id = None, us_secondary_ids = None,
                    us_replica_set_update_signer = None, us_has_collectibles = False,
                    us_content_list_library = JNull, us_is_deactivated = JBool False\<rparr>)
      in r\<lparr>us_blocknumber := Some block_number, us_blockhash := Some event_blockhash,
           us_txhash := txhash\<rparr>)"

definition user_replica_set_upgraded :: "user_row \<Rightarrow> bool" where
  "user_replica_set_upgraded r = (case us_primary_id r of None \<Rightarrow> False | Some i \<Rightarrow> i > 0)"

text \<open>
  The validators of the columns name, bio, location (\<open>user_text\<close>) and of the picture columns
  (\<open>user_cid\<close>): \<open>validate_field_helper\<close> of src/models/model_utils.py strips NUL characters,
  which a truthy value that is no string has no method for, and replaces a value the JSON
  schema src/schemas/user_schema.json refuses by its default, null. A picture must match
  \<open>^Qm[a-zA-Z0-9]{44}$\<close>.
\<close>

definition is_alnum :: "char \<Rightarrow> bool" where
  "is_alnum c = (let n = of_char c :: nat in
     (48 \<le> n \<and> n \<le> 57) \<or> (65 \<le> n \<and> n \<le> 90) \<or> (97 \<le> n \<and> n \<le> 122))"

definition is_cid :: "string \<Rightarrow> bool" where
  "is_cid s \<longleftrightarrow> length s = 46 \<and> take 2 s = ''Qm'' \<and> list_all is_alnum (drop 2 s)"

definition user_text :: "json \<Rightarrow> exc + json" where
  "user_text v =
     (case v of
        JStr s \<Rightarrow> Inr (JStr (column_text s))
      | _ \<Rightarrow> if json_truthy v then Inl (AttributeError ''encode'') else Inr JNull)"

definition user_cid :: "json \<Rightarrow> exc + json" where
  "user_cid v = exc_bind (user_text v) (\<lambda>v'.
     Inr (case v' of JStr s \<Rightarrow> if is_cid s then v' else JNull | _ \<Rightarrow> JNull))"

text \<open>The column changes of the event itself.\<close>

definition apply_user_factory_event ::
  "user_services \<Rightarrow> user_event \<Rightarrow> user_args \<Rightarrow> user_row \<Rightarrow> exc + user_row" where
  "apply_user_factory_event sv event_type args r =
     (case event_type of
        AddUser \<Rightarrow>
          exc_bind (bytes32_to_str (ua_handle args)) (\<lambda>handle.
            Inr (r\<lparr>us_handle := Some (column_text handle),
                   us_handle_lc := Some (column_text (str_lower handle)),
                   us_wallet := Some (column_text (str_lower (ua_wallet args)))\<rparr>))
      | UpdateMultihash \<Rightarrow>
          exc_bind (multihash_digest_to_cid (b58 sv) (ua_multihashDigest args)) (\<lambda>cid.
            Inr (r\<lparr>us_metadata_multihash := Some cid\<rparr>))
      | UpdateName \<Rightarrow>
          exc_bind (bytes32_to_str (ua_name args)) (\<lambda>s.
            exc_bind (user_text (JStr s)) (\<lambda>v. Inr (r\<lparr>us_name := v\<rparr>)))
      | UpdateLocation \<Rightarrow>
          exc_bind (bytes32_to_str (ua_location args)) (\<lambda>s.
            exc_bind (user_text (JStr s)) (\<lambda>v. Inr (r\<lparr>us_location := v\<rparr>)))
      | UpdateBio \<Rightarrow> exc_bind (user_text (JStr (ua_bio args))) (\<lambda>v. Inr (r\<lparr>us_bio := v\<rparr>))
      | UpdateProfilePhoto \<Rightarrow>
          exc_bind (multihash_digest_to_cid (b58 sv) (ua_profilePhotoDigest args)) (\<lambda>cid.
            exc_bind (user_cid (JStr cid)) (\<lambda>v. Inr (r\<lparr>us_profile_picture := v\<rparr>)))
      | UpdateCoverPhoto \<Rightarrow>
          exc_bind (multihash_digest_to_cid (b58 sv) (ua_coverPhotoDigest args)) (\<lambda>cid.
            exc_bind (user_cid (JStr cid)) (\<lambda>v. Inr (r\<lparr>us_cover_photo := v\<rparr>)))
      | UpdateIsVerified \<Rightarrow> Inr (r\<lparr>us_is_verified := ua_isVerified args\<rparr>)
      | UpdateContentNodeEndpoint \<Rightarrow>
          Inr (if user_replica_set_upgraded r then r
               else r\<lparr>us_content_node_endpoint := Some (column_text (ua_contentNodeEndpoint args))\<rparr>))"

type_synonym metadata = "(string \<times> json) list"

text \<open>\<open>if k in m and m[k]: set\<close>\<close>

definition when_set :: "metadata \<Rightarrow> string \<Rightarrow> (json \<Rightarrow> 'r \<Rightarrow> exc + 'r) \<Rightarrow> 'r \<Rightarrow> exc + 'r" where
  "when_set m k assign r =
     (case map_of m k of None \<Rightarrow> Inr r | Some v \<Rightarrow> if json_truthy v then assign v r else Inr r)"

definition has_collectibles :: "metadata \<Rightarrow> bool" where
  "has_collectibles m =
     (case map_of m ''collectibles'' of Some (JObj kvs) \<Rightarrow> kvs \<noteq> [] | _ \<Rightarrow> False)"

text \<open>The columns the metadata document overrides, before the wallets are processed.\<close>

definition apply_user_metadata :: "metadata \<Rightarrow> user_row \<Rightarrow> exc + user_row" where
  "apply_user_metadata m r =
     exc_bind (when_set m ''profile_picture''
       (\<lambda>v r. exc_bind (user_cid v) (\<lambda>v. Inr (r\<lparr>us_profile_picture := v\<rparr>))) r) (\<lambda>r.
     exc_bind (when_set m ''cover_photo''
       (\<lambda>v r. exc_bind (user_cid v) (\<lambda>v. Inr (r\<lparr>us_cover_photo := v\<rparr>))) r) (\<lambda>r.
     exc_bind (when_set m ''bio''
       (\<lambda>v r. exc_bind (user_text v) (\<lambda>v. Inr (r\<lparr>us_bio := v\<rparr>))) r) (\<lambda>r.
     exc_bind (when_set m ''name''
       (\<lambda>v r. exc_bind (user_text v) (\<lambda>v. Inr (r\<lparr>us_name := v\<rparr>))) r) (\<lambda>r.
     exc_bind (when_set m ''location''
       (\<lambda>v r. exc_bind (user_text v) (\<lambda>v. Inr (r\<lparr>us_location := v\<rparr>))) r) (\<lambda>r.
     exc_bind (when_set m ''profile_picture_sizes''
       (\<lambda>v r. exc_bind (user_cid v) (\<lambda>v. Inr (r\<lparr>us_profile_picture := v\<rparr>))) r) (\<lambda>r.
     exc_bind (when_set m ''cover_photo_sizes''
       (\<lambda>v r. exc_bind (user_cid v) (\<lambda>v. Inr (r\<lparr>us_cover_photo := v\<rparr>))) r) (\<lambda>r.
     Inr (r\<lparr>us_has_collectibles := has_collectibles m\<rparr>))))))))"

text \<open>The final rewriting of the pictures to the \<open>_sizes\<close> columns.\<close>

definition move_pictures :: "user_row \<Rightarrow> exc + user_row" where
  "move_pictures r =
     exc_bind
       (if json_truthy (us_profile_picture r) then
          exc_bind (user_cid (us_profile_picture r)) (\<lambda>v.
            Inr (r\<lparr>us_profile_picture_sizes := v, us_profile_picture := JNull\<rparr>))
        else Inr r) (\<lambda>r.
       if json_truthy (us_cover_photo r) then
         exc_bind (user_cid (us_cover_photo r)) (\<lambda>v.
           Inr (r\<lparr>us_cover_photo_sizes := v, us_cover_photo := JNull\<rparr>))
       else Inr r)"

text \<open>
  \<open>parse_user_event\<close>. The columns of users that are required and have no default are the key
  columns, which every row has, so the final check for missing fields never fails.
\<close>

definition parse_user_event ::
  "user_services \<Rightarrow> int \<Rightarrow> user_args entry \<Rightarrow> user_event \<Rightarrow> user_row \<Rightarrow> metadata option \<Rightarrow>
    timestamp \<Rightarrow> (world, user_row) proc" where
  "parse_user_event sv block_number entry event_type user_record ipfs_metadata block_timestamp =
     pr_bind (pr_lift (apply_user_factory_event sv event_type (e_args entry) user_record)) (\<lambda>r.
     pr_seq (if event_type = UpdateIsVerified \<and> us_is_verified r
         then pr_modify (dispatch connect_verified (Some block_number) (Some (us_user_id r)) [])
         else pr_return ())
     (let r = r\<lparr>us_updated_at := block_timestamp\<rparr> in
      case ipfs_metadata of
        Some m \<Rightarrow>
          if event_type = UpdateMultihash \<and> m \<noteq> [] then
            pr_bind (pr_lift (apply_user_metadata m r)) (\<lambda>r.
            pr_seq (case map_of m ''associated_wallets'' of
                None \<Rightarrow> pr_return () | Some v \<Rightarrow> update_user_associated_wallets sv r v Eth)
            (pr_seq (case map_of m ''associated_sol_wallets'' of
                None \<Rightarrow> pr_return () | Some v \<Rightarrow> update_user_associated_wallets sv r v Sol)
            (pr_bind (pr_lift (when_set m ''content_list_library''
                (\<lambda>v r. Inr (r\<lparr>us_content_list_library := v\<rparr>)) r)) (\<lambda>r.
             let r = (case map_of m ''is_deactivated'' of
                        None \<Rightarrow> r | Some v \<Rightarrow> r\<lparr>us_is_deactivated := v\<rparr>)
             in pr_seq (case map_of m ''events'' of
                  None \<Rightarrow> pr_return ()
                | Some v \<Rightarrow> if json_truthy v then update_user_events r v else pr_return ())
                (pr_lift (move_pictures r))))))
          else pr_lift (move_pictures r)
      | None \<Rightarrow> pr_lift (move_pictures r)))"

section \<open>The handler\<close>

definition invalidate_old_user :: "int \<Rightarrow> db \<Rightarrow> db" where
  "invalidate_old_user uid d =
     d\<lparr>users := sql_update (\<lambda>r. us_user_id r = uid \<and> us_is_current r)
        (\<lambda>r. r\<lparr>us_is_current := False\<rparr>) (users d)\<rparr>"

text \<open>\<open>user_events_lookup\<close>: the pending row of each user and its event types.\<close>

type_synonym user_lookup = "(int \<times> user_row \<times> user_event list) list"

text \<open>The state the worker threads share: the world, the lookup and \<open>user_ids\<close>.\<close>

type_synonym user_state = "world \<times> user_lookup \<times> int list"

type_synonym user_tx = "user_args entry \<times> user_event \<times> hash"

text \<open>The metadata document of an event, which has to be among the fetched ones.\<close>

definition event_metadata ::
  "user_services \<Rightarrow> (string \<times> metadata) list \<Rightarrow> user_tx \<Rightarrow> exc + metadata option" where
  "event_metadata sv ipfs_metadata user_tx =
     (case user_tx of (entry, event_type, txhash) \<Rightarrow>
        if event_type = UpdateMultihash then
          exc_bind (multihash_digest_to_cid (b58 sv) (ua_multihashDigest (e_args entry)))
            (\<lambda>cid. case map_of ipfs_metadata cid of None \<Rightarrow> Inl (KeyError cid) | Some m \<Rightarrow> Inr (Some m))
        else Inr None)"

definition process_user_tx ::
  "user_services \<Rightarrow> int \<Rightarrow> int \<Rightarrow> timestamp \<Rightarrow> hash \<Rightarrow> (string \<times> metadata) list \<Rightarrow>
    user_tx \<Rightarrow> int \<Rightarrow> (user_state, int) proc" where
  "process_user_tx sv user_id block_number ts blockhash ipfs_metadata user_tx processed_entries =
     (case user_tx of (entry, event_type, txhash) \<Rightarrow>
        pr_try
          (pr_bind (pr_gets (\<lambda>(w, lookup, ids).
              case map_of lookup user_id of
                Some (r, evs) \<Rightarrow> r
              | None \<Rightarrow> lookup_user_record (w_db w) (ua_userId (e_args entry)) (e_blockHash entry)
                  block_number ts txhash)) (\<lambda>existing.
           pr_bind (pr_lift (event_metadata sv ipfs_metadata user_tx)) (\<lambda>meta.
           pr_bind (pr_fst (parse_user_event sv block_number entry event_type existing meta ts)) (\<lambda>r.
           pr_seq (pr_modify (\<lambda>(w, lookup, ids).
             (w, (let evs = (case map_of lookup user_id of None \<Rightarrow> [] | Some (q, evs) \<Rightarrow> evs)
                  in AList.update user_id (r, evs @ [event_type]) lookup),
              List.insert user_id ids)))
             (pr_return (processed_entries + 1))))))
          (\<lambda>e.
             if missing_required e then
               pr_seq (pr_fst (pr_modify (update_db
                   (add_node_level_skipped_transaction block_number blockhash txhash))))
                 (pr_return processed_entries)
             else pr_raise (IndexingError ''user'' (Some block_number) blockhash (Some txhash) (exc_str e))))"

definition process_user_txs_serial ::
  "user_services \<Rightarrow> int \<Rightarrow> user_tx list \<Rightarrow> int \<Rightarrow> timestamp \<Rightarrow> hash \<Rightarrow>
    (string \<times> metadata) list \<Rightarrow> (user_state, int) proc" where
  "process_user_txs_serial sv user_id user_txs block_number ts blockhash ipfs_metadata =
     pr_for (process_user_tx sv user_id block_number ts blockhash ipfs_metadata) user_txs 0"

text \<open>Grouping the events of the block by user, transaction by transaction and type by type.\<close>

definition group_entries ::
  "user_receipt \<Rightarrow> user_event \<Rightarrow> user_args entry list \<Rightarrow> (int \<times> user_tx list) list \<Rightarrow>
    (int \<times> user_tx list) list" where
  "group_entries tx event_type = fold (\<lambda>entry grp.
     let i = ua_userId (e_args entry);
         txs = (case map_of grp i of None \<Rightarrow> [] | Some txs \<Rightarrow> txs)
     in AList.update i (txs @ [(entry, event_type, transactionHash tx)]) grp)"

definition group_tx ::
  "user_receipt \<Rightarrow> (int \<times> user_tx list) list \<Rightarrow> exc + (int \<times> user_tx list) list" where
  "group_tx tx grp =
     fold (\<lambda>event_type acc. exc_bind acc (\<lambda>grp.
       exc_bind (processReceipt tx event_type) (\<lambda>entries. Inr (group_entries tx event_type entries grp))))
       user_event_types_arr (Inr grp)"

definition group_user_txs :: "user_receipt list \<Rightarrow> exc + (int \<times> user_tx list) list" where
  "group_user_txs txs = fold (\<lambda>tx acc. exc_bind acc (group_tx tx)) txs (Inr [])"

text \<open>The functions submitted to the pool, in the order of the users in the dictionary.\<close>

definition user_threads ::
  "user_services \<Rightarrow> (int \<times> user_tx list) list \<Rightarrow> int \<Rightarrow> timestamp \<Rightarrow> hash \<Rightarrow>
    (string \<times> metadata) list \<Rightarrow> (int \<times> (user_state, int) proc) list" where
  "user_threads sv grp block_number ts blockhash ipfs_metadata =
     map (\<lambda>(user_id, user_txs). (user_id,
       process_user_txs_serial sv user_id user_txs block_number ts blockhash ipfs_metadata)) grp"

definition store_user :: "int \<Rightarrow> int \<times> user_row \<times> user_event list \<Rightarrow> world \<Rightarrow> world" where
  "store_user block_number item w =
     (case item of (uid, r, evs) \<Rightarrow>
        if evs \<noteq> [] then
          update_db (\<lambda>d. d\<lparr>users := users d @ [r]\<rparr>)
            (dispatch profile_update (Some block_number) (Some uid) []
              (update_db (invalidate_old_user uid) w))
        else w)"

text \<open>
  A failure of a thread is raised once all the threads have ended, which leaving the
  \<open>with\<close> block waits for.
\<close>

definition user_state_update ::
  "user_services \<Rightarrow> schedule \<Rightarrow> user_receipt list \<Rightarrow> int \<Rightarrow> timestamp \<Rightarrow> hash \<Rightarrow>
    (string \<times> metadata) list \<Rightarrow> (world, int \<times> int list) py" where
  "user_state_update sv sched txs block_number ts blockhash ipfs_metadata w =
     (if txs = [] then (Inr (0, []), w)
      else case group_user_txs txs of
        Inl e \<Rightarrow> (Inl e, w)
      | Inr grp \<Rightarrow>
          (case run_pool sched (user_threads sv grp block_number ts blockhash ipfs_metadata) (w, [], []) of
             (rs, (w', lookup, ids)) \<Rightarrow>
               (case first_failure sched rs of
                  Some e \<Rightarrow> (Inl e, w')
                | None \<Rightarrow> (Inr (sum_list (map (\<lambda>(k, r). case r of Inl e \<Rightarrow> 0 | Inr n \<Rightarrow> n) rs), ids),
                           fold (store_user block_number) lookup w'))))"

section \<open>Lemmas on the wallets\<close>

text \<open>The claims whose signature checks out, and those whose check does not raise.\<close>

definition proven :: "user_services \<Rightarrow> int \<Rightarrow> wallet_chain \<Rightarrow> string \<times> json \<Rightarrow> bool" where
  "proven sv uid chain claim =
     (case signature_of (snd claim) of
        Inr (Some s) \<Rightarrow> validate_signature sv chain uid (fst claim) s = Inr True
      | _ \<Rightarrow> False)"

definition checkable :: "user_services \<Rightarrow> int \<Rightarrow> wallet_chain \<Rightarrow> string \<times> json \<Rightarrow> bool" where
  "checkable sv uid chain claim =
     (case signature_of (snd claim) of
        Inr None \<Rightarrow> True
      | Inr (Some s) \<Rightarrow> \<exists>b. validate_signature sv chain uid (fst claim) s = Inr b
      | Inl e \<Rightarrow> False)"

definition claim_step ::
  "user_services \<Rightarrow> user_row \<Rightarrow> wallet_chain \<Rightarrow> string \<times> json \<Rightarrow> string list \<times> world \<Rightarrow> string list \<times> world" where
  "claim_step sv u chain claim = (\<lambda>(added, w).
     if proven sv (us_user_id u) chain claim \<and> \<not> wallet_exists (fst claim) chain (w_db w)
     then (List.insert (fst claim) added, update_db (add_wallet u (fst claim) chain False) w)
     else (added, w))"

lemma claim_wallet_step:
  assumes "checkable sv (us_user_id u) chain claim"
  shows "alone (claim_wallet sv u chain claim added) w =
    (Inr (fst (claim_step sv u chain claim (added, w))), snd (claim_step sv u chain claim (added, w)))"
  using assms
  by (cases claim) (auto simp: claim_wallet_def claim_step_def proven_def checkable_def py_defs
      split: sum.splits option.splits)

lemma user_wallets_add [simp]:
  "user_wallets v c (add_wallet u wl chain del d) =
     (if \<not> del \<and> v = us_user_id u \<and> c = chain then user_wallets v c d @ [wl] else user_wallets v c d)"
  by (auto simp: user_wallets_def add_wallet_def)

lemma user_wallets_retire [simp]:
  "user_wallets v c (retire_wallets u chain d) =
     (if v = u \<and> c = chain then [] else user_wallets v c d)"
proof -
  have "filter (\<lambda>r. aw_user_id r = v \<and> aw_is_current r \<and> \<not> aw_is_delete r \<and> aw_chain r = c)
      (sql_update (\<lambda>r. aw_user_id r = u \<and> aw_chain r = chain) (\<lambda>r. r\<lparr>aw_is_current := False\<rparr>) tbl) =
    (if v = u \<and> c = chain then [] else
     filter (\<lambda>r. aw_user_id r = v \<and> aw_is_current r \<and> \<not> aw_is_delete r \<and> aw_chain r = c) tbl)" for tbl
    by (induction tbl) (auto simp: sql_update_def)
  note eq = this
  show ?thesis by (simp add: user_wallets_def retire_wallets_def eq)
qed

definition others_wallets :: "int \<Rightarrow> wallet_chain \<Rightarrow> db \<Rightarrow> string set" where
  "others_wallets uid chain d = (\<Union>v\<in>{v. v \<noteq> uid}. set (user_wallets v chain d))"

lemma wallet_exists_iff:
  "wallet_exists wl chain d \<longleftrightarrow> wl \<in> set (user_wallets uid chain d) \<or> wl \<in> others_wallets uid chain d"
proof -
  have "wallet_exists wl chain d \<longleftrightarrow> (\<exists>v. wl \<in> set (user_wallets v chain d))"
    by (auto simp: wallet_exists_def sql_count_def user_wallets_def filter_empty_conv)
  then show ?thesis by (auto simp: others_wallets_def)
qed

lemma others_wallets_add [simp]:
  "others_wallets (us_user_id u) c (add_wallet u wl chain del d) = others_wallets (us_user_id u) c d"
  by (auto simp: others_wallets_def)

lemma others_wallets_retire [simp]:
  "others_wallets u c (retire_wallets u chain d) = others_wallets u c d"
  by (auto simp: others_wallets_def)

lemma claims_fold:
  assumes "set (user_wallets (us_user_id u) chain (w_db w)) = set added"
    and "fold (claim_step sv u chain) kvs (added, w) = (added', w')"
  shows "set added' = set added \<union> ({wl. \<exists>m. (wl, m) \<in> set kvs \<and>
      proven sv (us_user_id u) chain (wl, m)} - others_wallets (us_user_id u) chain (w_db w)) \<and>
    set (user_wallets (us_user_id u) chain (w_db w')) = set added' \<and>
    (\<forall>v c. v \<noteq> us_user_id u \<or> c \<noteq> chain \<longrightarrow> user_wallets v c (w_db w') = user_wallets v c (w_db w))"
  using assms
proof (induction kvs arbitrary: added w)
  case Nil
  then show ?case by simp
next
  case (Cons kv kvs)
  let ?uid = "us_user_id u"
  let ?go = "proven sv ?uid chain kv \<and> \<not> wallet_exists (fst kv) chain (w_db w)"
  let ?w = "if ?go then update_db (add_wallet u (fst kv) chain False) w else w"
  let ?added = "if ?go then List.insert (fst kv) added else added"
  have "claim_step sv u chain kv (added, w) = (?added, ?w)"
    by (simp add: claim_step_def)
  then have run: "fold (claim_step sv u chain) kvs (?added, ?w) = (added', w')"
    using Cons.prems(2) by simp
  have inv: "set (user_wallets ?uid chain (w_db ?w)) = set ?added"
    using Cons.prems(1) by simp
  have oth: "others_wallets ?uid chain (w_db ?w) = others_wallets ?uid chain (w_db w)" by simp
  have frame: "v \<noteq> ?uid \<or> c \<noteq> chain \<Longrightarrow> user_wallets v c (w_db ?w) = user_wallets v c (w_db w)" for v c
    by auto
  have ex: "wallet_exists (fst kv) chain (w_db w) \<longleftrightarrow>
      fst kv \<in> set added \<or> fst kv \<in> others_wallets ?uid chain (w_db w)"
    using Cons.prems(1) wallet_exists_iff [of "fst kv" chain "w_db w" ?uid] by simp
  have new: "{wl. \<exists>m. (wl, m) \<in> set (kv # kvs) \<and> proven sv ?uid chain (wl, m)} =
    {wl. \<exists>m. (wl, m) \<in> set kvs \<and> proven sv ?uid chain (wl, m)} \<union>
    (if proven sv ?uid chain kv then {fst kv} else {})"
    by (cases kv) auto
  note IH = Cons.IH [OF inv run]
  have "set added' = set added \<union> ({wl. \<exists>m. (wl, m) \<in> set (kv # kvs) \<and>
      proven sv ?uid chain (wl, m)} - others_wallets ?uid chain (w_db w))"
    unfolding new using IH oth ex by (auto split: if_splits)
  with IH frame show ?case by simp
qed

lemma mark_removed_simps [simp]:
  "mark_removed u chain added [] d = d"
  "mark_removed u chain added (wl # ps) d = mark_removed u chain added ps
     (if wl \<notin> set added then add_wallet u wl chain True d else d)"
  by (simp_all add: mark_removed_def)

lemma user_wallets_mark [simp]: "user_wallets v c (mark_removed u chain added ps d) = user_wallets v c d"
  by (induction ps arbitrary: d) auto

lemma mark_removed_grows:
  "r \<in> set (associated_wallets d) \<Longrightarrow> r \<in> set (associated_wallets (mark_removed u chain added ps d))"
proof (induction ps arbitrary: d)
  case Nil
  then show ?case by simp
next
  case (Cons p ps)
  have "r \<in> set (associated_wallets (if p \<notin> set added then add_wallet u p chain True d else d))"
    using Cons.prems by (simp add: add_wallet_def)
  from Cons.IH [OF this] show ?case by simp
qed

definition removed_row :: "user_row \<Rightarrow> wallet_chain \<Rightarrow> string \<Rightarrow> wallet_row \<Rightarrow> bool" where
  "removed_row u chain wl r \<longleftrightarrow> aw_user_id r = us_user_id u \<and> aw_wallet r = wl \<and> aw_chain r = chain \<and>
     aw_is_current r \<and> aw_is_delete r"

lemma add_wallet_removed: "\<exists>r\<in>set (associated_wallets (add_wallet u wl chain True d)). removed_row u chain wl r"
  by (auto simp: add_wallet_def removed_row_def)

lemma mark_removed_marks:
  "wl \<in> set ps \<Longrightarrow> wl \<notin> set added \<Longrightarrow>
    \<exists>r\<in>set (associated_wallets (mark_removed u chain added ps d)). removed_row u chain wl r"
proof (induction ps arbitrary: d)
  case Nil
  then show ?case by simp
next
  case (Cons p ps)
  show ?case
  proof (cases "wl = p")
    case True
    with Cons.prems add_wallet_removed [of u wl chain d] show ?thesis
      by (auto intro: mark_removed_grows)
  next
    case False
    with Cons show ?thesis by simp
  qed
qed

lemma w_db_enqueue [simp]: "w_db (enqueue_immediate_balance_refresh us w) = w_db w"
  by (simp add: enqueue_immediate_balance_refresh_def)

section \<open>Lemmas on the user events\<close>

definition referred :: "int \<Rightarrow> int \<Rightarrow> db \<Rightarrow> bool" where
  "referred u x d \<longleftrightarrow> (\<exists>r\<in>set (current_user_events u d). ue_referrer r = Some x)"

definition is_mobile :: "int \<Rightarrow> db \<Rightarrow> bool" where
  "is_mobile u d \<longleftrightarrow> (\<exists>r\<in>set (current_user_events u d). ue_is_mobile_user r)"

text \<open>At most one current row per user, and what was recorded in \<open>d0\<close> stays recorded.\<close>

definition events_ok :: "db \<Rightarrow> db \<Rightarrow> bool" where
  "events_ok d0 d \<longleftrightarrow> (\<forall>u. length (current_user_events u d) \<le> 1 \<and>
     (\<forall>x. referred u x d0 \<longrightarrow> referred u x d) \<and> (is_mobile u d0 \<longrightarrow> is_mobile u d))"

lemma events_ok_frame [simp]:
  "events_ok d0 (d\<lparr>users := us\<rparr>) = events_ok d0 d"
  "events_ok d0 (d\<lparr>associated_wallets := aw\<rparr>) = events_ok d0 d"
  "events_ok d0 (d\<lparr>skipped_transactions := sk\<rparr>) = events_ok d0 d"
  by (simp_all add: events_ok_def referred_def is_mobile_def current_user_events_def)

lemma current_user_events_replace:
  "ue_is_current r \<Longrightarrow> current_user_events v (replace_user_events r d) =
     (if v = ue_user_id r then [r\<lparr>ue_id := fresh_id (map ue_id (user_events d))\<rparr>]
      else current_user_events v d)"
proof -
  have "filter (\<lambda>q. ue_user_id q = v \<and> ue_is_current q)
      (sql_update (\<lambda>q. ue_user_id q = ue_user_id r \<and> ue_is_current q)
        (\<lambda>q. q\<lparr>ue_is_current := False\<rparr>) tbl) =
    (if v = ue_user_id r then [] else filter (\<lambda>q. ue_user_id q = v \<and> ue_is_current q) tbl)" for tbl
    by (induction tbl) (auto simp: sql_update_def)
  note eq = this
  show "ue_is_current r \<Longrightarrow> ?thesis"
    by (auto simp: current_user_events_def replace_user_events_def eq)
qed

text \<open>What the loop over the events of a metadata document does to the pending row.\<close>

definition extends_row :: "user_event_row \<Rightarrow> user_event_row \<Rightarrow> bool" where
  "extends_row r q \<longleftrightarrow> ue_user_id q = ue_user_id r \<and> ue_is_current q = ue_is_current r \<and>
     (ue_referrer r \<noteq> None \<longrightarrow> ue_referrer q = ue_referrer r) \<and>
     (ue_is_mobile_user r \<longrightarrow> ue_is_mobile_user q) \<and>
     (ue_referrer q = Some (ue_user_id r) \<longrightarrow> ue_referrer r = Some (ue_user_id r))"

lemma extends_row_refl [simp]: "extends_row r r"
  by (simp add: extends_row_def)

lemma extends_row_trans:
  assumes "extends_row a b" and "extends_row b c"
  shows "extends_row a c"
  using assms unfolding extends_row_def by (metis (no_types, lifting))

lemma extends_row_referrer:
  assumes "name = ''referrer''" and "ue_referrer r = None" and "json_int v = Some i" and "i \<noteq> ue_user_id r"
  shows "extends_row r (r\<lparr>ue_referrer := json_int v\<rparr>)"
  using assms by (simp add: extends_row_def)

text \<open>
  The thread of a user relies on nobody else changing the current events of the user, and
  guarantees the others the same; each of its changes keeps what is recorded.
\<close>

definition events_rely :: "int \<Rightarrow> world \<Rightarrow> world \<Rightarrow> bool" where
  "events_rely uid v w \<longleftrightarrow> current_user_events uid (w_db w) = current_user_events uid (w_db v)"

definition events_guar :: "db \<Rightarrow> int \<Rightarrow> world \<Rightarrow> world \<Rightarrow> bool" where
  "events_guar d0 uid v w \<longleftrightarrow> (events_ok d0 (w_db v) \<longrightarrow> events_ok d0 (w_db w)) \<and>
     (\<forall>u. u \<noteq> uid \<longrightarrow> events_rely u v w)"

lemma events_relies: "rely (events_rely uid)"
  by (auto simp: rely_def events_rely_def intro!: reflpI transpI)

lemma events_guar_same [simp]: "w_db w = w_db v \<Longrightarrow> events_guar d0 uid v w"
  by (simp add: events_guar_def events_rely_def)

lemma apply_user_event_steps: "steps (\<lambda>v w. w_db w = w_db v) (apply_user_event u ev r)"
  unfolding apply_user_event_def by (cases ev) (auto intro!: steps_intros)

lemma apply_user_events_steps:
  "steps (\<lambda>v w. w_db w = w_db v) (pr_for (apply_user_event u) evs r)"
  by (intro steps_for apply_user_event_steps)

lemma apply_user_event_yields:
  "us_user_id u = ue_user_id r \<Longrightarrow> yields (extends_row r) (apply_user_event u ev r)"
  unfolding apply_user_event_def
  by (cases ev) (auto intro!: yields_seq split: option.splits simp: pr_return_def extends_row_def)

lemma apply_user_events_yields:
  assumes "us_user_id u = ue_user_id r"
  shows "yields (extends_row r) (pr_for (apply_user_event u) evs r)"
proof (rule yields_for)
  fix ev q assume q: "extends_row r q"
  then have "us_user_id u = ue_user_id q" using assms by (simp add: extends_row_def)
  then show "yields (extends_row r) (apply_user_event u ev q)"
    using q by (auto intro: yields_mono apply_user_event_yields extends_row_trans)
qed simp

text \<open>Replacing the current row by one that extends it keeps what is recorded.\<close>

lemma replace_guar:
  assumes "extends_row r q" and "ue_user_id r = uid" and "ue_is_current r"
    and "current_user_events uid (w_db w) = ex" and "length ex \<le> 1"
    and "ue_referrer r = (case ex of [] \<Rightarrow> None | p # _ \<Rightarrow> ue_referrer p)"
    and "ue_is_mobile_user r = (case ex of [] \<Rightarrow> False | p # _ \<Rightarrow> ue_is_mobile_user p)"
  shows "events_guar d0 uid w (update_db (replace_user_events q) w)"
proof -
  have cur: "current_user_events v (replace_user_events q (w_db w)) = (if v = uid
      then [q\<lparr>ue_id := fresh_id (map ue_id (user_events (w_db w)))\<rparr>]
      else current_user_events v (w_db w))" for v
    using assms by (simp add: current_user_events_replace extends_row_def)
  have "referred uid x (w_db w) \<Longrightarrow> ue_referrer q = Some x" for x
    using assms by (cases ex) (auto simp: referred_def extends_row_def)
  moreover have "is_mobile uid (w_db w) \<Longrightarrow> ue_is_mobile_user q"
    using assms by (cases ex) (auto simp: is_mobile_def extends_row_def)
  ultimately show ?thesis
    by (simp add: events_guar_def events_rely_def events_ok_def cur referred_def is_mobile_def)
qed

lemma record_user_events_rg:
  assumes "current_user_events (us_user_id u) (w_db v) = ex" and "length ex \<le> 1"
  shows "rg (events_rely (us_user_id u)) (events_guar d0 (us_user_id u)) (record_user_events u kvs ex) (\<lambda>r w. True) v"
  unfolding record_user_events_def Let_def rg_bind [OF events_relies]
  by (rule rg_mono [OF steps_rg_stable [where H = "\<lambda>v w. w_db w = w_db v"
            and A = "\<lambda>w. current_user_events (us_user_id u) (w_db w) = ex",
            OF apply_user_events_steps apply_user_events_yields]])
    (use assms in \<open>auto simp: events_rely_def split: sum.split intro!: rg_modify replace_guar\<close>)

lemma update_user_events_rg:
  "rg (events_rely (us_user_id u)) (events_guar d0 (us_user_id u)) (update_user_events u events) (\<lambda>r w. True) w"
proof -
  have tail: "rg (events_rely (us_user_id u)) (events_guar d0 (us_user_id u)) (record_user_events u kvs ex) Q v"
    if "current_user_events (us_user_id u) (w_db v) = ex" and "length ex \<le> 1" and "\<And>r w. Q r w" for kvs ex v Q
    by (rule rg_mono [OF record_user_events_rg]) (use that in auto)
  show ?thesis
    unfolding update_user_events_def update_user_events_body_def
    by (cases events) (auto simp: rg_try [OF events_relies] rg_bind [OF events_relies] events_rely_def
        intro!: rg_gets events_relies tail split: sum.split)
qed
subsection \<open>The pending rows\<close>

definition same_identity :: "user_row \<Rightarrow> user_row \<Rightarrow> bool" where
  "same_identity r q \<longleftrightarrow> us_user_id q = us_user_id r \<and> us_is_current q = us_is_current r \<and>
     us_blocknumber q = us_blocknumber r"

lemma same_identity_event: "apply_user_factory_event sv ev args r = Inr q \<Longrightarrow> same_identity r q"
  by (auto simp: apply_user_factory_event_def exc_bind_Inr_iff same_identity_def
      split: user_event.splits if_splits)

lemma same_identity_bind:
  assumes "exc_bind m f = Inr q" and "\<And>x. m = Inr x \<Longrightarrow> same_identity r x"
    and "\<And>x. f x = Inr q \<Longrightarrow> same_identity x q"
  shows "same_identity r q"
  using assms by (auto simp: exc_bind_Inr_iff same_identity_def)

lemma same_identity_when_set:
  "when_set m k assign r = Inr q \<Longrightarrow> (\<And>v q. assign v r = Inr q \<Longrightarrow> same_identity r q) \<Longrightarrow> same_identity r q"
  by (auto simp: when_set_def same_identity_def split: option.splits if_splits)

lemma same_identity_metadata: "apply_user_metadata m r = Inr q \<Longrightarrow> same_identity r q"
  unfolding apply_user_metadata_def
  by (erule same_identity_bind, erule same_identity_when_set, force simp: exc_bind_Inr_iff same_identity_def)+
    (auto simp: same_identity_def)

lemma same_identity_move: "move_pictures r = Inr q \<Longrightarrow> same_identity r q"
  unfolding move_pictures_def
  by (erule same_identity_bind)
    (auto simp: exc_bind_Inr_iff same_identity_def split: if_splits)

lemma same_identity_trans: "same_identity a b \<Longrightarrow> same_identity b c \<Longrightarrow> same_identity a c"
  by (simp add: same_identity_def)

lemma parse_same_identity: "yields (same_identity r) (parse_user_event sv bn entry ev r meta ts)"
proof -
  have move: "yields (same_identity r) (pr_lift (move_pictures q))" if "same_identity r q" for q
    using that by (auto intro!: yields_lift dest!: same_identity_move intro: same_identity_trans)
  have step: "same_identity r q \<Longrightarrow> same_identity r (q\<lparr>us_updated_at := ts\<rparr>)"
    "same_identity r q \<Longrightarrow> same_identity r (q\<lparr>us_is_deactivated := v\<rparr>)"
    "same_identity r q \<Longrightarrow> same_identity r (q\<lparr>us_content_list_library := v\<rparr>)" for q v
    by (simp_all add: same_identity_def)
  have lib: "yields (same_identity r) (pr_lift (when_set m k (\<lambda>v r. Inr (r\<lparr>us_content_list_library := v\<rparr>)) q))"
    if "same_identity r q" for m k q
    using that by (auto intro!: yields_lift simp: when_set_def step split: option.splits if_splits)
  have meta: "yields (same_identity r) (pr_lift (apply_user_metadata m q))" if "same_identity r q" for m q
    using that by (auto intro!: yields_lift dest!: same_identity_metadata intro: same_identity_trans)
  have event: "yields (same_identity r) (pr_lift (apply_user_factory_event sv ev (e_args entry) r))"
    by (auto intro: yields_lift same_identity_event)
  show ?thesis
    unfolding parse_user_event_def Let_def
    by (rule yields_bind [OF event], rule yields_seq)
      (auto intro!: yields_bind [OF meta] yields_bind [OF lib] yields_seq move
        simp: step split: option.split)
qed

definition pending_ok :: "int \<Rightarrow> user_lookup \<Rightarrow> bool" where
  "pending_ok bn lookup \<longleftrightarrow> (\<forall>(uid, r, evs)\<in>set lookup.
     us_user_id r = uid \<and> us_is_current r \<and> us_blocknumber r = Some bn)"

lemma pending_okD:
  assumes "pending_ok bn lookup" and "(i, r, evs) \<in> set lookup"
  shows "us_user_id r = i" and "us_is_current r" and "us_blocknumber r = Some bn"
  using assms by (fastforce simp: pending_ok_def)+

lemma pending_ok_update:
  "pending_ok bn lookup \<Longrightarrow> us_user_id r = uid \<Longrightarrow> us_is_current r \<Longrightarrow> us_blocknumber r = Some bn \<Longrightarrow>
    pending_ok bn (AList.update uid (r, evs) lookup)"
  using set_update_subset [of uid "(r, evs)" lookup] by (fastforce simp: pending_ok_def)

lemma lookup_user_record_ok:
  "us_user_id (lookup_user_record d i bh bn ts tx) = i"
  "us_is_current (lookup_user_record d i bh bn ts tx)"
  "us_blocknumber (lookup_user_record d i bh bn ts tx) = Some bn"
  by (auto simp: lookup_user_record_def Let_def split: option.split dest: sql_first_SomeD)

text \<open>The events are grouped under the user they are of.\<close>

definition group_ok :: "(int \<times> user_tx list) list \<Rightarrow> bool" where
  "group_ok grp \<longleftrightarrow> distinct (map fst grp) \<and> (\<forall>uid txs. (uid, txs) \<in> set grp \<longrightarrow> (\<forall>tx\<in>set txs. ua_userId (e_args (fst tx)) = uid))"

lemma group_ok_update:
  assumes "group_ok grp" and "\<And>tx. tx \<in> set txs \<Longrightarrow> ua_userId (e_args (fst tx)) = uid"
  shows "group_ok (AList.update uid txs grp)"
  unfolding group_ok_def
proof (intro conjI allI impI)
  show "distinct (map fst (AList.update uid txs grp))"
    using assms(1) by (simp add: group_ok_def distinct_update)
next
  fix i ts assume "(i, ts) \<in> set (AList.update uid txs grp)"
  then have "(i, ts) = (uid, txs) \<or> (i, ts) \<in> set grp"
    using set_update_subset [of uid txs grp] by blast
  with assms show "\<forall>tx\<in>set ts. ua_userId (e_args (fst tx)) = i"
    unfolding group_ok_def by blast
qed

lemma group_ok_lookup:
  "group_ok grp \<Longrightarrow> map_of grp uid = Some txs \<Longrightarrow> tx \<in> set txs \<Longrightarrow> ua_userId (e_args (fst tx)) = uid"
  by (auto simp: group_ok_def dest!: map_of_SomeD)

lemma group_entries_ok: "group_ok grp \<Longrightarrow> group_ok (group_entries tx ev entries grp)"
  unfolding group_entries_def
proof (induction entries arbitrary: grp)
  case Nil
  then show ?case by simp
next
  case (Cons e es)
  let ?i = "ua_userId (e_args e)"
  let ?txs = "(case map_of grp ?i of None \<Rightarrow> [] | Some txs \<Rightarrow> txs) @ [(e, ev, transactionHash tx)]"
  have "group_ok (AList.update ?i ?txs grp)"
    by (rule group_ok_update [OF Cons.prems])
      (auto split: option.splits dest: group_ok_lookup [OF Cons.prems] group_ok_lookup [OF Cons.prems sym])
  from Cons.IH [OF this] show ?case by (simp add: Let_def)
qed

lemma group_tx_ok: "group_ok grp \<Longrightarrow> group_tx tx grp = Inr grp' \<Longrightarrow> group_ok grp'"
  unfolding group_tx_def
  by (erule exc_fold_inv [where I = group_ok]) (auto simp: exc_bind_Inr_iff group_entries_ok)

lemma group_user_txs_ok: "group_user_txs txs = Inr grp \<Longrightarrow> group_ok grp"
  unfolding group_user_txs_def
  by (erule exc_fold_inv [where I = group_ok]) (auto intro: group_tx_ok simp: group_ok_def [of "[]"])

section \<open>The threads of the users\<close>

text \<open>The documents of an event claim only what \<open>claims\<close> allows on each chain.\<close>

definition allowed :: "(wallet_chain \<Rightarrow> json \<Rightarrow> bool) \<Rightarrow> metadata option \<Rightarrow> bool" where
  "allowed claims meta \<longleftrightarrow> (\<forall>m v. meta = Some m \<longrightarrow>
     (map_of m ''associated_wallets'' = Some v \<longrightarrow> claims Eth v) \<and>
     (map_of m ''associated_sol_wallets'' = Some v \<longrightarrow> claims Sol v))"

text \<open>A condition on the world, lifted to the shared state: the pending rows stay in order.\<close>

definition state_rel :: "(world \<Rightarrow> world \<Rightarrow> bool) \<Rightarrow> int \<Rightarrow> user_state \<Rightarrow> user_state \<Rightarrow> bool" where
  "state_rel R bn s t \<longleftrightarrow> R (fst s) (fst t) \<and> (pending_ok bn (fst (snd s)) \<longrightarrow> pending_ok bn (fst (snd t)))"

lemma state_rel_pending: "state_rel R bn s t \<Longrightarrow> pending_ok bn (fst (snd s)) \<Longrightarrow> pending_ok bn (fst (snd t))"
  by (simp add: state_rel_def)

lemma state_relies: "rely R \<Longrightarrow> rely (state_rel R bn)"
  unfolding rely_def state_rel_def by (auto intro!: reflpI transpI dest: reflpD transpD)

text \<open>
  What the thread of user \<open>uid\<close> has to satisfy under a rely \<open>R\<close> and a guarantee \<open>G\<close> on the
  world: its updates of the wallets, as far as the documents only claim what \<open>claims\<close> allows,
  its updates of the user events, its dispatches and the recording of a skipped transaction.
\<close>

locale user_thread =
  fixes sv :: user_services and uid :: int and R G :: "world \<Rightarrow> world \<Rightarrow> bool"
    and claims :: "wallet_chain \<Rightarrow> json \<Rightarrow> bool"
  assumes relies: "rely R"
    and idle: "G w w"
    and dispatches: "G w (dispatch ev k i x w)"
    and skips: "G w (update_db (add_node_level_skipped_transaction n h t) w)"
    and wallets: "us_user_id u = uid \<Longrightarrow> claims c v \<Longrightarrow> guarded R G (update_user_associated_wallets sv u v c)"
    and events: "us_user_id u = uid \<Longrightarrow> guarded R G (update_user_events u e)"
begin

lemma parse_guarded:
  assumes "us_user_id r = uid" and "allowed claims meta"
  shows "guarded R G (parse_user_event sv bn entry ev r meta ts)"
proof -
  have same: "us_user_id q = uid"
    if "apply_user_factory_event sv ev (e_args entry) r = Inr p"
      "apply_user_metadata m (p\<lparr>us_updated_at := ts\<rparr>) = Inr q" for m p q
    using same_identity_event [OF that(1)] same_identity_metadata [OF that(2)] assms(1)
    by (simp add: same_identity_def)
  have lib: "us_user_id q = uid"
    if "when_set m k (\<lambda>v r. Inr (r\<lparr>us_content_list_library := v\<rparr>)) p = Inr q" "us_user_id p = uid" for m k p q
    using that by (auto simp: when_set_def split: option.splits if_splits)
  show ?thesis
    unfolding parse_user_event_def Let_def
    by (intro guarded_intros guarded_seq relies wallets events)
      (use assms(2) in \<open>auto simp: dispatches allowed_def intro: same lib split: option.split\<close>)
qed

lemma on_world:
  assumes "guarded R G p" and "yields P p" and "pending_ok bn (fst (snd s))"
    and "\<And>r t. (\<And>x. r = Inr x \<Longrightarrow> P x) \<Longrightarrow> pending_ok bn (fst (snd t)) \<Longrightarrow> Q r t"
  shows "rg (state_rel R bn) (state_rel G bn) (pr_fst p) Q s"
proof -
  have "rg R G p (\<lambda>r t. True) (fst s)" using assms(1) by (simp add: guarded_def)
  then show ?thesis
    using assms(2,3)
  proof (induction p arbitrary: s)
    case (Done r)
    then show ?case by (auto simp: state_rel_def intro: assms(4))
  next
    case (Act f k)
    then show ?case by (auto simp: state_rel_def state_rel_def)
  qed
qed

lemma skip_rg:
  assumes "pending_ok bn (fst (snd s))" and "\<And>r t. pending_ok bn (fst (snd t)) \<Longrightarrow> Q r t"
  shows "rg (state_rel R bn) (state_rel G bn)
    (pr_seq (pr_fst (pr_modify (update_db (add_node_level_skipped_transaction m h x)))) (pr_return n)) Q s"
  unfolding pr_seq_def rg_bind [OF state_relies [OF relies]]
  by (rule on_world [OF guarded_modify yields_True assms(1)])
    (auto intro: skips assms(2) dest: state_rel_pending split: sum.split)

lemma put_rg:
  assumes "pending_ok bn (fst (snd s))" and "same_identity r q"
    and "us_user_id r = uid" and "us_is_current r" and "us_blocknumber r = Some bn"
    and "\<And>r t. pending_ok bn (fst (snd t)) \<Longrightarrow> Q r t"
  shows "rg (state_rel R bn) (state_rel G bn)
    (pr_seq (pr_modify (\<lambda>(w, lookup, ids). (w, AList.update uid (q, evs lookup) lookup, List.insert uid ids)))
      (pr_return n)) Q s"
  unfolding pr_seq_def rg_bind [OF state_relies [OF relies]]
  using assms(2-5)
  by (intro rg_modify)
    (auto simp: state_rel_def idle same_identity_def split: sum.split
      intro!: pending_ok_update assms(6) dest!: state_rel_pending intro: assms(1))

lemma tx_rg:
  assumes "ua_userId (e_args (fst tx)) = uid" and "pending_ok bn (fst (snd s))"
    and "\<And>meta. event_metadata sv ipfs tx = Inr meta \<Longrightarrow> allowed claims meta"
  shows "rg (state_rel R bn) (state_rel G bn) (process_user_tx sv uid bn ts bh ipfs tx n)
    (\<lambda>r t. pending_ok bn (fst (snd t))) s"
proof -
  obtain entry ev txhash where tx: "tx = (entry, ev, txhash)" by (cases tx)
  let ?existing = "\<lambda>(w, lookup, ids). case map_of lookup uid of Some (r, evs) \<Rightarrow> r
    | None \<Rightarrow> lookup_user_record (w_db w) (ua_userId (e_args entry)) (e_blockHash entry) bn ts txhash"
  let ?Q = "\<lambda>r t. pending_ok bn (fst (snd t))"
  let ?h = "\<lambda>e. if missing_required e then pr_seq (pr_fst (pr_modify (update_db
      (add_node_level_skipped_transaction bn bh txhash)))) (pr_return n)
    else pr_raise (IndexingError ''user'' (Some bn) bh (Some txhash) (exc_str e))"
  have handler: "rg (state_rel R bn) (state_rel G bn) (?h e) ?Q t" if "pending_ok bn (fst (snd t))" for e t
    using that by (auto intro: skip_rg dest: state_rel_pending)
  have own: "us_user_id (?existing t) = uid" "us_is_current (?existing t)" "us_blocknumber (?existing t) = Some bn"
    if "pending_ok bn (fst (snd t))" for t :: user_state
    using that assms(1)
    by (cases t; auto simp: tx lookup_user_record_ok split: option.splits dest!: map_of_SomeD dest: pending_okD)+
  have parse: "rg (state_rel R bn) (state_rel G bn) (pr_fst (parse_user_event sv bn entry ev r meta ts)) K u"
    if "us_user_id r = uid" "event_metadata sv ipfs tx = Inr meta" "pending_ok bn (fst (snd u))"
      "\<And>res t. (\<And>q. res = Inr q \<Longrightarrow> same_identity r q) \<Longrightarrow> pending_ok bn (fst (snd t)) \<Longrightarrow> K res t" for r meta K u
    by (rule on_world [OF parse_guarded parse_same_identity]) (use that assms(3) in auto)
  show ?thesis
    unfolding process_user_tx_def tx prod.case rg_try [OF state_relies [OF relies]] rg_bind [OF state_relies [OF relies]]
  proof (rule rg_gets [OF state_relies [OF relies]], goal_cases)
    case (1 t)
    show ?case by (simp add: state_rel_def idle)
  next
    case (2 t u)
    have t: "pending_ok bn (fst (snd t))" using 2(1) assms(2) by (rule state_rel_pending)
    have u: "pending_ok bn (fst (snd v))" if "state_rel R bn u v" for v
      using state_rel_pending [OF that state_rel_pending [OF 2(2) t]] .
    show ?case
    proof (simp only: sum.case rg_lift, intro allI impI, goal_cases)
      case (1 v)
      show ?case
      proof (cases "event_metadata sv ipfs (entry, ev, txhash)")
        case (Inl e)
        show ?thesis unfolding Inl sum.case by (rule handler [OF u [OF 1]])
      next
        case (Inr meta)
        then have meta: "event_metadata sv ipfs tx = Inr meta" by (simp add: tx)
        show ?thesis
          unfolding Inr sum.case
          by (rule parse [OF own(1) [OF t] meta u [OF 1]])
            (auto split: sum.split intro!: skip_rg put_rg own t simp: state_rel_def)
      qed
    qed
  qed
qed

lemma txs_rg:
  assumes "\<forall>tx\<in>set txs. ua_userId (e_args (fst tx)) = uid \<and>
      (\<forall>meta. event_metadata sv ipfs tx = Inr meta \<longrightarrow> allowed claims meta)"
    and "pending_ok bn (fst (snd s))"
  shows "rg (state_rel R bn) (state_rel G bn) (process_user_txs_serial sv uid txs bn ts bh ipfs)
    (\<lambda>r t. pending_ok bn (fst (snd t))) s"
proof -
  have "rg (state_rel R bn) (state_rel G bn) (pr_for (process_user_tx sv uid bn ts bh ipfs) txs n)
      (\<lambda>r t. pending_ok bn (fst (snd t))) s" for n
    using assms
  proof (induction txs arbitrary: n s)
    case Nil
    then show ?case by (auto simp: state_rel_def)
  next
    case (Cons tx txs)
    show ?case
      unfolding pr_for.simps rg_bind [OF state_relies [OF relies]]
      by (rule rg_mono [OF tx_rg]) (use Cons in \<open>auto split: sum.split\<close>)
  qed
  then show ?thesis by (simp add: process_user_txs_serial_def)
qed

end

definition claims_ok ::
  "user_services \<Rightarrow> (int \<Rightarrow> wallet_chain \<Rightarrow> json \<Rightarrow> bool) \<Rightarrow> (string \<times> metadata) list \<Rightarrow>
    (int \<times> user_tx list) list \<Rightarrow> bool" where
  "claims_ok sv claims ipfs grp \<longleftrightarrow> (\<forall>(uid, txs)\<in>set grp. \<forall>tx\<in>set txs. \<forall>meta.
     event_metadata sv ipfs tx = Inr meta \<longrightarrow> allowed (claims uid) meta)"

lemma claims_ok_any [simp]: "claims_ok sv (\<lambda>uid c v. True) ipfs grp"
  by (simp add: claims_ok_def allowed_def)

text \<open>All the threads of a block: what one guarantees the others rely on; \<open>J\<close> is kept by all.\<close>

locale user_pool =
  fixes sv :: user_services and R G :: "int \<Rightarrow> world \<Rightarrow> world \<Rightarrow> bool"
    and claims :: "int \<Rightarrow> wallet_chain \<Rightarrow> json \<Rightarrow> bool" and J :: "world \<Rightarrow> bool" and bn :: int
  assumes threads: "user_thread sv uid (R uid) (G uid) (claims uid)"
    and others: "G uid v w \<Longrightarrow> uid \<noteq> i \<Longrightarrow> R i v w"
    and kept: "J v \<Longrightarrow> G uid v w \<Longrightarrow> J w"

sublocale user_pool \<subseteq> conditions: pool_conditions "\<lambda>uid. state_rel (R uid) bn"
  "\<lambda>uid. state_rel (G uid) bn" "\<lambda>s. J (fst s) \<and> pending_ok bn (fst (snd s))"
  by unfold_locales
    (auto simp: state_rel_def intro: others kept state_relies user_thread.relies [OF threads])

context user_pool
begin

lemma run_users_keeps:
  assumes "group_ok grp" and "claims_ok sv claims ipfs grp" and "J w"
    and "run_pool sched (user_threads sv grp bn ts bh ipfs) (w, [], []) = (rs, w', lookup, ids)"
  shows "J w' \<and> pending_ok bn lookup"
proof -
  have "rg (state_rel (R k) bn) (state_rel (G k) bn) p (\<lambda>r t. True) (w, [], [])"
    if "(k, p) \<in> set (user_threads sv grp bn ts bh ipfs)" for k p
  proof -
    from that obtain txs where txs: "(k, txs) \<in> set grp" and p: "p = process_user_txs_serial sv k txs bn ts bh ipfs"
      by (auto simp: user_threads_def)
    show ?thesis
      unfolding p using txs assms(1,2)
      by (intro rg_mono [OF user_thread.txs_rg [OF threads]])
        (auto simp: group_ok_def claims_ok_def pending_ok_def)
  qed
  with conditions.run_pool_sound [OF _ _ _ assms(4), of "\<lambda>k r t. True"] assms(1,3)
  show ?thesis by (simp add: group_ok_def user_threads_def pending_ok_def comp_def case_prod_unfold)
qed

end

locale user_handler_invariant = user_pool +
  assumes keeps_store: "J w \<Longrightarrow> J (store_user bn item w)"
begin

lemma store_keeps: "J w \<Longrightarrow> J (fold (store_user bn) lookup w)"
  by (induction lookup arbitrary: w) (auto intro: keeps_store)

lemma handler_keeps:
  assumes "J w" and "\<And>grp. group_user_txs txs = Inr grp \<Longrightarrow> claims_ok sv claims meta grp"
  shows "J (snd (user_state_update sv sched txs bn ts bh meta w))"
proof (cases "group_user_txs txs")
  case (Inl e)
  with assms(1) show ?thesis by (simp add: user_state_update_def)
next
  case (Inr grp)
  obtain rs w' lookup ids where
    run: "run_pool sched (user_threads sv grp bn ts bh meta) (w, [], []) = (rs, w', lookup, ids)"
    by (rule prod_cases4)
  from run_users_keeps [OF group_user_txs_ok [OF Inr] assms(2) [OF Inr] assms(1) run]
  show ?thesis
    using assms(1) by (auto simp: user_state_update_def Inr run store_keeps split: option.split)
qed

end

text \<open>What storing a row changes: the users table and the queue of events.\<close>

lemma store_user_db:
  "\<exists>us. w_db (store_user bn item w) = (w_db w)\<lparr>users := us\<rparr> \<and> w_redis (store_user bn item w) = w_redis w"
proof -
  obtain i r evs where item: "item = (i, r, evs)" by (rule prod_cases3)
  have "\<exists>us. w_db w = (w_db w)\<lparr>users := us\<rparr>" by (rule exI [of _ "users (w_db w)"]) simp
  then show ?thesis
    by (cases evs) (auto simp: item store_user_def invalidate_old_user_def)
qed

lemma db_keeps_store:
  assumes "\<And>d us. P d \<Longrightarrow> P (d\<lparr>users := us\<rparr>)" and "P (w_db w)"
  shows "P (w_db (store_user bn item w))"
  using store_user_db [of bn item w] assms by auto

section \<open>Three invariants of the pool\<close>

text \<open>The changes an update of the wallets makes.\<close>

lemma update_wallets_steps:
  assumes "\<And>w. G w w" and "\<And>w. G w (update_db (retire_wallets (us_user_id u) c) w)"
    and "\<And>w wl del. G w (update_db (add_wallet u wl c del) w)"
    and "\<And>w A ps. G w (update_db (mark_removed u c A ps) w)"
    and "\<And>w us. G w (enqueue_immediate_balance_refresh us w)"
  shows "steps G (update_user_associated_wallets sv u v c)"
  unfolding update_user_associated_wallets_def update_wallets_body_def claim_wallet_def Let_def
  by (intro steps_intros) (simp_all add: assms)

lemma update_events_steps:
  assumes "\<And>w. G w w" and "\<And>w r. G w (update_db (replace_user_events r) w)"
    and "\<And>w ev k i x. G w (dispatch ev k i x w)"
  shows "steps G (update_user_events u e)"
  unfolding update_user_events_def update_user_events_body_def record_user_events_def
    apply_user_event_def Let_def
  by (cases e) (auto intro!: steps_intros assms)

lemma mark_removed_frame [simp]:
  "users (mark_removed u c A ps d) = users d" "user_events (mark_removed u c A ps d) = user_events d"
  "blocks (mark_removed u c A ps d) = blocks d"
  by (induction ps arbitrary: d) (auto simp: add_wallet_def)

lemma enqueue_frame [simp]: "w_db (enqueue_immediate_balance_refresh us w) = w_db w"
  by (simp add: enqueue_immediate_balance_refresh_def)

text \<open>An invariant no single change breaks needs no condition on the others.\<close>

lemma invariant_pool:
  assumes "\<And>u c v. steps (\<lambda>v w. I v \<longrightarrow> I w) (update_user_associated_wallets sv u v c)"
    and "\<And>u e. steps (\<lambda>v w. I v \<longrightarrow> I w) (update_user_events u e)"
    and "\<And>w ev k i x. I w \<Longrightarrow> I (dispatch ev k i x w)"
    and "\<And>w n h t. I w \<Longrightarrow> I (update_db (add_node_level_skipped_transaction n h t) w)"
  shows "user_pool sv (\<lambda>uid v w. True) (\<lambda>uid v w. I v \<longrightarrow> I w) (\<lambda>uid c v. True) I"
  by unfold_locales (auto simp: rely_def reflp_def transp_def assms intro: steps_guarded)

interpretation users_untouched: user_pool sv "\<lambda>uid v w. True"
  "\<lambda>uid v w. users (w_db v) = tbl \<longrightarrow> users (w_db w) = tbl" "\<lambda>uid c v. True" "\<lambda>w. users (w_db w) = tbl" bn
  for sv tbl bn
  by (intro invariant_pool update_wallets_steps update_events_steps)
    (simp_all add: retire_wallets_def add_wallet_def replace_user_events_def
      add_node_level_skipped_transaction_def)

lemma events_guar_frame: "user_events (w_db w) = user_events (w_db v) \<Longrightarrow> events_guar d0 uid v w"
  by (simp add: events_guar_def events_rely_def events_ok_def referred_def is_mobile_def current_user_events_def)

interpretation events: user_handler_invariant sv events_rely "events_guar d0" "\<lambda>uid c v. True"
  "\<lambda>w. events_ok d0 (w_db w)" bn for sv d0 bn
proof unfold_locales
  show "guarded (events_rely uid) (events_guar d0 uid) (update_user_associated_wallets sv u v c)"
    for uid u v c
    by (intro steps_guarded update_wallets_steps events_guar_frame)
      (simp_all add: retire_wallets_def add_wallet_def)
  show "guarded (events_rely uid) (events_guar d0 uid) (update_user_events u e)"
    if "us_user_id u = uid" for uid u e
    using update_user_events_rg that by (auto simp: guarded_def)
qed (auto simp: events_relies events_guar_def events_rely_def current_user_events_def
    add_node_level_skipped_transaction_def intro: db_keeps_store [where P = "events_ok d0"])

subsection \<open>The live rows of a wallet\<close>

definition live_rows :: "string \<Rightarrow> wallet_chain \<Rightarrow> db \<Rightarrow> nat" where
  "live_rows wl c d = sql_count (\<lambda>r. aw_wallet r = wl \<and> aw_is_current r \<and> \<not> aw_is_delete r \<and>
     aw_chain r = c) (associated_wallets d)"

lemma wallet_exists_live: "wallet_exists wl c d \<longleftrightarrow> live_rows wl c d > 0"
  by (simp add: wallet_exists_def live_rows_def)

lemma live_rows_retire: "live_rows wl c (retire_wallets u chain d) \<le> live_rows wl c d"
proof -
  have "sql_count Q (sql_update P (\<lambda>r. r\<lparr>aw_is_current := False\<rparr>) tbl) \<le> sql_count Q tbl"
    if "\<And>r. Q (r\<lparr>aw_is_current := False\<rparr>) \<Longrightarrow> Q r" for P Q and tbl :: "wallet_row list"
    using that by (induction tbl) (auto simp: sql_update_def)
  from this [of "\<lambda>r. aw_wallet r = wl \<and> aw_is_current r \<and> \<not> aw_is_delete r \<and> aw_chain r = c"]
  show ?thesis by (simp add: live_rows_def retire_wallets_def)
qed

lemma live_rows_add [simp]: "live_rows wl c (add_wallet u wallet chain del d) =
    live_rows wl c d + (if wallet = wl \<and> chain = c \<and> \<not> del then 1 else 0)"
  by (simp add: live_rows_def add_wallet_def)

lemma live_rows_mark [simp]: "live_rows wl c (mark_removed u chain A ps d) = live_rows wl c d"
  by (induction ps arbitrary: d) auto

text \<open>
  The users of \<open>K\<close> may add a live row of the wallet; each of them relies on no other user
  adding one between its check and its insert.
\<close>

definition wallet_rely :: "int set \<Rightarrow> string \<Rightarrow> wallet_chain \<Rightarrow> int \<Rightarrow> world \<Rightarrow> world \<Rightarrow> bool" where
  "wallet_rely K wl c uid v w \<longleftrightarrow> (uid \<in> K \<longrightarrow> live_rows wl c (w_db w) \<le> live_rows wl c (w_db v))"

definition wallet_guar :: "int set \<Rightarrow> string \<Rightarrow> wallet_chain \<Rightarrow> int \<Rightarrow> world \<Rightarrow> world \<Rightarrow> bool" where
  "wallet_guar K wl c uid v w \<longleftrightarrow> (live_rows wl c (w_db v) \<le> 1 \<longrightarrow> live_rows wl c (w_db w) \<le> 1) \<and>
     (uid \<notin> K \<longrightarrow> live_rows wl c (w_db w) \<le> live_rows wl c (w_db v))"

definition wallet_claims :: "user_services \<Rightarrow> int set \<Rightarrow> string \<Rightarrow> wallet_chain \<Rightarrow> int \<Rightarrow> wallet_chain \<Rightarrow> json \<Rightarrow> bool" where
  "wallet_claims sv K wl c uid chain v \<longleftrightarrow>
     (\<forall>kvs j. chain = c \<and> v = JObj kvs \<and> (wl, j) \<in> set kvs \<and> proven sv uid c (wl, j) \<longrightarrow> uid \<in> K)"

lemma wallet_relies: "rely (wallet_rely K wl c uid)"
  by (auto simp: rely_def reflp_def transp_def wallet_rely_def)

lemma wallet_guar_le: "live_rows wl c (w_db w) \<le> live_rows wl c (w_db v) \<Longrightarrow> wallet_guar K wl c uid v w"
  by (simp add: wallet_guar_def)

lemma claim_wallet_guarded:
  assumes "fst claim = wl \<and> chain = c \<and> proven sv (us_user_id u) c claim \<Longrightarrow> us_user_id u \<in> K"
  shows "guarded (wallet_rely K wl c (us_user_id u)) (wallet_guar K wl c (us_user_id u))
    (claim_wallet sv u chain claim added)"
proof -
  obtain wallet j where claim: "claim = (wallet, j)" by (cases claim)
  let ?R = "wallet_rely K wl c (us_user_id u)" and ?G = "wallet_guar K wl c (us_user_id u)"
  have insert: "guarded ?R ?G (pr_bind (pr_gets (\<lambda>w. wallet_exists wallet chain (w_db w))) (\<lambda>exists.
        if exists then pr_return added
        else pr_seq (pr_modify (update_db (add_wallet u wallet chain False)))
          (pr_return (List.insert wallet added))))"
    if own: "wallet = wl \<and> chain = c \<Longrightarrow> us_user_id u \<in> K"
    unfolding guarded_def rg_bind [OF wallet_relies] pr_seq_def
  proof (rule allI, rule rg_gets [OF wallet_relies], goal_cases)
    case (1 s t)
    show ?case by (simp add: wallet_guar_le)
  next
    case (2 s t v)
    show ?case
    proof (cases "wallet_exists wallet chain (w_db t)")
      case True
      then show ?thesis by simp
    next
      case False
      have "?G x (update_db (add_wallet u wallet chain False) x)" if "?R v x" for x
        using False 2(2) that own by (auto simp: wallet_guar_def wallet_rely_def wallet_exists_live)
      with False show ?thesis
        by (auto simp: rg_bind [OF wallet_relies] intro!: rg_modify split: sum.split)
    qed
  qed
  show ?thesis
    unfolding claim_wallet_def claim prod.case
    by (intro guarded_intros insert)
      (use assms in \<open>auto simp: claim proven_def\<close>)
qed

lemma update_wallets_guarded:
  assumes "wallet_claims sv K wl c (us_user_id u) chain v"
  shows "guarded (wallet_rely K wl c (us_user_id u)) (wallet_guar K wl c (us_user_id u))
    (update_user_associated_wallets sv u v chain)"
  unfolding update_user_associated_wallets_def update_wallets_body_def Let_def
  using assms
  by (intro guarded_try guarded_bind guarded_seq guarded_gets guarded_for guarded_intros wallet_relies
      claim_wallet_guarded wallet_guar_le)
    (auto simp: live_rows_retire wallet_claims_def split: json.splits)

abbreviation upsert_user :: "user_row \<Rightarrow> user_row list \<Rightarrow> user_row list" where
  "upsert_user \<equiv> upsert us_user_id us_is_current us_set_current"

lemma fold_store_users:
  assumes "pending_ok bn lookup"
  shows "users (w_db (fold (store_user bn) lookup w)) =
    fold upsert_user (map (fst \<circ> snd) (filter (\<lambda>v. snd (snd v) \<noteq> []) lookup)) (users (w_db w))"
  using assms
  by (induction lookup arbitrary: w)
    (auto simp: pending_ok_def store_user_def invalidate_old_user_def upsert_def invalidate_def sql_update_def)

section \<open>Properties\<close>

text \<open>
  C3. Functional correctness of the association of wallets: when no signature check raises,
  the live wallets of the user on the chain are afterwards exactly the claimed ones with a
  valid signature that are not a live wallet of another user, whatever they were before; every
  wallet that was live and is not any more has a current row marked deleted; the wallets of
  the other users and of the other chain do not change. The update runs on its own here: no
  other thread of the pool changes the wallets in the meantime.
\<close>

theorem associated_wallets_correct:
  assumes "\<And>claim. claim \<in> set kvs \<Longrightarrow> checkable sv (us_user_id u) chain claim"
    and "alone (update_user_associated_wallets sv u (JObj kvs) chain) w = (res, w')"
  shows "res = Inr () \<and>
    set (user_wallets (us_user_id u) chain (w_db w')) =
      {wl. (\<exists>m. (wl, m) \<in> set kvs \<and> proven sv (us_user_id u) chain (wl, m)) \<and>
           wl \<notin> others_wallets (us_user_id u) chain (w_db w)} \<and>
    (\<forall>wl \<in> set (user_wallets (us_user_id u) chain (w_db w)).
       wl \<notin> set (user_wallets (us_user_id u) chain (w_db w')) \<longrightarrow>
       (\<exists>r\<in>set (associated_wallets (w_db w')). aw_user_id r = us_user_id u \<and> aw_wallet r = wl \<and>
          aw_chain r = chain \<and> aw_is_current r \<and> aw_is_delete r)) \<and>
    (\<forall>v c. v \<noteq> us_user_id u \<or> c \<noteq> chain \<longrightarrow>
       user_wallets v c (w_db w') = user_wallets v c (w_db w))"
proof -
  let ?uid = "us_user_id u"
  let ?w0 = "update_db (retire_wallets ?uid chain) w"
  obtain added w1 where run: "fold (claim_step sv u chain) kvs ([], ?w0) = (added, w1)" by fastforce
  have loop: "py_for (\<lambda>claim added. alone (claim_wallet sv u chain claim added)) kvs [] ?w0 = (Inr added, w1)"
    using py_for_total [where body = "\<lambda>claim added. alone (claim_wallet sv u chain claim added)" and g = "claim_step sv u chain"
        and xs = kvs and acc = "[]" and s = ?w0] assms(1) run
    by (simp add: claim_wallet_step)
  have w': "w_db w' = mark_removed u chain added (user_wallets ?uid chain (w_db w)) (w_db w1)"
    and res: "res = Inr ()"
    using assms(2) loop
    by (auto simp: update_user_associated_wallets_def update_wallets_body_def py_defs split: if_splits)
  note fold = claims_fold [OF _ run, simplified]
  have "\<exists>r\<in>set (associated_wallets (w_db w')). removed_row u chain wl r"
    if "wl \<in> set (user_wallets ?uid chain (w_db w))" "wl \<notin> set (user_wallets ?uid chain (w_db w'))" for wl
    using that fold unfolding w' by (intro mark_removed_marks) auto
  with fold show ?thesis by (auto simp: res w' removed_row_def)
qed

text \<open>Services that accept the signatures of user 1 and of user 2 for the wallet 0xa.\<close>

definition ex_services :: user_services where
  "ex_services = \<lparr>b58 = (\<lambda>bs. ''cid''), recoverHash = (\<lambda>uid s. Inr ''0xa''), verify_sol = (\<lambda>uid wl s. False)\<rparr>"

definition ex_user :: "int \<Rightarrow> user_row" where
  "ex_user i = lookup_user_record empty_db i ''0xb'' 7 100 ''0x1''"

definition ex_claims :: "(string \<times> json) list" where
  "ex_claims = [(''0xa'', JObj [(''signature'', JStr ''s'')]), (''0xc'', JObj [(''signature'', JStr ''s'')])]"

theorem associated_wallets_correct_witness:
  "\<exists>w'. alone (update_user_associated_wallets ex_services (ex_user 1) (JObj ex_claims) Eth) empty_world = (Inr (), w') \<and>
     set (user_wallets 1 Eth (w_db w')) = {''0xa''}"
proof -
  obtain res w' where run: "alone (update_user_associated_wallets ex_services (ex_user 1) (JObj ex_claims) Eth) empty_world
      = (res, w')" by (rule prod.exhaust)
  have ok: "checkable ex_services (us_user_id (ex_user 1)) Eth claim" if "claim \<in> set ex_claims" for claim
    using that by (auto simp: ex_claims_def checkable_def signature_of_def validate_signature_def ex_services_def)
  have uid: "us_user_id (ex_user 1) = 1" by (simp add: ex_user_def lookup_user_record_ok)
  have "others_wallets 1 Eth (w_db empty_world) = {}"
    by (simp add: others_wallets_def user_wallets_def empty_world_def empty_db_def)
  moreover have "{wl. \<exists>m. (wl, m) \<in> set ex_claims \<and> proven ex_services 1 Eth (wl, m)} = {''0xa''}"
    by (auto simp: ex_claims_def proven_def signature_of_def validate_signature_def ex_services_def)
  ultimately show ?thesis
    using associated_wallets_correct [OF ok run] run by (auto simp: uid)
qed

text \<open>
  The users of the block that claim a wallet on a chain, with a valid signature, in one of
  their metadata documents.
\<close>

definition claimants ::
  "user_services \<Rightarrow> (string \<times> metadata) list \<Rightarrow> (int \<times> user_tx list) list \<Rightarrow> string \<Rightarrow> wallet_chain \<Rightarrow> int set" where
  "claimants sv ipfs grp wl c = {uid. \<exists>txs tx m kvs j. (uid, txs) \<in> set grp \<and> tx \<in> set txs \<and>
     event_metadata sv ipfs tx = Inr (Some m) \<and>
     map_of m (case c of Eth \<Rightarrow> ''associated_wallets'' | Sol \<Rightarrow> ''associated_sol_wallets'') = Some (JObj kvs) \<and>
     (wl, j) \<in> set kvs \<and> proven sv uid c (wl, j)}"

interpretation wallet_pool: user_handler_invariant sv "wallet_rely {k} wl c" "wallet_guar {k} wl c"
  "wallet_claims sv {k} wl c" "\<lambda>w. live_rows wl c (w_db w) \<le> 1" bn
  for sv k wl c bn
proof unfold_locales
  show "guarded (wallet_rely {k} wl c uid) (wallet_guar {k} wl c uid) (update_user_associated_wallets sv u v ch)"
    if "us_user_id u = uid" "wallet_claims sv {k} wl c uid ch v" for uid u v ch
    using update_wallets_guarded that by blast
  show "guarded (wallet_rely {k} wl c uid) (wallet_guar {k} wl c uid) (update_user_events u e)" for uid u e
    by (intro steps_guarded update_events_steps wallet_guar_le)
      (simp_all add: live_rows_def replace_user_events_def)
qed (auto simp: wallet_relies wallet_guar_def wallet_rely_def add_node_level_skipped_transaction_def live_rows_def
    intro!: db_keeps_store [where P = "\<lambda>d. sql_count (\<lambda>r. aw_wallet r = wl \<and> aw_is_current r \<and>
      \<not> aw_is_delete r \<and> aw_chain r = c) (associated_wallets d) \<le> Suc 0"])

lemma claims_of_claimants:
  assumes "claimants sv ipfs grp wl c \<subseteq> {k}"
  shows "claims_ok sv (wallet_claims sv {k} wl c) ipfs grp"
  unfolding claims_ok_def allowed_def wallet_claims_def
  using assms by (cases c) (fastforce simp: claimants_def)+

text \<open>
  C2. A wallet is live for at most one user: if at most one user of the block claims it, and
  it has at most one live row before the block, it has at most one afterwards, whatever the
  other events and documents of the block, the signatures, the interleaving of the threads
  and the failures on the way.
\<close>

theorem wallets_stay_unique:
  assumes "live_rows wl c (w_db w) \<le> 1"
    and "\<And>grp u v. group_user_txs txs = Inr grp \<Longrightarrow> u \<in> claimants sv meta grp wl c \<Longrightarrow>
      v \<in> claimants sv meta grp wl c \<Longrightarrow> u = v"
    and "user_state_update sv sched txs bn ts bh meta w = (res, w')"
  shows "live_rows wl c (w_db w') \<le> 1"
proof -
  have "\<exists>k. \<forall>grp. group_user_txs txs = Inr grp \<longrightarrow> claimants sv meta grp wl c \<subseteq> {k}"
  proof (cases "\<exists>grp u. group_user_txs txs = Inr grp \<and> u \<in> claimants sv meta grp wl c")
    case True
    then obtain u where "group_user_txs txs = Inr grp \<Longrightarrow> u \<in> claimants sv meta grp wl c" for grp by fastforce
    with assms(2) show ?thesis by blast
  qed blast
  then obtain k where "group_user_txs txs = Inr grp \<Longrightarrow> claimants sv meta grp wl c \<subseteq> {k}" for grp
    by blast
  then show ?thesis
    using wallet_pool.handler_keeps [where sv = sv and k = k, OF assms(1) claims_of_claimants] assms(3)
    by (metis snd_conv)
qed

text \<open>A block in which users 1 and 2 register and both claim the wallet 0xa; user 2 names a referrer.\<close>

definition ex_user_tx :: user_receipt where
  "ex_user_tx = sample_receipt ''0x1'' (\<lambda>t.
     let args = \<lparr>ua_userId = 1, ua_handle = [65, 66, 0, 0], ua_wallet = ''0xA'', ua_multihashDigest = [1],
           ua_name = [], ua_location = [], ua_bio = [], ua_profilePhotoDigest = [],
           ua_coverPhotoDigest = [], ua_isVerified = False, ua_contentNodeEndpoint = []\<rparr>
     in if t = AddUser \<or> t = UpdateMultihash then [args, args\<lparr>ua_userId := 2\<rparr>] else [])"

definition ex_metadata :: "(string \<times> metadata) list" where
  "ex_metadata = [(''cid'', [(''associated_wallets'', JObj ex_claims),
     (''events'', JObj [(''referrer'', JInt 1)])])]"

text \<open>A schedule that lets the two threads act in turn, and services with which only user 1 owns 0xa.\<close>

definition turns :: schedule where
  "turns = \<lparr>sc_picks = concat (replicate 30 [0, 1]), sc_failure = 0\<rparr>"

definition ex_owner_services :: user_services where
  "ex_owner_services = ex_services\<lparr>recoverHash := (\<lambda>uid s. Inr (if uid = 1 then ''0xa'' else ''0xb''))\<rparr>"

lemma ex_owner: "proven ex_owner_services u Eth (''0xa'', j) \<Longrightarrow> u = 1"
  by (simp add: proven_def validate_signature_def ex_owner_services_def exc_bind_def
      split: sum.split_asm option.split_asm if_split_asm)

theorem wallets_stay_unique_witness:
  "\<exists>res w'. user_state_update ex_owner_services turns [ex_user_tx] 7 100 ''0xb'' ex_metadata empty_world = (res, w') \<and>
     live_rows ''0xa'' Eth (w_db w') \<le> 1"
proof -
  obtain res w' where run: "user_state_update ex_owner_services turns [ex_user_tx] 7 100 ''0xb'' ex_metadata
    empty_world = (res, w')" by (rule prod.exhaust)
  have "live_rows ''0xa'' Eth (w_db empty_world) \<le> 1"
    by (simp add: live_rows_def empty_world_def empty_db_def)
  moreover have "u = 1" if "u \<in> claimants ex_owner_services ex_metadata grp ''0xa'' Eth" for u grp
    using that by (auto simp: claimants_def dest: ex_owner)
  ultimately show ?thesis
    using wallets_stay_unique [OF _ _ run, of "''0xa''" Eth] run by blast
qed

text \<open>
  Two users of a block that both claim a wallet can both get it: with the threads in turn,
  both check before either inserts.
\<close>

text \<open>
  The hypothesis of one claimant is needed. When two users of a block claim the same wallet,
  both can get it: with their threads in turn, both check before either inserts.
\<close>

lemma wallet_race:
  "live_rows ''0xa'' Eth (w_db empty_world) = 0 \<and>
   live_rows ''0xa'' Eth (w_db (snd (run_pool turns
     [(1::int, update_user_associated_wallets ex_services (ex_user 1) (JObj ex_claims) Eth),
      (2, update_user_associated_wallets ex_services (ex_user 2) (JObj ex_claims) Eth)] empty_world))) = 2"
  by code_simp

text \<open>
  C32. Referrals are permanent: each user keeps at most one current user events row, a
  recorded referrer is never replaced or removed, and a user recorded as mobile stays so,
  under every schedule of the threads.
\<close>

theorem referrals_permanent:
  assumes "\<And>u. length (current_user_events u (w_db w)) \<le> 1"
    and "user_state_update sv sched txs bn ts bh meta w = (res, w')"
  shows "length (current_user_events u (w_db w')) \<le> 1 \<and>
    (referred u x (w_db w) \<longrightarrow> referred u x (w_db w')) \<and>
    (is_mobile u (w_db w) \<longrightarrow> is_mobile u (w_db w'))"
proof -
  have "events_ok (w_db w) (w_db w)" using assms(1) by (simp add: events_ok_def)
  from events.handler_keeps [where sv = sv and txs = txs and sched = sched and ts = ts and bh = bh and bn = bn
      and meta = meta, OF this] assms(2)
  show ?thesis by (simp add: events_ok_def)
qed

theorem referrals_permanent_witness:
  "\<exists>res w'. user_state_update ex_services turns [ex_user_tx] 7 100 ''0xb'' ex_metadata empty_world = (res, w') \<and>
     length (current_user_events 2 (w_db w')) \<le> 1"
proof -
  obtain res w' where run: "user_state_update ex_services turns [ex_user_tx] 7 100 ''0xb'' ex_metadata
    empty_world = (res, w')" by (rule prod.exhaust)
  have "length (current_user_events u (w_db empty_world)) \<le> 1" for u
    by (simp add: current_user_events_def empty_world_def empty_db_def)
  from referrals_permanent [OF this run] run show ?thesis by blast
qed

text \<open>
  The handler keeps the invariant of the users table, at most one current row per user,
  for every schedule of the threads, and whether it returns or raises; when it raises, the
  table is untouched.
\<close>

theorem users_one_current:
  assumes "\<And>u. length (cur_rows us_user_id us_is_current (users (w_db w)) u) \<le> 1"
    and "user_state_update sv sched txs bn ts bh meta w = (res, w')"
  shows "length (cur_rows us_user_id us_is_current (users (w_db w')) u) \<le> 1 \<and>
    (\<forall>e. res = Inl e \<longrightarrow> users (w_db w') = users (w_db w))"
proof (cases "txs = [] \<or> (\<exists>e. group_user_txs txs = Inl e)")
  case True
  with assms(2) have "w' = w" by (auto simp: user_state_update_def split: if_splits)
  with assms(1) show ?thesis by simp
next
  case False
  then obtain grp where grp: "group_user_txs txs = Inr grp" and ne: "txs \<noteq> []"
    by (cases "group_user_txs txs") auto
  obtain rs w1 lookup ids where
    run: "run_pool sched (user_threads sv grp bn ts bh meta) (w, [], []) = (rs, w1, lookup, ids)"
    by (rule prod_cases4)
  have same: "users (w_db w1) = users (w_db w)" and ok: "pending_ok bn lookup"
    using users_untouched.run_users_keeps [where tbl = "users (w_db w)", OF group_user_txs_ok [OF grp] _ refl run]
    by auto
  have "length (cur_rows us_user_id us_is_current (users (w_db (fold (store_user bn) lookup w1))) u) \<le> 1"
    unfolding fold_store_users [OF ok] same
    by (rule us.one_current_fold_upsert [OF assms(1)]) (use ok in \<open>auto simp: pending_ok_def\<close>)
  moreover have "(\<exists>e. (res, w') = (Inl e, w1)) \<or> (\<exists>x. (res, w') = (Inr x, fold (store_user bn) lookup w1))"
    using assms(2) [symmetric] by (auto simp: user_state_update_def ne grp run split: option.split)
  ultimately show ?thesis using assms(1) same by auto
qed

theorem users_one_current_witness:
  "\<exists>res w'. user_state_update ex_services turns [ex_user_tx] 7 100 ''0xb'' ex_metadata empty_world = (res, w') \<and>
     length (cur_rows us_user_id us_is_current (users (w_db w')) 1) \<le> 1"
proof -
  obtain res w' where run: "user_state_update ex_services turns [ex_user_tx] 7 100 ''0xb'' ex_metadata
    empty_world = (res, w')" by (rule prod.exhaust)
  have "length (cur_rows us_user_id us_is_current (users (w_db empty_world)) u) \<le> 1" for u
    by (simp add: cur_rows_def empty_world_def empty_db_def)
  from users_one_current [OF this run] run show ?thesis by blast
qed

end
