(* ===== verification/Slugs.thy ===== *)
theory Slugs
  imports Helpers
begin

text \<open>
  The URL slugs of src/utils/helpers.py: \<open>create_digital_content_slug\<close> and
  \<open>create_digital_content_route_id\<close>. Characters beyond ASCII are neither white space nor
  changed by \<open>lower()\<close> here. The hash of an id (the package hashids) is the parameter
  \<open>encode_int_id\<close>.
\<close>

section \<open>Regular expressions\<close>

text \<open>\<open>re.sub(p + "+", c, s)\<close> for a class \<open>p\<close> of characters: each maximal run becomes \<open>c\<close>.\<close>

fun collapse :: "(char \<Rightarrow> bool) \<Rightarrow> char \<Rightarrow> string \<Rightarrow> string" where
  "collapse p c [] = []"
| "collapse p c (x # xs) =
     (if p x then (case xs of y # _ \<Rightarrow> if p y then collapse p c xs else c # collapse p c xs | [] \<Rightarrow> [c])
      else x # collapse p c xs)"

text \<open>White space, for \<open>\s\<close> and \<open>strip()\<close>.\<close>

definition is_space :: "char \<Rightarrow> bool" where
  "is_space c = (let n = of_char c :: nat in (9 \<le> n \<and> n \<le> 13) \<or> (28 \<le> n \<and> n \<le> 32))"

definition strip :: "string \<Rightarrow> string" where
  "strip s = rev (dropWhile is_space (rev (dropWhile is_space s)))"

text \<open>The characters the first \<open>re.sub\<close> of the route id removes, and those of the slug.\<close>

definition route_special :: "char \<Rightarrow> bool" where
  "route_special c \<longleftrightarrow> c \<in> set ''!%#$&'' \<or> of_char c = (39::nat) \<or> c \<in> set ''()*+,/:;=?@[]'' \<or>
     of_char c = (0::nat)"

definition slug_special :: "char \<Rightarrow> bool" where
  "slug_special c \<longleftrightarrow> route_special c \<or> c \<in> set ''^.{}'' \<or> of_char c = (34::nat)"

definition dash :: char where
  "dash = CHR ''-''"

section \<open>Numbers\<close>

definition digit :: "nat \<Rightarrow> char" where
  "digit n = char_of (48 + n)"

fun str_nat :: "nat \<Rightarrow> string" where
  "str_nat n = (if n < 10 then [digit n] else str_nat (n div 10) @ [digit (n mod 10)])"

declare str_nat.simps [simp del]

text \<open>\<open>str\<close> of an integer.\<close>

definition str_int :: "int \<Rightarrow> string" where
  "str_int i = (if i < 0 then CHR ''-'' # str_nat (nat (- i)) else str_nat (nat i))"

definition is_digit :: "char \<Rightarrow> bool" where
  "is_digit c = (let n = of_char c :: nat in 48 \<le> n \<and> n \<le> 57)"

section \<open>Slugs\<close>

definition create_digital_content_route_id :: "string \<Rightarrow> string \<Rightarrow> string" where
  "create_digital_content_route_id title handle =
     (let t = filter (\<lambda>c. \<not> route_special c) title;
          t = collapse is_space dash t;
          t = collapse (\<lambda>c. c = dash) dash t
      in str_lower handle @ ''/'' @ str_lower t)"

definition sanitize_title :: "string \<Rightarrow> string" where
  "sanitize_title title =
     (let t = filter (\<lambda>c. \<not> slug_special c) title;
          t = collapse is_space dash (strip t);
          t = collapse (\<lambda>c. c = dash) dash t
      in str_lower t)"

definition create_digital_content_slug ::
  "(int \<Rightarrow> string) \<Rightarrow> string \<Rightarrow> int \<Rightarrow> nat \<Rightarrow> string" where
  "create_digital_content_slug encode_int_id title digital_content_id collision_id =
     (let t = sanitize_title title;
          t = (if t = [] then encode_int_id digital_content_id else t)
      in if collision_id > 0 then t @ ''-'' @ str_nat collision_id else t)"

section \<open>Lemmas\<close>

lemma slug_collision:
  "create_digital_content_slug enc title i n =
     (if n = 0 then create_digital_content_slug enc title i 0
      else create_digital_content_slug enc title i 0 @ ''-'' @ str_nat n)"
  by (simp add: create_digital_content_slug_def Let_def)

lemma of_char_digit: "n < 10 \<Longrightarrow> of_char (digit n) = (48 + n)"
  by (simp add: digit_def)

lemma str_nat_small: "n < 10 \<Longrightarrow> str_nat n = [digit n]"
  by (subst str_nat.simps) simp

lemma str_nat_big: "\<not> n < 10 \<Longrightarrow> str_nat n = str_nat (n div 10) @ [digit (n mod 10)]"
  by (subst str_nat.simps) simp

lemma str_nat_nonempty [simp]: "str_nat n \<noteq> []"
  by (subst str_nat.simps) simp

lemma is_digit_digit: "n < 10 \<Longrightarrow> is_digit (digit n)"
  by (simp add: is_digit_def of_char_digit)

lemma is_digit_str_nat: "list_all is_digit (str_nat n)"
proof (induction n rule: less_induct)
  case (less n)
  show ?case
    by (cases "n < 10") (simp_all add: str_nat_small str_nat_big is_digit_digit less)
qed

lemma last_str_nat: "is_digit (last (str_nat n))"
  using is_digit_str_nat [of n] by (simp add: list_all_iff)

text \<open>Reading the digits back.\<close>

definition digits_value :: "string \<Rightarrow> nat" where
  "digits_value s = foldl (\<lambda>v c. 10 * v + (of_char c - 48)) 0 s"

lemma digits_value_str_nat: "digits_value (str_nat n) = n"
proof (induction n rule: less_induct)
  case (less n)
  show ?case
  proof (cases "n < 10")
    case True
    then show ?thesis by (simp add: str_nat_small digits_value_def of_char_digit)
  next
    case False
    then have "digits_value (str_nat n) = 10 * digits_value (str_nat (n div 10)) + n mod 10"
      by (simp add: str_nat_big digits_value_def of_char_digit)
    with less [of "n div 10"] False show ?thesis by simp
  qed
qed

lemma str_nat_inject [simp]: "str_nat m = str_nat n \<longleftrightarrow> m = n"
  by (metis digits_value_str_nat)

lemma slug_inject:
  "create_digital_content_slug enc title i m = create_digital_content_slug enc title i n \<longleftrightarrow> m = n"
  by (subst (1 2) slug_collision) auto

lemma slug_ends_in_digit: "0 < n \<Longrightarrow> is_digit (last (create_digital_content_slug enc title i n))"
  by (subst slug_collision) (simp add: last_str_nat)

lemma collapse_Cons:
  "collapse p c (x # xs) =
     (if p x \<and> xs \<noteq> [] \<and> p (hd xs) then collapse p c xs
      else (if p x then c else x) # collapse p c xs)"
  by (cases xs) auto

declare collapse.simps(2) [simp del]

lemma set_collapse: "set (collapse p c s) \<subseteq> {x \<in> set s. \<not> p x} \<union> {c}"
  by (induction s) (auto simp: collapse_Cons)

fun no_double :: "char \<Rightarrow> string \<Rightarrow> bool" where
  "no_double c (x # y # r) = (\<not> (x = c \<and> y = c) \<and> no_double c (y # r))"
| "no_double c s = True"

lemma collapse_hd: "s \<noteq> [] \<Longrightarrow> collapse (\<lambda>x. x = c) c s \<noteq> [] \<and> hd (collapse (\<lambda>x. x = c) c s) = hd s"
  by (induction s) (auto simp: collapse_Cons)

lemma no_double_Cons: "no_double c (x # s) \<longleftrightarrow> no_double c s \<and> (s \<noteq> [] \<longrightarrow> \<not> (x = c \<and> hd s = c))"
  by (cases s) auto

lemma no_double_collapse: "no_double c (collapse (\<lambda>x. x = c) c s)"
proof (induction s)
  case Nil
  then show ?case by simp
next
  case (Cons x xs)
  then show ?case
    using collapse_hd [of xs c] by (cases "xs = []") (auto simp: collapse_Cons no_double_Cons)
qed

lemma of_char_char_of: "n < 256 \<Longrightarrow> of_char (char_of n :: char) = (n :: nat)"
  by simp

lemma of_char_dash [simp]: "of_char dash = (45::nat)"
  by (simp add: dash_def)

lemma lower_char_cases: "lower_char c = c \<or> (97 \<le> (of_char (lower_char c) :: nat) \<and> of_char (lower_char c) \<le> (122::nat))"
  by (auto simp: lower_char_def Let_def)

lemma lower_char_not_upper: "\<not> (65 \<le> (of_char (lower_char c) :: nat) \<and> of_char (lower_char c) \<le> (90::nat))"
  by (auto simp: lower_char_def Let_def)

lemma special_not_letter: "slug_special c \<Longrightarrow> \<not> (97 \<le> (of_char c :: nat) \<and> of_char c \<le> (122::nat))"
  by (auto simp: slug_special_def route_special_def)

lemma lower_char_safe:
  "\<not> slug_special c \<Longrightarrow> \<not> is_space c \<Longrightarrow> \<not> slug_special (lower_char c) \<and> \<not> is_space (lower_char c)"
  using lower_char_cases [of c] special_not_letter [of "lower_char c"]
  by (auto simp: is_space_def Let_def)

lemma dash_safe: "\<not> slug_special dash \<and> \<not> is_space dash \<and> lower_char dash = dash"
  by (simp add: slug_special_def route_special_def is_space_def dash_def lower_char_def)

lemma lower_char_dash: "lower_char c = dash \<longleftrightarrow> c = dash"
proof
  assume "lower_char c = dash"
  then show "c = dash" using lower_char_cases [of c] by (auto simp: dash_def)
qed (simp add: dash_safe)

lemma no_double_lower: "no_double dash s \<Longrightarrow> no_double dash (str_lower s)"
  by (induction dash s rule: no_double.induct) (auto simp: str_lower_def lower_char_dash)

section \<open>Properties\<close>

text \<open>
  Sanitized titles are safe in a URL: none of the characters the code means to escape,
  no white space, no upper case letter, and no two dashes in a row.
\<close>

theorem sanitize_title_safe:
  "list_all (\<lambda>c. \<not> slug_special c \<and> \<not> is_space c \<and>
      \<not> (65 \<le> (of_char c :: nat) \<and> of_char c \<le> (90::nat))) (sanitize_title title) \<and>
   no_double dash (sanitize_title title)"
proof -
  let ?t = "filter (\<lambda>c. \<not> slug_special c) title"
  let ?u = "collapse is_space dash (strip ?t)"
  let ?v = "collapse (\<lambda>c. c = dash) dash ?u"
  have strip: "set (strip s) \<subseteq> set s" for s
    by (auto simp: strip_def dest!: set_dropWhileD)
  have u: "\<not> slug_special c \<and> \<not> is_space c" if "c \<in> set ?u" for c
  proof -
    have "c \<in> set ?t \<and> \<not> is_space c \<or> c = dash"
      using that set_collapse [of is_space dash "strip ?t"] strip [of ?t] by blast
    then show ?thesis using dash_safe by (auto simp only: set_filter mem_Collect_eq)
  qed
  have v: "\<not> slug_special c \<and> \<not> is_space c" if "c \<in> set ?v" for c
  proof -
    have "c \<in> set ?u \<or> c = dash" using that set_collapse [of "\<lambda>c. c = dash" dash ?u] by blast
    then show ?thesis using u [of c] dash_safe by blast
  qed
  have "\<not> slug_special (lower_char c) \<and> \<not> is_space (lower_char c) \<and>
      \<not> (65 \<le> (of_char (lower_char c) :: nat) \<and> of_char (lower_char c) \<le> (90::nat))" if "c \<in> set ?v" for c
    using v [OF that] lower_char_safe [of c] lower_char_not_upper [of c] by simp
  moreover have "no_double dash (str_lower ?v)"
    by (intro no_double_lower no_double_collapse)
  ultimately show ?thesis
    by (simp add: sanitize_title_def Let_def str_lower_def list_all_iff)
qed

end
