(* ===== verification/Digital_Contents.thy ===== *)
theory Digital_Contents
  imports Users Slugs
begin

text \<open>
  src/tasks/digital_contents.py: the handler of the DigitalContentFactory contract. The first
  part is the routing table, where every title gets a slug no other content of the owner
  uses; then the row of a content, filled from its metadata document, its stems and remixes,
  and the handler.
\<close>

datatype digital_content_event = NewDigitalContent | UpdateDigitalContent | DigitalContentDeleted

definition digital_content_event_types_arr :: "digital_content_event list" where
  "digital_content_event_types_arr = [NewDigitalContent, UpdateDigitalContent, DigitalContentDeleted]"

record digital_content_args =
  da_digitalContentId :: "int option"
  da_id :: int
  da_digitalContentOwnerId :: int
  da_multihashDigest :: bytes
  da_multihashHashFn :: nat

type_synonym digital_content_receipt = "(digital_content_event, digital_content_args) tx_receipt"

text \<open>
  \<open>b58encode\<close> of base58, and the hash of an id with the service's salt (hashids).
\<close>

record content_services =
  cs_b58 :: "bytes \<Rightarrow> string"
  encode_int_id :: "int \<Rightarrow> string"

text \<open>
  The handler's state: the world and \<open>pending_digital_content_routes\<close>. The pending routes are
  also rows of the session, so they are in the table as well, and a change of one is made in
  both places; (owner, slug) is the primary key of the table.
\<close>

type_synonym dc_state = "world \<times> route_row list"

definition dc_update_db :: "(db \<Rightarrow> db) \<Rightarrow> (dc_state, unit) py" where
  "dc_update_db f = py_modify (\<lambda>(w, pending). (update_db f w, pending))"

section \<open>Routes\<close>

definition title_string :: "json \<Rightarrow> exc + string" where
  "title_string title = (case title of JStr s \<Rightarrow> Inr s | _ \<Rightarrow> Inl (AttributeError ''encode''))"

text \<open>The current route of the content: the pending ones first, then the table.\<close>

definition prev_route :: "int \<Rightarrow> dc_state \<Rightarrow> exc + route_row option" where
  "prev_route i s =
     (case s of (w, pending) \<Rightarrow>
        (case find (\<lambda>q. rt_is_current q \<and> rt_digital_content_id q = i) pending of
           Some q \<Rightarrow> Inr (Some q)
         | None \<Rightarrow>
             (case filter (\<lambda>q. rt_digital_content_id q = i \<and> rt_is_current q)
                     (digital_content_routes (w_db w)) of
                [] \<Rightarrow> Inr None
              | [q] \<Rightarrow> Inr (Some q)
              | _ \<Rightarrow> Inl (PyException ''MultipleResultsFound''))))"

text \<open>\<open>prev_digital_content_route_record.is_current = False\<close>\<close>

definition retire_route :: "route_row \<Rightarrow> dc_state \<Rightarrow> dc_state" where
  "retire_route p s =
     (case s of (w, pending) \<Rightarrow>
        let off = sql_update (\<lambda>q. rt_slug q = rt_slug p \<and> rt_owner_id q = rt_owner_id p)
              (\<lambda>q. q\<lparr>rt_is_current := False\<rparr>)
        in (update_db (\<lambda>d. d\<lparr>digital_content_routes := off (digital_content_routes d)\<rparr>) w, off pending))"

text \<open>The greatest collision id of the routes of the owner with the title slug.\<close>

definition max_collision :: "string \<Rightarrow> int option \<Rightarrow> route_row list \<Rightarrow> nat option" where
  "max_collision title_slug owner routes =
     (case filter (\<lambda>q. rt_title_slug q = title_slug \<and> rt_owner_id q = owner) routes of
        [] \<Rightarrow> None
      | q # qs \<Rightarrow> Some (fold (\<lambda>q m. max m (nat (rt_collision_id q))) qs (nat (rt_collision_id q))))"

definition slug_taken :: "int option \<Rightarrow> dc_state \<Rightarrow> string \<Rightarrow> bool" where
  "slug_taken owner s slug =
     (case s of (w, pending) \<Rightarrow>
        (case find (\<lambda>q. rt_slug q = slug \<and> rt_owner_id q = owner) pending of
           Some q \<Rightarrow> True
         | None \<Rightarrow> find (\<lambda>q. rt_slug q = slug \<and> rt_owner_id q = owner)
                    (digital_content_routes (w_db w)) \<noteq> None))"

text \<open>
  The loop \<open>while has_collisions\<close>: the next collision id whose slug is free; None when the
  loop does not end (\<open>next_collision_returns\<close> below shows that it does).
\<close>

partial_function (option) next_collision ::
  "(string \<Rightarrow> bool) \<Rightarrow> (nat \<Rightarrow> string) \<Rightarrow> nat \<Rightarrow> nat option" where
  "next_collision taken slug n =
     (if taken (slug (n + 1)) then next_collision taken slug (n + 1) else Some (n + 1))"

text \<open>The greatest collision id among the pending routes, or else in the table.\<close>

definition latest_collision :: "string \<Rightarrow> int option \<Rightarrow> dc_state \<Rightarrow> nat option" where
  "latest_collision title_slug owner s =
     (case max_collision title_slug owner (snd s) of
        Some m \<Rightarrow> Some m
      | None \<Rightarrow> max_collision title_slug owner (digital_content_routes (w_db (fst s))))"

definition choose_collision_id ::
  "string \<Rightarrow> (nat \<Rightarrow> string) \<Rightarrow> int option \<Rightarrow> dc_state \<Rightarrow> exc + nat" where
  "choose_collision_id title_slug slug owner s =
     (let max_id = latest_collision title_slug owner s
      in if title_slug = [] then Inl (PyException ''string index out of range'')
         else if max_id \<noteq> None \<or> is_digit (last title_slug) \<and> slug_taken owner s title_slug then
           (case next_collision (slug_taken owner s) slug (case max_id of None \<Rightarrow> 0 | Some m \<Rightarrow> m) of
              Some n \<Rightarrow> Inr n
            | None \<Rightarrow> Inl (RuntimeError ''the loop does not end''))
         else Inr 0)"

definition add_route :: "route_row \<Rightarrow> dc_state \<Rightarrow> dc_state" where
  "add_route q s = (case s of (w, pending) \<Rightarrow>
     (update_db (\<lambda>d. d\<lparr>digital_content_routes := digital_content_routes d @ [q]\<rparr>) w, pending @ [q]))"

definition insert_route ::
  "content_services \<Rightarrow> digital_content_row \<Rightarrow> string \<Rightarrow> string \<Rightarrow> (dc_state, unit) py" where
  "insert_route sv r title title_slug =
     (let slug = create_digital_content_slug (encode_int_id sv) title (dc_id r) in
      py_bind (\<lambda>s. (choose_collision_id title_slug slug (dc_owner_id r) s, s)) (\<lambda>n.
        py_modify (add_route
          \<lparr>rt_slug = (if n = 0 then title_slug else slug n), rt_title_slug = title_slug,
           rt_collision_id = int n, rt_owner_id = dc_owner_id r, rt_digital_content_id = dc_id r,
           rt_is_current = True, rt_blockhash = dc_blockhash r, rt_blocknumber = dc_blocknumber r,
           rt_txhash = dc_txhash r\<rparr>)))"

definition update_digital_content_routes_table ::
  "content_services \<Rightarrow> digital_content_row \<Rightarrow> json \<Rightarrow> (dc_state, unit) py" where
  "update_digital_content_routes_table sv r title =
     (if dc_title r = title then py_return ()
      else py_bind (py_lift (title_string title)) (\<lambda>t.
        let title_slug = create_digital_content_slug (encode_int_id sv) t (dc_id r) 0 in
        py_bind (\<lambda>s. (prev_route (dc_id r) s, s)) (\<lambda>prev.
          case prev of
            None \<Rightarrow> insert_route sv r t title_slug
          | Some p \<Rightarrow>
              if rt_title_slug p = title_slug then py_return ()
              else py_seq (py_modify (retire_route p)) (insert_route sv r t title_slug))))"

section \<open>Lemmas on the routes\<close>

lemma next_collision_free:
  "next_collision taken slug n = Some m \<Longrightarrow> n < m \<and> \<not> taken (slug m)"
  by (erule next_collision.raw_induct [where P = "\<lambda>taken slug n m. n < m \<and> \<not> taken (slug m)", rotated])
    (fastforce split: if_splits)

lemma next_collision_returns:
  assumes "finite {s. taken s}" and "inj slug"
  shows "\<exists>m. next_collision taken slug n = Some m"
proof -
  have "finite (slug -` {s. taken s})"
    using assms by (intro finite_vimageI)
  then obtain b where b: "\<And>k. taken (slug k) \<Longrightarrow> k < b"
    using finite_nat_set_iff_bounded by auto
  show ?thesis
  proof (induction "b - n" arbitrary: n rule: less_induct)
    case less
    show ?case
    proof (cases "taken (slug (n + 1))")
      case True
      then have "n + 1 < b" by (rule b)
      with less [of "n + 1"] True show ?thesis
        by (subst next_collision.simps) auto
    next
      case False
      then show ?thesis by (subst next_collision.simps) auto
    qed
  qed
qed

lemma slug_taken_iff:
  "slug_taken owner (w, pending) slug \<longleftrightarrow>
     (\<exists>q\<in>set pending \<union> set (digital_content_routes (w_db w)). rt_slug q = slug \<and> rt_owner_id q = owner)"
  by (auto simp: slug_taken_def find_None_iff find_Some_iff split: option.split)

lemma finite_slug_taken: "finite {slug. slug_taken owner s slug}"
proof -
  obtain w pending where s: "s = (w, pending)" by (cases s)
  have "{slug. slug_taken owner s slug} \<subseteq> rt_slug ` (set pending \<union> set (digital_content_routes (w_db w)))"
    unfolding s slug_taken_iff by auto
  then show ?thesis by (rule finite_subset) simp
qed

lemma inj_slug: "inj (create_digital_content_slug enc t i)"
  by (auto intro: injI simp: slug_inject)

text \<open>
  The invariant of the routing table: slugs are made of a title slug and a collision id, the
  slugs of an owner are distinct, a content has at most one current route, and the pending
  routes are in the table.
\<close>

definition route_wf :: "route_row \<Rightarrow> bool" where
  "route_wf q \<longleftrightarrow> 0 \<le> rt_collision_id q \<and> rt_title_slug q \<noteq> [] \<and>
     rt_slug q = (if rt_collision_id q = 0 then rt_title_slug q
                  else rt_title_slug q @ ''-'' @ str_nat (nat (rt_collision_id q)))"

definition current_routes :: "int \<Rightarrow> route_row list \<Rightarrow> route_row list" where
  "current_routes i tbl = filter (\<lambda>q. rt_digital_content_id q = i \<and> rt_is_current q) tbl"

definition routes_ok :: "dc_state \<Rightarrow> bool" where
  "routes_ok s \<longleftrightarrow> (let tbl = digital_content_routes (w_db (fst s)) in
     (\<forall>q\<in>set tbl. route_wf q) \<and> distinct (map (\<lambda>q. (rt_owner_id q, rt_slug q)) tbl) \<and>
     (\<forall>i. length (current_routes i tbl) \<le> 1) \<and> set (snd s) \<subseteq> set tbl)"

lemma max_collision_None:
  "max_collision t owner routes = None \<Longrightarrow> q \<in> set routes \<Longrightarrow> \<not> (rt_title_slug q = t \<and> rt_owner_id q = owner)"
  by (auto simp: max_collision_def filter_empty_conv split: list.splits)

text \<open>The chosen slug is free.\<close>

lemma chosen_slug_free:
  assumes ok: "routes_ok s"
    and choose: "choose_collision_id t slug owner s = Inr n" and slug: "\<And>n. slug n = (if n = 0 then t else t @ ''-'' @ str_nat n)"
  shows "\<not> slug_taken owner s (if n = 0 then t else slug n)" and "t \<noteq> []"
proof -
  obtain w pending where s: "s = (w, pending)" by (cases s)
  let ?tbl = "digital_content_routes (w_db w)"
  let ?max = "latest_collision t owner s"
  show t: "t \<noteq> []" using choose by (auto simp: choose_collision_id_def Let_def)
  show "\<not> slug_taken owner s (if n = 0 then t else slug n)"
  proof (cases "?max \<noteq> None \<or> is_digit (last t) \<and> slug_taken owner s t")
    case True
    then obtain k where "next_collision (slug_taken owner s) slug k = Some n"
      using choose t by (auto simp: choose_collision_id_def Let_def split: option.splits)
    then show ?thesis using next_collision_free by fastforce
  next
    case False
    then have n: "n = 0" using choose t by (auto simp: choose_collision_id_def Let_def)
    have "\<not> slug_taken owner s t"
    proof
      assume taken: "slug_taken owner s t"
      then obtain q where q: "q \<in> set ?tbl" "rt_slug q = t" "rt_owner_id q = owner"
        using ok by (auto simp: s slug_taken_iff routes_ok_def Let_def)
      have wf: "route_wf q" using q(1) ok by (simp add: routes_ok_def s Let_def)
      show False
      proof (cases "rt_collision_id q = 0")
        case True
        with wf q have "rt_title_slug q = t" by (simp add: route_wf_def)
        with q max_collision_None [of t owner ?tbl q] have "max_collision t owner ?tbl \<noteq> None" by blast
        with False show ?thesis by (auto simp: latest_collision_def s split: option.splits)
      next
        case False
        with wf q have "is_digit (last t)"
          by (metis append_is_Nil_conv last_appendR last_str_nat route_wf_def str_nat_nonempty)
        with taken \<open>\<not> (?max \<noteq> None \<or> is_digit (last t) \<and> slug_taken owner s t)\<close> show ?thesis by blast
      qed
    qed
    then show ?thesis by (simp add: n)
  qed
qed

abbreviation route_table :: "dc_state \<Rightarrow> route_row list" where
  "route_table s \<equiv> digital_content_routes (w_db (fst s))"

lemma current_routes_mem: "q \<in> set (current_routes i tbl) \<longleftrightarrow> q \<in> set tbl \<and> rt_digital_content_id q = i \<and> rt_is_current q"
  by (auto simp: current_routes_def)

lemma prev_route_eq:
  assumes "routes_ok s"
  shows "prev_route i s = Inr (case current_routes i (route_table s) of [] \<Rightarrow> None | q # _ \<Rightarrow> Some q)"
proof -
  obtain w pending where s: "s = (w, pending)" by (cases s)
  let ?cur = "current_routes i (digital_content_routes (w_db w))"
  have le: "length ?cur \<le> 1" and sub: "set pending \<subseteq> set (digital_content_routes (w_db w))"
    using assms by (auto simp: routes_ok_def s Let_def)
  show ?thesis
  proof (cases "find (\<lambda>q. rt_is_current q \<and> rt_digital_content_id q = i) pending")
    case None
    then show ?thesis using le
      by (cases ?cur rule: remdups_adj.cases) (simp_all add: prev_route_def s current_routes_def)
  next
    case (Some q)
    then have "q \<in> set ?cur" using sub by (auto simp: current_routes_mem find_Some_iff)
    then show ?thesis using le Some
      by (cases ?cur rule: remdups_adj.cases) (auto simp: prev_route_def s)
  qed
qed

definition retire :: "route_row \<Rightarrow> route_row list \<Rightarrow> route_row list" where
  "retire p = sql_update (\<lambda>q. rt_slug q = rt_slug p \<and> rt_owner_id q = rt_owner_id p)
     (\<lambda>q. q\<lparr>rt_is_current := False\<rparr>)"

lemma current_routes_retire: "length (current_routes i (retire p tbl)) \<le> length (current_routes i tbl)"
  by (induction tbl) (auto simp: current_routes_def retire_def sql_update_def)

lemma retire_ok: "routes_ok s \<Longrightarrow> routes_ok (retire_route p s)"
proof -
  assume ok: "routes_ok s"
  obtain w pending where s: "s = (w, pending)" by (cases s)
  let ?tbl = "digital_content_routes (w_db w)"
  have st: "route_table (retire_route p s) = retire p ?tbl" "snd (retire_route p s) = retire p pending"
    by (simp_all add: retire_route_def s retire_def Let_def)
  have "map (\<lambda>q. (rt_owner_id q, rt_slug q)) (retire p ?tbl) = map (\<lambda>q. (rt_owner_id q, rt_slug q)) ?tbl"
    by (simp add: retire_def sql_update_def comp_def)
  moreover have "\<forall>q\<in>set (retire p ?tbl). route_wf q"
    using ok by (auto simp: routes_ok_def s retire_def sql_update_def route_wf_def Let_def)
  moreover have "length (current_routes i (retire p ?tbl)) \<le> 1" for i
    using ok current_routes_retire [of i p ?tbl] by (auto simp: routes_ok_def s Let_def intro: order_trans)
  moreover have "set (retire p pending) \<subseteq> set (retire p ?tbl)"
    using ok by (auto simp: routes_ok_def s retire_def sql_update_def Let_def)
  ultimately show ?thesis
    using ok by (simp add: routes_ok_def Let_def st) (simp add: s)
qed

lemma retire_current:
  assumes "routes_ok s" and "current_routes i (route_table s) = p # ps"
  shows "current_routes i (route_table (retire_route p s)) = []"
proof -
  have ps: "ps = []" using assms by (cases ps) (auto simp: routes_ok_def Let_def dest!: spec [where x = i])
  have "\<not> (rt_digital_content_id q = i \<and> rt_is_current q)" if "q \<in> set (retire p (route_table s))" for q
  proof
    assume q: "rt_digital_content_id q = i \<and> rt_is_current q"
    with that have "q \<in> set (current_routes i (route_table s))" and
      "\<not> (rt_slug q = rt_slug p \<and> rt_owner_id q = rt_owner_id p)"
      by (auto simp: retire_def sql_update_def current_routes_mem split: if_splits)
    with assms ps show False by simp
  qed
  then show ?thesis
    by (cases s) (auto simp: current_routes_def filter_empty_conv retire_route_def retire_def Let_def)
qed

lemma add_route_ok:
  assumes "routes_ok s" and "route_wf q" and "\<not> slug_taken (rt_owner_id q) s (rt_slug q)"
    and "current_routes (rt_digital_content_id q) (route_table s) = []"
  shows "routes_ok (add_route q s)"
proof -
  obtain w pending where s: "s = (w, pending)" by (cases s)
  have "(rt_owner_id q, rt_slug q) \<notin> (\<lambda>q. (rt_owner_id q, rt_slug q)) ` set (digital_content_routes (w_db w))"
    using assms(3) by (auto simp: s slug_taken_iff)
  moreover have "length (current_routes i (digital_content_routes (w_db w) @ [q])) \<le> 1" for i
    using assms(1,4) by (auto simp: s routes_ok_def current_routes_def Let_def)
  ultimately show ?thesis
    using assms(1,2) by (auto simp: routes_ok_def s add_route_def Let_def)
qed

lemma insert_route_run:
  assumes ok: "routes_ok s" and none: "current_routes (dc_id r) (route_table s) = []"
    and t: "t = create_digital_content_slug (encode_int_id sv) title (dc_id r) 0" and ne: "t \<noteq> []"
  obtains q where "insert_route sv r title t s = (Inr (), add_route q s)" and "routes_ok (add_route q s)"
    and "rt_title_slug q = t" and "rt_digital_content_id q = dc_id r" and "rt_is_current q"
    and "rt_owner_id q = dc_owner_id r"
proof -
  let ?slug = "create_digital_content_slug (encode_int_id sv) title (dc_id r)"
  have slug: "?slug n = (if n = 0 then t else t @ ''-'' @ str_nat n)" for n
    unfolding t by (rule slug_collision)
  obtain m where m: "next_collision (slug_taken (dc_owner_id r) s) ?slug
      (case latest_collision t (dc_owner_id r) s of None \<Rightarrow> 0 | Some m \<Rightarrow> m) = Some m"
    using next_collision_returns [OF finite_slug_taken inj_slug] by blast
  have "\<exists>n. choose_collision_id t ?slug (dc_owner_id r) s = Inr n"
    using ne by (simp add: choose_collision_id_def Let_def m)
  then obtain n where n: "choose_collision_id t ?slug (dc_owner_id r) s = Inr n" by blast
  let ?q = "\<lparr>rt_slug = (if n = 0 then t else ?slug n), rt_title_slug = t, rt_collision_id = int n,
    rt_owner_id = dc_owner_id r, rt_digital_content_id = dc_id r, rt_is_current = True,
    rt_blockhash = dc_blockhash r, rt_blocknumber = dc_blocknumber r, rt_txhash = dc_txhash r\<rparr>"
  have "routes_ok (add_route ?q s)"
    by (rule add_route_ok [OF ok])
      (use none ne slug chosen_slug_free(1) [OF ok n slug] in \<open>auto simp: route_wf_def\<close>)
  moreover have "insert_route sv r title t s = (Inr (), add_route ?q s)"
    by (simp add: insert_route_def Let_def py_bind_def py_modify_def n)
  ultimately show thesis by (intro that) auto
qed

lemma update_routes_run:
  assumes "routes_ok (w, pending)" and "encode_int_id sv (dc_id r) \<noteq> []"
    and "update_digital_content_routes_table sv r title (w, pending) = (res, (w', pending'))"
  shows "routes_ok (w', pending') \<and>
    (res = Inr () \<longleftrightarrow> dc_title r = title \<or> (\<exists>t. title = JStr t)) \<and>
    (\<forall>t. title = JStr t \<and> dc_title r \<noteq> title \<longrightarrow>
       (\<exists>q. current_routes (dc_id r) (digital_content_routes (w_db w')) = [q] \<and>
          rt_title_slug q = create_digital_content_slug (encode_int_id sv) t (dc_id r) 0))"
proof (cases "dc_title r = title \<or> (\<forall>t. title \<noteq> JStr t)")
  case True
  then have "(w', pending') = (w, pending) \<and> (res = Inr () \<longleftrightarrow> dc_title r = title)"
    using assms(3) by (cases title)
      (auto simp: update_digital_content_routes_table_def py_defs title_string_def split: if_splits)
  with True assms(1) show ?thesis by auto
next
  case False
  then obtain t where t: "title = JStr t" "dc_title r \<noteq> title" by blast
  let ?s = "(w, pending)"
  let ?t = "create_digital_content_slug (encode_int_id sv) t (dc_id r) 0"
  have ne: "?t \<noteq> []"
    using assms(2) by (simp add: create_digital_content_slug_def Let_def)
  have one: "current_routes i (route_table s) = [q]"
    if "routes_ok s" "q \<in> set (current_routes i (route_table s))" for s i q
    using that by (cases "current_routes i (route_table s)" rule: remdups_adj.cases)
      (auto simp: routes_ok_def Let_def dest!: spec [where x = i])
  have run: "update_digital_content_routes_table sv r title ?s =
    (case current_routes (dc_id r) (route_table ?s) of
       [] \<Rightarrow> insert_route sv r t ?t ?s
     | p # ps \<Rightarrow> if rt_title_slug p = ?t then (Inr (), ?s) else insert_route sv r t ?t (retire_route p ?s))"
    using t by (simp add: update_digital_content_routes_table_def py_defs title_string_def Let_def
        prev_route_eq [OF assms(1)] split: list.split)
  have insert: "routes_ok s' \<and> res' = Inr () \<and> (\<exists>q. current_routes (dc_id r) (route_table s') = [q] \<and> rt_title_slug q = ?t)"
    if s: "routes_ok s" "current_routes (dc_id r) (route_table s) = []"
      and step: "insert_route sv r t ?t s = (res', s')" for s s' res'
  proof (rule insert_route_run [OF s refl ne])
    fix q
    assume q: "insert_route sv r t ?t s = (Inr (), add_route q s)" "routes_ok (add_route q s)"
      "rt_title_slug q = ?t" "rt_digital_content_id q = dc_id r" "rt_is_current q"
    have "q \<in> set (current_routes (dc_id r) (route_table (add_route q s)))"
      using q by (cases s) (simp add: current_routes_mem add_route_def)
    with q step one [OF q(2)] show ?thesis by auto
  qed
  show ?thesis
  proof (cases "current_routes (dc_id r) (route_table ?s)")
    case Nil
    then show ?thesis using insert [OF assms(1) Nil] run assms(3) t by auto
  next
    case (Cons p ps)
    show ?thesis
    proof (cases "rt_title_slug p = ?t")
      case True
      have "current_routes (dc_id r) (route_table ?s) = [p]" by (rule one [OF assms(1)]) (use Cons in simp)
      with True Cons run assms(1,3) t show ?thesis by auto
    next
      case False
      then show ?thesis
        using insert [OF retire_ok [OF assms(1)] retire_current [OF assms(1) Cons]] run assms(3) t Cons
        by auto
    qed
  qed
qed

section \<open>Stems and remixes\<close>

text \<open>\<open>m[k]\<close> of a metadata document.\<close>

definition meta_get :: "metadata \<Rightarrow> string \<Rightarrow> exc + json" where
  "meta_get m k = (case map_of m k of None \<Rightarrow> Inl (KeyError k) | Some v \<Rightarrow> Inr v)"

text \<open>\<open>isinstance(v.get(k), int)\<close> on an object.\<close>

definition int_field :: "metadata \<Rightarrow> string \<Rightarrow> int option" where
  "int_field kvs k = Option.bind (map_of kvs k) json_int"

definition update_stems_table :: "digital_content_row \<Rightarrow> metadata \<Rightarrow> db \<Rightarrow> db" where
  "update_stems_table r m d =
     (case map_of m ''stem_of'' of
        Some (JObj kvs) \<Rightarrow>
          (case int_field kvs ''parent_digital_content_id'' of
             None \<Rightarrow> d
           | Some parent \<Rightarrow>
               if (parent, dc_id r) \<in> set (stems d) then d
               else d\<lparr>stems := stems d @ [(parent, dc_id r)]\<rparr>)
      | _ \<Rightarrow> d)"

definition remix_parents :: "metadata \<Rightarrow> int list" where
  "remix_parents m =
     (case map_of m ''remix_of'' of
        Some (JObj kvs) \<Rightarrow>
          (case map_of kvs ''digitalContents'' of
             Some (JList cs) \<Rightarrow>
               concat (map (\<lambda>c. case c of
                 JObj kvs \<Rightarrow> (case int_field kvs ''parent_digital_content_id'' of
                     None \<Rightarrow> [] | Some p \<Rightarrow> [p])
               | _ \<Rightarrow> []) cs)
           | _ \<Rightarrow> [])
      | _ \<Rightarrow> [])"

definition update_remixes_table :: "digital_content_row \<Rightarrow> metadata \<Rightarrow> db \<Rightarrow> db" where
  "update_remixes_table r m d =
     d\<lparr>remixes := sql_delete (\<lambda>(parent, child). child = dc_id r) (remixes d) @
        map (\<lambda>p. (p, dc_id r)) (remix_parents m)\<rparr>"

section \<open>Editing a row\<close>

text \<open>
  The columns filled from the metadata without change are kept in the dictionary
  \<open>dc_metadata\<close> of the row, in the order the code assigns them: text columns (from which NUL
  characters are dropped) and JSON columns.
\<close>

definition text_columns :: "string list" where
  "text_columns = [''tags'', ''genre'', ''mood'', ''credits_splits'', ''create_date'', ''release_date'',
     ''file_type'', ''description'', ''license'', ''isrc'', ''iswc'']"

definition column_json :: "json \<Rightarrow> json" where
  "column_json v = (case v of JStr s \<Rightarrow> JStr (column_text s) | _ \<Rightarrow> v)"

definition copy_column :: "(json \<Rightarrow> json) \<Rightarrow> metadata \<Rightarrow> string \<Rightarrow>
  exc + digital_content_row \<Rightarrow> exc + digital_content_row" where
  "copy_column f m k acc = exc_bind acc (\<lambda>r. exc_bind (meta_get m k) (\<lambda>v.
     Inr (r\<lparr>dc_metadata := AList.update k (f v) (dc_metadata r)\<rparr>)))"

definition is_valid_json_field :: "metadata \<Rightarrow> string \<Rightarrow> bool" where
  "is_valid_json_field m k = (case map_of m k of Some (JObj kvs) \<Rightarrow> kvs \<noteq> [] | _ \<Rightarrow> False)"

definition valid_or_null :: "metadata \<Rightarrow> string \<Rightarrow> json" where
  "valid_or_null m k = (if is_valid_json_field m k then the (map_of m k) else JNull)"

text \<open>\<open>v == True\<close>: in Python the number 1 equals True.\<close>

definition equals_true :: "json option \<Rightarrow> bool" where
  "equals_true v = (v = Some (JBool True) \<or> v = Some (JInt 1))"

definition download_column :: "metadata \<Rightarrow> exc + json" where
  "download_column m =
     (case map_of m ''download'' of
        None \<Rightarrow> Inr (JObj [(''is_downloadable'', JBool False), (''requires_follow'', JBool False), (''cid'', JNull)])
      | Some (JObj kvs) \<Rightarrow>
          Inr (JObj [(''is_downloadable'', JBool (equals_true (map_of kvs ''is_downloadable''))),
                     (''requires_follow'', JBool (equals_true (map_of kvs ''requires_follow''))),
                     (''cid'', case map_of kvs ''cid'' of None \<Rightarrow> JNull | Some v \<Rightarrow> v)])
      | Some v \<Rightarrow> Inl (AttributeError ''get''))"

definition populate_digital_content_record_metadata ::
  "digital_content_row \<Rightarrow> metadata \<Rightarrow> string \<Rightarrow> exc + digital_content_row" where
  "populate_digital_content_record_metadata r m handle =
     exc_bind (meta_get m ''title'') (\<lambda>title.
     exc_bind (copy_column (\<lambda>v. if json_truthy v then v else JInt 0) m ''length''
       (Inr (r\<lparr>dc_title := column_json title\<rparr>))) (\<lambda>r.
     exc_bind (meta_get m ''cover_art'') (\<lambda>cover_art.
     exc_bind (meta_get m ''cover_art_sizes'') (\<lambda>sizes.
     exc_bind (fold (copy_column column_json m) text_columns
       (Inr (r\<lparr>dc_cover_art := column_json (if json_truthy sizes then sizes else cover_art)\<rparr>))) (\<lambda>r.
     exc_bind (copy_column (\<lambda>v. v) m ''digital_content_segments'' (Inr r)) (\<lambda>r.
     exc_bind (meta_get m ''is_unlisted'') (\<lambda>unlisted.
     exc_bind (copy_column (\<lambda>v. v) m ''field_visibility'' (Inr (r\<lparr>dc_is_unlisted := unlisted\<rparr>))) (\<lambda>r.
     exc_bind (download_column m) (\<lambda>download.
     exc_bind (title_string title) (\<lambda>t.
     Inr (r\<lparr>dc_stem_of := valid_or_null m ''stem_of'',
            dc_remix_of := valid_or_null m ''remix_of'',
            dc_download := download,
            dc_route_id := Some (column_text (create_digital_content_route_id t handle))\<rparr>)))))))))))"

definition digital_content_required_fields_present :: "digital_content_row \<Rightarrow> bool" where
  "digital_content_required_fields_present r \<longleftrightarrow>
     dc_owner_id r \<noteq> None \<and> dc_created_at r \<noteq> None \<and> dc_updated_at r \<noteq> None \<and>
     (case map_of (dc_metadata r) ''digital_content_segments'' of
        None \<Rightarrow> False | Some v \<Rightarrow> v \<noteq> JNull)"

definition lookup_digital_content_record ::
  "db \<Rightarrow> int \<Rightarrow> int \<Rightarrow> hash \<Rightarrow> hash \<Rightarrow> exc + digital_content_row" where
  "lookup_digital_content_record d i block_number block_hash txhash =
     (let stamp = (\<lambda>r. r\<lparr>dc_blocknumber := Some block_number, dc_blockhash := Some block_hash,
            dc_txhash := txhash\<rparr>)
      in if sql_count (\<lambda>r. dc_id r = i) (digital_contents d) > 0 then
           (case sql_first (\<lambda>r. dc_id r = i \<and> dc_is_current r) (digital_contents d) of
              None \<Rightarrow> Inl (PyException ''Class builtins.NoneType is not mapped'')
            | Some r \<Rightarrow> Inr (stamp r))
         else Inr (stamp
           \<lparr>dc_blockhash = None, dc_blocknumber = None, dc_txhash = [], dc_id = i, dc_owner_id = None,
            dc_is_current = True, dc_is_delete = False, dc_title = JNull, dc_metadata = [],
            dc_cover_art = JNull, dc_cover_art_sizes = JNull, dc_is_unlisted = JNull,
            dc_stem_of = JNull, dc_remix_of = JNull, dc_download = JNull, dc_route_id = None,
            dc_metadata_multihash = None, dc_created_at = None, dc_updated_at = None\<rparr>))"

definition invalidate_old_digital_content :: "int \<Rightarrow> (dc_state, unit) py" where
  "invalidate_old_digital_content i =
     py_bind (py_gets (\<lambda>s. digital_contents (w_db (fst s)))) (\<lambda>tbl.
       if sql_count (\<lambda>r. dc_id r = i) tbl > 0 then
         py_seq
           (dc_update_db (\<lambda>d. d\<lparr>digital_contents :=
              sql_update (\<lambda>r. dc_id r = i \<and> dc_is_current r) (\<lambda>r. r\<lparr>dc_is_current := False\<rparr>)
                (digital_contents d)\<rparr>))
           (py_assert (sql_count (\<lambda>r. dc_id r = i \<and> dc_is_current r) tbl > 0)
             ''Update operation requires a current digital_content to be invalidated'')
       else py_return ())"

definition dispatch_challenge_digital_content_upload ::
  "int \<Rightarrow> digital_content_row \<Rightarrow> world \<Rightarrow> world" where
  "dispatch_challenge_digital_content_upload block_number r =
     dispatch digital_content_upload (Some block_number) (dc_owner_id r) []"

text \<open>The handle of the current row of the owner: None or empty when it is falsy.\<close>

definition owner_handle :: "int \<Rightarrow> db \<Rightarrow> exc + string option" where
  "owner_handle owner d =
     (case sql_first (\<lambda>u. us_user_id u = owner \<and> us_is_current u) (users d) of
        None \<Rightarrow> Inl (TypeError ''NoneType object is not subscriptable'')
      | Some u \<Rightarrow> Inr (us_handle u))"

text \<open>Any write of \<open>cover_art\<close> is moved to \<open>cover_art_sizes\<close>.\<close>

definition move_cover_art :: "digital_content_row \<Rightarrow> digital_content_row" where
  "move_cover_art r =
     (if json_truthy (dc_cover_art r)
      then r\<lparr>dc_cover_art_sizes := dc_cover_art r, dc_cover_art := JNull\<rparr> else r)"

text \<open>
  The common part of the branches of a new and of an updated content: owner, handle, route,
  metadata columns, cover art. Left: the row as mutated when the owner has no handle, the one
  place inside the branch where \<open>EntityMissingRequiredFieldError\<close> is raised.
\<close>

definition fill_from_metadata ::
  "content_services \<Rightarrow> digital_content_args \<Rightarrow> metadata \<Rightarrow> digital_content_row \<Rightarrow>
    (dc_state, digital_content_row + digital_content_row) py" where
  "fill_from_metadata sv args m r =
     py_bind (py_lift (encode (da_multihashDigest args) (da_multihashHashFn args))) (\<lambda>buf.
     let cid = cs_b58 sv buf;
         r = r\<lparr>dc_owner_id := Some (da_digitalContentOwnerId args), dc_is_delete := False\<rparr>
     in
     py_bind (\<lambda>s. (owner_handle (da_digitalContentOwnerId args) (w_db (fst s)), s)) (\<lambda>handle.
     case handle of
       None \<Rightarrow> py_return (Inl r)
     | Some h \<Rightarrow>
         if h = [] then py_return (Inl r)
         else
           py_bind (py_lift (meta_get m ''title'')) (\<lambda>title.
           py_seq (update_digital_content_routes_table sv r title)
           (py_bind (py_lift (populate_digital_content_record_metadata r m h)) (\<lambda>r.
            py_return (Inr (move_cover_art (r\<lparr>dc_metadata_multihash := Some cid\<rparr>))))))))"

text \<open>
  \<open>parse_digital_content_event\<close>: the row object is edited in place, so an
  \<open>EntityMissingRequiredFieldError\<close> comes with the row as it is then (\<open>Inl\<close>).
\<close>

definition parse_digital_content_event ::
  "content_services \<Rightarrow> digital_content_args entry \<Rightarrow> digital_content_event \<Rightarrow> digital_content_row \<Rightarrow>
    int \<Rightarrow> timestamp \<Rightarrow> metadata \<Rightarrow> (dc_state, digital_content_row + digital_content_row) py" where
  "parse_digital_content_event sv entry event_type r block_number ts m =
     py_bind
       (case event_type of
          NewDigitalContent \<Rightarrow>
            py_bind (fill_from_metadata sv (e_args entry) m (r\<lparr>dc_created_at := Some ts\<rparr>)) (\<lambda>filled.
              case filled of
                Inl r \<Rightarrow> py_return (Inl r)
              | Inr r \<Rightarrow>
                  py_seq (dc_update_db (update_stems_table r m))
                  (py_seq (dc_update_db (update_remixes_table r m))
                  (py_seq (py_modify (\<lambda>(w, p). (dispatch_challenge_digital_content_upload block_number r w, p)))
                    (py_return (Inr r)))))
        | UpdateDigitalContent \<Rightarrow>
            py_bind (fill_from_metadata sv (e_args entry) m r) (\<lambda>filled.
              case filled of
                Inl r \<Rightarrow> py_return (Inl r)
              | Inr r \<Rightarrow> py_seq (dc_update_db (update_remixes_table r m)) (py_return (Inr r)))
        | DigitalContentDeleted \<Rightarrow>
            py_return (Inr (r\<lparr>dc_is_delete := True, dc_stem_of := JNull, dc_remix_of := JNull\<rparr>)))
       (\<lambda>edited. case edited of
          Inl r \<Rightarrow> py_return (Inl r)
        | Inr r \<Rightarrow>
            let r = r\<lparr>dc_updated_at := Some ts\<rparr>
            in py_return (if digital_content_required_fields_present r then Inr r else Inl r))"

section \<open>The handler\<close>

type_synonym dc_lookup = "(int \<times> digital_content_row \<times> digital_content_event list) list"

definition event_content_id :: "digital_content_args \<Rightarrow> int" where
  "event_content_id args = (case da_digitalContentId args of Some i \<Rightarrow> i | None \<Rightarrow> da_id args)"

text \<open>The metadata document of the event: read for new and updated contents only.\<close>

definition event_metadata ::
  "content_services \<Rightarrow> (string \<times> metadata) list \<Rightarrow> digital_content_event \<Rightarrow> digital_content_args \<Rightarrow>
    exc + metadata" where
  "event_metadata sv ipfs_metadata event_type args =
     (if event_type = DigitalContentDeleted then Inr []
      else exc_bind (encode (da_multihashDigest args) (da_multihashHashFn args)) (\<lambda>buf.
        case map_of ipfs_metadata (cs_b58 sv buf) of
          None \<Rightarrow> Inl (KeyError (cs_b58 sv buf)) | Some m \<Rightarrow> Inr m))"

text \<open>The \<open>try\<close> block of one entry; the accumulator holds the lookup, the ids and the count.\<close>

definition process_digital_content_entry ::
  "content_services \<Rightarrow> int \<Rightarrow> timestamp \<Rightarrow> hash \<Rightarrow> (string \<times> metadata) list \<Rightarrow> hash \<Rightarrow>
    digital_content_event \<Rightarrow> digital_content_args entry \<Rightarrow> dc_lookup \<times> int list \<times> int \<Rightarrow>
    (dc_state, dc_lookup \<times> int list \<times> int) py" where
  "process_digital_content_entry sv block_number ts blockhash ipfs_metadata txhash event_type entry acc =
     (case acc of (lookup, ids, processed) \<Rightarrow>
        let i = event_content_id (e_args entry) in
        py_try
          (py_bind (\<lambda>s. (case map_of lookup i of
                Some (r, evs) \<Rightarrow> Inr r
              | None \<Rightarrow> lookup_digital_content_record (w_db (fst s)) i block_number blockhash txhash, s)) (\<lambda>existing.
           py_bind (py_lift (event_metadata sv ipfs_metadata event_type (e_args entry))) (\<lambda>m.
           py_bind (parse_digital_content_event sv entry event_type existing block_number ts m) (\<lambda>parsed.
           case parsed of
             Inr r \<Rightarrow>
               let evs = (case map_of lookup i of None \<Rightarrow> [] | Some (q, evs) \<Rightarrow> evs)
               in py_return (AList.update i (r, evs @ [event_type]) lookup, List.insert i ids, processed + 1)
           | Inl r \<Rightarrow>
               py_seq (dc_update_db (add_node_level_skipped_transaction block_number blockhash txhash))
                 (py_return ((case map_of lookup i of
                    None \<Rightarrow> lookup | Some (q, evs) \<Rightarrow> AList.update i (r, evs) lookup), ids, processed))))))
          (\<lambda>e. py_raise (IndexingError ''digital_content'' (Some block_number) blockhash (Some txhash) (exc_str e))))"

definition process_digital_content_tx ::
  "content_services \<Rightarrow> int \<Rightarrow> timestamp \<Rightarrow> hash \<Rightarrow> (string \<times> metadata) list \<Rightarrow>
    digital_content_receipt \<Rightarrow> dc_lookup \<times> int list \<times> int \<Rightarrow> (dc_state, dc_lookup \<times> int list \<times> int) py" where
  "process_digital_content_tx sv block_number ts blockhash ipfs_metadata tx =
     py_for (\<lambda>event_type acc.
       py_bind (py_lift (processReceipt tx event_type)) (\<lambda>entries.
         py_for (process_digital_content_entry sv block_number ts blockhash ipfs_metadata
           (transactionHash tx) event_type) entries acc))
       digital_content_event_types_arr"

definition store_digital_content ::
  "int \<times> digital_content_row \<times> digital_content_event list \<Rightarrow> unit \<Rightarrow> (dc_state, unit) py" where
  "store_digital_content item u =
     (case item of (i, r, evs) \<Rightarrow>
        if evs \<noteq> [] then
          py_seq (invalidate_old_digital_content i)
            (dc_update_db (\<lambda>d. d\<lparr>digital_contents := digital_contents d @ [r]\<rparr>))
        else py_return ())"

definition digital_content_body ::
  "content_services \<Rightarrow> digital_content_receipt list \<Rightarrow> int \<Rightarrow> timestamp \<Rightarrow> hash \<Rightarrow>
    (string \<times> metadata) list \<Rightarrow> (dc_state, int \<times> int list) py" where
  "digital_content_body sv txs block_number ts blockhash ipfs_metadata =
     py_bind (py_for (process_digital_content_tx sv block_number ts blockhash ipfs_metadata) txs ([], [], 0))
       (\<lambda>(lookup, ids, n).
          py_seq (py_for store_digital_content lookup ()) (py_return (n, ids)))"

text \<open>The pending routes live as long as the call.\<close>

definition digital_content_state_update ::
  "content_services \<Rightarrow> digital_content_receipt list \<Rightarrow> int \<Rightarrow> timestamp \<Rightarrow> hash \<Rightarrow>
    (string \<times> metadata) list \<Rightarrow> (world, int \<times> int list) py" where
  "digital_content_state_update sv txs block_number ts blockhash ipfs_metadata w =
     (if txs = [] then (Inr (0, []), w)
      else case digital_content_body sv txs block_number ts blockhash ipfs_metadata (w, []) of
        (res, (w', pending)) \<Rightarrow> (res, w'))"

section \<open>Invariants of the handler\<close>

lemma dc_update_db_keeps:
  "(\<And>d. P d \<Longrightarrow> P (f d)) \<Longrightarrow> py_keeps (\<lambda>s. P (w_db (fst s))) (dc_update_db f)"
  unfolding dc_update_db_def by (auto intro!: py_keeps_modify)

lemma routes_ok_frame:
  assumes "\<And>d. digital_content_routes (f d) = digital_content_routes d"
  shows "py_keeps routes_ok (dc_update_db f)"
  unfolding dc_update_db_def by (rule py_keeps_modify) (auto simp: routes_ok_def assms)

lemma py_keeps_read [keeps_intros]: "py_keeps I (\<lambda>s. (f s, s))"
  by (simp add: py_keeps_def)

lemma update_routes_keeps:
  assumes "\<And>i. encode_int_id sv i \<noteq> []"
  shows "py_keeps routes_ok (update_digital_content_routes_table sv r title)"
proof (rule py_keepsI)
  fix s assume ok: "routes_ok s"
  obtain w p where s: "s = (w, p)" by (cases s)
  obtain res w' p' where run: "update_digital_content_routes_table sv r title (w, p) = (res, w', p')"
    by (rule prod_cases3)
  show "routes_ok (snd (update_digital_content_routes_table sv r title s))"
    using update_routes_run [OF ok [unfolded s] assms run] run s by simp
qed

lemma parse_keeps_routes:
  assumes "\<And>i. encode_int_id sv i \<noteq> []"
  shows "py_keeps routes_ok (parse_digital_content_event sv entry ev r bn ts m)"
proof -
  have upload: "py_keeps routes_ok (py_modify (\<lambda>(w, p). (dispatch_challenge_digital_content_upload bn q w, p)))" for q
    by (rule py_keeps_modify) (auto simp: routes_ok_def dispatch_challenge_digital_content_upload_def)
  show ?thesis
    unfolding parse_digital_content_event_def fill_from_metadata_def Let_def
    by (cases ev) (auto intro!: keeps_intros update_routes_keeps assms routes_ok_frame upload
        simp: update_stems_table_def update_remixes_table_def split: option.split json.split)
qed

lemma handler_keeps_routes:
  assumes "\<And>i. encode_int_id sv i \<noteq> []"
  shows "py_keeps routes_ok (digital_content_body sv txs bn ts bh meta)"
  unfolding digital_content_body_def process_digital_content_tx_def process_digital_content_entry_def
    store_digital_content_def invalidate_old_digital_content_def Let_def
  by (intro keeps_intros parse_keeps_routes assms routes_ok_frame)
    (simp_all add: add_node_level_skipped_transaction_def)

subsection \<open>The table of contents\<close>

text \<open>Nothing before the final loop writes the table of contents.\<close>

lemma collect_keeps_contents:
  "py_keeps (\<lambda>s. digital_contents (w_db (fst s)) = tbl)
     (py_for (process_digital_content_tx sv bn ts bh meta) txs acc)"
proof -
  have mod: "py_keeps (\<lambda>s. digital_contents (w_db (fst s)) = tbl) (py_modify f)"
    if "\<And>s. digital_contents (w_db (fst (f s))) = digital_contents (w_db (fst s))" for f
    using that by (auto intro: py_keeps_modify)
  have upd: "py_keeps (\<lambda>s. digital_contents (w_db (fst s)) = tbl) (dc_update_db f)"
    if "\<And>d. digital_contents (f d) = digital_contents d" for f
    using that by (auto intro: dc_update_db_keeps [where P = "\<lambda>d. digital_contents d = tbl"])
  have parse: "py_keeps (\<lambda>s. digital_contents (w_db (fst s)) = tbl)
      (parse_digital_content_event sv entry ev r bn ts m)" for entry ev r m
    unfolding parse_digital_content_event_def fill_from_metadata_def
      update_digital_content_routes_table_def insert_route_def Let_def
    by (cases ev) (auto intro!: keeps_intros upd mod
        simp: update_stems_table_def update_remixes_table_def retire_route_def add_route_def Let_def
          dispatch_challenge_digital_content_upload_def split: option.split json.split)
  show ?thesis
    unfolding process_digital_content_tx_def process_digital_content_entry_def Let_def
    by (intro keeps_intros parse upd) (simp add: add_node_level_skipped_transaction_def)
qed

definition same_content :: "digital_content_row \<Rightarrow> digital_content_row \<Rightarrow> bool" where
  "same_content r q \<longleftrightarrow> dc_id q = dc_id r \<and> dc_is_current q = dc_is_current r \<and>
     dc_blocknumber q = dc_blocknumber r \<and> dc_blockhash q = dc_blockhash r"

lemma same_content_trans: "same_content a b \<Longrightarrow> same_content b c \<Longrightarrow> same_content a c"
  by (simp add: same_content_def)

lemma copy_column_Inr:
  assumes "copy_column f m k acc = Inr q"
  obtains r where "acc = Inr r" and "same_content r q"
  using assms by (auto simp: copy_column_def exc_bind_Inr_iff same_content_def)

lemma copy_columns_Inr:
  assumes "fold (copy_column f m) ks acc = Inr q"
  obtains r where "acc = Inr r" and "same_content r q"
  using assms
proof (induction ks arbitrary: acc thesis)
  case Nil
  then show ?case by (simp add: same_content_def)
next
  case (Cons k ks)
  from Cons.prems(2) obtain r1 where "copy_column f m k acc = Inr r1" and 1: "same_content r1 q"
    by (auto intro: Cons.IH)
  then obtain r where "acc = Inr r" "same_content r r1" by (auto elim: copy_column_Inr)
  with 1 Cons.prems(1) show ?case by (blast intro: same_content_trans)
qed

lemma populate_same_content:
  "populate_digital_content_record_metadata r m h = Inr q \<Longrightarrow> same_content r q"
  unfolding populate_digital_content_record_metadata_def
  by (auto simp: exc_bind_Inr_iff elim!: copy_column_Inr copy_columns_Inr)
    (auto simp: same_content_def)

definition sum_row :: "'r + 'r \<Rightarrow> 'r" where
  "sum_row x = (case x of Inl r \<Rightarrow> r | Inr r \<Rightarrow> r)"

lemma sum_row_simps [simp]: "sum_row (Inl r) = r" "sum_row (Inr r) = r"
  by (simp_all add: sum_row_def)

lemma same_content_cover [simp]: "same_content r (move_cover_art q) = same_content r q"
  by (simp add: same_content_def move_cover_art_def)

lemma fill_same_content: "py_yields (\<lambda>x. same_content r (sum_row x)) (fill_from_metadata sv args m r)"
proof -
  have pop: "py_yields (\<lambda>q. same_content r q) (py_lift (populate_digital_content_record_metadata
      (r\<lparr>dc_owner_id := ow, dc_is_delete := False\<rparr>) m h))" for ow h
    by (rule py_yields_lift) (drule populate_same_content, simp add: same_content_def)
  show ?thesis
    unfolding fill_from_metadata_def Let_def
    by (rule py_yields_bind, rule py_yields_bind)
      (auto split: option.split intro!: keeps_intros py_yields_bind_using [OF pop];
        simp add: same_content_def)
qed

lemma parse_same_content:
  "py_yields (\<lambda>x. same_content r (sum_row x)) (parse_digital_content_event sv entry ev r bn ts m)"
proof -
  have fill: "py_yields (\<lambda>x. same_content r (sum_row x)) (fill_from_metadata sv args m q)"
    if "same_content r q" for args q
    using fill_same_content [of q sv args m] that
    unfolding py_yields_def by (blast intro: same_content_trans)
  have edit: "py_yields (\<lambda>x. same_content r (sum_row x))
     (case ev of
          NewDigitalContent \<Rightarrow>
            py_bind (fill_from_metadata sv (e_args entry) m (r\<lparr>dc_created_at := Some ts\<rparr>)) (\<lambda>filled.
              case filled of
                Inl r \<Rightarrow> py_return (Inl r)
              | Inr r \<Rightarrow>
                  py_seq (dc_update_db (update_stems_table r m))
                  (py_seq (dc_update_db (update_remixes_table r m))
                  (py_seq (py_modify (\<lambda>(w, p). (dispatch_challenge_digital_content_upload bn r w, p)))
                    (py_return (Inr r)))))
        | UpdateDigitalContent \<Rightarrow>
            py_bind (fill_from_metadata sv (e_args entry) m r) (\<lambda>filled.
              case filled of
                Inl r \<Rightarrow> py_return (Inl r)
              | Inr r \<Rightarrow> py_seq (dc_update_db (update_remixes_table r m)) (py_return (Inr r)))
        | DigitalContentDeleted \<Rightarrow>
            py_return (Inr (r\<lparr>dc_is_delete := True, dc_stem_of := JNull, dc_remix_of := JNull\<rparr>)))"
    by (cases ev) (auto intro!: py_yields_bind_using [OF fill] py_yields_seq py_yields_return
        simp: same_content_def split: sum.split)
  show ?thesis
    unfolding parse_digital_content_event_def
    by (rule py_yields_bind_using [OF edit])
      (auto intro!: py_yields_return simp: Let_def same_content_def split: sum.split)
qed

text \<open>A pending row of content \<open>i\<close> in block \<open>bn\<close> with hash \<open>bh\<close>, and a lookup of such rows.\<close>

definition content_row :: "int \<Rightarrow> hash \<Rightarrow> int \<Rightarrow> digital_content_row \<Rightarrow> bool" where
  "content_row bn bh i r \<longleftrightarrow> dc_id r = i \<and> dc_is_current r \<and> dc_blocknumber r = Some bn \<and>
     dc_blockhash r = Some bh"

definition contents_ok :: "int \<Rightarrow> hash \<Rightarrow> dc_lookup \<Rightarrow> bool" where
  "contents_ok bn bh lookup \<longleftrightarrow> distinct (map fst lookup) \<and>
     (\<forall>x\<in>set lookup. content_row bn bh (fst x) (fst (snd x)))"

lemma contents_ok_update:
  assumes "contents_ok bn bh lookup" and "content_row bn bh i r"
  shows "contents_ok bn bh (AList.update i (r, evs) lookup)"
  unfolding contents_ok_def
proof (intro conjI ballI)
  show "distinct (map fst (AList.update i (r, evs) lookup))"
    using assms(1) by (simp add: contents_ok_def distinct_update)
  fix x assume "x \<in> set (AList.update i (r, evs) lookup)"
  then have "x = (i, r, evs) \<or> x \<in> set lookup"
    using set_update_subset [of i "(r, evs)" lookup] by blast
  with assms show "content_row bn bh (fst x) (fst (snd x))"
    unfolding contents_ok_def by auto
qed

lemma lookup_content_ok:
  "lookup_digital_content_record d i bn bh tx = Inr r \<Longrightarrow> content_row bn bh i r"
  by (auto simp: lookup_digital_content_record_def content_row_def Let_def
      split: if_splits option.splits dest: sql_first_SomeD)

lemma process_entry_contents:
  assumes "contents_ok bn bh (fst acc)"
  shows "py_yields (\<lambda>acc. contents_ok bn bh (fst acc))
    (process_digital_content_entry sv bn ts bh meta tx ev entry acc)"
proof -
  obtain lookup ids n where acc: "acc = (lookup, ids, n)" by (rule prod_cases3)
  let ?i = "event_content_id (e_args entry)"
  have existing: "py_yields (content_row bn bh ?i)
      (\<lambda>s. (case map_of lookup ?i of Some (r, evs) \<Rightarrow> Inr r
         | None \<Rightarrow> lookup_digital_content_record (w_db (fst s)) ?i bn bh tx, s))"
    using assms by (fastforce simp: py_yields_def acc contents_ok_def dest: lookup_content_ok
        split: option.splits dest!: map_of_SomeD)
  have try_: "py_yields P (py_try m (\<lambda>e. py_raise (f e)))" if "py_yields P m" for P m and f :: "exc \<Rightarrow> exc"
    using that by (auto simp: py_yields_def py_try_def py_raise_def split: prod.splits sum.splits)
  have final: "py_yields (\<lambda>acc. contents_ok bn bh (fst acc)) (case parsed of
       Inr r \<Rightarrow>
         let evs = (case map_of lookup ?i of None \<Rightarrow> [] | Some (q, evs) \<Rightarrow> evs)
         in py_return (AList.update ?i (r, evs @ [ev]) lookup, List.insert ?i ids, n + 1)
     | Inl r \<Rightarrow>
         py_seq (dc_update_db (add_node_level_skipped_transaction bn bh tx))
           (py_return ((case map_of lookup ?i of
              None \<Rightarrow> lookup | Some (q, evs) \<Rightarrow> AList.update ?i (r, evs) lookup), ids, n)))"
    if "content_row bn bh ?i r" "same_content r (sum_row parsed)" for r parsed
    using assms that by (cases parsed)
      (auto intro!: py_yields_return py_yields_seq contents_ok_update
        simp: acc Let_def same_content_def content_row_def split: option.split)
  show ?thesis
    unfolding process_digital_content_entry_def acc prod.case Let_def [of ?i]
    by (intro try_ py_yields_bind_using [OF existing] py_yields_bind
        py_yields_bind_using [OF parse_same_content] final)
qed

lemma collect_yields_contents:
  "py_yields (\<lambda>acc. contents_ok bn bh (fst acc))
     (py_for (process_digital_content_tx sv bn ts bh meta) txs ([], [], 0))"
  unfolding process_digital_content_tx_def
  by (intro py_yields_for py_yields_bind process_entry_contents) (simp_all add: contents_ok_def)

abbreviation one_current_content :: "dc_state \<Rightarrow> bool" where
  "one_current_content s \<equiv> \<forall>k. length (cur_rows dc_id dc_is_current (digital_contents (w_db (fst s))) k) \<le> 1"

lemma invalidated_contents:
  "cur_rows dc_id dc_is_current (sql_update (\<lambda>r. dc_id r = i \<and> dc_is_current r)
     (\<lambda>r. r\<lparr>dc_is_current := False\<rparr>) (tbl :: digital_content_row list)) = (cur_rows dc_id dc_is_current tbl)(i := [])"
  using dc.cur_rows_invalidate [of i tbl] by (simp add: invalidate_def)

lemma store_keeps_one_current:
  assumes "dc_id r = i"
  shows "py_keeps one_current_content (store_digital_content (i, r, evs) u)"
proof (rule py_keepsI)
  fix s :: dc_state
  assume one: "one_current_content s"
  obtain w p where s: "s = (w, p)" by (cases s)
  let ?tbl = "digital_contents (w_db w)"
  have empty: "cur_rows dc_id dc_is_current ?tbl i = []" if "sql_count (\<lambda>r. dc_id r = i) ?tbl = 0"
    using that by (auto simp: sql_count_0 cur_rows_def filter_empty_conv)
  show "one_current_content (snd (store_digital_content (i, r, evs) u s))"
    using one empty assms
    by (auto simp: s store_digital_content_def invalidate_old_digital_content_def py_defs dc_update_db_def
        invalidated_contents dc.cur_rows_append cur_rows_single split: if_splits)
qed

lemma store_all_keeps_one_current:
  assumes "contents_ok bn bh lookup"
  shows "py_keeps one_current_content (py_for store_digital_content lookup ())"
  using assms
proof (induction lookup)
  case Nil
  then show ?case by (simp add: py_keeps_return)
next
  case (Cons item lookup)
  obtain i r evs where item: "item = (i, r, evs)" by (rule prod_cases3)
  have "dc_id r = i" "contents_ok bn bh lookup"
    using Cons.prems by (auto simp: item contents_ok_def content_row_def)
  then have "py_keeps one_current_content (py_for store_digital_content lookup x)" for x :: unit
    using Cons.IH by (cases x) blast
  then show ?case
    unfolding item py_for.simps using \<open>dc_id r = i\<close>
    by (intro py_keeps_bind store_keeps_one_current)
qed

text \<open>When the handler returns, the table is the old one with the pending rows put on top.\<close>

abbreviation upsert_content :: "digital_content_row \<Rightarrow> digital_content_row list \<Rightarrow> digital_content_row list" where
  "upsert_content \<equiv> upsert dc_id dc_is_current dc_set_current"

abbreviation pending_rows :: "dc_lookup \<Rightarrow> digital_content_row list" where
  "pending_rows lookup \<equiv> map (fst \<circ> snd) (filter (\<lambda>x. snd (snd x) \<noteq> []) lookup)"

lemma store_digital_content_run:
  assumes "store_digital_content (i, r, evs) u s = (Inr u', s')" and "dc_id r = i"
  shows "digital_contents (w_db (fst s')) =
    (if evs = [] then digital_contents (w_db (fst s)) else upsert_content r (digital_contents (w_db (fst s))))"
proof -
  obtain w p where s: "s = (w, p)" by (cases s)
  have idle: "sql_update (\<lambda>r. dc_id r = i \<and> dc_is_current r) (\<lambda>r. r\<lparr>dc_is_current := False\<rparr>)
      (digital_contents (w_db w)) = digital_contents (w_db w)"
    if "sql_count (\<lambda>r. dc_id r = i) (digital_contents (w_db w)) = 0"
    using that by (intro sql_update_idle) (auto simp: sql_count_0)
  show ?thesis
    using assms idle
    by (auto simp: s store_digital_content_def invalidate_old_digital_content_def py_defs dc_update_db_def
        upsert_def invalidate_def split: if_splits)
qed

lemma store_all_run:
  assumes "py_for store_digital_content lookup () s = (Inr u, s')" and "\<And>x. x \<in> set lookup \<Longrightarrow> dc_id (fst (snd x)) = fst x"
  shows "digital_contents (w_db (fst s')) = fold upsert_content (pending_rows lookup) (digital_contents (w_db (fst s)))"
  using assms
proof (induction lookup arbitrary: s)
  case Nil
  then show ?case by (simp add: py_return_def)
next
  case (Cons item lookup)
  obtain i r evs where item: "item = (i, r, evs)" by (rule prod_cases3)
  from Cons.prems(1) obtain s1 where step: "store_digital_content (i, r, evs) () s = (Inr (), s1)"
    and rest: "py_for store_digital_content lookup () s1 = (Inr u, s')"
    by (auto simp: item elim: py_bind_InrE)
  have "dc_id r = i" using Cons.prems(2) [of item] by (simp add: item)
  from store_digital_content_run [OF step this] Cons.IH [OF rest] Cons.prems(2)
  show ?case by (simp add: item)
qed

lemma contents_run_Inr:
  assumes "digital_content_state_update sv txs bn ts bh meta w = (Inr res, w')"
  obtains lookup where "contents_ok bn bh lookup"
    and "digital_contents (w_db w') = fold upsert_content (pending_rows lookup) (digital_contents (w_db w))"
proof (cases "txs = []")
  case True
  with assms that [of "[]"] show thesis
    by (simp add: digital_content_state_update_def contents_ok_def)
next
  case False
  let ?collect = "py_for (process_digital_content_tx sv bn ts bh meta) txs ([], [], 0)"
  from assms False obtain p where body: "digital_content_body sv txs bn ts bh meta (w, []) = (Inr res, w', p)"
    by (auto simp: digital_content_state_update_def split: prod.splits)
  from body [unfolded digital_content_body_def] obtain lookup ids n s1
    where collect: "?collect (w, []) = (Inr (lookup, ids, n), s1)"
      and store: "py_for store_digital_content lookup () s1 = (Inr (), w', p)"
    by (auto elim!: py_bind_InrE simp: py_seq_def py_return_def)
  have ok: "contents_ok bn bh lookup"
    using py_yieldsD [OF collect_yields_contents collect] by simp
  have "digital_contents (w_db (fst s1)) = digital_contents (w_db w)"
    using py_keepsD [OF collect_keeps_contents [of "digital_contents (w_db w)" sv bn ts bh meta txs "([], [], 0)"],
        of "(w, [])"] collect by simp
  with store_all_run [OF store] ok that show thesis
    by (auto simp: contents_ok_def content_row_def)
qed

lemma pending_rows_keys:
  "contents_ok bn bh lookup \<Longrightarrow> distinct (map dc_id (pending_rows lookup)) \<and>
    (\<forall>r\<in>set (pending_rows lookup). dc_is_current r \<and> dc_blocknumber r = Some bn \<and> dc_blockhash r = Some bh)"
proof -
  assume ok: "contents_ok bn bh lookup"
  then have "map dc_id (pending_rows lookup) = map fst (filter (\<lambda>x. snd (snd x) \<noteq> []) lookup)"
    by (auto simp: contents_ok_def content_row_def)
  moreover have "distinct (map fst (filter (\<lambda>x. snd (snd x) \<noteq> []) lookup))"
    using ok by (simp add: contents_ok_def distinct_map_filter)
  ultimately have "distinct (map dc_id (pending_rows lookup))" by (simp only:)
  with ok show ?thesis by (auto simp: contents_ok_def content_row_def)
qed

lemma filter_key:
  "distinct (map f tbl) \<Longrightarrow> q \<in> set tbl \<Longrightarrow> filter (\<lambda>p. f p = f q) tbl = [q]"
proof (induction tbl)
  case Nil
  then show ?case by simp
next
  case (Cons p tbl)
  show ?case
  proof (cases "p = q")
    case True
    then have "filter (\<lambda>p. f p = f q) tbl = []"
      using Cons.prems by (auto simp: filter_empty_conv image_iff)
    with True show ?thesis by simp
  next
    case False
    with Cons show ?thesis by auto
  qed
qed

section \<open>Properties\<close>

text \<open>
  C1. The handler keeps the routing table sound, whether it returns or raises: the slugs of an
  owner stay distinct, so that a permalink names one content, a content has at most one
  current route, and every slug is its title slug with its collision id. The hash of an id is
  never empty (hashids pads it to five characters).
\<close>

theorem routes_stay_unique:
  assumes "routes_ok (w, [])" and "\<And>i. encode_int_id sv i \<noteq> []"
    and "digital_content_state_update sv txs bn ts bh meta w = (res, w')"
  shows "routes_ok (w', [])"
proof (cases "txs = []")
  case True
  with assms show ?thesis by (simp add: digital_content_state_update_def)
next
  case False
  from py_keepsD [OF handler_keeps_routes [OF assms(2)] assms(1), of txs bn ts bh meta]
  have "routes_ok (fst (snd (digital_content_body sv txs bn ts bh meta (w, []))), [])"
    by (simp add: routes_ok_def Let_def)
  with assms(3) False show ?thesis
    by (simp add: digital_content_state_update_def case_prod_unfold)
qed

definition ex_content :: digital_content_receipt where
  "ex_content = sample_receipt ''0x1'' (\<lambda>t. if t = NewDigitalContent
     then [\<lparr>da_digitalContentId = None, da_id = 5, da_digitalContentOwnerId = 1,
            da_multihashDigest = [1, 2], da_multihashHashFn = 18\<rparr>] else [])"

definition ex_content_services :: content_services where
  "ex_content_services = \<lparr>cs_b58 = (\<lambda>bs. ''cid''), encode_int_id = (\<lambda>i. ''aaaaa'')\<rparr>"

theorem routes_stay_unique_witness:
  "\<exists>res w'. digital_content_state_update ex_content_services [ex_content] 7 100 ''0xb''
     [(''cid'', [(''title'', JStr ''My Title!'')])] empty_world = (res, w') \<and> routes_ok (w', [])"
proof -
  obtain res w' where run: "digital_content_state_update ex_content_services [ex_content] 7 100 ''0xb''
      [(''cid'', [(''title'', JStr ''My Title!'')])] empty_world = (res, w')" by (rule prod.exhaust)
  have ok: "routes_ok (empty_world, [])"
    by (simp add: routes_ok_def current_routes_def empty_world_def empty_db_def)
  have hash: "encode_int_id ex_content_services i \<noteq> []" for i
    by (simp add: ex_content_services_def)
  from routes_stay_unique [OF ok hash run] run show ?thesis by blast
qed

text \<open>
  A new title gets a permalink: on a sound routing table, giving a content a title that is
  not its present one returns, and afterwards the content has exactly one current route, its
  title slug is the slug of the title, and no other route of the owner has its slug.
\<close>

theorem new_title_gets_route:
  assumes "routes_ok (w, pending)" and "encode_int_id sv (dc_id r) \<noteq> []"
    and "dc_title r \<noteq> JStr t"
    and "update_digital_content_routes_table sv r (JStr t) (w, pending) = (res, (w', pending'))"
  shows "res = Inr () \<and> (\<exists>q. current_routes (dc_id r) (digital_content_routes (w_db w')) = [q] \<and>
      rt_title_slug q = create_digital_content_slug (encode_int_id sv) t (dc_id r) 0 \<and>
      filter (\<lambda>p. rt_owner_id p = rt_owner_id q \<and> rt_slug p = rt_slug q)
        (digital_content_routes (w_db w')) = [q])"
proof -
  note run = update_routes_run [OF assms(1,2,4)]
  from run assms(3) obtain q where
    q: "current_routes (dc_id r) (digital_content_routes (w_db w')) = [q]"
      "rt_title_slug q = create_digital_content_slug (encode_int_id sv) t (dc_id r) 0" by blast
  have "q \<in> set (current_routes (dc_id r) (digital_content_routes (w_db w')))" by (simp add: q(1))
  then have mem: "q \<in> set (digital_content_routes (w_db w'))" by (simp add: current_routes_mem)
  have dist: "distinct (map (\<lambda>q. (rt_owner_id q, rt_slug q)) (digital_content_routes (w_db w')))"
    using run by (simp add: routes_ok_def Let_def)
  from filter_key [OF dist mem] run q show ?thesis by simp
qed

definition ex_content_row :: digital_content_row where
  "ex_content_row = \<lparr>dc_blockhash = None, dc_blocknumber = None, dc_txhash = [], dc_id = 5,
     dc_owner_id = Some 1, dc_is_current = True, dc_is_delete = False, dc_title = JNull,
     dc_metadata = [], dc_cover_art = JNull, dc_cover_art_sizes = JNull, dc_is_unlisted = JNull,
     dc_stem_of = JNull, dc_remix_of = JNull, dc_download = JNull, dc_route_id = None,
     dc_metadata_multihash = None, dc_created_at = None, dc_updated_at = None\<rparr>"

theorem new_title_gets_route_witness:
  "\<exists>w' pending' q. update_digital_content_routes_table ex_content_services ex_content_row
       (JStr ''My  Title!'') (empty_world, []) = (Inr (), (w', pending')) \<and>
     current_routes 5 (digital_content_routes (w_db w')) = [q] \<and> rt_title_slug q = ''my-title''"
proof -
  obtain res w' pending' where run: "update_digital_content_routes_table ex_content_services ex_content_row
      (JStr ''My  Title!'') (empty_world, []) = (res, (w', pending'))" by (rule prod_cases3)
  have ok: "routes_ok (empty_world, [])"
    by (simp add: routes_ok_def current_routes_def empty_world_def empty_db_def)
  have hash: "encode_int_id ex_content_services (dc_id ex_content_row) \<noteq> []"
    by (simp add: ex_content_services_def)
  have title: "dc_title ex_content_row \<noteq> JStr ''My  Title!''" by (simp add: ex_content_row_def)
  have slug: "create_digital_content_slug (encode_int_id ex_content_services) ''My  Title!'' 5 0 = ''my-title''"
    by code_simp
  have "dc_id ex_content_row = 5" by (simp add: ex_content_row_def)
  with new_title_gets_route [OF ok hash title run] run slug show ?thesis by auto
qed

text \<open>
  The search for a free slug ends: whatever the routes, the title and the collision id it
  starts from, the loop returns a greater collision id whose slug no route of the owner has.
\<close>

theorem collision_search_terminates:
  "\<exists>m > n. next_collision (slug_taken owner s) (create_digital_content_slug enc title i) n = Some m \<and>
     \<not> slug_taken owner s (create_digital_content_slug enc title i m)"
  using next_collision_returns [OF finite_slug_taken inj_slug, of owner s enc title i n]
    next_collision_free by blast

text \<open>
  The handler keeps the invariant of the table of contents, at most one current row per
  content, whether it returns or raises.
\<close>

theorem contents_one_current:
  assumes "\<And>k. length (cur_rows dc_id dc_is_current (digital_contents (w_db w)) k) \<le> 1"
    and "digital_content_state_update sv txs bn ts bh meta w = (res, w')"
  shows "length (cur_rows dc_id dc_is_current (digital_contents (w_db w')) k) \<le> 1"
proof (cases "txs = []")
  case True
  with assms show ?thesis by (simp add: digital_content_state_update_def)
next
  case False
  let ?collect = "py_for (process_digital_content_tx sv bn ts bh meta) txs ([], [], 0)"
  obtain c s1 where run: "?collect (w, []) = (c, s1)" by (rule prod.exhaust)
  have same: "digital_contents (w_db (fst s1)) = digital_contents (w_db w)"
    using py_keepsD [OF collect_keeps_contents [of "digital_contents (w_db w)" sv bn ts bh meta txs "([], [], 0)"],
        of "(w, [])"] run by simp
  then have one: "one_current_content s1" using assms(1) by simp
  have "one_current_content (snd (digital_content_body sv txs bn ts bh meta (w, [])))"
  proof (cases c)
    case (Inl e)
    with run one show ?thesis by (simp add: digital_content_body_def py_bind_def)
  next
    case (Inr acc)
    have "contents_ok bn bh (fst acc)"
      using run Inr by (auto intro: py_yieldsD [OF collect_yields_contents])
    from py_keepsD [OF store_all_keeps_one_current [OF this] one] run Inr show ?thesis
      by (auto simp: digital_content_body_def py_bind_def py_seq_def py_return_def case_prod_unfold
          split: prod.split sum.split)
  qed
  with assms(2) False show ?thesis
    by (auto simp: digital_content_state_update_def case_prod_unfold)
qed

theorem contents_one_current_witness:
  "\<exists>res w'. digital_content_state_update ex_content_services [ex_content] 7 100 ''0xb''
     [(''cid'', [(''title'', JStr ''My Title!'')])] empty_world = (res, w') \<and>
     length (cur_rows dc_id dc_is_current (digital_contents (w_db w')) 5) \<le> 1"
proof -
  obtain res w' where run: "digital_content_state_update ex_content_services [ex_content] 7 100 ''0xb''
      [(''cid'', [(''title'', JStr ''My Title!'')])] empty_world = (res, w')" by (rule prod.exhaust)
  have "length (cur_rows dc_id dc_is_current (digital_contents (w_db empty_world)) k) \<le> 1" for k
    by (simp add: cur_rows_def empty_world_def empty_db_def)
  from contents_one_current [OF this run] run show ?thesis by blast
qed

end
