(* ===== verification/Social_Features.thy ===== *)
theory Social_Features
  imports Event_Bus
begin

text \<open>
  src/tasks/social_features.py: the handler of the SocialFeatureFactory contract. For one
  block it collects, per user and item, the row of the net change (the last event of the
  block decides whether it is a deletion), then supersedes the old rows.
\<close>

datatype social_event =
    DigitalContentRepostAdded | DigitalContentRepostDeleted
  | ContentListRepostAdded | ContentListRepostDeleted
  | UserFollowAdded | UserFollowDeleted

record social_args =
  sa_userId :: int
  sa_digitalContentId :: int
  sa_contentListId :: int
  sa_followerUserId :: int
  sa_followeeUserId :: int

type_synonym social_receipt = "(social_event, social_args) tx_receipt"

section \<open>Collecting the changes of a block\<close>

definition add_digital_content_repost ::
  "social_receipt \<Rightarrow> int \<Rightarrow> timestamp \<Rightarrow> item_row changes \<Rightarrow> exc + item_row changes" where
  "add_digital_content_repost tx block_number block_datetime changes =
     exc_bind (processReceipt tx DigitalContentRepostAdded) (\<lambda>events. Inr (fold (\<lambda>event.
       let u = sa_userId (e_args event); i = sa_digitalContentId (e_args event) in
       put_change (\<lambda>r. r\<lparr>it_is_delete := False\<rparr>)
         \<lparr>it_blockhash = Some (e_blockHash event), it_blocknumber = Some block_number,
          it_txhash = transactionHash tx, it_user_id = u, it_item_id = i,
          it_type = ItemDigitalContent, it_is_current = True, it_is_delete = False,
          it_created_at = block_datetime\<rparr> u i) events changes))"

definition delete_digital_content_repost ::
  "social_receipt \<Rightarrow> int \<Rightarrow> timestamp \<Rightarrow> item_row changes \<Rightarrow> exc + item_row changes" where
  "delete_digital_content_repost tx block_number block_datetime changes =
     exc_bind (processReceipt tx DigitalContentRepostDeleted) (\<lambda>events. Inr (fold (\<lambda>event.
       let u = sa_userId (e_args event); i = sa_digitalContentId (e_args event) in
       put_change (\<lambda>r. r\<lparr>it_is_delete := True\<rparr>)
         \<lparr>it_blockhash = Some (e_blockHash event), it_blocknumber = Some block_number,
          it_txhash = transactionHash tx, it_user_id = u, it_item_id = i,
          it_type = ItemDigitalContent, it_is_current = True, it_is_delete = True,
          it_created_at = block_datetime\<rparr> u i) events changes))"

text \<open>
  The type of a content list item: the code looks the current row up and takes its first
  match; \<open>is_album\<close> may be NULL, which is falsy.
\<close>

definition content_list_item_type :: "db \<Rightarrow> int \<Rightarrow> item_type" where
  "content_list_item_type d i =
     (case filter (\<lambda>r. cl_is_current r \<and> cl_id r = i) (content_lists d) of
        [] \<Rightarrow> ItemContentList
      | r # _ \<Rightarrow> if cl_is_album r = Some True then ItemAlbum else ItemContentList)"

definition add_content_list_repost ::
  "db \<Rightarrow> social_receipt \<Rightarrow> int \<Rightarrow> timestamp \<Rightarrow> item_row changes \<Rightarrow> exc + item_row changes" where
  "add_content_list_repost d tx block_number block_datetime changes =
     exc_bind (processReceipt tx ContentListRepostAdded) (\<lambda>events. Inr (fold (\<lambda>event.
       let u = sa_userId (e_args event); i = sa_contentListId (e_args event) in
       put_change (\<lambda>r. r\<lparr>it_is_delete := False\<rparr>)
         \<lparr>it_blockhash = Some (e_blockHash event), it_blocknumber = Some block_number,
          it_txhash = transactionHash tx, it_user_id = u, it_item_id = i,
          it_type = content_list_item_type d i, it_is_current = True, it_is_delete = False,
          it_created_at = block_datetime\<rparr> u i) events changes))"

definition delete_content_list_repost ::
  "db \<Rightarrow> social_receipt \<Rightarrow> int \<Rightarrow> timestamp \<Rightarrow> item_row changes \<Rightarrow> exc + item_row changes" where
  "delete_content_list_repost d tx block_number block_datetime changes =
     exc_bind (processReceipt tx ContentListRepostDeleted) (\<lambda>events. Inr (fold (\<lambda>event.
       let u = sa_userId (e_args event); i = sa_contentListId (e_args event) in
       put_change (\<lambda>r. r\<lparr>it_is_delete := True\<rparr>)
         \<lparr>it_blockhash = Some (e_blockHash event), it_blocknumber = Some block_number,
          it_txhash = transactionHash tx, it_user_id = u, it_item_id = i,
          it_type = content_list_item_type d i, it_is_current = True, it_is_delete = True,
          it_created_at = block_datetime\<rparr> u i) events changes))"

definition add_follow ::
  "social_receipt \<Rightarrow> int \<Rightarrow> timestamp \<Rightarrow> follow_row changes \<Rightarrow> exc + follow_row changes" where
  "add_follow tx block_number block_datetime changes =
     exc_bind (processReceipt tx UserFollowAdded) (\<lambda>events. Inr (fold (\<lambda>event.
       let a = sa_followerUserId (e_args event); b = sa_followeeUserId (e_args event) in
       put_change (\<lambda>r. r\<lparr>fl_is_delete := False\<rparr>)
         \<lparr>fl_blockhash = Some (e_blockHash event), fl_blocknumber = Some block_number,
          fl_txhash = transactionHash tx, fl_follower_user_id = a, fl_followee_user_id = b,
          fl_is_current = True, fl_is_delete = False, fl_created_at = block_datetime\<rparr> a b)
       events changes))"

definition delete_follow ::
  "social_receipt \<Rightarrow> int \<Rightarrow> timestamp \<Rightarrow> follow_row changes \<Rightarrow> exc + follow_row changes" where
  "delete_follow tx block_number block_datetime changes =
     exc_bind (processReceipt tx UserFollowDeleted) (\<lambda>events. Inr (fold (\<lambda>event.
       let a = sa_followerUserId (e_args event); b = sa_followeeUserId (e_args event) in
       put_change (\<lambda>r. r\<lparr>fl_is_delete := True\<rparr>)
         \<lparr>fl_blockhash = Some (e_blockHash event), fl_blocknumber = Some block_number,
          fl_txhash = transactionHash tx, fl_follower_user_id = a, fl_followee_user_id = b,
          fl_is_current = True, fl_is_delete = True, fl_created_at = block_datetime\<rparr> a b)
       events changes))"

type_synonym social_changes = "item_row changes \<times> item_row changes \<times> follow_row changes"

text \<open>The body of the loop over the receipts: six calls, wrapped into an \<open>IndexingError\<close>.\<close>

definition parse_social_tx ::
  "db \<Rightarrow> social_receipt \<Rightarrow> int \<Rightarrow> timestamp \<Rightarrow> hash \<Rightarrow> social_changes \<Rightarrow> exc + social_changes" where
  "parse_social_tx d tx bn ts bh ch =
     (case
        exc_bind (add_digital_content_repost tx bn ts (fst ch)) (\<lambda>a.
        exc_bind (delete_digital_content_repost tx bn ts a) (\<lambda>a.
        exc_bind (add_content_list_repost d tx bn ts (fst (snd ch))) (\<lambda>b.
        exc_bind (delete_content_list_repost d tx bn ts b) (\<lambda>b.
        exc_bind (add_follow tx bn ts (snd (snd ch))) (\<lambda>c.
        exc_bind (delete_follow tx bn ts c) (\<lambda>c. Inr (a, b, c)))))))
      of Inl e \<Rightarrow> Inl (IndexingError ''social_feature'' (Some bn) bh (Some (transactionHash tx)) (exc_str e))
       | Inr r \<Rightarrow> Inr r)"

fun parse_social_txs ::
  "db \<Rightarrow> social_receipt list \<Rightarrow> int \<Rightarrow> timestamp \<Rightarrow> hash \<Rightarrow> social_changes \<Rightarrow> exc + social_changes" where
  "parse_social_txs d [] bn ts bh ch = Inr ch"
| "parse_social_txs d (tx # txs) bn ts bh ch =
     exc_bind (parse_social_tx d tx bn ts bh ch) (parse_social_txs d txs bn ts bh)"

section \<open>Storing them\<close>

definition invalidate_old_repost :: "int \<Rightarrow> int \<Rightarrow> item_type \<Rightarrow> db \<Rightarrow> db" where
  "invalidate_old_repost u i t d = d\<lparr>reposts := sql_update
     (\<lambda>r. it_user_id r = u \<and> it_item_id r = i \<and> it_type r = t \<and> it_is_current r)
     (\<lambda>r. r\<lparr>it_is_current := False\<rparr>) (reposts d)\<rparr>"

definition invalidate_old_follow :: "int \<Rightarrow> int \<Rightarrow> db \<Rightarrow> db" where
  "invalidate_old_follow a b d = d\<lparr>follows := sql_update
     (\<lambda>r. fl_follower_user_id r = a \<and> fl_followee_user_id r = b \<and> fl_is_current r)
     (\<lambda>r. r\<lparr>fl_is_current := False\<rparr>) (follows d)\<rparr>"

definition dispatch_challenge_repost :: "item_row \<Rightarrow> int \<Rightarrow> world \<Rightarrow> world" where
  "dispatch_challenge_repost r bn = dispatch repost (Some bn) (Some (it_user_id r)) []"

definition dispatch_challenge_follow :: "follow_row \<Rightarrow> int \<Rightarrow> world \<Rightarrow> world" where
  "dispatch_challenge_follow r bn = dispatch follow (Some bn) (Some (fl_follower_user_id r)) []"

text \<open>The three loops of the bulk phase; the second one takes the item type from the row.\<close>

definition store_digital_content_repost :: "int \<Rightarrow> (int \<times> int) \<times> item_row \<Rightarrow> world \<Rightarrow> world" where
  "store_digital_content_repost bn c w =
     (case c of ((u, i), r) \<Rightarrow>
        dispatch_challenge_repost r bn (update_db (\<lambda>d.
          let d' = invalidate_old_repost u i ItemDigitalContent d
          in d'\<lparr>reposts := reposts d' @ [r]\<rparr>) w))"

definition store_content_list_repost :: "int \<Rightarrow> (int \<times> int) \<times> item_row \<Rightarrow> world \<Rightarrow> world" where
  "store_content_list_repost bn c w =
     (case c of ((u, i), r) \<Rightarrow>
        dispatch_challenge_repost r bn (update_db (\<lambda>d.
          let d' = invalidate_old_repost u i (it_type r) d
          in d'\<lparr>reposts := reposts d' @ [r]\<rparr>) w))"

definition store_follow :: "int \<Rightarrow> (int \<times> int) \<times> follow_row \<Rightarrow> world \<Rightarrow> world" where
  "store_follow bn c w =
     (case c of ((a, b), r) \<Rightarrow>
        dispatch_challenge_follow r bn (update_db (\<lambda>d.
          let d' = invalidate_old_follow a b d
          in d'\<lparr>follows := follows d' @ [r]\<rparr>) w))"

definition social_feature_state_update ::
  "social_receipt list \<Rightarrow> int \<Rightarrow> timestamp \<Rightarrow> hash \<Rightarrow> (world, int \<times> int list) py" where
  "social_feature_state_update txs bn ts bh =
     (if txs = [] then py_return (0, [])
      else py_bind (py_gets w_db) (\<lambda>d.
        py_bind (py_lift (parse_social_txs d txs bn ts bh ([], [], []))) (\<lambda>(rp, clrp, fl).
        py_seq (py_modify (fold (store_digital_content_repost bn) (change_items rp)))
       (py_seq (py_modify (fold (store_content_list_repost bn) (change_items clrp)))
       (py_seq (py_modify (fold (store_follow bn) (change_items fl)))
       (py_return (int (length (change_items rp) + length (change_items clrp)
                        + length (change_items fl)), [])))))))"

section \<open>The follow and repost graphs\<close>

text \<open>
  The abstract state: who follows whom and who reposts what, the pairs with a current row
  that is not a deletion. The abstract effect of a transaction is the sequence of its add and
  delete events in the order the handler takes them (all additions of a kind, then all
  deletions).
\<close>

definition follow_graph :: "db \<Rightarrow> (int \<times> int) set" where
  "follow_graph d = {(a, b). \<exists>r\<in>set (follows d). fl_follower_user_id r = a \<and>
     fl_followee_user_id r = b \<and> fl_is_current r \<and> \<not> fl_is_delete r}"

definition item_graph :: "item_row list \<Rightarrow> (int \<times> int \<times> item_type) set" where
  "item_graph tbl = {(u, i, t). \<exists>r\<in>set tbl. it_user_id r = u \<and> it_item_id r = i \<and>
     it_type r = t \<and> it_is_current r \<and> \<not> it_is_delete r}"

definition follow_events :: "social_receipt \<Rightarrow> (bool \<times> int \<times> int) list" where
  "follow_events tx =
     map (\<lambda>e. (True, sa_followerUserId (e_args e), sa_followeeUserId (e_args e)))
       (receipt_entries tx UserFollowAdded) @
     map (\<lambda>e. (False, sa_followerUserId (e_args e), sa_followeeUserId (e_args e)))
       (receipt_entries tx UserFollowDeleted)"

definition digital_content_repost_events :: "social_receipt \<Rightarrow> (bool \<times> int \<times> int) list" where
  "digital_content_repost_events tx =
     map (\<lambda>e. (True, sa_userId (e_args e), sa_digitalContentId (e_args e)))
       (receipt_entries tx DigitalContentRepostAdded) @
     map (\<lambda>e. (False, sa_userId (e_args e), sa_digitalContentId (e_args e)))
       (receipt_entries tx DigitalContentRepostDeleted)"

definition content_list_repost_events :: "social_receipt \<Rightarrow> (bool \<times> int \<times> int) list" where
  "content_list_repost_events tx =
     map (\<lambda>e. (True, sa_userId (e_args e), sa_contentListId (e_args e)))
       (receipt_entries tx ContentListRepostAdded) @
     map (\<lambda>e. (False, sa_userId (e_args e), sa_contentListId (e_args e)))
       (receipt_entries tx ContentListRepostDeleted)"

definition follow_row_wf :: "int \<times> int \<Rightarrow> follow_row \<Rightarrow> bool" where
  "follow_row_wf p r \<longleftrightarrow> follow_key r = p \<and> fl_is_current r"

definition item_row_wf :: "(int \<Rightarrow> item_type) \<Rightarrow> int \<times> int \<Rightarrow> item_row \<Rightarrow> bool" where
  "item_row_wf ty p r \<longleftrightarrow> item_key r = (fst p, snd p, ty (snd p)) \<and> it_is_current r"

lemma follow_graph_live: "follow_graph d = live_keys follow_key fl_is_current fl_is_delete (follows d)"
  by (auto simp: follow_graph_def live_keys_def cur_rows_def)

lemma item_graph_live: "item_graph tbl = live_keys item_key it_is_current it_is_delete tbl"
  by (auto simp: item_graph_def live_keys_def cur_rows_def)

subsection \<open>The collected changes\<close>

lemma add_follow_Inr:
  assumes "add_follow tx bn ts c = Inr c'" and "changes_wf follow_row_wf c"
  shows "changes_wf follow_row_wf c'"
    and "live_pairs fl_is_delete c' g = fold apply_edge
      (map (\<lambda>e. (True, sa_followerUserId (e_args e), sa_followeeUserId (e_args e)))
        (receipt_entries tx UserFollowAdded)) (live_pairs fl_is_delete c g)"
  using assms
  by (clarsimp simp: add_follow_def exc_bind_Inr_iff Let_def, intro changes_wf_fold,
      simp_all add: follow_row_wf_def item_row_wf_def)
    (clarsimp simp: add_follow_def exc_bind_Inr_iff Let_def, intro live_pairs_fold, simp_all)

lemma delete_follow_Inr:
  assumes "delete_follow tx bn ts c = Inr c'" and "changes_wf follow_row_wf c"
  shows "changes_wf follow_row_wf c'"
    and "live_pairs fl_is_delete c' g = fold apply_edge
      (map (\<lambda>e. (False, sa_followerUserId (e_args e), sa_followeeUserId (e_args e)))
        (receipt_entries tx UserFollowDeleted)) (live_pairs fl_is_delete c g)"
  using assms
  by (clarsimp simp: delete_follow_def exc_bind_Inr_iff Let_def, intro changes_wf_fold,
      simp_all add: follow_row_wf_def item_row_wf_def)
    (clarsimp simp: delete_follow_def exc_bind_Inr_iff Let_def, intro live_pairs_fold, simp_all)

lemma add_digital_content_repost_Inr:
  assumes "add_digital_content_repost tx bn ts c = Inr c'"
    and "changes_wf (item_row_wf (\<lambda>_. ItemDigitalContent)) c"
  shows "changes_wf (item_row_wf (\<lambda>_. ItemDigitalContent)) c'"
    and "live_pairs it_is_delete c' g = fold apply_edge
      (map (\<lambda>e. (True, sa_userId (e_args e), sa_digitalContentId (e_args e)))
        (receipt_entries tx DigitalContentRepostAdded)) (live_pairs it_is_delete c g)"
  using assms
  by (clarsimp simp: add_digital_content_repost_def exc_bind_Inr_iff Let_def, intro changes_wf_fold,
      simp_all add: follow_row_wf_def item_row_wf_def)
    (clarsimp simp: add_digital_content_repost_def exc_bind_Inr_iff Let_def, intro live_pairs_fold, simp_all)

lemma delete_digital_content_repost_Inr:
  assumes "delete_digital_content_repost tx bn ts c = Inr c'"
    and "changes_wf (item_row_wf (\<lambda>_. ItemDigitalContent)) c"
  shows "changes_wf (item_row_wf (\<lambda>_. ItemDigitalContent)) c'"
    and "live_pairs it_is_delete c' g = fold apply_edge
      (map (\<lambda>e. (False, sa_userId (e_args e), sa_digitalContentId (e_args e)))
        (receipt_entries tx DigitalContentRepostDeleted)) (live_pairs it_is_delete c g)"
  using assms
  by (clarsimp simp: delete_digital_content_repost_def exc_bind_Inr_iff Let_def, intro changes_wf_fold,
      simp_all add: follow_row_wf_def item_row_wf_def)
    (clarsimp simp: delete_digital_content_repost_def exc_bind_Inr_iff Let_def, intro live_pairs_fold, simp_all)

lemma add_content_list_repost_Inr:
  assumes "add_content_list_repost d tx bn ts c = Inr c'"
    and "changes_wf (item_row_wf (content_list_item_type d)) c"
  shows "changes_wf (item_row_wf (content_list_item_type d)) c'"
    and "live_pairs it_is_delete c' g = fold apply_edge
      (map (\<lambda>e. (True, sa_userId (e_args e), sa_contentListId (e_args e)))
        (receipt_entries tx ContentListRepostAdded)) (live_pairs it_is_delete c g)"
  using assms
  by (clarsimp simp: add_content_list_repost_def exc_bind_Inr_iff Let_def, intro changes_wf_fold,
      simp_all add: follow_row_wf_def item_row_wf_def)
    (clarsimp simp: add_content_list_repost_def exc_bind_Inr_iff Let_def, intro live_pairs_fold, simp_all)

lemma delete_content_list_repost_Inr:
  assumes "delete_content_list_repost d tx bn ts c = Inr c'"
    and "changes_wf (item_row_wf (content_list_item_type d)) c"
  shows "changes_wf (item_row_wf (content_list_item_type d)) c'"
    and "live_pairs it_is_delete c' g = fold apply_edge
      (map (\<lambda>e. (False, sa_userId (e_args e), sa_contentListId (e_args e)))
        (receipt_entries tx ContentListRepostDeleted)) (live_pairs it_is_delete c g)"
  using assms
  by (clarsimp simp: delete_content_list_repost_def exc_bind_Inr_iff Let_def, intro changes_wf_fold,
      simp_all add: follow_row_wf_def item_row_wf_def)
    (clarsimp simp: delete_content_list_repost_def exc_bind_Inr_iff Let_def, intro live_pairs_fold, simp_all)

lemmas social_Inr = add_follow_Inr delete_follow_Inr add_digital_content_repost_Inr
  delete_digital_content_repost_Inr add_content_list_repost_Inr delete_content_list_repost_Inr

definition social_wf :: "db \<Rightarrow> social_changes \<Rightarrow> bool" where
  "social_wf d ch \<longleftrightarrow> changes_wf (item_row_wf (\<lambda>_. ItemDigitalContent)) (fst ch) \<and>
     changes_wf (item_row_wf (content_list_item_type d)) (fst (snd ch)) \<and>
     changes_wf follow_row_wf (snd (snd ch))"

lemma parse_social_tx_Inr:
  assumes "parse_social_tx d tx bn ts bh ch = Inr ch'" and "social_wf d ch"
  shows "social_wf d ch'"
    and "live_pairs it_is_delete (fst ch') g =
      fold apply_edge (digital_content_repost_events tx) (live_pairs it_is_delete (fst ch) g)"
    and "live_pairs it_is_delete (fst (snd ch')) g =
      fold apply_edge (content_list_repost_events tx) (live_pairs it_is_delete (fst (snd ch)) g)"
    and "live_pairs fl_is_delete (snd (snd ch')) g' =
      fold apply_edge (follow_events tx) (live_pairs fl_is_delete (snd (snd ch)) g')"
  using assms
  by (auto simp: parse_social_tx_def social_wf_def digital_content_repost_events_def
      content_list_repost_events_def follow_events_def exc_bind_Inr_iff social_Inr split: sum.splits)

lemma parse_social_txs_Inr:
  assumes "parse_social_txs d txs bn ts bh ch = Inr ch'" and "social_wf d ch"
  shows "social_wf d ch' \<and>
    live_pairs it_is_delete (fst ch') g = fold apply_edge
      (concat (map digital_content_repost_events txs)) (live_pairs it_is_delete (fst ch) g) \<and>
    live_pairs it_is_delete (fst (snd ch')) g = fold apply_edge
      (concat (map content_list_repost_events txs)) (live_pairs it_is_delete (fst (snd ch)) g) \<and>
    live_pairs fl_is_delete (snd (snd ch')) g' = fold apply_edge
      (concat (map follow_events txs)) (live_pairs fl_is_delete (snd (snd ch)) g')"
  using assms
proof (induction txs arbitrary: ch)
  case Nil
  then show ?case by simp
next
  case (Cons tx txs)
  then obtain ch1 where step: "parse_social_tx d tx bn ts bh ch = Inr ch1"
    and rest: "parse_social_txs d txs bn ts bh ch1 = Inr ch'"
    by (auto simp: exc_bind_Inr_iff)
  note one = parse_social_tx_Inr [OF step Cons.prems(2)]
  from Cons.IH [OF rest one(1)] show ?case by (simp add: one)
qed

subsection \<open>The bulk phase\<close>

abbreviation upsert_follow :: "follow_row \<Rightarrow> follow_row list \<Rightarrow> follow_row list" where
  "upsert_follow \<equiv> upsert follow_key fl_is_current fl_set_current"

abbreviation upsert_item :: "item_row \<Rightarrow> item_row list \<Rightarrow> item_row list" where
  "upsert_item \<equiv> upsert item_key it_is_current it_set_current"

definition user_events_of :: "challenge_event \<Rightarrow> int \<Rightarrow> int list \<Rightarrow> internal_event list" where
  "user_events_of ev bn us =
     map (\<lambda>u. \<lparr>ie_event = ev, ie_block_number = bn, ie_user_id = u, ie_extra = []\<rparr>) us"

lemma user_events_of_simps [simp]:
  "user_events_of ev bn [] = []"
  "user_events_of ev bn (u # us) =
     \<lparr>ie_event = ev, ie_block_number = bn, ie_user_id = u, ie_extra = []\<rparr> # user_events_of ev bn us"
  by (simp_all add: user_events_of_def)

lemma store_follow_eq:
  assumes "follow_row_wf p r"
  shows "store_follow bn (p, r) w =
    w\<lparr>w_db := (w_db w)\<lparr>follows := upsert_follow r (follows (w_db w))\<rparr>,
      w_queue := w_queue w @ user_events_of follow bn [fl_follower_user_id r]\<rparr>"
proof -
  have "(\<lambda>q. fl_follower_user_id q = fst p \<and> fl_followee_user_id q = snd p \<and> fl_is_current q)
      = (\<lambda>q. follow_key q = follow_key r \<and> fl_is_current q)"
    using assms by (auto simp: follow_row_wf_def)
  then show ?thesis
    by (cases p) (simp add: store_follow_def dispatch_challenge_follow_def dispatch_def update_db_def
        invalidate_old_follow_def upsert_def invalidate_def Let_def)
qed

lemma store_content_list_repost_eq:
  assumes "item_row_wf ty p r"
  shows "store_content_list_repost bn (p, r) w =
    w\<lparr>w_db := (w_db w)\<lparr>reposts := upsert_item r (reposts (w_db w))\<rparr>,
      w_queue := w_queue w @ user_events_of repost bn [it_user_id r]\<rparr>"
proof -
  have "(\<lambda>q. it_user_id q = fst p \<and> it_item_id q = snd p \<and> it_type q = it_type r \<and> it_is_current q)
      = (\<lambda>q. item_key q = item_key r \<and> it_is_current q)"
    using assms by (auto simp: item_row_wf_def)
  then show ?thesis
    by (cases p) (simp add: store_content_list_repost_def dispatch_challenge_repost_def dispatch_def
        update_db_def invalidate_old_repost_def upsert_def invalidate_def Let_def)
qed

lemma store_digital_content_repost_eq:
  assumes "item_row_wf (\<lambda>_. ItemDigitalContent) p r"
  shows "store_digital_content_repost bn (p, r) w =
    w\<lparr>w_db := (w_db w)\<lparr>reposts := upsert_item r (reposts (w_db w))\<rparr>,
      w_queue := w_queue w @ user_events_of repost bn [it_user_id r]\<rparr>"
proof -
  have "store_digital_content_repost bn (p, r) w = store_content_list_repost bn (p, r) w"
    using assms by (cases p)
      (simp add: store_digital_content_repost_def store_content_list_repost_def item_row_wf_def)
  then show ?thesis by (simp only: store_content_list_repost_eq [OF assms])
qed

lemma fold_store_follow:
  assumes "\<And>p r. (p, r) \<in> set cs \<Longrightarrow> follow_row_wf p r"
  shows "fold (store_follow bn) cs w =
    w\<lparr>w_db := (w_db w)\<lparr>follows := fold upsert_follow (map snd cs) (follows (w_db w))\<rparr>,
      w_queue := w_queue w @ user_events_of follow bn (map (fl_follower_user_id \<circ> snd) cs)\<rparr>"
  using assms by (induction cs arbitrary: w) (auto simp: store_follow_eq)

lemma fold_store_content_list_repost:
  assumes "\<And>p r. (p, r) \<in> set cs \<Longrightarrow> item_row_wf ty p r"
  shows "fold (store_content_list_repost bn) cs w =
    w\<lparr>w_db := (w_db w)\<lparr>reposts := fold upsert_item (map snd cs) (reposts (w_db w))\<rparr>,
      w_queue := w_queue w @ user_events_of repost bn (map (it_user_id \<circ> snd) cs)\<rparr>"
  using assms by (induction cs arbitrary: w) (auto simp: store_content_list_repost_eq [where ty = ty])

lemma fold_store_digital_content_repost:
  assumes "\<And>p r. (p, r) \<in> set cs \<Longrightarrow> item_row_wf (\<lambda>_. ItemDigitalContent) p r"
  shows "fold (store_digital_content_repost bn) cs w =
    w\<lparr>w_db := (w_db w)\<lparr>reposts := fold upsert_item (map snd cs) (reposts (w_db w))\<rparr>,
      w_queue := w_queue w @ user_events_of repost bn (map (it_user_id \<circ> snd) cs)\<rparr>"
  using assms by (induction cs arbitrary: w) (auto simp: store_digital_content_repost_eq)

text \<open>The whole handler, when it returns.\<close>

definition social_result ::
  "int \<Rightarrow> social_changes \<Rightarrow> world \<Rightarrow> world" where
  "social_result bn ch w =
     w\<lparr>w_db := (w_db w)\<lparr>
         follows := fold upsert_follow (map snd (change_items (snd (snd ch)))) (follows (w_db w)),
         reposts := fold upsert_item (map snd (change_items (fst (snd ch))))
           (fold upsert_item (map snd (change_items (fst ch))) (reposts (w_db w)))\<rparr>,
       w_queue := w_queue w @
         user_events_of repost bn (map (it_user_id \<circ> snd) (change_items (fst ch))) @
         user_events_of repost bn (map (it_user_id \<circ> snd) (change_items (fst (snd ch)))) @
         user_events_of follow bn (map (fl_follower_user_id \<circ> snd) (change_items (snd (snd ch))))\<rparr>"

lemma social_wf_items:
  assumes "social_wf d ch"
  shows "(p, r) \<in> set (change_items (fst ch)) \<Longrightarrow> item_row_wf (\<lambda>_. ItemDigitalContent) p r"
    and "(p, r) \<in> set (change_items (fst (snd ch))) \<Longrightarrow> item_row_wf (content_list_item_type d) p r"
    and "(p, q) \<in> set (change_items (snd (snd ch))) \<Longrightarrow> follow_row_wf p q"
  using assms by (auto simp: social_wf_def dest: changes_wf_items)

lemma social_wf_Nil [simp]: "social_wf d ([], [], [])"
  by (simp add: social_wf_def)

lemma social_run:
  "social_feature_state_update txs bn ts bh w =
    (case parse_social_txs (w_db w) txs bn ts bh ([], [], []) of
       Inl e \<Rightarrow> (Inl e, w)
     | Inr ch \<Rightarrow> (Inr (int (length (change_items (fst ch)) + length (change_items (fst (snd ch)))
         + length (change_items (snd (snd ch)))), []), social_result bn ch w))"
proof (cases "parse_social_txs (w_db w) txs bn ts bh ([], [], [])")
  case (Inl e)
  then show ?thesis
    by (cases txs) (auto simp: social_feature_state_update_def py_defs)
next
  case (Inr ch)
  have wf: "social_wf (w_db w) ch"
    using parse_social_txs_Inr [OF Inr] by simp
  note stores = fold_store_digital_content_repost [OF social_wf_items(1) [OF wf]]
    fold_store_content_list_repost [OF social_wf_items(2) [OF wf]]
    fold_store_follow [OF social_wf_items(3) [OF wf]]
  show ?thesis
  proof (cases txs)
    case Nil
    with Inr show ?thesis
      by (auto simp: social_feature_state_update_def py_defs social_result_def change_items_def)
  next
    case (Cons tx rest)
    with Inr show ?thesis
      by (simp add: social_feature_state_update_def py_defs social_result_def stores case_prod_unfold)
  qed
qed

lemma social_run_Inr:
  assumes "social_feature_state_update txs bn ts bh w = (Inr res, w')"
  obtains ch where "parse_social_txs (w_db w) txs bn ts bh ([], [], []) = Inr ch"
    and "social_wf (w_db w) ch" and "w' = social_result bn ch w"
  using assms parse_social_txs_Inr [of "w_db w" txs bn ts bh "([], [], [])"]
  by (auto simp: social_run split: sum.splits)

lemma content_list_item_type_neq [simp]: "content_list_item_type d i \<noteq> ItemDigitalContent"
  by (simp add: content_list_item_type_def split: list.split)

lemma inj_item_pair: "inj (\<lambda>p. (fst p, snd p, ty (snd p)))"
  by (auto simp: inj_on_def)

text \<open>Storing the rows of one dictionary, seen on the live items.\<close>

lemma item_graph_store:
  assumes "changes_wf (item_row_wf ty) ch"
  shows "(u, i, t) \<in> item_graph (fold upsert_item (map snd (change_items ch)) tbl) \<longleftrightarrow>
    (if t = ty i then (u, i) \<in> live_pairs it_is_delete ch {(u, i). (u, i, ty i) \<in> item_graph tbl}
     else (u, i, t) \<in> item_graph tbl)"
proof -
  let ?f = "\<lambda>p. (fst p, snd p, ty (snd p))"
  have inv: "inv ?f (u, i, ty i) = (u, i)"
    using inv_f_f [OF inj_item_pair, of ty "(u, i)"] by simp
  have mem: "(u, i, t) \<in> range ?f \<longleftrightarrow> t = ty i" by (auto simp: image_iff)
  have "(u, i, t) \<in> item_graph (fold upsert_item (map snd (change_items ch)) tbl) \<longleftrightarrow>
    (if (u, i, t) \<in> range ?f
     then inv ?f (u, i, t) \<in> live_pairs it_is_delete ch {p. ?f p \<in> item_graph tbl}
     else (u, i, t) \<in> item_graph tbl)"
    unfolding item_graph_live
    by (rule it.live_keys_store [OF assms inj_item_pair]) (simp add: item_row_wf_def)
  moreover have "{p. ?f p \<in> item_graph tbl} = {(u, i). (u, i, ty i) \<in> item_graph tbl}"
    by auto
  ultimately show ?thesis using inv mem by auto
qed

lemma item_one_current:
  assumes "\<And>k. length (cur_rows item_key it_is_current tbl k) \<le> 1" and "changes_wf (item_row_wf ty) ch"
  shows "length (cur_rows item_key it_is_current (fold upsert_item (map snd (change_items ch)) tbl) k) \<le> 1"
  using assms(1) by (rule it.one_current_fold_upsert)
    (use assms(2) in \<open>auto dest: changes_wf_items simp: item_row_wf_def\<close>)

section \<open>Properties\<close>

lemma follow_events_applied:
  assumes "social_feature_state_update txs bn ts bh w = (Inr res, w')"
  shows "follow_graph (w_db w') =
    fold apply_edge (concat (map follow_events txs)) (follow_graph (w_db w))"
proof -
  obtain ch where p: "parse_social_txs (w_db w) txs bn ts bh ([], [], []) = Inr ch"
    and wf: "social_wf (w_db w) ch" and w': "w' = social_result bn ch w"
    using assms by (rule social_run_Inr)
  have "changes_wf follow_row_wf (snd (snd ch))" using wf by (simp add: social_wf_def)
  from fl.live_keys_store [OF this inj_on_id2] have
    "follow_graph (w_db w') = live_pairs fl_is_delete (snd (snd ch)) (follow_graph (w_db w))"
    by (auto simp: follow_graph_live w' social_result_def follow_row_wf_def inv_id [unfolded id_def])
  then show ?thesis using parse_social_txs_Inr [OF p] by simp
qed

lemma follow_rows_current:
  assumes "\<And>k. length (cur_rows follow_key fl_is_current (follows (w_db w)) k) \<le> 1"
    and "parse_social_txs (w_db w) txs bn ts bh ([], [], []) = Inr ch"
  shows "length (cur_rows follow_key fl_is_current (follows (w_db (social_result bn ch w))) k) \<le> 1"
proof -
  have wf: "social_wf (w_db w) ch" using parse_social_txs_Inr [OF assms(2)] by simp
  have "length (cur_rows follow_key fl_is_current (fold upsert_follow
      (map snd (change_items (snd (snd ch)))) (follows (w_db w))) k) \<le> 1"
    using assms(1) by (rule fl.one_current_fold_upsert)
      (use social_wf_items(3) [OF wf] in \<open>auto simp: follow_row_wf_def\<close>)
  then show ?thesis by (simp add: social_result_def)
qed

text \<open>
  C30. Refinement of the follow relation: when the handler returns, the pairs with a live
  current follow row are those obtained by applying the follow and unfollow events of the
  block, transaction by transaction, to the pairs that were live before. So the last event
  on a pair decides, and untouched pairs keep their state.
\<close>

theorem follow_graph_refines:
  assumes "social_feature_state_update txs bn ts bh w = (Inr res, w')"
  shows "follow_graph (w_db w') =
    fold apply_edge (concat (map follow_events txs)) (follow_graph (w_db w))"
  using assms by (rule follow_events_applied)

text \<open>One transaction of user 1: follow 2 and 3, unfollow 3, repost content 5 and list 6.\<close>

definition ex_social :: social_receipt where
  "ex_social = sample_receipt ''0x1'' (\<lambda>t.
     let args = \<lparr>sa_userId = 1, sa_digitalContentId = 5, sa_contentListId = 6,
                  sa_followerUserId = 1, sa_followeeUserId = 3\<rparr>
     in case t of
          UserFollowAdded \<Rightarrow> [args\<lparr>sa_followeeUserId := 2\<rparr>, args]
        | UserFollowDeleted \<Rightarrow> [args]
        | DigitalContentRepostAdded \<Rightarrow> [args]
        | ContentListRepostAdded \<Rightarrow> [args]
        | _ \<Rightarrow> [])"

lemma ex_social_returns:
  obtains w' where "social_feature_state_update [ex_social] 7 100 ''0xb'' empty_world = (Inr (4, []), w')"
proof -
  have "fst (social_feature_state_update [ex_social] 7 100 ''0xb'' empty_world) = Inr (4, [])"
    by code_simp
  then show thesis using that by (metis prod.collapse)
qed

theorem follow_graph_refines_witness:
  "\<exists>w'. social_feature_state_update [ex_social] 7 100 ''0xb'' empty_world = (Inr (4, []), w') \<and>
     follow_graph (w_db w') = {(1, 2)}"
proof (rule ex_social_returns)
  fix w' assume run: "social_feature_state_update [ex_social] 7 100 ''0xb'' empty_world = (Inr (4, []), w')"
  from follow_graph_refines [OF run] run show ?thesis
    by (auto simp: follow_events_def ex_social_def follow_graph_def empty_world_def empty_db_def)
qed

text \<open>
  Refinement of the repost relation: the same for the reposts of digital contents, and
  for the reposts of content lists, which are stored as album or content list according to
  the current content list row at the time of the block; items of any other type keep their
  state.
\<close>

theorem repost_graph_refines:
  assumes "social_feature_state_update txs bn ts bh w = (Inr res, w')"
  shows "(u, i, t) \<in> item_graph (reposts (w_db w')) \<longleftrightarrow>
    (if t = ItemDigitalContent
     then (u, i) \<in> fold apply_edge (concat (map digital_content_repost_events txs))
            {(u, i). (u, i, ItemDigitalContent) \<in> item_graph (reposts (w_db w))}
     else if t = content_list_item_type (w_db w) i
     then (u, i) \<in> fold apply_edge (concat (map content_list_repost_events txs))
            {(u, i). (u, i, content_list_item_type (w_db w) i) \<in> item_graph (reposts (w_db w))}
     else (u, i, t) \<in> item_graph (reposts (w_db w)))"
proof -
  obtain ch where p: "parse_social_txs (w_db w) txs bn ts bh ([], [], []) = Inr ch"
    and wf: "social_wf (w_db w) ch" and w': "w' = social_result bn ch w"
    using assms by (rule social_run_Inr)
  have wf1: "changes_wf (item_row_wf (\<lambda>_. ItemDigitalContent)) (fst ch)"
    and wf2: "changes_wf (item_row_wf (content_list_item_type (w_db w))) (fst (snd ch))"
    using wf by (simp_all add: social_wf_def)
  show ?thesis
    using parse_social_txs_Inr [OF p]
    by (simp add: w' social_result_def item_graph_store [OF wf1] item_graph_store [OF wf2])
qed

theorem repost_graph_refines_witness:
  "\<exists>w'. social_feature_state_update [ex_social] 7 100 ''0xb'' empty_world = (Inr (4, []), w') \<and>
     (1, 5, ItemDigitalContent) \<in> item_graph (reposts (w_db w')) \<and>
     (1, 6, ItemContentList) \<in> item_graph (reposts (w_db w')) \<and>
     (1, 6, ItemDigitalContent) \<notin> item_graph (reposts (w_db w'))"
proof (rule ex_social_returns)
  fix w' assume run: "social_feature_state_update [ex_social] 7 100 ''0xb'' empty_world = (Inr (4, []), w')"
  note spec = repost_graph_refines [OF run]
  have empty: "item_graph (reposts (w_db empty_world)) = {}" "content_list_item_type (w_db empty_world) i = ItemContentList" for i
    by (simp_all add: item_graph_def empty_world_def empty_db_def content_list_item_type_def)
  show ?thesis
    using run by (simp add: spec empty digital_content_repost_events_def content_list_repost_events_def ex_social_def)
qed

text \<open>
  C31. The handler keeps the invariant of the versioned tables: if every pair had at most one
  current follow row and every (user, item, type) at most one current repost row, that still
  holds after the block, whether the handler returned or raised.
\<close>

theorem social_one_current:
  assumes "\<And>k. length (cur_rows follow_key fl_is_current (follows (w_db w)) k) \<le> 1"
    and "\<And>k. length (cur_rows item_key it_is_current (reposts (w_db w)) k) \<le> 1"
    and "social_feature_state_update txs bn ts bh w = (res, w')"
  shows "length (cur_rows follow_key fl_is_current (follows (w_db w')) k) \<le> 1 \<and>
    length (cur_rows item_key it_is_current (reposts (w_db w')) j) \<le> 1"
proof (cases "parse_social_txs (w_db w) txs bn ts bh ([], [], [])")
  case (Inl e)
  with assms show ?thesis by (simp add: social_run)
next
  case (Inr ch)
  then have w': "w' = social_result bn ch w" using assms(3) by (simp add: social_run)
  have wf: "social_wf (w_db w) ch" using parse_social_txs_Inr [OF Inr] by simp
  then have items: "changes_wf (item_row_wf (\<lambda>_. ItemDigitalContent)) (fst ch)"
    "changes_wf (item_row_wf (content_list_item_type (w_db w))) (fst (snd ch))"
    by (simp_all add: social_wf_def)
  have "length (cur_rows item_key it_is_current (reposts (w_db w')) j) \<le> 1"
    using item_one_current [OF item_one_current [OF assms(2) items(1)] items(2), of j]
    by (simp add: w' social_result_def)
  with follow_rows_current [OF assms(1) Inr, of k] show ?thesis by (simp add: w')
qed

theorem social_one_current_witness:
  "\<exists>res w'. social_feature_state_update [ex_social] 7 100 ''0xb'' empty_world = (res, w') \<and>
     length (cur_rows follow_key fl_is_current (follows (w_db w')) (1, 2)) \<le> 1 \<and>
     length (cur_rows item_key it_is_current (reposts (w_db w')) (1, 5, ItemDigitalContent)) \<le> 1"
proof (rule ex_social_returns)
  fix w' assume run: "social_feature_state_update [ex_social] 7 100 ''0xb'' empty_world = (Inr (4, []), w')"
  have empty: "length (cur_rows follow_key fl_is_current (follows (w_db empty_world)) k) \<le> 1"
    "length (cur_rows item_key it_is_current (reposts (w_db empty_world)) j) \<le> 1" for k j
    by (simp_all add: cur_rows_def empty_world_def empty_db_def)
  from social_one_current [OF empty run] run show ?thesis by blast
qed

end
