(* ===== verification/Revert.thy ===== *)
theory Revert
  imports Digital_Contents Social_Features
begin

text \<open>
  Undoing blocks: \<open>revert_blocks\<close> and \<open>revert_user_events\<close> of src/tasks/index.py. Every row a
  reverted block wrote is deleted, and the row the code takes for its predecessor becomes
  current again; the parent block becomes the current block. How the database orders slugs is
  a parameter, \<open>collation\<close>.
\<close>

definition default_padded_start_hash :: hash where
  "default_padded_start_hash = ''0x0000000000000000000000000000000000000000000000000000000000000000''"

definition default_config_start_hash :: hash where
  "default_config_start_hash = ''0x0''"

section \<open>One block\<close>

text \<open>
  Saves, reposts and follows: the predecessor is looked up among all rows of the key, not
  only those of earlier blocks.
\<close>

definition revert_items :: "hash \<Rightarrow> item_row list \<Rightarrow> item_row list" where
  "revert_items revert_hash tbl =
     fold (revert_entry (same_row it_set_current) (\<lambda>e r. item_key r = item_key e) it_blocknumber it_set_current)
       (filter (\<lambda>r. it_blockhash r = Some revert_hash) tbl) tbl"

definition revert_follows :: "hash \<Rightarrow> follow_row list \<Rightarrow> follow_row list" where
  "revert_follows revert_hash tbl =
     fold (revert_entry (same_row fl_set_current) (\<lambda>e r. follow_key r = follow_key e) fl_blocknumber fl_set_current)
       (filter (\<lambda>r. fl_blockhash r = Some revert_hash) tbl) tbl"

text \<open>Content lists, digital contents, content nodes and users: only rows of earlier blocks.\<close>

definition revert_content_lists :: "hash \<Rightarrow> int option \<Rightarrow> content_list_row list \<Rightarrow> content_list_row list" where
  "revert_content_lists revert_hash n tbl =
     fold (revert_entry (same_row cl_set_current) (\<lambda>e r. cl_id r = cl_id e \<and> sql_less (cl_blocknumber r) n)
         cl_blocknumber cl_set_current)
       (filter (\<lambda>r. cl_blockhash r = Some revert_hash) tbl) tbl"

definition revert_digital_contents ::
  "hash \<Rightarrow> int option \<Rightarrow> digital_content_row list \<Rightarrow> digital_content_row list" where
  "revert_digital_contents revert_hash n tbl =
     fold (revert_entry (same_row dc_set_current) (\<lambda>e r. dc_id r = dc_id e \<and> sql_less (dc_blocknumber r) n)
         dc_blocknumber dc_set_current)
       (filter (\<lambda>r. dc_blockhash r = Some revert_hash) tbl) tbl"

definition revert_ursm_content_nodes :: "hash \<Rightarrow> int option \<Rightarrow> ursm_row list \<Rightarrow> ursm_row list" where
  "revert_ursm_content_nodes revert_hash n tbl =
     fold (revert_entry (same_row cn_set_current) (\<lambda>e r. cn_sp_id r = cn_sp_id e \<and> sql_less (cn_blocknumber r) n)
         cn_blocknumber cn_set_current)
       (filter (\<lambda>r. cn_blockhash r = Some revert_hash) tbl) tbl"

definition revert_users :: "hash \<Rightarrow> int option \<Rightarrow> user_row list \<Rightarrow> user_row list" where
  "revert_users revert_hash n tbl =
     fold (revert_entry (same_row us_set_current) (\<lambda>e r. us_user_id r = us_user_id e \<and> sql_less (us_blocknumber r) n)
         us_blocknumber us_set_current)
       (filter (\<lambda>r. us_blockhash r = Some revert_hash) tbl) tbl"

text \<open>
  Associated wallets and user events: all rows of the user's preceding block become current.
\<close>

definition revert_wallet :: "int option \<Rightarrow> wallet_row \<Rightarrow> wallet_row list \<Rightarrow> wallet_row list" where
  "revert_wallet n e tbl =
     sql_delete (\<lambda>r. aw_id r = aw_id e)
       (case first_desc aw_blocknumber
              (filter (\<lambda>r. aw_user_id r = aw_user_id e \<and> sql_less (aw_blocknumber r) n) tbl) of
          None \<Rightarrow> tbl
        | Some p \<Rightarrow> sql_update (\<lambda>r. aw_user_id r = aw_user_id e \<and> aw_blocknumber r = aw_blocknumber p)
            (\<lambda>r. r\<lparr>aw_is_current := True\<rparr>) tbl)"

definition revert_user_event :: "int option \<Rightarrow> user_event_row \<Rightarrow> user_event_row list \<Rightarrow> user_event_row list" where
  "revert_user_event n e tbl =
     sql_delete (\<lambda>r. ue_id r = ue_id e)
       (case first_desc ue_blocknumber
              (filter (\<lambda>r. ue_user_id r = ue_user_id e \<and> sql_less (ue_blocknumber r) n) tbl) of
          None \<Rightarrow> tbl
        | Some p \<Rightarrow> sql_update (\<lambda>r. ue_user_id r = ue_user_id e \<and> ue_blocknumber r = ue_blocknumber p)
            (\<lambda>r. r\<lparr>ue_is_current := True\<rparr>) tbl)"

definition revert_user_events ::
  "user_event_row list \<Rightarrow> int option \<Rightarrow> user_event_row list \<Rightarrow> user_event_row list" where
  "revert_user_events revert_user_events_entries n tbl =
     fold (revert_user_event n) revert_user_events_entries tbl"

text \<open>Routes: \<open>order_by(blocknumber.desc(), slug.asc())\<close>; (owner, slug) identifies a row.\<close>

definition route_before :: "(string \<Rightarrow> string \<Rightarrow> bool) \<Rightarrow> route_row \<Rightarrow> route_row \<Rightarrow> bool" where
  "route_before collation q r \<longleftrightarrow> desc_before (rt_blocknumber q) (rt_blocknumber r) \<or>
     (\<not> desc_before (rt_blocknumber r) (rt_blocknumber q) \<and> collation (rt_slug q) (rt_slug r))"

fun first_route :: "(string \<Rightarrow> string \<Rightarrow> bool) \<Rightarrow> route_row list \<Rightarrow> route_row option" where
  "first_route collation [] = None"
| "first_route collation (r # rs) =
     (case first_route collation rs of
        None \<Rightarrow> Some r
      | Some q \<Rightarrow> if route_before collation q r then Some q else Some r)"

definition same_route :: "route_row \<Rightarrow> route_row \<Rightarrow> bool" where
  "same_route p r \<longleftrightarrow> rt_owner_id r = rt_owner_id p \<and> rt_slug r = rt_slug p"

definition revert_route ::
  "(string \<Rightarrow> string \<Rightarrow> bool) \<Rightarrow> int option \<Rightarrow> route_row \<Rightarrow> route_row list \<Rightarrow> route_row list" where
  "revert_route collation n e tbl =
     sql_delete (same_route e)
       (case first_route collation (filter (\<lambda>r. rt_digital_content_id r = rt_digital_content_id e \<and>
              sql_less (rt_blocknumber r) n) tbl) of
          None \<Rightarrow> tbl
        | Some p \<Rightarrow> sql_update (same_route p) (\<lambda>r. r\<lparr>rt_is_current := True\<rparr>) tbl)"

text \<open>The two updates of the blocks table, and the deletion at the end.\<close>

definition revert_parent_hash :: "block_row \<Rightarrow> hash option" where
  "revert_parent_hash revert_block =
     (if b_parenthash revert_block = Some default_padded_start_hash then Some default_config_start_hash
      else b_parenthash revert_block)"

definition revert_blocks_table :: "block_row \<Rightarrow> block_row list \<Rightarrow> block_row list" where
  "revert_blocks_table revert_block tbl =
     sql_delete (\<lambda>b. b_blockhash b = b_blockhash revert_block)
       (sql_update (\<lambda>b. Some (b_blockhash b) = revert_parent_hash revert_block) (\<lambda>b. b\<lparr>b_is_current := True\<rparr>)
         (sql_update (\<lambda>b. b_blockhash b = b_blockhash revert_block) (\<lambda>b. b\<lparr>b_is_current := False\<rparr>) tbl))"

text \<open>
  The body of the loop. The rows to revert are queried before the first change; as each step
  below changes one table only, and the rows of that table are queried first, the order of
  the queries makes no difference.
\<close>

definition revert_block :: "(string \<Rightarrow> string \<Rightarrow> bool) \<Rightarrow> block_row \<Rightarrow> db \<Rightarrow> db" where
  "revert_block collation rb d =
     (let h = b_blockhash rb; n = b_number rb in
      d\<lparr>blocks := revert_blocks_table rb (blocks d),
        saves := revert_items h (saves d),
        reposts := revert_items h (reposts d),
        follows := revert_follows h (follows d),
        content_lists := revert_content_lists h n (content_lists d),
        digital_contents := revert_digital_contents h n (digital_contents d),
        ursm_content_nodes := revert_ursm_content_nodes h n (ursm_content_nodes d),
        users := revert_users h n (users d),
        associated_wallets := fold (revert_wallet n)
          (filter (\<lambda>r. aw_blockhash r = Some h) (associated_wallets d)) (associated_wallets d),
        user_events := revert_user_events
          (filter (\<lambda>r. ue_blockhash r = Some h) (user_events d)) n (user_events d),
        digital_content_routes := fold (revert_route collation n)
          (filter (\<lambda>r. rt_blockhash r = Some h) (digital_content_routes d)) (digital_content_routes d)\<rparr>)"

section \<open>A list of blocks\<close>

text \<open>More than 10,000 blocks raise, and of more than 500 only the first 500 are reverted.\<close>

definition revert_blocks :: "(string \<Rightarrow> string \<Rightarrow> bool) \<Rightarrow> block_row list \<Rightarrow> db \<Rightarrow> exc + db" where
  "revert_blocks collation revert_blocks_list d =
     (let num_revert_blocks = length revert_blocks_list in
      if num_revert_blocks = 0 then Inr d
      else if num_revert_blocks > 10000 then Inl (PyException ''Unexpected revert, >10,0000 blocks'')
      else
        let revert_list = (if num_revert_blocks > 500 then take 500 revert_blocks_list else revert_blocks_list)
        in Inr (fold (revert_block collation) revert_list d))"

section \<open>Lemmas\<close>

text \<open>Which block is current.\<close>

definition current_blocks :: "db \<Rightarrow> hash list" where
  "current_blocks d = map b_blockhash (filter b_is_current (blocks d))"

definition blocks_ok :: "db \<Rightarrow> bool" where
  "blocks_ok d \<longleftrightarrow> distinct (map b_blockhash (blocks d))"

text \<open>
  \<open>known_chain d h bs p\<close>: the rows \<open>bs\<close> of the blocks table lead from the block with hash
  \<open>h\<close> down to the block \<open>p\<close>, each the child of the next.
\<close>

fun known_chain :: "db \<Rightarrow> hash \<Rightarrow> block_row list \<Rightarrow> hash \<Rightarrow> bool" where
  "known_chain d h [] p \<longleftrightarrow> h = p"
| "known_chain d h (b # bs) p \<longleftrightarrow> b_blockhash b = h \<and> b \<in> set (blocks d) \<and>
     (\<exists>q. revert_parent_hash b = Some q \<and> q \<noteq> h \<and> known_chain d q bs p)"

lemma revert_block_frame [simp]: "blocks (revert_block c rb d) = revert_blocks_table rb (blocks d)"
  by (simp add: revert_block_def Let_def)

lemma revert_blocks_table_hashes:
  "map b_blockhash (revert_blocks_table rb tbl) = filter (\<lambda>h. h \<noteq> b_blockhash rb) (map b_blockhash tbl)"
  by (induction tbl) (auto simp: revert_blocks_table_def sql_delete_def sql_update_def)

lemma current_revert:
  assumes "distinct (map b_blockhash tbl)" and "map b_blockhash (filter b_is_current tbl) = [b_blockhash rb]"
    and "revert_parent_hash rb = Some q" and "q \<noteq> b_blockhash rb" and "q \<in> b_blockhash ` set tbl"
  shows "map b_blockhash (filter b_is_current (revert_blocks_table rb tbl)) = [q]"
proof -
  let ?f = "\<lambda>b. let b = (if b_blockhash b = b_blockhash rb then b\<lparr>b_is_current := False\<rparr> else b)
    in if b_blockhash b = q then b\<lparr>b_is_current := True\<rparr> else b"
  have cur: "b_is_current b \<longleftrightarrow> b_blockhash b = b_blockhash rb" if "b \<in> set tbl" for b
  proof -
    have img: "b_blockhash ` {c \<in> set tbl. b_is_current c} = {b_blockhash rb}"
      using arg_cong [OF assms(2), of set] by simp
    then have mem: "b_is_current c \<Longrightarrow> c \<in> set tbl \<Longrightarrow> b_blockhash c = b_blockhash rb" for c by blast
    from img obtain c where c: "c \<in> set tbl" "b_is_current c" "b_blockhash c = b_blockhash rb" by blast
    have "b_blockhash b = b_blockhash rb \<Longrightarrow> b = c"
      using assms(1) c that by (auto simp: distinct_map inj_on_def)
    with c mem that show ?thesis by blast
  qed
  have eq: "revert_blocks_table rb tbl = filter (\<lambda>b. b_blockhash b \<noteq> b_blockhash rb) (map ?f tbl)"
    unfolding revert_blocks_table_def sql_delete_def sql_update_def map_map comp_def assms(3)
    by (rule arg_cong2 [where f = filter, OF refl map_cong [OF refl]]) (auto simp: Let_def)
  have "filter b_is_current (revert_blocks_table rb tbl) = map ?f (filter (\<lambda>b. b_blockhash b = q) tbl)"
    unfolding eq filter_map filter_filter comp_def
    by (rule arg_cong [where f = "map ?f"], rule filter_cong [OF refl]) (use cur assms(4) in \<open>auto simp: Let_def\<close>)
  moreover have single: "map b_blockhash (filter (\<lambda>b. b_blockhash b = q) tbl) = [q]"
    using assms(1,5)
  proof (induction tbl)
    case (Cons b tbl)
    show ?case
    proof (cases "b_blockhash b = q")
      case True
      with Cons.prems have "filter (\<lambda>b. b_blockhash b = q) tbl = []"
        by (auto simp: filter_empty_conv image_iff)
      with True show ?thesis by simp
    qed (use Cons in auto)
  qed simp
  moreover have "map b_blockhash (map ?f (filter (\<lambda>b. b_blockhash b = q) tbl))
      = map b_blockhash (filter (\<lambda>b. b_blockhash b = q) tbl)"
    by (simp add: Let_def)
  ultimately show ?thesis using single by (simp only:)
qed

lemma blocks_ok_revert: "blocks_ok d \<Longrightarrow> blocks_ok (revert_block c rb d)"
  by (simp add: blocks_ok_def revert_blocks_table_hashes)

text \<open>
  Reverting a chain of blocks from the current one downwards ends with its bottom as the only
  current block. The chain is that of the rows at the start, as the code collects them before
  it reverts the first.
\<close>

lemma fold_revert_current:
  assumes "blocks_ok d" and "current_blocks d = [h]" and "known_chain d0 h bs p"
    and "distinct (map b_blockhash bs)" and "p \<notin> b_blockhash ` set bs"
    and "\<And>q. q \<in> b_blockhash ` set bs \<union> {p} \<Longrightarrow> q \<in> b_blockhash ` set (blocks d)"
  shows "current_blocks (fold (revert_block c) bs d) = [p] \<and>
    b_blockhash ` set (blocks (fold (revert_block c) bs d)) = b_blockhash ` set (blocks d) - b_blockhash ` set bs"
  using assms
proof (induction bs arbitrary: d h)
  case Nil
  then show ?case by simp
next
  case (Cons b bs)
  let ?d = "revert_block c b d"
  from Cons.prems(3) obtain q where b: "b_blockhash b = h" and q: "revert_parent_hash b = Some q" "q \<noteq> h"
    and chain: "known_chain d0 q bs p" by auto
  have known: "q \<in> b_blockhash ` set (blocks d)"
    using Cons.prems(6) chain by (cases bs) auto
  have "current_blocks ?d = [q]"
    using current_revert [OF _ _ q(1) _ known] Cons.prems(1,2) b q(2)
    by (simp add: current_blocks_def blocks_ok_def)
  moreover have hashes: "b_blockhash ` set (blocks ?d) = b_blockhash ` set (blocks d) - {h}"
    using arg_cong [OF revert_blocks_table_hashes [of b "blocks d"], of set] b by auto
  moreover have fresh: "h \<notin> b_blockhash ` set bs \<union> {p}" using Cons.prems(4,5) b by auto
  moreover have "q' \<in> b_blockhash ` set (blocks ?d)" if "q' \<in> b_blockhash ` set bs \<union> {p}" for q'
  proof -
    have "q' \<noteq> h" using that fresh by blast
    moreover have "q' \<in> b_blockhash ` set (blocks d)" using that by (intro Cons.prems(6)) auto
    ultimately show ?thesis by (simp only: hashes) simp
  qed
  ultimately have "current_blocks (fold (revert_block c) bs ?d) = [p] \<and>
      b_blockhash ` set (blocks (fold (revert_block c) bs ?d)) = b_blockhash ` set (blocks ?d) - b_blockhash ` set bs"
    using Cons.IH [OF blocks_ok_revert [OF Cons.prems(1)] _ chain] Cons.prems(4,5) by auto
  then show ?case using hashes b by auto
qed

subsection \<open>The follow rows of a block\<close>

text \<open>The events of a block, all with its hash, and the rows the handler makes of them.\<close>

definition events_of_block :: "hash \<Rightarrow> ('t, 'a) tx_receipt list \<Rightarrow> bool" where
  "events_of_block h txs \<longleftrightarrow> (\<forall>tx\<in>set txs. \<forall>t. \<forall>e\<in>set (receipt_entries tx t). e_blockHash e = h)"

definition stamped_follow :: "int \<Rightarrow> hash \<Rightarrow> int \<times> int \<Rightarrow> follow_row \<Rightarrow> bool" where
  "stamped_follow n h p r \<longleftrightarrow> follow_row_wf p r \<and> fl_blocknumber r = Some n \<and> fl_blockhash r = Some h"

lemma add_follow_stamped:
  assumes "add_follow tx n ts c = Inr c'" and "changes_wf (stamped_follow n h) c"
    and "\<And>e. e \<in> set (receipt_entries tx UserFollowAdded) \<Longrightarrow> e_blockHash e = h"
  shows "changes_wf (stamped_follow n h) c'"
  using assms
  by (clarsimp simp: add_follow_def exc_bind_Inr_iff Let_def, intro changes_wf_fold)
    (auto simp: stamped_follow_def follow_row_wf_def)

lemma delete_follow_stamped:
  assumes "delete_follow tx n ts c = Inr c'" and "changes_wf (stamped_follow n h) c"
    and "\<And>e. e \<in> set (receipt_entries tx UserFollowDeleted) \<Longrightarrow> e_blockHash e = h"
  shows "changes_wf (stamped_follow n h) c'"
  using assms
  by (clarsimp simp: delete_follow_def exc_bind_Inr_iff Let_def, intro changes_wf_fold)
    (auto simp: stamped_follow_def follow_row_wf_def)

lemma parse_social_txs_stamped:
  assumes "parse_social_txs d txs n ts bh ch = Inr ch'" and "events_of_block h txs"
    and "changes_wf (stamped_follow n h) (snd (snd ch))"
  shows "changes_wf (stamped_follow n h) (snd (snd ch'))"
  using assms
proof (induction txs arbitrary: ch)
  case Nil
  then show ?case by simp
next
  case (Cons tx txs)
  then obtain ch1 where step: "parse_social_tx d tx n ts bh ch = Inr ch1"
    and rest: "parse_social_txs d txs n ts bh ch1 = Inr ch'" by (auto simp: exc_bind_Inr_iff)
  from step obtain c where add: "add_follow tx n ts (snd (snd ch)) = Inr c"
    and delete: "delete_follow tx n ts c = Inr (snd (snd ch1))"
    by (auto simp: parse_social_tx_def exc_bind_Inr_iff split: sum.splits)
  have h: "e_blockHash e = h" if "e \<in> set (receipt_entries tx t)" for e t
    using Cons.prems(2) that by (auto simp: events_of_block_def)
  have "changes_wf (stamped_follow n h) c"
    using add Cons.prems(3) by (rule add_follow_stamped) (rule h)
  with delete have "changes_wf (stamped_follow n h) (snd (snd ch1))"
    by (rule delete_follow_stamped) (rule h)
  with Cons.IH [OF rest] Cons.prems(2) show ?case by (simp add: events_of_block_def)
qed

text \<open>The last event on a pair decides; a pair without one keeps its state.\<close>

lemma apply_edges_untouched: "p \<notin> snd ` set es \<Longrightarrow> p \<in> fold apply_edge es g \<longleftrightarrow> p \<in> g"
proof (induction es arbitrary: g)
  case (Cons e es)
  obtain x q where "e = (x, q)" by (rule prod.exhaust)
  with Cons show ?case by (cases x) auto
qed simp

lemma apply_edges_touched:
  "p \<in> snd ` set es \<Longrightarrow> p \<in> fold apply_edge es g \<longleftrightarrow> p \<in> fold apply_edge es g'"
proof (induction es arbitrary: g g')
  case (Cons e es)
  obtain x q where e: "e = (x, q)" by (rule prod.exhaust)
  show ?case
  proof (cases "p \<in> snd ` set es")
    case True
    then show ?thesis using Cons.IH by auto
  next
    case False
    then show ?thesis using Cons.prems by (cases x) (auto simp: e apply_edges_untouched)
  qed
qed simp

lemma changed_pairs:
  assumes "\<And>g. live_pairs del d g = fold apply_edge es g"
  shows "{(u, i). get_change d u i \<noteq> None} = snd ` set es"
proof -
  have "p \<in> snd ` set es \<longleftrightarrow> \<not> (p \<in> live_pairs del d UNIV \<and> p \<notin> live_pairs del d {})" for p
    using apply_edges_untouched [of p es] apply_edges_touched [of p es UNIV "{}"] by (auto simp: assms)
  moreover have "((u, i) \<in> live_pairs del d UNIV \<and> (u, i) \<notin> live_pairs del d {}) \<longleftrightarrow> get_change d u i = None" for u i
    by (cases "get_change d u i") (simp_all add: live_pairs_def)
  ultimately have "(u, i) \<in> snd ` set es \<longleftrightarrow> get_change d u i \<noteq> None" for u i
    by (simp only:)
  then show ?thesis by auto
qed

lemma keys_change_items:
  assumes "changes_wf P d" and "\<And>p r. P p r \<Longrightarrow> key r = p"
  shows "key ` set (map snd (change_items d)) = {(u, i). get_change d u i \<noteq> None}"
    and "distinct (map key (map snd (change_items d)))"
proof -
  have "map key (map snd (change_items d)) = map fst (change_items d)"
    using changes_wf_items [OF assms(1)] assms(2) by auto
  moreover have "distinct (map fst (change_items d))"
    using assms(1) by (simp add: changes_wf_def distinct_change_items)
  moreover have "fst ` set (change_items d) = {(u, i). get_change d u i \<noteq> None}"
  proof (rule set_eqI)
    fix p :: "int \<times> int"
    obtain u i where p: "p = (u, i)" by (rule prod.exhaust)
    show "p \<in> fst ` set (change_items d) \<longleftrightarrow> p \<in> {(u, i). get_change d u i \<noteq> None}"
      using map_of_change_items_wf [OF assms(1), of u i] map_of_eq_None_iff [of "change_items d" p]
      by (simp add: p del: not_None_eq)
  qed
  ultimately show "key ` set (map snd (change_items d)) = {(u, i). get_change d u i \<noteq> None}"
    "distinct (map key (map snd (change_items d)))" by (metis list.set_map, metis)
qed

section \<open>Properties\<close>

text \<open>
  C39. Indexing and reverting is the identity on digital contents: if before block \<open>n\<close> the
  table of contents is settled (one current row per content, its latest, all from earlier
  blocks), then running the handler on the block and reverting the block gives back the very
  same table.
\<close>

theorem reverted_contents_restored:
  assumes "settled dc_id dc_is_current dc_set_current dc_blocknumber dc_blockhash n h (digital_contents (w_db w))"
    and "digital_content_state_update sv txs n ts h meta w = (Inr res, w')"
    and "b_blockhash rb = h" and "b_number rb = Some n"
  shows "digital_contents (revert_block collation rb (w_db w')) = digital_contents (w_db w)"
proof (rule contents_run_Inr [OF assms(2)])
  fix lookup assume "contents_ok n h lookup"
    and tbl: "digital_contents (w_db w') = fold upsert_content (pending_rows lookup) (digital_contents (w_db w))"
  then have "distinct (map dc_id (pending_rows lookup))"
    "\<And>g. g \<in> set (pending_rows lookup) \<Longrightarrow> dc_is_current g \<and> dc_blocknumber g = Some n \<and> dc_blockhash g = Some h"
    using pending_rows_keys by blast+
  from dc.revert_upsert_roundtrip [OF assms(1) this]
  show ?thesis by (simp add: revert_block_def revert_digital_contents_def Let_def assms(3,4) tbl)
qed

text \<open>A block that deletes content 5, which block 3 stored.\<close>

definition ex_deletion :: digital_content_receipt where
  "ex_deletion = sample_receipt ''0x1'' (\<lambda>t. if t = DigitalContentDeleted
     then [\<lparr>da_digitalContentId = Some 5, da_id = 0, da_digitalContentOwnerId = 1,
            da_multihashDigest = [], da_multihashHashFn = 18\<rparr>] else [])"

definition ex_stored_content :: digital_content_row where
  "ex_stored_content = ex_content_row\<lparr>dc_blockhash := Some ''0xa'', dc_blocknumber := Some 3,
     dc_metadata := [(''digital_content_segments'', JList [])], dc_created_at := Some 50, dc_updated_at := Some 50\<rparr>"

definition ex_contents_world :: world where
  "ex_contents_world = empty_world\<lparr>w_db := empty_db\<lparr>digital_contents := [ex_stored_content]\<rparr>\<rparr>"

definition ex_block :: block_row where
  "ex_block = \<lparr>b_blockhash = ''0xb'', b_parenthash = Some ''0xa'', b_number = Some 7, b_is_current = True\<rparr>"

theorem reverted_contents_restored_witness:
  "\<exists>w'. digital_content_state_update ex_content_services [ex_deletion] 7 100 ''0xb'' [] ex_contents_world
       = (Inr (1, [5]), w') \<and>
     digital_contents (w_db w') \<noteq> [ex_stored_content] \<and>
     digital_contents (revert_block (\<lambda>a b. False) ex_block (w_db w')) = [ex_stored_content]"
proof -
  have "fst (digital_content_state_update ex_content_services [ex_deletion] 7 100 ''0xb'' [] ex_contents_world)
      = Inr (1, [5])"
    and len: "length (digital_contents (w_db (snd (digital_content_state_update ex_content_services [ex_deletion]
      7 100 ''0xb'' [] ex_contents_world)))) = 2"
    by code_simp+
  then obtain w' where run: "digital_content_state_update ex_content_services [ex_deletion] 7 100 ''0xb'' []
      ex_contents_world = (Inr (1, [5]), w')" by (metis prod.collapse)
  have st: "settled dc_id dc_is_current dc_set_current dc_blocknumber dc_blockhash 7 ''0xb''
      (digital_contents (w_db ex_contents_world))"
    by (simp add: settled_def ex_contents_world_def empty_world_def ex_stored_content_def ex_content_row_def)
  have "b_blockhash ex_block = ''0xb''" "b_number ex_block = Some 7" by (simp_all add: ex_block_def)
  from reverted_contents_restored [OF st run this, of "\<lambda>a b. False"] len run show ?thesis
    by (auto simp: ex_contents_world_def)
qed

text \<open>
  Reverting a block does not restore the follow relation: a pair with a follow or unfollow
  event in the reverted block is not live afterwards, even if it was before the block; the
  other pairs are as they were. (For saves, reposts and follows the code looks for the
  predecessor among all rows, and finds the row it is about to delete.)
\<close>

theorem reverted_follows_lost:
  assumes "social_feature_state_update txs n ts bh w = (Inr res, w')" and "events_of_block h txs"
    and "\<And>r. r \<in> set (follows (w_db w)) \<Longrightarrow> sql_less (fl_blocknumber r) (Some n) \<and> fl_blockhash r \<noteq> Some h"
    and "b_blockhash rb = h" and "b_number rb = Some n"
  shows "follow_graph (revert_block collation rb (w_db w')) =
    follow_graph (w_db w) - snd ` set (concat (map follow_events txs))"
proof -
  obtain ch where p: "parse_social_txs (w_db w) txs n ts bh ([], [], []) = Inr ch"
    and w': "w' = social_result n ch w"
    using assms(1) by (rule social_run_Inr)
  let ?d = "snd (snd ch)"
  have wf: "changes_wf (stamped_follow n h) ?d"
    using p assms(2) by (rule parse_social_txs_stamped) simp
  have key: "\<And>p r. stamped_follow n h p r \<Longrightarrow> follow_key r = p"
    by (auto simp: stamped_follow_def follow_row_wf_def)
  have new: "fl_is_current g \<and> fl_blocknumber g = Some n \<and> fl_blockhash g = Some h"
    if "g \<in> set (map snd (change_items ?d))" for g
    using that changes_wf_items [OF wf] by (auto simp: stamped_follow_def follow_row_wf_def)
  have pairs: "{(u, i). get_change ?d u i \<noteq> None} = snd ` set (concat (map follow_events txs))"
    by (rule changed_pairs [of fl_is_delete]) (use parse_social_txs_Inr [OF p] in simp)
  have "follows (revert_block collation rb (w_db w'))
      = fl.superseded (snd ` set (concat (map follow_events txs))) (follows (w_db w))"
  proof -
    have "follows (revert_block collation rb (w_db w')) = revert_follows h (fold upsert_follow (map snd (change_items ?d)) (follows (w_db w)))"
      by (simp add: revert_block_def Let_def assms(4) w' social_result_def)
    also have "\<dots> = fl.superseded (follow_key ` set (map snd (change_items ?d))) (follows (w_db w))"
      unfolding revert_follows_def
      by (rule fl.revert_unbounded [OF assms(3) keys_change_items(2) [OF wf key] new])
    also have "follow_key ` set (map snd (change_items ?d)) = snd ` set (concat (map follow_events txs))"
      by (simp only: keys_change_items(1) [OF wf key] pairs)
    finally show ?thesis .
  qed
  then show ?thesis
    by (auto simp: follow_graph_live live_keys_def fl.cur_rows_superseded split: if_splits)
qed

text \<open>User 1 follows 2 and 3 since block 3; block 7 has an event on each of the two.\<close>

definition ex_follow_world :: world where
  "ex_follow_world = empty_world\<lparr>w_db := empty_db\<lparr>follows :=
     [\<lparr>fl_blockhash = Some ''0xa'', fl_blocknumber = Some 3, fl_txhash = ''0x0'', fl_follower_user_id = 1,
       fl_followee_user_id = 3, fl_is_current = True, fl_is_delete = False, fl_created_at = 50\<rparr>,
      \<lparr>fl_blockhash = Some ''0xa'', fl_blocknumber = Some 3, fl_txhash = ''0x0'', fl_follower_user_id = 1,
       fl_followee_user_id = 4, fl_is_current = True, fl_is_delete = False, fl_created_at = 50\<rparr>]\<rparr>\<rparr>"

theorem reverted_follows_lost_witness:
  "\<exists>res w'. social_feature_state_update [ex_social] 7 100 ''0xb'' ex_follow_world = (Inr res, w') \<and>
     follow_graph (w_db ex_follow_world) = {(1, 3), (1, 4)} \<and>
     follow_graph (revert_block (\<lambda>a b. False) ex_block (w_db w')) = {(1, 4)}"
proof -
  have "fst (social_feature_state_update [ex_social] 7 100 ''0xb'' ex_follow_world) = Inr (4, [])"
    by code_simp
  then obtain w' where run: "social_feature_state_update [ex_social] 7 100 ''0xb'' ex_follow_world = (Inr (4, []), w')"
    by (metis prod.collapse)
  have before: "follow_graph (w_db ex_follow_world) = {(1, 3), (1, 4)}"
    by (auto simp: follow_graph_def ex_follow_world_def)
  have ev: "events_of_block ''0xb'' [ex_social]"
    by (auto simp: events_of_block_def ex_social_def)
  have old: "\<And>r. r \<in> set (follows (w_db ex_follow_world)) \<Longrightarrow>
      sql_less (fl_blocknumber r) (Some 7) \<and> fl_blockhash r \<noteq> Some ''0xb''"
    by (auto simp: ex_follow_world_def)
  have "b_blockhash ex_block = ''0xb''" "b_number ex_block = Some 7" by (simp_all add: ex_block_def)
  from reverted_follows_lost [OF run ev old this, of "\<lambda>a b. False"] run before show ?thesis
    by (auto simp: follow_events_def ex_social_def)
qed

text \<open>
  Reverting a chain of at most 500 blocks, from the current block down to the block above
  \<open>p\<close>, returns and leaves \<open>p\<close> as the only current block, with exactly the reverted blocks
  gone from the table.
\<close>

theorem revert_blocks_moves_head:
  assumes "blocks_ok d" and "current_blocks d = [h]" and "known_chain d h bs p"
    and "distinct (map b_blockhash bs)" and "p \<notin> b_blockhash ` set bs" and "p \<in> b_blockhash ` set (blocks d)"
    and "length bs \<le> 500"
  shows "\<exists>d'. revert_blocks collation bs d = Inr d' \<and> current_blocks d' = [p] \<and>
    b_blockhash ` set (blocks d') = b_blockhash ` set (blocks d) - b_blockhash ` set bs"
proof -
  have chain: "b_blockhash ` set bs \<subseteq> b_blockhash ` set (blocks d)"
    using assms(3)
  proof (induction bs arbitrary: h)
    case (Cons b bs)
    then show ?case by fastforce
  qed simp
  have "revert_blocks collation bs d = Inr (fold (revert_block collation) bs d)"
    using assms(7) by (simp add: revert_blocks_def Let_def)
  moreover note fold_revert_current [OF assms(1-5), of collation]
  ultimately show ?thesis using chain assms(6) by auto
qed

theorem revert_blocks_moves_head_witness:
  "\<exists>d'. revert_blocks (\<lambda>a b. False) [ex_block] (empty_db\<lparr>blocks :=
       [\<lparr>b_blockhash = ''0xa'', b_parenthash = Some ''0x9'', b_number = Some 6, b_is_current = False\<rparr>, ex_block]\<rparr>) = Inr d' \<and>
     current_blocks d' = [''0xa'']"
proof -
  let ?d = "empty_db\<lparr>blocks :=
    [\<lparr>b_blockhash = ''0xa'', b_parenthash = Some ''0x9'', b_number = Some 6, b_is_current = False\<rparr>, ex_block]\<rparr>"
  have "blocks_ok ?d" "current_blocks ?d = [''0xb'']" "known_chain ?d ''0xb'' [ex_block] ''0xa''"
    "distinct (map b_blockhash [ex_block])" "''0xa'' \<notin> b_blockhash ` set [ex_block]"
    "''0xa'' \<in> b_blockhash ` set (blocks ?d)" "length [ex_block] \<le> 500"
    by (auto simp: blocks_ok_def current_blocks_def ex_block_def revert_parent_hash_def default_padded_start_hash_def)
  from revert_blocks_moves_head [OF this, of "\<lambda>a b. False"] show ?thesis by blast
qed

end
