(* ===== verification/Metadata.thy ===== *)
theory Metadata
  imports Digital_Contents
begin

text \<open>
  Metadata documents: the formats of src/tasks/metadata.py, the client of the content nodes
  (src/utils/cid_metadata_client.py) and \<open>fetch_cid_metadata\<close> of src/tasks/index.py, which
  collects before a block is processed the documents of all content identifiers (CIDs) its
  events mention. The network is a parameter: what each request answers and in which order
  the answers arrive.
\<close>

section \<open>Formats\<close>

definition digital_content_metadata_format :: metadata where
  "digital_content_metadata_format =
     [(''owner_id'', JNull), (''title'', JNull), (''route_id'', JNull), (''length'', JInt 0),
      (''cover_art'', JNull), (''cover_art_sizes'', JNull), (''tags'', JNull), (''genre'', JNull),
      (''mood'', JNull), (''credits_splits'', JNull), (''create_date'', JNull),
      (''release_date'', JNull), (''file_type'', JNull), (''description'', JNull),
      (''license'', JNull), (''isrc'', JNull), (''iswc'', JNull),
      (''digital_content_segments'', JList []), (''download'', JObj []), (''remix_of'', JNull),
      (''is_unlisted'', JBool False), (''field_visibility'', JNull), (''stem_of'', JNull)]"

definition user_metadata_format :: metadata where
  "user_metadata_format =
     [(''profile_picture'', JNull), (''profile_picture_sizes'', JNull), (''cover_photo'', JNull),
      (''cover_photo_sizes'', JNull), (''bio'', JNull), (''name'', JNull), (''location'', JNull),
      (''handle'', JNull), (''associated_wallets'', JNull), (''associated_sol_wallets'', JNull),
      (''collectibles'', JNull), (''content_list_library'', JNull), (''events'', JNull),
      (''is_deactivated'', JNull)]"

datatype entity_type = UserEntity | DigitalContentEntity

definition metadata_format :: "entity_type option \<Rightarrow> metadata" where
  "metadata_format ty =
     (if ty = Some DigitalContentEntity then digital_content_metadata_format else user_metadata_format)"

text \<open>\<open>_get_metadata_from_json\<close>; the method \<open>get\<close> exists on a JSON object only.\<close>

definition get_metadata_from_json :: "metadata \<Rightarrow> json \<Rightarrow> exc + metadata" where
  "get_metadata_from_json default_metadata_fields resp_json =
     (case resp_json of
        JObj kvs \<Rightarrow> Inr (map (\<lambda>(p, v).
          (p, case map_of kvs p of None \<Rightarrow> v | Some JNull \<Rightarrow> v | Some x \<Rightarrow> x)) default_metadata_fields)
      | _ \<Rightarrow> Inl (AttributeError ''get''))"

text \<open>Equality with a default value: in Python \<open>0 == False\<close>.\<close>

definition equals_default :: "json \<Rightarrow> json \<Rightarrow> bool" where
  "equals_default d v \<longleftrightarrow>
     v = d \<or> (d \<in> {JInt 0, JBool False} \<and> v \<in> {JInt 0, JBool False})"

definition all_default :: "metadata \<Rightarrow> metadata \<Rightarrow> bool" where
  "all_default formatted format =
     list_all (\<lambda>((k, v), (p, d)). equals_default d v) (zip formatted format)"

section \<open>The client of the content nodes\<close>

text \<open>
  \<open>http_get\<close>: what a GET request of an URL answers, the status and the JSON body, or the
  exception it raised (a timeout, an invalid URL, a body that is no JSON). \<open>arrivals\<close>: for the
  list of (CID, endpoint) requests issued, the order in which \<open>asyncio.as_completed\<close> hands
  over the finished ones before its timeout; a \<open>Cancelled\<close> request was cancelled before it
  finished.
\<close>

datatype arrival = Arrived "string \<times> string" | Cancelled

record metadata_services =
  ms_b58 :: "bytes \<Rightarrow> string"
  http_get :: "string \<Rightarrow> exc + (int \<times> json)"
  arrivals :: "(string \<times> string) list \<Rightarrow> arrival list"

text \<open>\<open>_get_metadata_async\<close>: every failure is logged and gives None.\<close>

definition get_metadata_async :: "metadata_services \<Rightarrow> string \<Rightarrow> string \<Rightarrow> (string \<times> json) option" where
  "get_metadata_async ms cid gateway_endpoint =
     (case http_get ms (gateway_endpoint @ ''/ipfs/'' @ cid) of
        Inl e \<Rightarrow> None
      | Inr (status, body) \<Rightarrow> if status = 200 then Some (cid, body) else None)"

fun split_comma :: "string \<Rightarrow> string list" where
  "split_comma [] = [[]]"
| "split_comma (c # cs) =
     (if c = CHR '','' then [] # split_comma cs
      else case split_comma cs of [] \<Rightarrow> [[c]] | w # ws \<Rightarrow> (c # w) # ws)"

definition get_gateway_endpoints ::
  "string list \<Rightarrow> bool \<Rightarrow> int \<Rightarrow> (int \<times> string option) list \<Rightarrow> string list option" where
  "get_gateway_endpoints cnode_endpoints should_fetch_from_replica_set user_id user_to_replica_set =
     (if should_fetch_from_replica_set \<and> user_id \<noteq> 0 \<and> map_of user_to_replica_set user_id \<noteq> None
      then (case map_of user_to_replica_set user_id of
              Some (Some rs) \<Rightarrow> if rs = [] then None else Some (split_comma rs)
            | _ \<Rightarrow> None)
      else Some cnode_endpoints)"

text \<open>The requests of one attempt: every endpoint for every CID not fetched yet.\<close>

definition gateway_requests ::
  "string list \<Rightarrow> string list \<Rightarrow> (string \<times> hash) list \<Rightarrow> (string \<times> int) list \<Rightarrow>
    (int \<times> string option) list \<Rightarrow> bool \<Rightarrow> (string \<times> string) list" where
  "gateway_requests cnode_endpoints fetched_cids cids_txhash_set cid_to_user_id user_to_replica_set from_replica_set =
     concat (map (\<lambda>(cid, txhash).
       if cid \<in> set fetched_cids then []
       else case get_gateway_endpoints cnode_endpoints from_replica_set
              (the (map_of cid_to_user_id cid)) user_to_replica_set of
            None \<Rightarrow> [] | Some endpoints \<Rightarrow> map (Pair cid) endpoints) cids_txhash_set)"

text \<open>
  The loop over the arriving answers. \<open>previous\<close> is the variable \<open>future_result\<close>: awaiting a
  cancelled request leaves it as the previous iteration assigned it (unbound before the first).
  \<open>fetched\<close> and \<open>wanted\<close> are the numbers of CIDs fetched before and of those in the set.
\<close>

fun collect_arrivals ::
  "metadata_services \<Rightarrow> (string \<times> entity_type) list \<Rightarrow> nat \<Rightarrow> nat \<Rightarrow> arrival list \<Rightarrow>
    (string \<times> json) option option \<Rightarrow> (string \<times> metadata) list \<Rightarrow> exc + (string \<times> metadata) list" where
  "collect_arrivals ms cid_type fetched wanted [] previous cid_metadata = Inr cid_metadata"
| "collect_arrivals ms cid_type fetched wanted (a # as) previous cid_metadata =
     (case (case a of Arrived (cid, endpoint) \<Rightarrow> Some (get_metadata_async ms cid endpoint)
                    | Cancelled \<Rightarrow> previous) of
        None \<Rightarrow> Inl (PyException ''local variable 'future_result' referenced before assignment'')
      | Some None \<Rightarrow> collect_arrivals ms cid_type fetched wanted as (Some None) cid_metadata
      | Some (Some (cid, metadata_json)) \<Rightarrow>
          exc_bind (get_metadata_from_json (metadata_format (map_of cid_type cid)) metadata_json) (\<lambda>formatted.
            if \<not> all_default formatted (metadata_format (map_of cid_type cid)) then
              let m = AList.update cid formatted cid_metadata in
              if fetched + length m = wanted then Inr m
              else collect_arrivals ms cid_type fetched wanted as (Some (Some (cid, metadata_json))) m
            else collect_arrivals ms cid_type fetched wanted as (Some (Some (cid, metadata_json))) cid_metadata))"

definition fetch_metadata_from_gateway_endpoints ::
  "metadata_services \<Rightarrow> string list \<Rightarrow> string list \<Rightarrow> (string \<times> hash) list \<Rightarrow> (string \<times> int) list \<Rightarrow>
    (int \<times> string option) list \<Rightarrow> (string \<times> entity_type) list \<Rightarrow> bool \<Rightarrow> exc + (string \<times> metadata) list" where
  "fetch_metadata_from_gateway_endpoints ms cnode_endpoints fetched_cids cids_txhash_set cid_to_user_id
      user_to_replica_set cid_type from_replica_set =
     collect_arrivals ms cid_type (length fetched_cids) (length cids_txhash_set)
       (arrivals ms (gateway_requests cnode_endpoints fetched_cids cids_txhash_set cid_to_user_id
          user_to_replica_set from_replica_set)) None []"

section \<open>The CIDs of a block\<close>

text \<open>\<open>cids_txhash_set\<close>, \<open>cid_type\<close> and \<open>cid_to_user_id\<close>.\<close>

record cid_tables =
  ct_set :: "(string \<times> hash) list"
  ct_type :: "(string \<times> entity_type) list"
  ct_user :: "(string \<times> int) list"

definition note_cid :: "string \<Rightarrow> hash \<Rightarrow> entity_type \<Rightarrow> int \<Rightarrow> cid_tables \<Rightarrow> cid_tables" where
  "note_cid cid txhash ty user_id ct =
     \<lparr>ct_set = List.insert (cid, txhash) (ct_set ct),
      ct_type = AList.update cid ty (ct_type ct),
      ct_user = AList.update cid user_id (ct_user ct)\<rparr>"

text \<open>\<open>for x in xs\<close> over a pure body that may raise.\<close>

definition exc_for :: "('x \<Rightarrow> 'a \<Rightarrow> exc + 'a) \<Rightarrow> 'x list \<Rightarrow> 'a \<Rightarrow> exc + 'a" where
  "exc_for f xs a = fold (\<lambda>x acc. exc_bind acc (f x)) xs (Inr a)"

definition note_user_entry :: "metadata_services \<Rightarrow> hash \<Rightarrow> user_args entry \<Rightarrow> cid_tables \<Rightarrow> exc + cid_tables" where
  "note_user_entry ms txhash entry ct =
     exc_bind (multihash_digest_to_cid (ms_b58 ms) (ua_multihashDigest (e_args entry))) (\<lambda>cid.
       Inr (note_cid cid txhash UserEntity (ua_userId (e_args entry)) ct))"

definition user_tx_cids :: "metadata_services \<Rightarrow> user_receipt \<Rightarrow> cid_tables \<Rightarrow> exc + cid_tables" where
  "user_tx_cids ms tx ct =
     exc_bind (processReceipt tx UpdateMultihash) (\<lambda>entries.
       exc_for (note_user_entry ms (transactionHash tx)) entries ct)"

definition note_digital_content_entry ::
  "metadata_services \<Rightarrow> hash \<Rightarrow> digital_content_args entry \<Rightarrow> cid_tables \<Rightarrow> exc + cid_tables" where
  "note_digital_content_entry ms txhash entry ct =
     exc_bind (encode (da_multihashDigest (e_args entry)) (da_multihashHashFn (e_args entry))) (\<lambda>buf.
       Inr (note_cid (ms_b58 ms buf) txhash DigitalContentEntity
         (da_digitalContentOwnerId (e_args entry)) ct))"

definition digital_content_event_cids ::
  "metadata_services \<Rightarrow> digital_content_receipt \<Rightarrow> digital_content_event \<Rightarrow> cid_tables \<Rightarrow> exc + cid_tables" where
  "digital_content_event_cids ms tx event_type ct =
     exc_bind (processReceipt tx event_type) (\<lambda>entries.
       exc_for (note_digital_content_entry ms (transactionHash tx)) entries ct)"

definition digital_content_tx_cids ::
  "metadata_services \<Rightarrow> digital_content_receipt \<Rightarrow> cid_tables \<Rightarrow> exc + cid_tables" where
  "digital_content_tx_cids ms tx =
     exc_for (digital_content_event_cids ms tx) [NewDigitalContent, UpdateDigitalContent]"

definition block_cids ::
  "metadata_services \<Rightarrow> user_receipt list \<Rightarrow> digital_content_receipt list \<Rightarrow> exc + cid_tables" where
  "block_cids ms user_factory_txs digital_content_factory_txs =
     exc_bind (exc_for (user_tx_cids ms) user_factory_txs \<lparr>ct_set = [], ct_type = [], ct_user = []\<rparr>) (\<lambda>ct.
       exc_for (digital_content_tx_cids ms) digital_content_factory_txs ct)"

definition user_to_replica_set :: "db \<Rightarrow> cid_tables \<Rightarrow> (int \<times> string option) list" where
  "user_to_replica_set d ct =
     rev (map (\<lambda>u. (us_user_id u, us_content_node_endpoint u))
       (filter (\<lambda>u. us_is_current u \<and> us_user_id u \<in> snd ` set (ct_user ct)) (users d)))"

text \<open>
  The two attempts: the replica sets of the users first, then all known content nodes. The
  client itself catches its timeouts, so the clause \<open>except asyncio.TimeoutError\<close> around the
  first attempt has nothing to catch, and any other exception propagates.
\<close>

definition update_metadata ::
  "(string \<times> metadata) list \<Rightarrow> (string \<times> metadata) list \<Rightarrow> (string \<times> metadata) list" where
  "update_metadata m new = fold (\<lambda>(cid, v). AList.update cid v) new m"

definition fetch_cid_metadata ::
  "metadata_services \<Rightarrow> string list \<Rightarrow> user_receipt list \<Rightarrow> digital_content_receipt list \<Rightarrow> db \<Rightarrow>
    exc + (string \<times> metadata) list" where
  "fetch_cid_metadata ms cnode_endpoints user_factory_txs digital_content_factory_txs d =
     exc_bind (block_cids ms user_factory_txs digital_content_factory_txs) (\<lambda>ct.
       let replicas = user_to_replica_set d ct;
           attempt = (\<lambda>m from_replica_set. exc_bind
             (fetch_metadata_from_gateway_endpoints ms cnode_endpoints (map fst m) (ct_set ct) (ct_user ct)
                replicas (ct_type ct) from_replica_set) (\<lambda>new. Inr (update_metadata m new)))
       in exc_bind (attempt [] True) (\<lambda>m.
          exc_bind (if length m \<noteq> length (ct_set ct) then attempt m False else Inr m) (\<lambda>m.
          if ct_type ct \<noteq> [] \<and> length m \<noteq> length (ct_type ct)
          then Inl (PyException ''Did not fetch all CIDs'') else Inr m)))"

section \<open>Lemmas\<close>

text \<open>Well-formed documents: one per CID, only for CIDs in \<open>C\<close>, each with the fields of its format.\<close>

definition documents_ok :: "(string \<times> entity_type) list \<Rightarrow> string set \<Rightarrow> (string \<times> metadata) list \<Rightarrow> bool" where
  "documents_ok cid_type C m \<longleftrightarrow> distinct (map fst m) \<and>
     (\<forall>(cid, v)\<in>set m. cid \<in> C \<and> map fst v = map fst (metadata_format (map_of cid_type cid)))"

lemma documents_ok_Nil [simp]: "documents_ok ct C []"
  by (simp add: documents_ok_def)

lemma documents_ok_update:
  assumes "documents_ok ct C m" and "cid \<in> C"
    and "map fst v = map fst (metadata_format (map_of ct cid))"
  shows "documents_ok ct C (AList.update cid v m)"
  unfolding documents_ok_def
proof (intro conjI ballI)
  show "distinct (map fst (AList.update cid v m))"
    using assms(1) by (simp add: documents_ok_def distinct_update)
  fix p assume "p \<in> set (AList.update cid v m)"
  with set_update_subset [of cid v m] have "p = (cid, v) \<or> p \<in> set m" by blast
  then show "case p of (c, f) \<Rightarrow> c \<in> C \<and> map fst f = map fst (metadata_format (map_of ct c))"
    using assms by (auto simp: documents_ok_def)
qed

lemma documents_ok_update_metadata:
  "documents_ok ct C m \<Longrightarrow> documents_ok ct C new \<Longrightarrow> documents_ok ct C (update_metadata m new)"
proof (induction new arbitrary: m)
  case Nil
  then show ?case by (simp add: update_metadata_def)
next
  case (Cons p new)
  obtain cid v where p: "p = (cid, v)" by (rule prod.exhaust)
  have "documents_ok ct C (AList.update cid v m)"
    by (rule documents_ok_update) (use Cons.prems p in \<open>auto simp: documents_ok_def\<close>)
  moreover have "documents_ok ct C new"
    using Cons.prems(2) by (simp add: documents_ok_def)
  ultimately have "documents_ok ct C (update_metadata (AList.update cid v m) new)"
    by (rule Cons.IH)
  then show ?case by (simp add: update_metadata_def p)
qed

lemma formatted_fields: "get_metadata_from_json f j = Inr m \<Longrightarrow> map fst m = map fst f"
  by (cases j) (auto simp: get_metadata_from_json_def split_def)

lemma collect_arrivals_ok:
  assumes "collect_arrivals ms ct k n as prev m = Inr m'" and "documents_ok ct C m"
    and "\<And>cid g. Arrived (cid, g) \<in> set as \<Longrightarrow> cid \<in> C"
    and "\<And>cid j. prev = Some (Some (cid, j)) \<Longrightarrow> cid \<in> C"
  shows "documents_ok ct C m'"
  using assms
proof (induction as arbitrary: prev m)
  case Nil
  then show ?case by simp
next
  case (Cons a as)
  define now where "now = (case a of Arrived (cid, endpoint) \<Rightarrow> Some (get_metadata_async ms cid endpoint)
    | Cancelled \<Rightarrow> prev)"
  have C: "cid \<in> C" if "now = Some (Some (cid, j))" for cid j
    using that Cons.prems(3,4)
    by (fastforce simp: now_def get_metadata_async_def split: arrival.splits sum.splits if_splits)
  show ?case
  proof (cases now)
    case None
    with Cons.prems(1) show ?thesis by (simp add: now_def [symmetric])
  next
    case (Some r)
    show ?thesis
    proof (cases r)
      case None
      with \<open>now = Some r\<close> Cons.prems(1) have "collect_arrivals ms ct k n as (Some None) m = Inr m'"
        by (simp add: now_def [symmetric])
      then show ?thesis by (rule Cons.IH [OF _ Cons.prems(2)]) (auto intro: Cons.prems(3))
    next
      case (Some p)
      obtain cid j where p: "p = (cid, j)" by (rule prod.exhaust)
      have now: "now = Some (Some (cid, j))" using Some \<open>now = Some r\<close> p by simp
      have step: "documents_ok ct C (AList.update cid f m)"
        if "get_metadata_from_json (metadata_format (map_of ct cid)) j = Inr f" for f
        using documents_ok_update [OF Cons.prems(2) C [OF now] formatted_fields [OF that]] .
      have IH: "documents_ok ct C m'"
        if "collect_arrivals ms ct k n as (Some (Some (cid, j))) m2 = Inr m'" and "documents_ok ct C m2" for m2
        by (rule Cons.IH [OF that]) (use C [OF now] in \<open>auto intro: Cons.prems(3)\<close>)
      show ?thesis
        using Cons.prems(1,2) step IH
        unfolding collect_arrivals.simps(2) now_def [symmetric] now
        by (auto simp: exc_bind_Inr_iff Let_def split: if_splits)
    qed
  qed
qed

lemma gateway_requests_cids:
  "(cid, g) \<in> set (gateway_requests ce fetched s cu reps from) \<Longrightarrow> cid \<in> fst ` set s"
  by (force simp: gateway_requests_def split: if_splits option.splits)

text \<open>Loops over pure bodies: what one iteration establishes and the others keep.\<close>

lemma exc_for_inv:
  "exc_for f xs a = Inr b \<Longrightarrow> (\<And>x a b. I a \<Longrightarrow> f x a = Inr b \<Longrightarrow> I b) \<Longrightarrow> I a \<Longrightarrow> I b"
  unfolding exc_for_def by (rule exc_fold_inv) auto

lemma exc_for_Inl: "fold (\<lambda>x acc. exc_bind acc (f x)) xs (Inl e) = Inl e"
  by (induction xs) simp_all

lemma exc_for_reaches:
  assumes "exc_for f xs a = Inr b" and "x \<in> set xs"
    and "\<And>a b. f x a = Inr b \<Longrightarrow> I b" and "\<And>x a b. I a \<Longrightarrow> f x a = Inr b \<Longrightarrow> I b"
  shows "I b"
  using assms(1,2)
proof (induction xs arbitrary: a)
  case Nil
  then show ?case by simp
next
  case (Cons y xs)
  from Cons.prems(1) obtain a' where step: "f y a = Inr a'"
    by (cases "f y a") (auto simp: exc_for_def exc_for_Inl)
  with Cons.prems(1) have rest: "exc_for f xs a' = Inr b" by (simp add: exc_for_def)
  show ?case
  proof (cases "x = y")
    case True
    with step assms(3) have "I a'" by blast
    with rest show ?thesis by (blast intro: exc_for_inv [where I = I] assms(4))
  next
    case False
    with Cons.prems(2) have "x \<in> set xs" by simp
    with Cons.IH [OF rest] show ?thesis .
  qed
qed

text \<open>The tables agree: a CID is in the set exactly when it has a type, and types are unique.\<close>

definition cids_ok :: "cid_tables \<Rightarrow> bool" where
  "cids_ok ct \<longleftrightarrow> distinct (map fst (ct_type ct)) \<and> fst ` set (ct_set ct) = fst ` set (ct_type ct)"

lemma cids_ok_note: "cids_ok ct \<Longrightarrow> cids_ok (note_cid cid h ty u ct)"
  by (auto simp: cids_ok_def note_cid_def distinct_update dom_update)

lemma keys_note: "fst ` set (ct_type (note_cid cid h ty u ct)) = insert cid (fst ` set (ct_type ct))"
  by (simp add: note_cid_def dom_update)

lemma note_user_entry_Inr:
  "note_user_entry ms h entry ct = Inr ct' \<Longrightarrow>
    \<exists>cid. multihash_digest_to_cid (ms_b58 ms) (ua_multihashDigest (e_args entry)) = Inr cid \<and>
      ct' = note_cid cid h UserEntity (ua_userId (e_args entry)) ct"
  by (auto simp: note_user_entry_def exc_bind_Inr_iff)

lemma note_digital_content_entry_Inr:
  "note_digital_content_entry ms h entry ct = Inr ct' \<Longrightarrow>
    \<exists>buf. encode (da_multihashDigest (e_args entry)) (da_multihashHashFn (e_args entry)) = Inr buf \<and>
      ct' = note_cid (ms_b58 ms buf) h DigitalContentEntity (da_digitalContentOwnerId (e_args entry)) ct"
  by (auto simp: note_digital_content_entry_def exc_bind_Inr_iff)

lemma user_tx_cids_inv:
  "user_tx_cids ms tx ct = Inr ct' \<Longrightarrow> I ct \<Longrightarrow>
    (\<And>ct cid h ty u. I ct \<Longrightarrow> I (note_cid cid h ty u ct)) \<Longrightarrow> I ct'"
  unfolding user_tx_cids_def exc_bind_Inr_iff
  by (elim exE conjE, erule exc_for_inv [where I = I]) (auto dest!: note_user_entry_Inr)

lemma digital_content_event_cids_inv:
  "digital_content_event_cids ms tx t ct = Inr ct' \<Longrightarrow> I ct \<Longrightarrow>
    (\<And>ct cid h ty u. I ct \<Longrightarrow> I (note_cid cid h ty u ct)) \<Longrightarrow> I ct'"
  unfolding digital_content_event_cids_def exc_bind_Inr_iff
  by (elim exE conjE, erule exc_for_inv [where I = I]) (auto dest!: note_digital_content_entry_Inr)

lemma digital_content_tx_cids_inv:
  "digital_content_tx_cids ms tx ct = Inr ct' \<Longrightarrow> I ct \<Longrightarrow>
    (\<And>ct cid h ty u. I ct \<Longrightarrow> I (note_cid cid h ty u ct)) \<Longrightarrow> I ct'"
  unfolding digital_content_tx_cids_def
  by (erule exc_for_inv [where I = I]) (auto intro: digital_content_event_cids_inv [where I = I])


lemma block_cids_inv:
  assumes "block_cids ms utxs dtxs = Inr ct" and "I \<lparr>ct_set = [], ct_type = [], ct_user = []\<rparr>"
    and "\<And>ct cid h ty u. I ct \<Longrightarrow> I (note_cid cid h ty u ct)"
  shows "I ct"
proof -
  from assms(1) obtain ct1 where u: "exc_for (user_tx_cids ms) utxs \<lparr>ct_set = [], ct_type = [], ct_user = []\<rparr> = Inr ct1"
    and d: "exc_for (digital_content_tx_cids ms) dtxs ct1 = Inr ct"
    by (auto simp: block_cids_def exc_bind_Inr_iff)
  have "I ct1"
    using u by (rule exc_for_inv [where I = I]) (auto intro: user_tx_cids_inv [where I = I] assms)
  then show ?thesis
    by (rule exc_for_inv [where I = I, OF d, rotated]) (auto intro: digital_content_tx_cids_inv [where I = I] assms)
qed

lemma block_cids_user:
  assumes "block_cids ms utxs dtxs = Inr ct" and "tx \<in> set utxs" and "entry \<in> set (receipt_entries tx UpdateMultihash)"
    and cid: "multihash_digest_to_cid (ms_b58 ms) (ua_multihashDigest (e_args entry)) = Inr cid"
  shows "cid \<in> fst ` set (ct_type ct)"
proof -
  let ?I = "\<lambda>ct. cid \<in> fst ` set (ct_type ct)"
  have keep: "?I c \<Longrightarrow> ?I (note_cid d h ty u c)" for c d h ty u by (simp add: keys_note)
  from assms(1) obtain ct1 where u: "exc_for (user_tx_cids ms) utxs \<lparr>ct_set = [], ct_type = [], ct_user = []\<rparr> = Inr ct1"
    and d: "exc_for (digital_content_tx_cids ms) dtxs ct1 = Inr ct"
    by (auto simp: block_cids_def exc_bind_Inr_iff)
  have hit: "?I b" if "note_user_entry ms (transactionHash tx) entry a = Inr b" for a b
    using note_user_entry_Inr [OF that] cid by (auto simp: keys_note)
  have "?I b" if "user_tx_cids ms tx a = Inr b" for a b
  proof -
    from that obtain es where es: "processReceipt tx UpdateMultihash = Inr es"
      and run: "exc_for (note_user_entry ms (transactionHash tx)) es a = Inr b"
      unfolding user_tx_cids_def exc_bind_Inr_iff by blast
    have "entry \<in> set es" using assms(3) es by simp
    with run show ?thesis
      by (rule exc_for_reaches [where I = ?I]) (blast intro: hit, metis note_user_entry_Inr keep)
  qed
  then have "?I ct1"
    by (intro exc_for_reaches [OF u assms(2), of ?I]) (blast, rule user_tx_cids_inv [where I = ?I, OF _ _ keep])
  then show ?thesis
    by (rule exc_for_inv [where I = ?I, OF d, rotated]) (rule digital_content_tx_cids_inv [where I = ?I, OF _ _ keep])
qed

lemma block_cids_digital_content:
  assumes "block_cids ms utxs dtxs = Inr ct" and "tx \<in> set dtxs" and "t \<in> {NewDigitalContent, UpdateDigitalContent}"
    and "entry \<in> set (receipt_entries tx t)"
  shows "\<exists>buf. encode (da_multihashDigest (e_args entry)) (da_multihashHashFn (e_args entry)) = Inr buf \<and>
    ms_b58 ms buf \<in> fst ` set (ct_type ct)"
proof -
  let ?I = "\<lambda>ct. \<exists>buf. encode (da_multihashDigest (e_args entry)) (da_multihashHashFn (e_args entry)) = Inr buf \<and>
    ms_b58 ms buf \<in> fst ` set (ct_type ct)"
  have keep: "?I c \<Longrightarrow> ?I (note_cid d h ty u c)" for c d h ty u by (auto simp: keys_note)
  from assms(1) obtain ct1 where d: "exc_for (digital_content_tx_cids ms) dtxs ct1 = Inr ct"
    by (auto simp: block_cids_def exc_bind_Inr_iff)
  have hit: "?I b" if "note_digital_content_entry ms (transactionHash tx) entry a = Inr b" for a b
    using note_digital_content_entry_Inr [OF that] by (auto simp: keys_note)
  have ev: "?I b" if "digital_content_event_cids ms tx t a = Inr b" for a b
  proof -
    from that obtain es where es: "processReceipt tx t = Inr es"
      and run: "exc_for (note_digital_content_entry ms (transactionHash tx)) es a = Inr b"
      unfolding digital_content_event_cids_def exc_bind_Inr_iff by blast
    have "entry \<in> set es" using assms(4) es by simp
    with run show ?thesis
      by (rule exc_for_reaches [where I = ?I]) (blast intro: hit, metis note_digital_content_entry_Inr keep)
  qed
  have "?I b" if "digital_content_tx_cids ms tx a = Inr b" for a b
    using that [unfolded digital_content_tx_cids_def]
    by (rule exc_for_reaches [where I = ?I and x = t])
      (use assms(3) in simp, rule ev, assumption, rule digital_content_event_cids_inv [where I = ?I, OF _ _ keep])
  then show ?thesis
    by (intro exc_for_reaches [OF d assms(2), of ?I]) (blast, rule digital_content_tx_cids_inv [where I = ?I, OF _ _ keep])
qed

lemma documents_complete:
  assumes "documents_ok ct (fst ` set types) m" and "distinct (map fst types)" and "length m = length types"
  shows "fst ` set m = fst ` set types"
proof (rule card_subset_eq)
  show "fst ` set m \<subseteq> fst ` set types" using assms(1) by (auto simp: documents_ok_def)
  have "card (fst ` set xs) = length xs" if "distinct (map fst xs)" for xs :: "(string \<times> 'x) list"
    using distinct_card [OF that] by simp
  then show "card (fst ` set m) = card (fst ` set types)"
    using assms distinct_card [of "map fst m"] distinct_card [of "map fst types"]
    by (simp add: documents_ok_def)
qed simp

lemma fetch_cid_metadata_ok:
  assumes "fetch_cid_metadata ms cnodes utxs dtxs d = Inr m"
    and "\<And>rqs rq. Arrived rq \<in> set (arrivals ms rqs) \<Longrightarrow> rq \<in> set rqs"
    and ct: "block_cids ms utxs dtxs = Inr ct"
  shows "documents_ok (ct_type ct) (fst ` set (ct_type ct)) m \<and> (ct_type ct \<noteq> [] \<longrightarrow> fst ` set m = fst ` set (ct_type ct))"
proof -
  have ok: "cids_ok ct"
    by (rule block_cids_inv [where I = cids_ok, OF ct]) (simp add: cids_ok_def, rule cids_ok_note)
  let ?C = "fst ` set (ct_type ct)"
  have fetch: "documents_ok (ct_type ct) ?C new"
    if "fetch_metadata_from_gateway_endpoints ms cnodes fetched (ct_set ct) (ct_user ct) reps (ct_type ct) b = Inr new"
    for fetched reps b new
    using that unfolding fetch_metadata_from_gateway_endpoints_def
    by (rule collect_arrivals_ok) (use ok in \<open>auto simp: cids_ok_def dest!: assms(2) gateway_requests_cids\<close>)
  have docs: "documents_ok (ct_type ct) ?C m"
    and len: "ct_type ct \<noteq> [] \<longrightarrow> length m = length (ct_type ct)"
    using assms(1) unfolding fetch_cid_metadata_def ct exc_bind_simps Let_def exc_bind_Inr_iff
    by (auto simp: exc_bind_Inr_iff split: if_splits intro!: documents_ok_update_metadata dest!: fetch)
  with ok show ?thesis
    using documents_complete [OF docs] by (simp add: cids_ok_def)
qed

section \<open>Properties\<close>


text \<open>One content node that serves a name for every CID.\<close>

definition ex_metadata_services :: metadata_services where
  "ex_metadata_services = \<lparr>ms_b58 = (\<lambda>bs. ''cid''),
     http_get = (\<lambda>url. Inr (200, JObj [(''name'', JStr ''dora'')])), arrivals = map Arrived\<rparr>"


end
