(* ===== verification/User_Library.thy ===== *)
theory User_Library
  imports Social_Features
begin

text \<open>
  src/tasks/user_library.py: the handler of the UserLibraryFactory contract, which stores the
  saves of digital contents and content lists. It has the shape of the social handler: the
  net changes of the block per user and item first, then the bulk phase.
\<close>

datatype library_event =
    DigitalContentSaveAdded | DigitalContentSaveDeleted
  | ContentListSaveAdded | ContentListSaveDeleted

record library_args =
  la_userId :: int
  la_digitalContentId :: int
  la_contentListId :: int

type_synonym library_receipt = "(library_event, library_args) tx_receipt"

section \<open>Collecting the changes of a block\<close>

definition add_digital_content_save ::
  "library_receipt \<Rightarrow> int \<Rightarrow> timestamp \<Rightarrow> item_row changes \<Rightarrow> exc + item_row changes" where
  "add_digital_content_save tx block_number block_datetime changes =
     exc_bind (processReceipt tx DigitalContentSaveAdded) (\<lambda>events. Inr (fold (\<lambda>event.
       let u = la_userId (e_args event); i = la_digitalContentId (e_args event) in
       put_change (\<lambda>r. r\<lparr>it_is_delete := False\<rparr>)
         \<lparr>it_blockhash = Some (e_blockHash event), it_blocknumber = Some block_number,
          it_txhash = transactionHash tx, it_user_id = u, it_item_id = i,
          it_type = ItemDigitalContent, it_is_current = True, it_is_delete = False,
          it_created_at = block_datetime\<rparr> u i) events changes))"

definition add_content_list_save ::
  "db \<Rightarrow> library_receipt \<Rightarrow> int \<Rightarrow> timestamp \<Rightarrow> item_row changes \<Rightarrow> exc + item_row changes" where
  "add_content_list_save d tx block_number block_datetime changes =
     exc_bind (processReceipt tx ContentListSaveAdded) (\<lambda>events. Inr (fold (\<lambda>event.
       let u = la_userId (e_args event); i = la_contentListId (e_args event) in
       put_change (\<lambda>r. r\<lparr>it_is_delete := False\<rparr>)
         \<lparr>it_blockhash = Some (e_blockHash event), it_blocknumber = Some block_number,
          it_txhash = transactionHash tx, it_user_id = u, it_item_id = i,
          it_type = content_list_item_type d i, it_is_current = True, it_is_delete = False,
          it_created_at = block_datetime\<rparr> u i) events changes))"

definition delete_digital_content_save ::
  "library_receipt \<Rightarrow> int \<Rightarrow> timestamp \<Rightarrow> item_row changes \<Rightarrow> exc + item_row changes" where
  "delete_digital_content_save tx block_number block_datetime changes =
     exc_bind (processReceipt tx DigitalContentSaveDeleted) (\<lambda>events. Inr (fold (\<lambda>event.
       let u = la_userId (e_args event); i = la_digitalContentId (e_args event) in
       put_change (\<lambda>r. r\<lparr>it_is_delete := True\<rparr>)
         \<lparr>it_blockhash = Some (e_blockHash event), it_blocknumber = Some block_number,
          it_txhash = transactionHash tx, it_user_id = u, it_item_id = i,
          it_type = ItemDigitalContent, it_is_current = True, it_is_delete = True,
          it_created_at = block_datetime\<rparr> u i) events changes))"

definition delete_content_list_save ::
  "db \<Rightarrow> library_receipt \<Rightarrow> int \<Rightarrow> timestamp \<Rightarrow> item_row changes \<Rightarrow> exc + item_row changes" where
  "delete_content_list_save d tx block_number block_datetime changes =
     exc_bind (processReceipt tx ContentListSaveDeleted) (\<lambda>events. Inr (fold (\<lambda>event.
       let u = la_userId (e_args event); i = la_contentListId (e_args event) in
       put_change (\<lambda>r. r\<lparr>it_is_delete := True\<rparr>)
         \<lparr>it_blockhash = Some (e_blockHash event), it_blocknumber = Some block_number,
          it_txhash = transactionHash tx, it_user_id = u, it_item_id = i,
          it_type = content_list_item_type d i, it_is_current = True, it_is_delete = True,
          it_created_at = block_datetime\<rparr> u i) events changes))"

type_synonym library_changes = "item_row changes \<times> item_row changes"

definition parse_library_tx ::
  "db \<Rightarrow> library_receipt \<Rightarrow> int \<Rightarrow> timestamp \<Rightarrow> hash \<Rightarrow> library_changes \<Rightarrow> exc + library_changes" where
  "parse_library_tx d tx bn ts bh ch =
     (case
        exc_bind (add_digital_content_save tx bn ts (fst ch)) (\<lambda>a.
        exc_bind (add_content_list_save d tx bn ts (snd ch)) (\<lambda>b.
        exc_bind (delete_digital_content_save tx bn ts a) (\<lambda>a.
        exc_bind (delete_content_list_save d tx bn ts b) (\<lambda>b. Inr (a, b)))))
      of Inl e \<Rightarrow> Inl (IndexingError ''user_library'' (Some bn) bh (Some (transactionHash tx)) (exc_str e))
       | Inr r \<Rightarrow> Inr r)"

fun parse_library_txs ::
  "db \<Rightarrow> library_receipt list \<Rightarrow> int \<Rightarrow> timestamp \<Rightarrow> hash \<Rightarrow> library_changes \<Rightarrow> exc + library_changes" where
  "parse_library_txs d [] bn ts bh ch = Inr ch"
| "parse_library_txs d (tx # txs) bn ts bh ch =
     exc_bind (parse_library_tx d tx bn ts bh ch) (parse_library_txs d txs bn ts bh)"

section \<open>Storing them\<close>

definition invalidate_old_save :: "int \<Rightarrow> int \<Rightarrow> item_type \<Rightarrow> db \<Rightarrow> db" where
  "invalidate_old_save u i t d = d\<lparr>saves := sql_update
     (\<lambda>r. it_user_id r = u \<and> it_item_id r = i \<and> it_type r = t \<and> it_is_current r)
     (\<lambda>r. r\<lparr>it_is_current := False\<rparr>) (saves d)\<rparr>"

definition dispatch_favorite :: "item_row \<Rightarrow> int \<Rightarrow> world \<Rightarrow> world" where
  "dispatch_favorite r bn = dispatch favorite (Some bn) (Some (it_user_id r)) []"

definition store_digital_content_save :: "int \<Rightarrow> (int \<times> int) \<times> item_row \<Rightarrow> world \<Rightarrow> world" where
  "store_digital_content_save bn c w =
     (case c of ((u, i), r) \<Rightarrow>
        dispatch_favorite r bn (update_db (\<lambda>d.
          let d' = invalidate_old_save u i ItemDigitalContent d
          in d'\<lparr>saves := saves d' @ [r]\<rparr>) w))"

definition store_content_list_save :: "int \<Rightarrow> (int \<times> int) \<times> item_row \<Rightarrow> world \<Rightarrow> world" where
  "store_content_list_save bn c w =
     (case c of ((u, i), r) \<Rightarrow>
        dispatch_favorite r bn (update_db (\<lambda>d.
          let d' = invalidate_old_save u i (it_type r) d
          in d'\<lparr>saves := saves d' @ [r]\<rparr>) w))"

definition user_library_state_update ::
  "library_receipt list \<Rightarrow> int \<Rightarrow> timestamp \<Rightarrow> hash \<Rightarrow> (world, int \<times> int list) py" where
  "user_library_state_update txs bn ts bh =
     (if txs = [] then py_return (0, [])
      else py_bind (py_gets w_db) (\<lambda>d.
        py_bind (py_lift (parse_library_txs d txs bn ts bh ([], []))) (\<lambda>(sv, clsv).
        py_seq (py_modify (fold (store_digital_content_save bn) (change_items sv)))
       (py_seq (py_modify (fold (store_content_list_save bn) (change_items clsv)))
       (py_return (int (length (change_items sv) + length (change_items clsv)), []))))))"

section \<open>The save graph\<close>

definition digital_content_save_events :: "library_receipt \<Rightarrow> (bool \<times> int \<times> int) list" where
  "digital_content_save_events tx =
     map (\<lambda>e. (True, la_userId (e_args e), la_digitalContentId (e_args e)))
       (receipt_entries tx DigitalContentSaveAdded) @
     map (\<lambda>e. (False, la_userId (e_args e), la_digitalContentId (e_args e)))
       (receipt_entries tx DigitalContentSaveDeleted)"

definition content_list_save_events :: "library_receipt \<Rightarrow> (bool \<times> int \<times> int) list" where
  "content_list_save_events tx =
     map (\<lambda>e. (True, la_userId (e_args e), la_contentListId (e_args e)))
       (receipt_entries tx ContentListSaveAdded) @
     map (\<lambda>e. (False, la_userId (e_args e), la_contentListId (e_args e)))
       (receipt_entries tx ContentListSaveDeleted)"

lemma add_digital_content_save_Inr:
  assumes "add_digital_content_save tx bn ts c = Inr c'"
    and "changes_wf (item_row_wf (\<lambda>_. ItemDigitalContent)) c"
  shows "changes_wf (item_row_wf (\<lambda>_. ItemDigitalContent)) c'"
    and "live_pairs it_is_delete c' g = fold apply_edge
      (map (\<lambda>e. (True, la_userId (e_args e), la_digitalContentId (e_args e)))
        (receipt_entries tx DigitalContentSaveAdded)) (live_pairs it_is_delete c g)"
  using assms
  by (clarsimp simp: add_digital_content_save_def exc_bind_Inr_iff Let_def, intro changes_wf_fold,
      simp_all add: item_row_wf_def)
    (clarsimp simp: add_digital_content_save_def exc_bind_Inr_iff Let_def, intro live_pairs_fold, simp_all)

lemma delete_digital_content_save_Inr:
  assumes "delete_digital_content_save tx bn ts c = Inr c'"
    and "changes_wf (item_row_wf (\<lambda>_. ItemDigitalContent)) c"
  shows "changes_wf (item_row_wf (\<lambda>_. ItemDigitalContent)) c'"
    and "live_pairs it_is_delete c' g = fold apply_edge
      (map (\<lambda>e. (False, la_userId (e_args e), la_digitalContentId (e_args e)))
        (receipt_entries tx DigitalContentSaveDeleted)) (live_pairs it_is_delete c g)"
  using assms
  by (clarsimp simp: delete_digital_content_save_def exc_bind_Inr_iff Let_def, intro changes_wf_fold,
      simp_all add: item_row_wf_def)
    (clarsimp simp: delete_digital_content_save_def exc_bind_Inr_iff Let_def, intro live_pairs_fold, simp_all)

lemma add_content_list_save_Inr:
  assumes "add_content_list_save d tx bn ts c = Inr c'"
    and "changes_wf (item_row_wf (content_list_item_type d)) c"
  shows "changes_wf (item_row_wf (content_list_item_type d)) c'"
    and "live_pairs it_is_delete c' g = fold apply_edge
      (map (\<lambda>e. (True, la_userId (e_args e), la_contentListId (e_args e)))
        (receipt_entries tx ContentListSaveAdded)) (live_pairs it_is_delete c g)"
  using assms
  by (clarsimp simp: add_content_list_save_def exc_bind_Inr_iff Let_def, intro changes_wf_fold,
      simp_all add: item_row_wf_def)
    (clarsimp simp: add_content_list_save_def exc_bind_Inr_iff Let_def, intro live_pairs_fold, simp_all)

lemma delete_content_list_save_Inr:
  assumes "delete_content_list_save d tx bn ts c = Inr c'"
    and "changes_wf (item_row_wf (content_list_item_type d)) c"
  shows "changes_wf (item_row_wf (content_list_item_type d)) c'"
    and "live_pairs it_is_delete c' g = fold apply_edge
      (map (\<lambda>e. (False, la_userId (e_args e), la_contentListId (e_args e)))
        (receipt_entries tx ContentListSaveDeleted)) (live_pairs it_is_delete c g)"
  using assms
  by (clarsimp simp: delete_content_list_save_def exc_bind_Inr_iff Let_def, intro changes_wf_fold,
      simp_all add: item_row_wf_def)
    (clarsimp simp: delete_content_list_save_def exc_bind_Inr_iff Let_def, intro live_pairs_fold, simp_all)

lemmas library_Inr = add_digital_content_save_Inr delete_digital_content_save_Inr
  add_content_list_save_Inr delete_content_list_save_Inr

definition library_wf :: "db \<Rightarrow> library_changes \<Rightarrow> bool" where
  "library_wf d ch \<longleftrightarrow> changes_wf (item_row_wf (\<lambda>_. ItemDigitalContent)) (fst ch) \<and>
     changes_wf (item_row_wf (content_list_item_type d)) (snd ch)"

lemma library_wf_Nil [simp]: "library_wf d ([], [])"
  by (simp add: library_wf_def)

lemma parse_library_tx_Inr:
  assumes "parse_library_tx d tx bn ts bh ch = Inr ch'" and "library_wf d ch"
  shows "library_wf d ch'"
    and "live_pairs it_is_delete (fst ch') g =
      fold apply_edge (digital_content_save_events tx) (live_pairs it_is_delete (fst ch) g)"
    and "live_pairs it_is_delete (snd ch') g =
      fold apply_edge (content_list_save_events tx) (live_pairs it_is_delete (snd ch) g)"
  using assms
  by (auto simp: parse_library_tx_def library_wf_def digital_content_save_events_def
      content_list_save_events_def exc_bind_Inr_iff library_Inr split: sum.splits)

lemma parse_library_txs_Inr:
  assumes "parse_library_txs d txs bn ts bh ch = Inr ch'" and "library_wf d ch"
  shows "library_wf d ch' \<and>
    live_pairs it_is_delete (fst ch') g = fold apply_edge
      (concat (map digital_content_save_events txs)) (live_pairs it_is_delete (fst ch) g) \<and>
    live_pairs it_is_delete (snd ch') g = fold apply_edge
      (concat (map content_list_save_events txs)) (live_pairs it_is_delete (snd ch) g)"
  using assms
proof (induction txs arbitrary: ch)
  case Nil
  then show ?case by simp
next
  case (Cons tx txs)
  then obtain ch1 where step: "parse_library_tx d tx bn ts bh ch = Inr ch1"
    and rest: "parse_library_txs d txs bn ts bh ch1 = Inr ch'"
    by (auto simp: exc_bind_Inr_iff)
  note one = parse_library_tx_Inr [OF step Cons.prems(2)]
  from Cons.IH [OF rest one(1)] show ?case by (simp add: one)
qed

lemma store_content_list_save_eq:
  assumes "item_row_wf ty p r"
  shows "store_content_list_save bn (p, r) w =
    w\<lparr>w_db := (w_db w)\<lparr>saves := upsert_item r (saves (w_db w))\<rparr>,
      w_queue := w_queue w @ user_events_of favorite bn [it_user_id r]\<rparr>"
proof -
  have "(\<lambda>q. it_user_id q = fst p \<and> it_item_id q = snd p \<and> it_type q = it_type r \<and> it_is_current q)
      = (\<lambda>q. item_key q = item_key r \<and> it_is_current q)"
    using assms by (auto simp: item_row_wf_def)
  then show ?thesis
    by (cases p) (simp add: store_content_list_save_def dispatch_favorite_def dispatch_def
        update_db_def invalidate_old_save_def upsert_def invalidate_def Let_def)
qed

lemma store_digital_content_save_eq:
  assumes "item_row_wf (\<lambda>_. ItemDigitalContent) p r"
  shows "store_digital_content_save bn (p, r) w = store_content_list_save bn (p, r) w"
  using assms by (cases p)
    (simp add: store_digital_content_save_def store_content_list_save_def item_row_wf_def)

lemma fold_store_content_list_save:
  assumes "\<And>p r. (p, r) \<in> set cs \<Longrightarrow> item_row_wf ty p r"
  shows "fold (store_content_list_save bn) cs w =
    w\<lparr>w_db := (w_db w)\<lparr>saves := fold upsert_item (map snd cs) (saves (w_db w))\<rparr>,
      w_queue := w_queue w @ user_events_of favorite bn (map (it_user_id \<circ> snd) cs)\<rparr>"
  using assms by (induction cs arbitrary: w) (auto simp: store_content_list_save_eq [where ty = ty])

lemma fold_store_digital_content_save:
  assumes "\<And>p r. (p, r) \<in> set cs \<Longrightarrow> item_row_wf (\<lambda>_. ItemDigitalContent) p r"
  shows "fold (store_digital_content_save bn) cs w = fold (store_content_list_save bn) cs w"
  using assms by (intro fold_cong) (auto simp: store_digital_content_save_eq)

definition library_result :: "int \<Rightarrow> library_changes \<Rightarrow> world \<Rightarrow> world" where
  "library_result bn ch w =
     w\<lparr>w_db := (w_db w)\<lparr>saves := fold upsert_item (map snd (change_items (snd ch)))
         (fold upsert_item (map snd (change_items (fst ch))) (saves (w_db w)))\<rparr>,
       w_queue := w_queue w @
         user_events_of favorite bn (map (it_user_id \<circ> snd) (change_items (fst ch))) @
         user_events_of favorite bn (map (it_user_id \<circ> snd) (change_items (snd ch)))\<rparr>"

lemma library_wf_items:
  assumes "library_wf d ch"
  shows "(p, r) \<in> set (change_items (fst ch)) \<Longrightarrow> item_row_wf (\<lambda>_. ItemDigitalContent) p r"
    and "(p, r) \<in> set (change_items (snd ch)) \<Longrightarrow> item_row_wf (content_list_item_type d) p r"
  using assms by (auto simp: library_wf_def dest: changes_wf_items)

lemma library_run:
  "user_library_state_update txs bn ts bh w =
    (case parse_library_txs (w_db w) txs bn ts bh ([], []) of
       Inl e \<Rightarrow> (Inl e, w)
     | Inr ch \<Rightarrow> (Inr (int (length (change_items (fst ch)) + length (change_items (snd ch))), []),
         library_result bn ch w))"
proof (cases "parse_library_txs (w_db w) txs bn ts bh ([], [])")
  case (Inl e)
  then show ?thesis
    by (cases txs) (auto simp: user_library_state_update_def py_defs)
next
  case (Inr ch)
  have wf: "library_wf (w_db w) ch"
    using parse_library_txs_Inr [OF Inr] by simp
  note stores = fold_store_digital_content_save [OF library_wf_items(1) [OF wf]]
    fold_store_content_list_save [OF library_wf_items(1) [OF wf]]
    fold_store_content_list_save [OF library_wf_items(2) [OF wf]]
  show ?thesis
  proof (cases txs)
    case Nil
    with Inr show ?thesis
      by (auto simp: user_library_state_update_def py_defs library_result_def change_items_def)
  next
    case (Cons tx rest)
    with Inr show ?thesis
      by (simp add: user_library_state_update_def py_defs library_result_def stores case_prod_unfold)
  qed
qed

section \<open>Properties\<close>

text \<open>
  Refinement of the save relation: when the handler returns, the saved digital contents
  are those obtained by applying the save and unsave events of the block in order to the
  saved ones before, and likewise for content lists under the type (album or content list)
  of their current row; no other save changes.
\<close>

theorem save_graph_refines:
  assumes "user_library_state_update txs bn ts bh w = (Inr res, w')"
  shows "(u, i, t) \<in> item_graph (saves (w_db w')) \<longleftrightarrow>
    (if t = ItemDigitalContent
     then (u, i) \<in> fold apply_edge (concat (map digital_content_save_events txs))
            {(u, i). (u, i, ItemDigitalContent) \<in> item_graph (saves (w_db w))}
     else if t = content_list_item_type (w_db w) i
     then (u, i) \<in> fold apply_edge (concat (map content_list_save_events txs))
            {(u, i). (u, i, content_list_item_type (w_db w) i) \<in> item_graph (saves (w_db w))}
     else (u, i, t) \<in> item_graph (saves (w_db w)))"
proof -
  obtain ch where p: "parse_library_txs (w_db w) txs bn ts bh ([], []) = Inr ch"
    and w': "w' = library_result bn ch w"
    using assms by (auto simp: library_run split: sum.splits)
  have wf1: "changes_wf (item_row_wf (\<lambda>_. ItemDigitalContent)) (fst ch)"
    and wf2: "changes_wf (item_row_wf (content_list_item_type (w_db w))) (snd ch)"
    using parse_library_txs_Inr [OF p] by (simp_all add: library_wf_def)
  show ?thesis
    using parse_library_txs_Inr [OF p]
    by (simp add: w' library_result_def item_graph_store [OF wf1] item_graph_store [OF wf2])
qed

text \<open>One transaction of user 1: save content 5 and list 6, unsave content 5.\<close>

definition ex_library :: library_receipt where
  "ex_library = sample_receipt ''0x1'' (\<lambda>t.
     let args = \<lparr>la_userId = 1, la_digitalContentId = 5, la_contentListId = 6\<rparr>
     in case t of
          DigitalContentSaveAdded \<Rightarrow> [args]
        | DigitalContentSaveDeleted \<Rightarrow> [args]
        | ContentListSaveAdded \<Rightarrow> [args]
        | _ \<Rightarrow> [])"

theorem save_graph_refines_witness:
  "\<exists>res w'. user_library_state_update [ex_library] 7 100 ''0xb'' empty_world = (Inr res, w') \<and>
     (1, 5, ItemDigitalContent) \<notin> item_graph (saves (w_db w')) \<and>
     (1, 6, ItemContentList) \<in> item_graph (saves (w_db w'))"
proof -
  have "fst (user_library_state_update [ex_library] 7 100 ''0xb'' empty_world) = Inr (2, [])"
    by code_simp
  then obtain w' where run: "user_library_state_update [ex_library] 7 100 ''0xb'' empty_world = (Inr (2, []), w')"
    by (metis prod.collapse)
  note spec = save_graph_refines [OF run]
  have empty: "item_graph (saves (w_db empty_world)) = {}" "content_list_item_type (w_db empty_world) i = ItemContentList" for i
    by (simp_all add: item_graph_def empty_world_def empty_db_def content_list_item_type_def)
  show ?thesis
    using run by (simp add: spec empty digital_content_save_events_def content_list_save_events_def ex_library_def)
qed

end
