(* ===== verification/Content_Lists.thy ===== *)
theory Content_Lists
  imports Event_Bus Helpers Skipped_Transactions
begin

text \<open>
  src/tasks/content_lists.py: the handler of the ContentListFactory contract. Each event edits
  the pending row of its content list (the current row of the table, or a fresh one); an event
  that leaves a required column empty skips its transaction at node level; at the end the
  pending rows supersede the current ones.
\<close>

datatype content_list_event =
    ContentListCreated | ContentListDeleted
  | ContentListDigitalContentAdded | ContentListDigitalContentDeleted
  | ContentListDigitalContentsOrdered | ContentListNameUpdated | ContentListPrivacyUpdated
  | ContentListCoverPhotoUpdated | ContentListDescriptionUpdated | ContentListUPCUpdated

definition content_list_event_types_arr :: "content_list_event list" where
  "content_list_event_types_arr =
     [ContentListCreated, ContentListDeleted, ContentListDigitalContentAdded,
      ContentListDigitalContentDeleted, ContentListDigitalContentsOrdered, ContentListNameUpdated,
      ContentListPrivacyUpdated, ContentListCoverPhotoUpdated, ContentListDescriptionUpdated,
      ContentListUPCUpdated]"

record content_list_args =
  pa_contentListId :: int
  pa_contentListOwnerId :: int
  pa_isPrivate :: bool
  pa_isAlbum :: bool
  pa_digitalContentIds :: "int list"
  pa_addedDigitalContentId :: int
  pa_deletedDigitalContentId :: int
  pa_deletedDigitalContentTimestamp :: int
  pa_orderedDigitalContentIds :: "int list"
  pa_updatedContentListName :: string
  pa_updatedIsPrivate :: bool
  pa_contentListImageMultihashDigest :: bytes
  pa_contentListDescription :: string
  pa_contentListUPC :: bytes

type_synonym content_list_receipt = "(content_list_event, content_list_args) tx_receipt"

section \<open>Editing a row\<close>

text \<open>
  \<open>lookup_content_list_record\<close>: when the id exists without a current row, \<open>first()\<close> is None
  and the session refuses to expunge it.
\<close>

definition fresh_content_list :: "int \<Rightarrow> content_list_row" where
  "fresh_content_list i =
     \<lparr>cl_blockhash = None, cl_blocknumber = None, cl_txhash = [], cl_id = i, cl_owner_id = None,
      cl_is_album = None, cl_is_private = None, cl_name = None, cl_contents = None,
      cl_image_multihash = None, cl_image_sizes_multihash = None, cl_is_current = True,
      cl_is_delete = False, cl_description = None, cl_upc = None, cl_created_at = None,
      cl_updated_at = None, cl_last_added_to = None\<rparr>"

definition lookup_content_list_record ::
  "db \<Rightarrow> content_list_args entry \<Rightarrow> int \<Rightarrow> hash \<Rightarrow> exc + content_list_row" where
  "lookup_content_list_record d entry block_number txhash =
     (let i = pa_contentListId (e_args entry);
          stamp = (\<lambda>r. r\<lparr>cl_blocknumber := Some block_number,
            cl_blockhash := Some (e_blockHash entry), cl_txhash := txhash\<rparr>)
      in if sql_count (\<lambda>r. cl_id r = i) (content_lists d) > 0 then
           (case sql_first (\<lambda>r. cl_id r = i \<and> cl_is_current r) (content_lists d) of
              None \<Rightarrow> Inl (PyException ''Class builtins.NoneType is not mapped'')
            | Some r \<Rightarrow> Inr (stamp r))
         else Inr (stamp (fresh_content_list i)))"

text \<open>
  Removing an entry: the loop skips the first entry with the given id and time and keeps the
  others.
\<close>

fun delete_entry :: "int \<Rightarrow> int \<Rightarrow> bool \<Rightarrow> cl_entry list \<Rightarrow> cl_entry list" where
  "delete_entry i t found [] = []"
| "delete_entry i t found (e # es) =
     (if ce_digital_content e = i \<and> ce_time e = t \<and> \<not> found then delete_entry i t True es
      else e # delete_entry i t found es)"

text \<open>
  Reordering: \<open>intermediate_digital_content_time_lookup_dict\<close> holds per id the times of its
  entries in order; each occurrence in the new order takes the first time, which is removed
  unless it is the last one; an id without entries gets the block time.
\<close>

definition add_time :: "cl_entry \<Rightarrow> (int \<times> int list) list \<Rightarrow> (int \<times> int list) list" where
  "add_time e dict =
     (let i = ce_digital_content e;
          ts = (case map_of dict i of None \<Rightarrow> [] | Some ts \<Rightarrow> ts)
      in AList.update i (ts @ [ce_time e]) dict)"

fun take_times :: "int \<Rightarrow> int list \<Rightarrow> (int \<times> int list) list \<Rightarrow> cl_entry list" where
  "take_times now [] dict = []"
| "take_times now (i # ids) dict =
     (let (t, dict') =
        (case map_of dict i of
           None \<Rightarrow> (now, dict)
         | Some ts \<Rightarrow>
             if length ts > 1 then (hd ts, AList.update i (tl ts) dict)
             else if length ts = 1 then (ts ! 0, dict)
             else (now, dict))
      in \<lparr>ce_digital_content = i, ce_time = t\<rparr> # take_times now ids dict')"

definition order_contents :: "int \<Rightarrow> int list \<Rightarrow> cl_entry list \<Rightarrow> cl_entry list" where
  "order_contents now ids old = take_times now ids (fold add_time old [])"

text \<open>The columns that are not nullable and have no default: what \<open>all_required_fields_present\<close> checks.\<close>

definition content_list_required_fields_present :: "content_list_row \<Rightarrow> bool" where
  "content_list_required_fields_present r \<longleftrightarrow>
     cl_owner_id r \<noteq> None \<and> cl_is_album r \<noteq> None \<and> cl_is_private r \<noteq> None \<and>
     cl_contents r \<noteq> None \<and> cl_created_at r \<noteq> None \<and> cl_updated_at r \<noteq> None"

text \<open>
  The edits of one event. \<open>Inl\<close>: the exception of decoding the UPC (\<open>bytes32_to_str\<close>). The
  listener of src/models/model_utils.py drops NUL characters from text columns
  (\<open>column_text\<close>). The attribute \<open>timestamp\<close> set by an addition is no column of the table.
\<close>

definition apply_content_list_event ::
  "(bytes \<Rightarrow> string) \<Rightarrow> content_list_event \<Rightarrow> content_list_args \<Rightarrow> timestamp \<Rightarrow>
    content_list_row \<Rightarrow> exc + content_list_row" where
  "apply_content_list_event b58encode event_type args ts r =
     (case event_type of
        ContentListCreated \<Rightarrow>
          Inr (r\<lparr>cl_owner_id := Some (pa_contentListOwnerId args),
                 cl_is_private := Some (pa_isPrivate args),
                 cl_is_album := Some (pa_isAlbum args),
                 cl_contents := Some (map (\<lambda>i. \<lparr>ce_digital_content = i, ce_time = ts\<rparr>)
                   (pa_digitalContentIds args)),
                 cl_created_at := Some ts\<rparr>)
      | ContentListDeleted \<Rightarrow> Inr (r\<lparr>cl_is_delete := True\<rparr>)
      | ContentListDigitalContentAdded \<Rightarrow>
          (case cl_contents r of
             None \<Rightarrow> Inr r
           | Some old \<Rightarrow> Inr (r\<lparr>cl_contents :=
               Some (old @ [\<lparr>ce_digital_content = pa_addedDigitalContentId args, ce_time = ts\<rparr>]),
               cl_last_added_to := Some ts\<rparr>))
      | ContentListDigitalContentDeleted \<Rightarrow>
          (case cl_contents r of
             None \<Rightarrow> Inr r
           | Some old \<Rightarrow> Inr (r\<lparr>cl_contents := Some (delete_entry (pa_deletedDigitalContentId args)
               (pa_deletedDigitalContentTimestamp args) False old)\<rparr>))
      | ContentListDigitalContentsOrdered \<Rightarrow>
          (case cl_contents r of
             None \<Rightarrow> Inr r
           | Some old \<Rightarrow> Inr (r\<lparr>cl_contents :=
               Some (order_contents ts (pa_orderedDigitalContentIds args) old)\<rparr>))
      | ContentListNameUpdated \<Rightarrow>
          Inr (r\<lparr>cl_name := Some (column_text (pa_updatedContentListName args))\<rparr>)
      | ContentListPrivacyUpdated \<Rightarrow> Inr (r\<lparr>cl_is_private := Some (pa_updatedIsPrivate args)\<rparr>)
      | ContentListCoverPhotoUpdated \<Rightarrow>
          exc_bind (multihash_digest_to_cid b58encode (pa_contentListImageMultihashDigest args))
            (\<lambda>cid. Inr (if cid \<noteq> [] then r\<lparr>cl_image_sizes_multihash := Some cid, cl_image_multihash := None\<rparr>
                        else r\<lparr>cl_image_multihash := Some cid\<rparr>))
      | ContentListDescriptionUpdated \<Rightarrow>
          Inr (r\<lparr>cl_description := Some (column_text (pa_contentListDescription args))\<rparr>)
      | ContentListUPCUpdated \<Rightarrow>
          exc_bind (bytes32_to_str (pa_contentListUPC args)) (\<lambda>upc.
            Inr (r\<lparr>cl_upc := Some (column_text upc)\<rparr>)))"

text \<open>
  \<open>parse_content_list_event\<close> edits the row object in place: the second component is the row
  after the call, also when it raised.
\<close>

definition parse_content_list_event ::
  "(bytes \<Rightarrow> string) \<Rightarrow> content_list_args entry \<Rightarrow> content_list_event \<Rightarrow> content_list_row \<Rightarrow>
    timestamp \<Rightarrow> (exc + content_list_row) \<times> content_list_row" where
  "parse_content_list_event b58encode entry event_type r block_timestamp =
     (case apply_content_list_event b58encode event_type (e_args entry) block_timestamp r of
        Inl e \<Rightarrow> (Inl e, r)
      | Inr r1 \<Rightarrow>
          let r2 = r1\<lparr>cl_updated_at := Some block_timestamp\<rparr>
          in if content_list_required_fields_present r2 then (Inr r2, r2)
             else (Inl (EntityMissingRequiredFieldError ''content_list''), r2))"

definition invalidate_old_content_list :: "int \<Rightarrow> (world, unit) py" where
  "invalidate_old_content_list i =
     py_bind (py_gets (\<lambda>w. content_lists (w_db w))) (\<lambda>tbl.
       if sql_count (\<lambda>r. cl_id r = i) tbl > 0 then
         py_seq
           (py_modify (update_db (\<lambda>d. d\<lparr>content_lists :=
              sql_update (\<lambda>r. cl_id r = i \<and> cl_is_current r) (\<lambda>r. r\<lparr>cl_is_current := False\<rparr>)
                (content_lists d)\<rparr>)))
           (py_assert (sql_count (\<lambda>r. cl_id r = i \<and> cl_is_current r) tbl > 0)
             ''Update operation requires a current contentList to be invalidated'')
       else py_return ())"

section \<open>The handler\<close>

text \<open>
  \<open>content_list_events_lookup\<close>: per id the pending row and the types of the events that
  contributed to it, the dictionary \<open>{"content_list": row, "events": types}\<close>.
\<close>

record cl_value =
  lv_content_list :: content_list_row
  lv_events :: "content_list_event list"

type_synonym cl_lookup = "(int \<times> cl_value) list"

definition value_obj_keys :: "string list" where
  "value_obj_keys = [''content_list'', ''events'']"

text \<open>The \<open>try\<close> block of one entry; the accumulator holds the lookup, the ids and \<open>processedEntries\<close>.\<close>

definition process_content_list_entry ::
  "(bytes \<Rightarrow> string) \<Rightarrow> int \<Rightarrow> timestamp \<Rightarrow> hash \<Rightarrow> hash \<Rightarrow> content_list_event \<Rightarrow>
    content_list_args entry \<Rightarrow> cl_lookup \<times> int list \<times> int \<Rightarrow>
    (world, cl_lookup \<times> int list \<times> int) py" where
  "process_content_list_entry b58encode block_number ts blockhash txhash event_type entry acc =
     (case acc of (lookup, ids, processed) \<Rightarrow>
        let i = pa_contentListId (e_args entry);
            failed = (\<lambda>e. py_raise (IndexingError ''content_list'' (Some block_number) blockhash
              (Some txhash) (exc_str e)))
        in py_bind (py_gets w_db) (\<lambda>d.
             case (case map_of lookup i of
                     Some v \<Rightarrow> Inr (lv_content_list v)
                   | None \<Rightarrow> lookup_content_list_record d entry block_number txhash) of
               Inl e \<Rightarrow> failed e
             | Inr existing \<Rightarrow>
                 let (result, mutated) = parse_content_list_event b58encode entry event_type existing ts;
                     mutate = (case map_of lookup i of
                        Some v \<Rightarrow> AList.update i (v\<lparr>lv_content_list := mutated\<rparr>) lookup
                      | None \<Rightarrow> lookup)
                 in (case result of
                       Inr r \<Rightarrow>
                         let v = (case map_of lookup i of
                               None \<Rightarrow> \<lparr>lv_content_list = r, lv_events = []\<rparr>
                             | Some v \<Rightarrow> v\<lparr>lv_content_list := r\<rparr>)
                         in py_return (AList.update i (v\<lparr>lv_events := lv_events v @ [event_type]\<rparr>) lookup,
                              List.insert i ids, processed + 1)
                     | Inl e \<Rightarrow>
                         if missing_required e then
                           py_seq (py_modify (update_db
                               (add_node_level_skipped_transaction block_number blockhash txhash)))
                             (py_return (mutate, ids, processed))
                         else failed e)))"

definition process_content_list_tx ::
  "(bytes \<Rightarrow> string) \<Rightarrow> int \<Rightarrow> timestamp \<Rightarrow> hash \<Rightarrow> content_list_receipt \<Rightarrow>
    cl_lookup \<times> int list \<times> int \<Rightarrow> (world, cl_lookup \<times> int list \<times> int) py" where
  "process_content_list_tx b58encode block_number ts blockhash tx =
     py_for (\<lambda>event_type acc.
       py_bind (py_lift (processReceipt tx event_type)) (\<lambda>entries.
         py_for (process_content_list_entry b58encode block_number ts blockhash
           (transactionHash tx) event_type) entries acc))
       content_list_event_types_arr"

text \<open>
  One turn of the final loop. Its first statement logs \<open>value_obj['contentList']\<close>, a key the
  value does not have.
\<close>

definition store_content_list :: "int \<times> cl_value \<Rightarrow> unit \<Rightarrow> (world, unit) py" where
  "store_content_list item u =
     (case item of (i, value_obj) \<Rightarrow>
       py_seq
         (if ''contentList'' \<in> set value_obj_keys then py_return ()
          else py_raise (KeyError ''contentList''))
         (if lv_events value_obj \<noteq> [] then
            py_seq (invalidate_old_content_list i)
              (py_seq (py_modify (update_db (\<lambda>d. d\<lparr>content_lists :=
                   content_lists d @ [lv_content_list value_obj]\<rparr>)))
                 (if ContentListDigitalContentAdded \<in> set (lv_events value_obj)
                  then py_modify (dispatch first_content_list
                    (cl_blocknumber (lv_content_list value_obj))
                    (cl_owner_id (lv_content_list value_obj)) [])
                  else py_return ()))
          else py_return ()))"

definition content_list_state_update ::
  "(bytes \<Rightarrow> string) \<Rightarrow> content_list_receipt list \<Rightarrow> int \<Rightarrow> timestamp \<Rightarrow> hash \<Rightarrow>
    (world, int \<times> int list) py" where
  "content_list_state_update b58encode txs block_number ts blockhash =
     (if txs = [] then py_return (0, [])
      else
        py_bind (py_for (process_content_list_tx b58encode block_number ts blockhash) txs ([], [], 0))
          (\<lambda>(lookup, ids, num_total_changes).
             py_seq (py_for store_content_list lookup ())
               (py_return (num_total_changes, ids))))"

section \<open>Lemmas\<close>

definition dict_times :: "(int \<times> int list) list \<Rightarrow> int \<Rightarrow> int list" where
  "dict_times dict i = (case map_of dict i of None \<Rightarrow> [] | Some ts \<Rightarrow> ts)"

definition entry_times :: "int \<Rightarrow> cl_entry list \<Rightarrow> int list" where
  "entry_times i es = map ce_time (filter (\<lambda>e. ce_digital_content e = i) es)"

lemma entry_times_simps [simp]:
  "entry_times i [] = []"
  "entry_times i (e # es) =
     (if ce_digital_content e = i then ce_time e # entry_times i es else entry_times i es)"
  by (simp_all add: entry_times_def)

lemma dict_times_update [simp]:
  "dict_times (AList.update j ts dict) i = (if i = j then ts else dict_times dict i)"
  by (simp add: dict_times_def update_conv')

lemma dict_times_add: "dict_times (fold add_time es dict) i = dict_times dict i @ entry_times i es"
  by (induction es arbitrary: dict)
    (auto simp: add_time_def Let_def dict_times_def update_conv' split: option.split)

text \<open>The times an id takes on its successive occurrences.\<close>

definition nth_time :: "int \<Rightarrow> int list \<Rightarrow> nat \<Rightarrow> int" where
  "nth_time now ts k = (if ts = [] then now else ts ! min k (length ts - 1))"

lemma nth_time_Suc:
  "nth_time now ts (Suc k) = nth_time now (if length ts > 1 then tl ts else ts) k"
  by (cases ts) (auto simp: nth_time_def nth_tl min_def)

lemma upt_Suc_map: "map f [0..<Suc n] = f 0 # map (\<lambda>k. f (Suc k)) [0..<n]"
  by (simp add: upt_conv_Cons map_Suc_upt [symmetric] del: upt_Suc)

lemma take_times_Cons:
  "take_times now (i # ids) dict =
     \<lparr>ce_digital_content = i, ce_time = nth_time now (dict_times dict i) 0\<rparr> #
     take_times now ids (if length (dict_times dict i) > 1
       then AList.update i (tl (dict_times dict i)) dict else dict)"
proof (cases "map_of dict i")
  case None
  then show ?thesis by (simp add: dict_times_def nth_time_def)
next
  case (Some ts)
  then show ?thesis
    by (cases ts rule: remdups_adj.cases) (simp_all add: dict_times_def nth_time_def)
qed

lemma take_times_ids: "map ce_digital_content (take_times now ids dict) = ids"
  by (induction ids arbitrary: dict) (simp_all only: take_times_Cons, simp_all)

lemma take_times_entry_times:
  "entry_times i (take_times now ids dict) =
     map (nth_time now (dict_times dict i)) [0..<count_list ids i]"
proof (induction ids arbitrary: dict)
  case Nil
  then show ?case by simp
next
  case (Cons j ids)
  then show ?case
    by (simp only: take_times_Cons) (auto simp: upt_Suc_map nth_time_Suc simp del: upt_Suc)
qed

lemma delete_entry_found [simp]: "delete_entry i t True es = es"
  by (induction es) auto

lemma delete_entry_remove1:
  "delete_entry i t False es = remove1 \<lparr>ce_digital_content = i, ce_time = t\<rparr> es"
proof (induction es)
  case Nil
  then show ?case by simp
next
  case (Cons e es)
  have "ce_digital_content e = i \<and> ce_time e = t \<longleftrightarrow> e = \<lparr>ce_digital_content = i, ce_time = t\<rparr>"
    by (cases e) auto
  with Cons show ?case by auto
qed

text \<open>No part of the collecting phase touches the table of content lists.\<close>

definition same_lists :: "content_list_row list \<Rightarrow> world \<Rightarrow> bool" where
  "same_lists tbl w \<longleftrightarrow> content_lists (w_db w) = tbl"

lemma process_entry_keeps:
  "py_keeps (same_lists tbl) (process_content_list_entry benc bn ts bh tx ev entry acc)"
  unfolding process_content_list_entry_def Let_def
  by (auto intro!: keeps_intros simp: same_lists_def add_node_level_skipped_transaction_def)

lemma list_tx_keeps: "py_keeps (same_lists tbl) (process_content_list_tx benc bn ts bh tx acc)"
  unfolding process_content_list_tx_def by (intro keeps_intros process_entry_keeps)

lemma store_content_list_raises: "store_content_list item u w = (Inl (KeyError ''contentList''), w)"
  by (cases item) (simp add: store_content_list_def value_obj_keys_def py_defs)

lemma store_content_lists:
  "py_for store_content_list lookup () w =
     (if lookup = [] then Inr () else Inl (KeyError ''contentList''), w)"
  by (cases lookup) (simp_all add: py_bind_def store_content_list_raises py_return_def)

text \<open>A pending row exists as soon as something was counted.\<close>

definition counted :: "cl_lookup \<times> int list \<times> int \<Rightarrow> bool" where
  "counted acc = (case acc of (lookup, ids, n) \<Rightarrow> lookup = [] \<longrightarrow> ids = [] \<and> n = 0)"

lemma update_not_Nil [simp]: "AList.update k v al \<noteq> []"
  by (cases al) auto

lemma process_entry_counted:
  "counted acc \<Longrightarrow> py_yields counted (process_content_list_entry benc bn ts bh tx ev entry acc)"
  unfolding process_content_list_entry_def Let_def
  by (auto intro!: keeps_intros simp: counted_def split: sum.split option.split prod.split)

lemma process_tx_counted:
  "counted acc \<Longrightarrow> py_yields counted (process_content_list_tx benc bn ts bh tx acc)"
  unfolding process_content_list_tx_def
  by (intro py_yields_for py_yields_bind process_entry_counted)

section \<open>Properties\<close>

text \<open>
  Reordering a content list gives exactly the ordered ids, and the k-th occurrence of an
  id keeps the time of the k-th entry the list had for it (the last one when there are more
  occurrences than entries); an id that was not in the list gets the block time. So ordering
  a permutation keeps the time of every entry.
\<close>

theorem order_contents_times:
  "map ce_digital_content (order_contents now ids old) = ids \<and>
   map ce_time (filter (\<lambda>e. ce_digital_content e = i) (order_contents now ids old)) =
     map (\<lambda>k. let ts = map ce_time (filter (\<lambda>e. ce_digital_content e = i) old)
              in if ts = [] then now else ts ! min k (length ts - 1)) [0..<count_list ids i]"
proof -
  have "entry_times i (order_contents now ids old) =
      map (nth_time now (entry_times i old)) [0..<count_list ids i]"
    unfolding order_contents_def
    by (simp add: take_times_entry_times dict_times_add) (simp add: dict_times_def)
  then show ?thesis
    by (simp add: order_contents_def take_times_ids entry_times_def nth_time_def [abs_def] Let_def)
qed

text \<open>
  On a content list the table does not know, exactly the creation event is accepted: it
  gives a row with the event's owner, flags and ids, every entry at the block time; every
  other event raises (the missing required fields, or an undecodable UPC).
\<close>

theorem content_list_needs_creation:
  assumes "lookup_content_list_record d entry bn txhash = Inr r"
    and "\<forall>q\<in>set (content_lists d). cl_id q \<noteq> pa_contentListId (e_args entry)"
  shows "case fst (parse_content_list_event benc entry ev r ts) of
      Inr r' \<Rightarrow> ev = ContentListCreated \<and> cl_id r' = pa_contentListId (e_args entry) \<and>
        cl_blocknumber r' = Some bn \<and> cl_txhash r' = txhash \<and> cl_is_current r' \<and> \<not> cl_is_delete r' \<and>
        cl_owner_id r' = Some (pa_contentListOwnerId (e_args entry)) \<and>
        cl_contents r' = Some (map (\<lambda>i. \<lparr>ce_digital_content = i, ce_time = ts\<rparr>)
          (pa_digitalContentIds (e_args entry))) \<and>
        cl_created_at r' = Some ts \<and> cl_updated_at r' = Some ts
    | Inl e \<Rightarrow> ev \<noteq> ContentListCreated \<and>
        (e = EntityMissingRequiredFieldError ''content_list'' \<or> ev = ContentListUPCUpdated)"
proof -
  have "sql_count (\<lambda>r. cl_id r = pa_contentListId (e_args entry)) (content_lists d) = 0"
    using assms(2) by (auto simp: sql_count_0)
  then have r: "r = (fresh_content_list (pa_contentListId (e_args entry)))
      \<lparr>cl_blocknumber := Some bn, cl_blockhash := Some (e_blockHash entry), cl_txhash := txhash\<rparr>"
    using assms(1) by (simp add: lookup_content_list_record_def)
  show ?thesis
    by (cases ev) (auto simp: r fresh_content_list_def parse_content_list_event_def Let_def
        apply_content_list_event_def content_list_required_fields_present_def
        multihash_digest_to_cid_eq exc_bind_Inr_iff split: sum.split)
qed

definition ex_list_args :: content_list_args where
  "ex_list_args = \<lparr>pa_contentListId = 4, pa_contentListOwnerId = 1, pa_isPrivate = False,
     pa_isAlbum = True, pa_digitalContentIds = [5, 6, 5], pa_addedDigitalContentId = 7,
     pa_deletedDigitalContentId = 5, pa_deletedDigitalContentTimestamp = 100,
     pa_orderedDigitalContentIds = [5, 5, 6], pa_updatedContentListName = ''n'', pa_updatedIsPrivate = True,
     pa_contentListImageMultihashDigest = [1], pa_contentListDescription = ''d'', pa_contentListUPC = [65]\<rparr>"

theorem content_list_needs_creation_witness:
  "\<exists>r r'. lookup_content_list_record empty_db \<lparr>e_blockHash = ''0xb'', e_args = ex_list_args\<rparr> 7 ''0x1'' = Inr r \<and>
     fst (parse_content_list_event (\<lambda>_. ''cid'') \<lparr>e_blockHash = ''0xb'', e_args = ex_list_args\<rparr>
       ContentListCreated r 100) = Inr r' \<and> cl_owner_id r' = Some 1"
proof -
  let ?e = "\<lparr>e_blockHash = ''0xb'', e_args = ex_list_args\<rparr>"
  obtain r where r: "lookup_content_list_record empty_db ?e 7 ''0x1'' = Inr r"
    by (simp add: lookup_content_list_record_def empty_db_def sql_count_def)
  have none: "\<forall>q\<in>set (content_lists empty_db). cl_id q \<noteq> pa_contentListId (e_args ?e)"
    by (simp add: empty_db_def)
  from content_list_needs_creation [OF r none, where benc = "\<lambda>_. ''cid''" and ev = ContentListCreated and ts = 100] r show ?thesis
    by (auto simp: ex_list_args_def split: sum.splits)
qed

text \<open>
  The handler never writes the table of content lists: it returns only when no event was
  processed, and otherwise its final loop raises before it stores the first pending row.
\<close>

theorem content_list_update_never_stores:
  assumes "content_list_state_update benc txs bn ts bh w = (res, w')"
  shows "content_lists (w_db w') = content_lists (w_db w) \<and> (\<forall>x. res = Inr x \<longrightarrow> x = (0, []))"
proof (cases "txs = []")
  case True
  with assms show ?thesis by (auto simp: content_list_state_update_def py_return_def)
next
  case False
  let ?collect = "py_for (process_content_list_tx benc bn ts bh) txs ([], [], 0)"
  obtain c w1 where run: "?collect w = (c, w1)" by fastforce
  have "py_keeps (same_lists (content_lists (w_db w))) ?collect"
    by (intro keeps_intros list_tx_keeps)
  from py_keepsD [OF this, of w] have same: "content_lists (w_db w1) = content_lists (w_db w)"
    by (simp add: run same_lists_def)
  show ?thesis
  proof (cases c)
    case (Inl e)
    with assms False run same show ?thesis
      by (auto simp: content_list_state_update_def py_bind_def)
  next
    case (Inr acc)
    have "py_yields counted ?collect"
      by (rule py_yields_for) (auto intro: process_tx_counted simp: counted_def)
    from py_yieldsD [OF this] run Inr have "counted acc" by blast
    with assms False run same Inr show ?thesis
      by (auto simp: content_list_state_update_def py_bind_def py_seq_def store_content_lists
          counted_def py_return_def split: prod.splits if_splits)
  qed
qed

definition ex_list :: content_list_receipt where
  "ex_list = sample_receipt ''0x1'' (\<lambda>t. if t = ContentListCreated then [ex_list_args] else [])"

theorem content_list_update_never_stores_witness:
  "\<exists>w'. content_list_state_update (\<lambda>_. ''cid'') [ex_list] 7 100 ''0xb'' empty_world =
     (Inl (KeyError ''contentList''), w') \<and> content_lists (w_db w') = []"
proof -
  have "fst (content_list_state_update (\<lambda>_. ''cid'') [ex_list] 7 100 ''0xb'' empty_world) =
      Inl (KeyError ''contentList'')"
    by code_simp
  then obtain w' where run: "content_list_state_update (\<lambda>_. ''cid'') [ex_list] 7 100 ''0xb'' empty_world =
      (Inl (KeyError ''contentList''), w')"
    by (metis prod.collapse)
  from content_list_update_never_stores [OF run] run show ?thesis
    by (simp add: empty_world_def empty_db_def)
qed

end
