(* ===== verification/User_Replica_Set.thy ===== *)
theory User_Replica_Set
  imports Users
begin

text \<open>
  src/tasks/user_replica_set.py: the handler of the UserReplicaSetManager contract, which sets
  the replica set of users and registers content nodes. Every event starts from the current
  row of the table, so the last event of a block on a user or node decides. The addresses of
  nodes come from a cache or from an Ethereum contract, the \<open>sp_services\<close>.
\<close>

datatype replica_event = UpdateReplicaSet | AddOrUpdateContentNode

definition user_replica_set_manager_event_types_arr :: "replica_event list" where
  "user_replica_set_manager_event_types_arr = [UpdateReplicaSet, AddOrUpdateContentNode]"

record replica_args =
  ra_userId :: int
  ra_primaryId :: int
  ra_secondaryIds :: "int list"
  ra_signer :: string
  ra_cnodeSpId :: int
  ra_cnodeDelegateOwnerWallet :: string
  ra_cnodeOwnerWallet :: string
  ra_proposer1DelegateOwnerWallet :: string
  ra_proposer2DelegateOwnerWallet :: string
  ra_proposer3DelegateOwnerWallet :: string
  ra_proposerSpIds :: "int list"

type_synonym replica_receipt = "(replica_event, replica_args) tx_receipt"

text \<open>
  \<open>sp_cached\<close>: the list cached in Redis under the key of an id, empty when there is none;
  \<open>sp_contract\<close>: what \<open>getServiceEndpointInfo\<close> of the service provider factory returns, or
  the message of the exception of reaching it. The endpoint is the second component of either.
\<close>

record sp_services =
  sp_cached :: "int \<Rightarrow> string list"
  sp_contract :: "int \<Rightarrow> string + string list"

section \<open>Endpoints\<close>

definition second :: "string list \<Rightarrow> exc + string" where
  "second xs = (case xs of _ # e # _ \<Rightarrow> Inr e | _ \<Rightarrow> Inl (PyException ''list index out of range''))"

definition get_endpoint_from_id :: "sp_services \<Rightarrow> int \<Rightarrow> exc + string" where
  "get_endpoint_from_id sp sp_id =
     (if sp_cached sp sp_id \<noteq> [] then second (sp_cached sp sp_id)
      else case sp_contract sp sp_id of Inl m \<Rightarrow> Inl (PyException m) | Inr info \<Rightarrow> second info)"

definition get_endpoint_string_from_sp_ids :: "sp_services \<Rightarrow> int \<Rightarrow> int list \<Rightarrow> exc + string" where
  "get_endpoint_string_from_sp_ids sp primary secondaries =
     fold (\<lambda>secondary_id acc. exc_bind acc (\<lambda>endpoint_string.
         exc_bind (get_endpoint_from_id sp secondary_id) (\<lambda>secondary_endpoint.
           Inr (endpoint_string @ '','' @ secondary_endpoint))))
       secondaries (get_endpoint_from_id sp primary)"

section \<open>Editing the rows\<close>

text \<open>
  \<open>parse_user_record\<close>. As in the theory Users the required columns of a user are its keys, so
  the check for missing fields cannot fail. The row is None when the user id is falsy.
\<close>

definition parse_user_record ::
  "sp_services \<Rightarrow> replica_args \<Rightarrow> user_row option \<Rightarrow> timestamp \<Rightarrow> exc + user_row" where
  "parse_user_record sp args user_record block_timestamp =
     (case user_record of
        None \<Rightarrow> Inl (AttributeError ''updated_at'')
      | Some r \<Rightarrow>
          exc_bind (get_endpoint_string_from_sp_ids sp (ra_primaryId args) (ra_secondaryIds args))
            (\<lambda>endpoint. Inr (r\<lparr>us_updated_at := block_timestamp,
               us_primary_id := Some (ra_primaryId args),
               us_secondary_ids := Some (ra_secondaryIds args),
               us_replica_set_update_signer := Some (ra_signer args),
               us_content_node_endpoint := Some (column_text endpoint)\<rparr>)))"

definition lookup_ursm_cnode ::
  "db \<Rightarrow> replica_args entry \<Rightarrow> int \<Rightarrow> timestamp \<Rightarrow> hash \<Rightarrow> exc + ursm_row" where
  "lookup_ursm_cnode d entry block_number block_timestamp txhash =
     (let i = ra_cnodeSpId (e_args entry);
          stamp = (\<lambda>r. r\<lparr>cn_blockhash := Some (e_blockHash entry),
            cn_blocknumber := Some block_number, cn_txhash := txhash\<rparr>)
      in if sql_count (\<lambda>r. cn_sp_id r = i) (ursm_content_nodes d) > 0 then
           (case sql_first (\<lambda>r. cn_sp_id r = i \<and> cn_is_current r) (ursm_content_nodes d) of
              None \<Rightarrow> Inl (PyException ''Class builtins.NoneType is not mapped'')
            | Some r \<Rightarrow> Inr (stamp r))
         else Inr (stamp
           \<lparr>cn_blockhash = None, cn_blocknumber = None, cn_txhash = [], cn_is_current = True,
            cn_sp_id = i, cn_created_at = block_timestamp, cn_delegate_owner_wallet = None,
            cn_owner_wallet = None, cn_proposer_sp_ids = None,
            cn_proposer_1_delegate_owner_wallet = None, cn_proposer_2_delegate_owner_wallet = None,
            cn_proposer_3_delegate_owner_wallet = None, cn_endpoint = None\<rparr>))"

definition ursm_required_fields_present :: "ursm_row \<Rightarrow> bool" where
  "ursm_required_fields_present r \<longleftrightarrow>
     cn_delegate_owner_wallet r \<noteq> None \<and> cn_owner_wallet r \<noteq> None \<and> cn_proposer_sp_ids r \<noteq> None \<and>
     cn_proposer_1_delegate_owner_wallet r \<noteq> None \<and> cn_proposer_2_delegate_owner_wallet r \<noteq> None \<and>
     cn_proposer_3_delegate_owner_wallet r \<noteq> None"

definition parse_ursm_cnode_record ::
  "sp_services \<Rightarrow> replica_args \<Rightarrow> ursm_row option \<Rightarrow> exc + ursm_row" where
  "parse_ursm_cnode_record sp args cnode_record =
     (case cnode_record of
        None \<Rightarrow> Inl (AttributeError ''delegate_owner_wallet'')
      | Some r \<Rightarrow>
          exc_bind (get_endpoint_from_id sp (ra_cnodeSpId args)) (\<lambda>endpoint.
            let r = r\<lparr>cn_delegate_owner_wallet := Some (ra_cnodeDelegateOwnerWallet args),
                      cn_owner_wallet := Some (ra_cnodeOwnerWallet args),
                      cn_proposer_1_delegate_owner_wallet := Some (ra_proposer1DelegateOwnerWallet args),
                      cn_proposer_2_delegate_owner_wallet := Some (ra_proposer2DelegateOwnerWallet args),
                      cn_proposer_3_delegate_owner_wallet := Some (ra_proposer3DelegateOwnerWallet args),
                      cn_proposer_sp_ids := Some (ra_proposerSpIds args),
                      cn_endpoint := Some (column_text endpoint)\<rparr>
            in if ursm_required_fields_present r then Inr r
               else Inl (EntityMissingRequiredFieldError ''content_node'')))"

section \<open>The handler\<close>

text \<open>The pending user rows, the pending node rows, the user ids and the number of changes.\<close>

type_synonym replica_acc =
  "(int \<times> user_row) list \<times> (int \<times> ursm_row) list \<times> int list \<times> int"

text \<open>
  The \<open>try\<close> block of one entry; an UpdateReplicaSet event has the argument \<open>_userId\<close> and not
  \<open>_cnodeSpId\<close>, an AddOrUpdateContentNode event the other way round.
\<close>

definition replica_entry ::
  "sp_services \<Rightarrow> db \<Rightarrow> int \<Rightarrow> timestamp \<Rightarrow> hash \<Rightarrow> replica_event \<Rightarrow> replica_args entry \<Rightarrow>
    replica_acc \<Rightarrow> exc + replica_acc" where
  "replica_entry sp d block_number ts txhash event_type entry acc =
     (case acc of (user_lookup, cnode_lookup, ids, n) \<Rightarrow>
        let args = e_args entry in
        case event_type of
          UpdateReplicaSet \<Rightarrow>
            exc_bind (parse_user_record sp args
                (if ra_userId args \<noteq> 0 then
                   Some (lookup_user_record d (ra_userId args) (e_blockHash entry) block_number ts txhash)
                 else None) ts) (\<lambda>r.
              Inr (AList.update (ra_userId args) r user_lookup, cnode_lookup,
                   List.insert (ra_userId args) ids, n + 1))
        | AddOrUpdateContentNode \<Rightarrow>
            exc_bind (if ra_cnodeSpId args \<noteq> 0
                then exc_bind (lookup_ursm_cnode d entry block_number ts txhash) (\<lambda>r. Inr (Some r))
                else Inr None) (\<lambda>existing.
              exc_bind (parse_ursm_cnode_record sp args existing) (\<lambda>r.
                Inr (user_lookup, AList.update (ra_cnodeSpId args) r cnode_lookup, ids, n + 1))))"

definition process_replica_entry ::
  "sp_services \<Rightarrow> int \<Rightarrow> timestamp \<Rightarrow> hash \<Rightarrow> hash \<Rightarrow> replica_event \<Rightarrow> replica_args entry \<Rightarrow>
    replica_acc \<Rightarrow> (world, replica_acc) py" where
  "process_replica_entry sp block_number ts blockhash txhash event_type entry acc =
     py_bind (py_gets (\<lambda>w. replica_entry sp (w_db w) block_number ts txhash event_type entry acc))
       (\<lambda>result. case result of
          Inr acc' \<Rightarrow> py_return acc'
        | Inl e \<Rightarrow>
            if missing_required e then
              py_seq (py_modify (update_db
                  (add_node_level_skipped_transaction block_number blockhash txhash)))
                (py_return acc)
            else py_raise (IndexingError ''user_replica_set'' (Some block_number) blockhash
              (Some txhash) (exc_str e)))"

definition process_replica_tx ::
  "sp_services \<Rightarrow> int \<Rightarrow> timestamp \<Rightarrow> hash \<Rightarrow> replica_receipt \<Rightarrow> replica_acc \<Rightarrow> (world, replica_acc) py" where
  "process_replica_tx sp block_number ts blockhash tx =
     py_for (\<lambda>event_type acc.
       py_bind (py_lift (processReceipt tx event_type)) (\<lambda>entries.
         py_for (process_replica_entry sp block_number ts blockhash (transactionHash tx) event_type)
           entries acc))
       user_replica_set_manager_event_types_arr"

definition store_replica_user :: "int \<times> user_row \<Rightarrow> world \<Rightarrow> world" where
  "store_replica_user item =
     (case item of (uid, r) \<Rightarrow> update_db (\<lambda>d.
        let d = invalidate_old_user uid d in d\<lparr>users := users d @ [r]\<rparr>))"

definition invalidate_old_cnode_record :: "int \<Rightarrow> (world, unit) py" where
  "invalidate_old_cnode_record i =
     py_bind (py_gets (\<lambda>w. ursm_content_nodes (w_db w))) (\<lambda>tbl.
       if sql_count (\<lambda>r. cn_sp_id r = i) tbl > 0 then
         py_seq
           (py_modify (update_db (\<lambda>d. d\<lparr>ursm_content_nodes :=
              sql_update (\<lambda>r. cn_sp_id r = i \<and> cn_is_current r) (\<lambda>r. r\<lparr>cn_is_current := False\<rparr>)
                (ursm_content_nodes d)\<rparr>)))
           (py_assert (sql_count (\<lambda>r. cn_sp_id r = i \<and> cn_is_current r) tbl > 0)
             ''Update operation requires a current cnode to be invalidated'')
       else py_return ())"

definition store_cnode :: "int \<times> ursm_row \<Rightarrow> unit \<Rightarrow> (world, unit) py" where
  "store_cnode item u =
     (case item of (i, r) \<Rightarrow>
        py_seq (invalidate_old_cnode_record i)
          (py_modify (update_db (\<lambda>d. d\<lparr>ursm_content_nodes := ursm_content_nodes d @ [r]\<rparr>))))"

definition user_replica_set_state_update ::
  "sp_services \<Rightarrow> replica_receipt list \<Rightarrow> int \<Rightarrow> timestamp \<Rightarrow> hash \<Rightarrow> (world, int \<times> int list) py" where
  "user_replica_set_state_update sp txs block_number ts blockhash =
     (if txs = [] then py_return (0, [])
      else
        py_bind (py_for (process_replica_tx sp block_number ts blockhash) txs ([], [], [], 0))
          (\<lambda>(user_lookup, cnode_lookup, ids, n).
             py_seq (py_modify (fold store_replica_user user_lookup))
               (py_seq (py_for store_cnode cnode_lookup ())
                 (py_return (n, ids)))))"

section \<open>The contract of the component\<close>

text \<open>
  What the tables say of replica sets and content nodes: the current row of a user or node.
\<close>

definition replica_of :: "db \<Rightarrow> int \<Rightarrow> (int option \<times> int list option \<times> string option) option" where
  "replica_of d u = (case cur_rows us_user_id us_is_current (users d) u of
     [] \<Rightarrow> None
   | r # _ \<Rightarrow> Some (us_primary_id r, us_secondary_ids r, us_replica_set_update_signer r))"

definition cnode_of :: "db \<Rightarrow> int \<Rightarrow> (string option \<times> string option \<times> int list option) option" where
  "cnode_of d i = (case cur_rows cn_sp_id cn_is_current (ursm_content_nodes d) i of
     [] \<Rightarrow> None
   | r # _ \<Rightarrow> Some (cn_delegate_owner_wallet r, cn_owner_wallet r, cn_proposer_sp_ids r))"

text \<open>The arguments of the events of one type in a receipt, and the last of a log for a key.\<close>

definition replica_log :: "replica_event \<Rightarrow> replica_receipt \<Rightarrow> replica_args list" where
  "replica_log ty tx = map e_args (receipt_entries tx ty)"

definition last_for :: "('a \<Rightarrow> int) \<Rightarrow> int \<Rightarrow> 'a list \<Rightarrow> 'a option" where
  "last_for key k log = find (\<lambda>a. key a = k) (rev log)"

lemma last_for_simps [simp]:
  "last_for key k [] = None"
  "last_for key k (log @ [a]) = (if key a = k then Some a else last_for key k log)"
  by (simp_all add: last_for_def)

text \<open>
  \<open>tracks key ok log al\<close>: the dictionary holds under every key a row that agrees with the
  last event of the log for it, and nothing else.
\<close>

definition tracks :: "('a \<Rightarrow> int) \<Rightarrow> ('a \<Rightarrow> 'r \<Rightarrow> bool) \<Rightarrow> 'a list \<Rightarrow> (int \<times> 'r) list \<Rightarrow> bool" where
  "tracks key ok log al \<longleftrightarrow> distinct (map fst al) \<and> (\<forall>k.
     case last_for key k log of None \<Rightarrow> map_of al k = None
     | Some a \<Rightarrow> \<exists>r. map_of al k = Some r \<and> ok a r)"

lemma tracks_Nil [simp]: "tracks key ok [] []"
  by (simp add: tracks_def)

lemma tracks_put:
  "tracks key ok log al \<Longrightarrow> ok a r \<Longrightarrow> tracks key ok (log @ [a]) (AList.update (key a) r al)"
  unfolding tracks_def by (simp add: update_conv' distinct_update split: option.splits del: map_of_eq_Some_iff)
    (metis option.distinct(1))

lemma tracks_rows:
  assumes "tracks key ok log al" and "(k, r) \<in> set al"
  obtains a where "last_for key k log = Some a" and "key a = k" and "ok a r"
proof -
  have "map_of al k = Some r" using assms by (simp add: tracks_def)
  moreover have "case last_for key k log of None \<Rightarrow> map_of al k = None
     | Some a \<Rightarrow> \<exists>r. map_of al k = Some r \<and> ok a r"
    using assms(1) unfolding tracks_def by blast
  ultimately obtain a where a: "last_for key k log = Some a" "ok a r"
    by (cases "last_for key k log") auto
  moreover have "key a = k" using a(1) by (auto simp: last_for_def find_Some_iff)
  ultimately show thesis using that by blast
qed

definition replica_row :: "replica_args \<Rightarrow> user_row \<Rightarrow> bool" where
  "replica_row a r \<longleftrightarrow> us_user_id r = ra_userId a \<and> us_is_current r \<and>
     us_primary_id r = Some (ra_primaryId a) \<and> us_secondary_ids r = Some (ra_secondaryIds a) \<and>
     us_replica_set_update_signer r = Some (ra_signer a)"

definition cnode_row :: "replica_args \<Rightarrow> ursm_row \<Rightarrow> bool" where
  "cnode_row a r \<longleftrightarrow> cn_sp_id r = ra_cnodeSpId a \<and> cn_is_current r \<and>
     cn_delegate_owner_wallet r = Some (ra_cnodeDelegateOwnerWallet a) \<and>
     cn_owner_wallet r = Some (ra_cnodeOwnerWallet a) \<and>
     cn_proposer_sp_ids r = Some (ra_proposerSpIds a)"

lemma parse_user_record_Inr:
  "parse_user_record sp a (if c then Some (lookup_user_record d (ra_userId a) h bn ts tx) else None) ts = Inr r
    \<Longrightarrow> replica_row a r"
  by (auto simp: parse_user_record_def exc_bind_Inr_iff replica_row_def lookup_user_record_ok
      split: if_splits)

lemma lookup_ursm_cnode_Inr:
  "lookup_ursm_cnode d entry bn ts tx = Inr r \<Longrightarrow> cn_sp_id r = ra_cnodeSpId (e_args entry) \<and> cn_is_current r"
  by (auto simp: lookup_ursm_cnode_def Let_def split: if_splits option.splits dest: sql_first_SomeD)

lemma parse_ursm_cnode_record_Inr:
  "parse_ursm_cnode_record sp a (Some r) = Inr q \<Longrightarrow> cn_sp_id r = ra_cnodeSpId a \<Longrightarrow> cn_is_current r \<Longrightarrow>
    cnode_row a q"
  by (auto simp: parse_ursm_cnode_record_def exc_bind_Inr_iff cnode_row_def Let_def split: if_splits)

text \<open>No event of this contract leaves a required column empty.\<close>

lemma second_Inl: "second xs = Inl e \<Longrightarrow> \<not> missing_required e"
  by (auto simp: second_def split: list.splits)

lemma endpoint_Inl: "get_endpoint_from_id sp i = Inl e \<Longrightarrow> \<not> missing_required e"
  by (auto simp: get_endpoint_from_id_def second_Inl split: if_splits sum.splits)

lemma endpoint_string_Inl: "get_endpoint_string_from_sp_ids sp p ss = Inl e \<Longrightarrow> \<not> missing_required e"
proof -
  have "fold (\<lambda>i acc. exc_bind acc (\<lambda>s. exc_bind (get_endpoint_from_id sp i) (\<lambda>t. Inr (s @ '','' @ t))))
      ss acc = Inl e \<Longrightarrow> (\<And>e. acc = Inl e \<Longrightarrow> \<not> missing_required e) \<Longrightarrow> \<not> missing_required e" for acc
  proof (induction ss arbitrary: acc)
    case Nil
    then show ?case by simp
  next
    case (Cons i ss)
    have "\<not> missing_required e'"
      if "exc_bind acc (\<lambda>s. exc_bind (get_endpoint_from_id sp i) (\<lambda>t. Inr (s @ '','' @ t))) = Inl e'" for e'
      using that Cons.prems(2) endpoint_Inl by (auto simp: exc_bind_Inl_iff)
    with Cons show ?case by simp
  qed
  then show "get_endpoint_string_from_sp_ids sp p ss = Inl e \<Longrightarrow> \<not> missing_required e"
    unfolding get_endpoint_string_from_sp_ids_def using endpoint_Inl by blast
qed

lemma replica_entry_Inl: "replica_entry sp d bn ts tx ty entry acc = Inl e \<Longrightarrow> \<not> missing_required e"
  by (cases acc; cases ty) (auto simp: replica_entry_def exc_bind_Inl_iff parse_user_record_def parse_ursm_cnode_record_def
      lookup_ursm_cnode_def ursm_required_fields_present_def Let_def endpoint_Inl endpoint_string_Inl
      split: if_splits option.splits)

subsection \<open>The collecting phase\<close>

definition replica_entry_log :: "replica_event \<Rightarrow> replica_event \<Rightarrow> replica_args entry \<Rightarrow> replica_args list" where
  "replica_entry_log ty event_type entry = (if event_type = ty then [e_args entry] else [])"

lemma process_entry_log:
  assumes "process_replica_entry sp bn ts bh tx event_type entry acc w = (Inr acc', w')"
  shows "tracks ra_userId replica_row log (fst acc) \<Longrightarrow>
      tracks ra_userId replica_row (log @ replica_entry_log UpdateReplicaSet event_type entry) (fst acc')"
    and "tracks ra_cnodeSpId cnode_row log (fst (snd acc)) \<Longrightarrow>
      tracks ra_cnodeSpId cnode_row (log @ replica_entry_log AddOrUpdateContentNode event_type entry)
        (fst (snd acc'))"
proof -
  have step: "replica_entry sp (w_db w) bn ts tx event_type entry acc = Inr acc'"
    using assms by (auto simp: process_replica_entry_def py_defs dest: replica_entry_Inl
        split: sum.splits if_splits)
  obtain ul cl ids n where acc: "acc = (ul, cl, ids, n)" by (rule prod_cases4)
  show "tracks ra_userId replica_row log (fst acc) \<Longrightarrow>
      tracks ra_userId replica_row (log @ replica_entry_log UpdateReplicaSet event_type entry) (fst acc')"
    using step by (cases event_type) (auto simp: replica_entry_def acc exc_bind_Inr_iff Let_def
        replica_entry_log_def dest!: parse_user_record_Inr intro: tracks_put)
  have "cnode_row (e_args entry) r"
    if "exc_bind (lookup_ursm_cnode (w_db w) entry bn ts tx) (\<lambda>r. Inr (Some r)) = Inr (Some q) \<and>
      parse_ursm_cnode_record sp (e_args entry) (Some q) = Inr r" for q r
    using that by (auto simp: exc_bind_Inr_iff dest!: lookup_ursm_cnode_Inr
        intro: parse_ursm_cnode_record_Inr)
  then show "tracks ra_cnodeSpId cnode_row log (fst (snd acc)) \<Longrightarrow>
      tracks ra_cnodeSpId cnode_row (log @ replica_entry_log AddOrUpdateContentNode event_type entry)
        (fst (snd acc'))"
    using step by (cases event_type) (auto simp: replica_entry_def acc exc_bind_Inr_iff Let_def
        replica_entry_log_def parse_ursm_cnode_record_def split: if_splits intro!: tracks_put)
qed

lemma concat_entry_log: "concat (map (replica_entry_log ty event_type) entries) =
    (if event_type = ty then map e_args entries else [])"
  by (induction entries) (auto simp: replica_entry_log_def)

lemma process_tx_log:
  assumes "process_replica_tx sp bn ts bh tx acc w = (Inr acc', w')"
  shows "tracks ra_userId replica_row log (fst acc) \<Longrightarrow>
      tracks ra_userId replica_row (log @ replica_log UpdateReplicaSet tx) (fst acc')"
    and "tracks ra_cnodeSpId cnode_row log (fst (snd acc)) \<Longrightarrow>
      tracks ra_cnodeSpId cnode_row (log @ replica_log AddOrUpdateContentNode tx) (fst (snd acc'))"
proof -
  let ?body = "\<lambda>event_type acc. py_bind (py_lift (processReceipt tx event_type)) (\<lambda>entries.
    py_for (process_replica_entry sp bn ts bh (transactionHash tx) event_type) entries acc)"
  have run: "py_for ?body [UpdateReplicaSet, AddOrUpdateContentNode] acc w = (Inr acc', w')"
    using assms by (simp add: process_replica_tx_def user_replica_set_manager_event_types_arr_def)
  let ?log = "\<lambda>ty event_type. if event_type = ty then replica_log ty tx else []"
  have inner: "J (log @ ?log ty event_type) acc'"
    if body: "?body event_type acc w = (Inr acc', w')" and J: "J log acc"
      and step: "\<And>entry log acc acc' w w'. J log acc \<Longrightarrow>
        process_replica_entry sp bn ts bh (transactionHash tx) event_type entry acc w = (Inr acc', w') \<Longrightarrow>
        J (log @ replica_entry_log ty event_type entry) acc'"
    for ty event_type acc acc' w w' log and J :: "replica_args list \<Rightarrow> replica_acc \<Rightarrow> bool"
  proof -
    from body obtain entries where es: "processReceipt tx event_type = Inr entries"
      and for_: "py_for (process_replica_entry sp bn ts bh (transactionHash tx) event_type) entries acc w
        = (Inr acc', w')"
      by (auto simp: py_bind_def py_lift_def split: sum.splits)
    have "J (log @ concat (map (replica_entry_log ty event_type) entries)) acc'"
      by (rule py_for_log [where J = J, OF for_ J]) (erule (1) step)
    with es show ?thesis
      by (cases "event_type = ty") (simp_all add: concat_entry_log replica_log_def)
  qed
  show "tracks ra_userId replica_row log (fst acc) \<Longrightarrow>
      tracks ra_userId replica_row (log @ replica_log UpdateReplicaSet tx) (fst acc')"
    using py_for_log [OF run, where J = "\<lambda>log acc. tracks ra_userId replica_row log (fst acc)"
        and entries = "?log UpdateReplicaSet" and log = log]
      inner [where J = "\<lambda>log acc. tracks ra_userId replica_row log (fst acc)" and ty = UpdateReplicaSet]
      process_entry_log(1) by simp
  show "tracks ra_cnodeSpId cnode_row log (fst (snd acc)) \<Longrightarrow>
      tracks ra_cnodeSpId cnode_row (log @ replica_log AddOrUpdateContentNode tx) (fst (snd acc'))"
    using py_for_log [OF run, where J = "\<lambda>log acc. tracks ra_cnodeSpId cnode_row log (fst (snd acc))"
        and entries = "?log AddOrUpdateContentNode" and log = log]
      inner [where J = "\<lambda>log acc. tracks ra_cnodeSpId cnode_row log (fst (snd acc))"
        and ty = AddOrUpdateContentNode]
      process_entry_log(2) by simp
qed

lemma collect_keeps_tables:
  "py_keeps (\<lambda>w. users (w_db w) = us \<and> ursm_content_nodes (w_db w) = cns)
     (py_for (process_replica_tx sp bn ts bh) txs acc)"
  unfolding process_replica_tx_def process_replica_entry_def
  by (intro keeps_intros) (auto simp: add_node_level_skipped_transaction_def)

subsection \<open>The storing phase\<close>

abbreviation upsert_cnode :: "ursm_row \<Rightarrow> ursm_row list \<Rightarrow> ursm_row list" where
  "upsert_cnode \<equiv> upsert cn_sp_id cn_is_current cn_set_current"

lemma fold_store_replica_user:
  assumes "\<And>u r. (u, r) \<in> set ul \<Longrightarrow> us_user_id r = u"
  shows "users (w_db (fold store_replica_user ul w)) = fold upsert_user (map snd ul) (users (w_db w)) \<and>
    ursm_content_nodes (w_db (fold store_replica_user ul w)) = ursm_content_nodes (w_db w)"
  using assms
proof (induction ul arbitrary: w)
  case Nil
  then show ?case by simp
next
  case (Cons p ul)
  obtain v r where p: "p = (v, r)" by fastforce
  have "us_user_id r = v" using Cons.prems p by simp
  then have "users (w_db (store_replica_user (v, r) w)) = upsert_user r (users (w_db w))"
    by (simp add: store_replica_user_def invalidate_old_user_def upsert_def invalidate_def Let_def)
  moreover have "ursm_content_nodes (w_db (store_replica_user (v, r) w)) = ursm_content_nodes (w_db w)"
    by (simp add: store_replica_user_def invalidate_old_user_def Let_def)
  ultimately show ?case using Cons.IH [of "store_replica_user (v, r) w"] Cons.prems p by simp
qed

lemma store_cnode_run:
  assumes "store_cnode (i, r) u w = (Inr u', w')" and "cn_sp_id r = i"
  shows "ursm_content_nodes (w_db w') = upsert_cnode r (ursm_content_nodes (w_db w)) \<and>
    users (w_db w') = users (w_db w)"
proof (cases "sql_count (\<lambda>r. cn_sp_id r = i) (ursm_content_nodes (w_db w)) > 0")
  case True
  with assms show ?thesis
    by (auto simp: store_cnode_def invalidate_old_cnode_record_def py_defs upsert_def invalidate_def
        split: if_splits)
next
  case False
  then have "sql_update (\<lambda>r. cn_sp_id r = i \<and> cn_is_current r) (\<lambda>r. r\<lparr>cn_is_current := False\<rparr>)
      (ursm_content_nodes (w_db w)) = ursm_content_nodes (w_db w)"
    by (intro sql_update_idle) (auto simp: sql_count_0)
  with False assms show ?thesis
    by (auto simp: store_cnode_def invalidate_old_cnode_record_def py_defs upsert_def invalidate_def)
qed

lemma store_cnodes_run:
  assumes "py_for store_cnode cl () w = (Inr u, w')" and "\<And>i r. (i, r) \<in> set cl \<Longrightarrow> cn_sp_id r = i"
  shows "ursm_content_nodes (w_db w') = fold upsert_cnode (map snd cl) (ursm_content_nodes (w_db w)) \<and>
    users (w_db w') = users (w_db w)"
  using assms
proof (induction cl arbitrary: w)
  case Nil
  then show ?case by (simp add: py_return_def)
next
  case (Cons c cl)
  obtain i r where c: "c = (i, r)" by fastforce
  from Cons.prems(1) obtain w1 where one: "store_cnode (i, r) () w = (Inr (), w1)"
    and rest: "py_for store_cnode cl () w1 = (Inr u, w')"
    by (auto simp: c elim!: py_bind_InrE)
  from store_cnode_run [OF one] Cons.IH [OF rest] Cons.prems(2) c show ?case by simp
qed

lemma replica_run_Inr:
  assumes "user_replica_set_state_update sp txs bn ts bh w = (Inr res, w')"
  obtains ul cl where
    "tracks ra_userId replica_row (concat (map (replica_log UpdateReplicaSet) txs)) ul"
    and "tracks ra_cnodeSpId cnode_row (concat (map (replica_log AddOrUpdateContentNode) txs)) cl"
    and "users (w_db w') = fold upsert_user (map snd ul) (users (w_db w))"
    and "ursm_content_nodes (w_db w') = fold upsert_cnode (map snd cl) (ursm_content_nodes (w_db w))"
proof (cases "txs = []")
  case True
  with assms show thesis by (intro that [of "[]" "[]"])
      (auto simp: user_replica_set_state_update_def py_return_def)
next
  case False
  with assms obtain ul cl ids n w1 where
    collect: "py_for (process_replica_tx sp bn ts bh) txs ([], [], [], 0) w = (Inr (ul, cl, ids, n), w1)"
    and store: "py_for store_cnode cl () (fold store_replica_user ul w1) = (Inr (), w')"
    by (auto simp: user_replica_set_state_update_def py_defs split: sum.splits prod.splits)
  have u: "tracks ra_userId replica_row (concat (map (replica_log UpdateReplicaSet) txs)) ul"
    using py_for_log [OF collect, where J = "\<lambda>log acc. tracks ra_userId replica_row log (fst acc)"
        and log = "[]"] process_tx_log(1) by fastforce
  have c: "tracks ra_cnodeSpId cnode_row (concat (map (replica_log AddOrUpdateContentNode) txs)) cl"
    using py_for_log [OF collect, where J = "\<lambda>log acc. tracks ra_cnodeSpId cnode_row log (fst (snd acc))"
        and log = "[]"] process_tx_log(2) by fastforce
  have same: "users (w_db w1) = users (w_db w) \<and> ursm_content_nodes (w_db w1) = ursm_content_nodes (w_db w)"
    using py_keepsD [OF collect_keeps_tables [of "users (w_db w)" "ursm_content_nodes (w_db w)"
        sp bn ts bh txs "([], [], [], 0)"], of w] collect by simp
  have rows: "us_user_id r = k" if "(k, r) \<in> set ul" for k r
    by (rule tracks_rows [OF u that]) (simp add: replica_row_def)
  have nodes: "cn_sp_id r = k" if "(k, r) \<in> set cl" for k r
    by (rule tracks_rows [OF c that]) (simp add: cnode_row_def)
  show thesis
    using fold_store_replica_user [of ul w1, OF rows] store_cnodes_run [OF store nodes] same
    by (intro that [OF u c]) simp_all
qed

text \<open>The current rows after the rows of a dictionary that tracks the log were stored.\<close>

lemma tracked_users_store:
  assumes "tracks ra_userId replica_row log ul"
  shows "cur_rows us_user_id us_is_current (fold upsert_user (map snd ul) tbl) u =
    (case map_of ul u of None \<Rightarrow> cur_rows us_user_id us_is_current tbl u | Some r \<Rightarrow> [r])"
proof -
  have "us_user_id r = k \<and> us_is_current r" if "(k, r) \<in> set ul" for k r
    by (rule tracks_rows [OF assms that]) (simp add: replica_row_def)
  from us.cur_rows_store [where f = "\<lambda>k. k" and items = ul, OF _ _ this] assms show ?thesis
    by (simp add: tracks_def inv_id [unfolded id_def] split: option.split)
qed

lemma tracked_cnodes_store:
  assumes "tracks ra_cnodeSpId cnode_row log cl"
  shows "cur_rows cn_sp_id cn_is_current (fold upsert_cnode (map snd cl) tbl) i =
    (case map_of cl i of None \<Rightarrow> cur_rows cn_sp_id cn_is_current tbl i | Some r \<Rightarrow> [r])"
proof -
  have "cn_sp_id r = k \<and> cn_is_current r" if "(k, r) \<in> set cl" for k r
    by (rule tracks_rows [OF assms that]) (simp add: cnode_row_def)
  from cn.cur_rows_store [where f = "\<lambda>k. k" and items = cl, OF _ _ this] assms show ?thesis
    by (simp add: tracks_def inv_id [unfolded id_def] split: option.split)
qed

section \<open>Properties\<close>

text \<open>
  C33. Refinement of the replica sets: when the handler returns, the replica set the users
  table gives for a user is that of the last UpdateReplicaSet event of the block for the user,
  across its transactions, and unchanged when there is none; a user that had at most one
  current row still has.
\<close>

theorem replica_sets_refine:
  assumes "user_replica_set_state_update sp txs bn ts bh w = (Inr res, w')"
  shows "replica_of (w_db w') u =
      (case last_for ra_userId u (concat (map (replica_log UpdateReplicaSet) txs)) of
         None \<Rightarrow> replica_of (w_db w) u
       | Some a \<Rightarrow> Some (Some (ra_primaryId a), Some (ra_secondaryIds a), Some (ra_signer a))) \<and>
    (length (cur_rows us_user_id us_is_current (users (w_db w)) u) \<le> 1 \<longrightarrow>
     length (cur_rows us_user_id us_is_current (users (w_db w')) u) \<le> 1)"
proof (rule replica_run_Inr [OF assms])
  fix ul
  let ?log = "concat (map (replica_log UpdateReplicaSet) txs)"
  assume t: "tracks ra_userId replica_row ?log ul"
    and w': "users (w_db w') = fold upsert_user (map snd ul) (users (w_db w))"
  from t have "case last_for ra_userId u ?log of None \<Rightarrow> map_of ul u = None
      | Some a \<Rightarrow> \<exists>r. map_of ul u = Some r \<and> replica_row a r"
    unfolding tracks_def by blast
  then show ?thesis
    by (cases "last_for ra_userId u ?log")
      (auto simp: replica_of_def w' tracked_users_store [OF t] replica_row_def)
qed

text \<open>A transaction that sets the replica set of user 1 twice and registers the node 4.\<close>

definition ex_replica :: replica_receipt where
  "ex_replica = sample_receipt ''0x1'' (\<lambda>t.
     let args = \<lparr>ra_userId = 1, ra_primaryId = 4, ra_secondaryIds = [5, 6], ra_signer = ''0xd'',
           ra_cnodeSpId = 4, ra_cnodeDelegateOwnerWallet = ''0xe'', ra_cnodeOwnerWallet = ''0xf'',
           ra_proposer1DelegateOwnerWallet = [], ra_proposer2DelegateOwnerWallet = [],
           ra_proposer3DelegateOwnerWallet = [], ra_proposerSpIds = [1, 2, 3]\<rparr>
     in case t of UpdateReplicaSet \<Rightarrow> [args\<lparr>ra_primaryId := 9\<rparr>, args] | AddOrUpdateContentNode \<Rightarrow> [args])"

definition ex_sp :: sp_services where
  "ex_sp = \<lparr>sp_cached = (\<lambda>i. if i = 4 then [''0xa'', ''http://cn4''] else []),
     sp_contract = (\<lambda>i. Inr [''0xa'', ''http://cn''])\<rparr>"

lemma ex_replica_returns:
  obtains w' where "user_replica_set_state_update ex_sp [ex_replica] 7 100 ''0xb'' empty_world = (Inr (3, [1]), w')"
proof -
  have "fst (user_replica_set_state_update ex_sp [ex_replica] 7 100 ''0xb'' empty_world) = Inr (3, [1])"
    by code_simp
  then show thesis using that by (metis prod.collapse)
qed

theorem replica_sets_refine_witness:
  "\<exists>w'. user_replica_set_state_update ex_sp [ex_replica] 7 100 ''0xb'' empty_world = (Inr (3, [1]), w') \<and>
     replica_of (w_db w') 1 = Some (Some 4, Some [5, 6], Some ''0xd'')"
proof (rule ex_replica_returns)
  fix w' assume run: "user_replica_set_state_update ex_sp [ex_replica] 7 100 ''0xb'' empty_world = (Inr (3, [1]), w')"
  from replica_sets_refine [OF run, of 1] run show ?thesis
    by (simp add: ex_replica_def replica_log_def last_for_def)
qed

text \<open>
  Refinement of the registry of content nodes: when the handler returns, the wallets and
  proposers the table gives for a node are those of the last AddOrUpdateContentNode event of
  the block for it, and unchanged when there is none.
\<close>

theorem content_nodes_refine:
  assumes "user_replica_set_state_update sp txs bn ts bh w = (Inr res, w')"
  shows "cnode_of (w_db w') i =
      (case last_for ra_cnodeSpId i (concat (map (replica_log AddOrUpdateContentNode) txs)) of
         None \<Rightarrow> cnode_of (w_db w) i
       | Some a \<Rightarrow> Some (Some (ra_cnodeDelegateOwnerWallet a), Some (ra_cnodeOwnerWallet a),
           Some (ra_proposerSpIds a))) \<and>
    (length (cur_rows cn_sp_id cn_is_current (ursm_content_nodes (w_db w)) i) \<le> 1 \<longrightarrow>
     length (cur_rows cn_sp_id cn_is_current (ursm_content_nodes (w_db w')) i) \<le> 1)"
proof (rule replica_run_Inr [OF assms])
  fix cl
  let ?log = "concat (map (replica_log AddOrUpdateContentNode) txs)"
  assume t: "tracks ra_cnodeSpId cnode_row ?log cl"
    and w': "ursm_content_nodes (w_db w') = fold upsert_cnode (map snd cl) (ursm_content_nodes (w_db w))"
  from t have "case last_for ra_cnodeSpId i ?log of None \<Rightarrow> map_of cl i = None
      | Some a \<Rightarrow> \<exists>r. map_of cl i = Some r \<and> cnode_row a r"
    unfolding tracks_def by blast
  then show ?thesis
    by (cases "last_for ra_cnodeSpId i ?log")
      (auto simp: cnode_of_def w' tracked_cnodes_store [OF t] cnode_row_def)
qed

theorem content_nodes_refine_witness:
  "\<exists>w'. user_replica_set_state_update ex_sp [ex_replica] 7 100 ''0xb'' empty_world = (Inr (3, [1]), w') \<and>
     cnode_of (w_db w') 4 = Some (Some ''0xe'', Some ''0xf'', Some [1, 2, 3])"
proof (rule ex_replica_returns)
  fix w' assume run: "user_replica_set_state_update ex_sp [ex_replica] 7 100 ''0xb'' empty_world = (Inr (3, [1]), w')"
  from content_nodes_refine [OF run, of 4] run show ?thesis
    by (simp add: ex_replica_def replica_log_def last_for_def)
qed

end
