(* ===== verification/Index.thy ===== *)
theory Index
  imports Revert Metadata Social_Features User_Library Content_Lists User_Replica_Set
    "HOL-Library.List_Lexorder" "HOL-Library.Char_ord"
begin

text \<open>
  The indexing task, src/tasks/index.py: the walk from the latest block of the chain back to
  the blocks table, the undoing of blocks that left the chain, and \<open>index_blocks\<close>, which
  processes the new blocks one by one. Also src/tasks/sort_block_transactions.py,
  \<open>scoped_session\<close> of src/utils/session_manager.py and the cache keys of
  src/utils/redis_cache.py. The chain, the other services and the database's answer to a
  commit are the \<open>indexer_services\<close>.
\<close>

section \<open>The chain\<close>

text \<open>\<open>CONTRACT_TYPES\<close>, in the order of \<open>TX_TYPE_TO_HANDLER_MAP\<close>.\<close>

datatype contract_type =
    USER_FACTORY | DIGITAL_CONTENT_FACTORY | SOCIAL_FEATURE_FACTORY | CONTENT_LIST_FACTORY
  | USER_LIBRARY_FACTORY | USER_REPLICA_SET_MANAGER

definition contract_types :: "contract_type list" where
  "contract_types = [USER_FACTORY, DIGITAL_CONTENT_FACTORY, SOCIAL_FEATURE_FACTORY,
     CONTENT_LIST_FACTORY, USER_LIBRARY_FACTORY, USER_REPLICA_SET_MANAGER]"

text \<open>\<open>tx_to\<close> is None or empty for a transaction that creates a contract.\<close>

record chain_tx =
  tx_hash :: hash
  tx_to :: "string option"
  tx_index :: int

record chain_block =
  k_number :: int
  k_hash :: hash
  k_parentHash :: hash
  k_timestamp :: timestamp
  k_transactions :: "chain_tx list"

text \<open>A receipt as each contract's interface decodes it.\<close>

record receipt =
  rc_users :: user_receipt
  rc_digital_contents :: digital_content_receipt
  rc_social :: social_receipt
  rc_content_lists :: content_list_receipt
  rc_library :: library_receipt
  rc_replica_set :: replica_receipt

record indexer_services =
  x_block_by_hash :: "hash \<Rightarrow> exc + chain_block"
  x_block_by_number :: "int \<Rightarrow> exc + chain_block"
  x_latest_block :: "exc + chain_block"
  x_receipt :: "hash \<Rightarrow> exc + receipt"
  x_registry :: "exc + string"
  x_checksum :: "string \<Rightarrow> string"
  x_start_block :: hash
  x_processing_window :: int
  x_sort_start_block :: int
  x_metadata :: metadata_services
  x_cnodes :: "string list"
  x_users :: user_services
  x_schedule :: "int \<Rightarrow> schedule"
  x_contents :: content_services
  x_b58 :: "bytes \<Rightarrow> string"
  x_sp :: sp_services
  x_responses :: "(exc + (int \<times> tx_status option)) list"
  x_commit :: "db \<Rightarrow> exc option"
  x_rpush :: "internal_event \<Rightarrow> bool"
  x_collation :: "string \<Rightarrow> string \<Rightarrow> bool"

text \<open>The contract addresses are state too: the replica set manager's may be set later.\<close>

type_synonym indexer_state = "world \<times> (contract_type \<Rightarrow> string)"

definition on_node :: "(world, 'a) py \<Rightarrow> (indexer_state, 'a) py" where
  "on_node m s = (case s of (w, addresses) \<Rightarrow> (case m w of (r, w') \<Rightarrow> (r, (w', addresses))))"

text \<open>\<open>scoped_session\<close>: commit when the body returned, roll the database back otherwise.\<close>

definition scoped_session :: "indexer_services \<Rightarrow> (world, 'a) py \<Rightarrow> (world, 'a) py" where
  "scoped_session sv body w =
     (case body w of
        (Inl e, w') \<Rightarrow> (Inl e, w'\<lparr>w_db := w_db w\<rparr>)
      | (Inr x, w') \<Rightarrow>
          (case x_commit sv (w_db w') of
             Some e \<Rightarrow> (Inl e, w'\<lparr>w_db := w_db w\<rparr>)
           | None \<Rightarrow> (Inr x, w')))"

section \<open>Start and target of a run\<close>

definition zero_address :: string where
  "zero_address = ''0x0000000000000000000000000000000000000000''"

definition initialize_blocks_table_if_necessary :: "indexer_services \<Rightarrow> (world, unit) py" where
  "initialize_blocks_table_if_necessary sv =
     py_bind (py_lift (x_block_by_hash sv (x_start_block sv))) (\<lambda>target_block.
       scoped_session sv (py_bind (py_gets (\<lambda>w. blocks (w_db w))) (\<lambda>tbl.
         if sql_count b_is_current tbl = 0 then
           py_seq (py_assert (tbl = []) ''Corrupted DB State - Expect single row marked as current'')
             (py_modify (update_db (\<lambda>d. d\<lparr>blocks := blocks d @
                [\<lparr>b_blockhash = x_start_block sv, b_parenthash = Some (x_start_block sv),
                  b_number = (if k_number target_block = 0 \<or> x_start_block sv = default_config_start_hash
                              then None else Some (k_number target_block)),
                  b_is_current = True\<rparr>]\<rparr>)))
         else
           py_seq (py_assert (sql_count b_is_current tbl = 1) ''Expected SINGLE row marked as current'')
             (py_modify (\<lambda>w. case sql_first b_is_current tbl of
                None \<Rightarrow> w
              | Some b \<Rightarrow> w\<lparr>w_redis := (w_redis w)
                  \<lparr>r_most_recent_block := (if b_number b \<noteq> None \<and> b_number b \<noteq> Some 0 then b_number b
                                           else r_most_recent_block (w_redis w)),
                   r_most_recent_hash := (if b_blockhash b \<noteq> [] then Some (b_blockhash b)
                                          else r_most_recent_hash (w_redis w))\<rparr>\<rparr>)))))"

definition get_latest_block :: "indexer_services \<Rightarrow> (world, chain_block) py" where
  "get_latest_block sv =
     scoped_session sv (py_bind (py_gets (\<lambda>w. blocks (w_db w))) (\<lambda>tbl.
       py_seq (py_assert (sql_count b_is_current tbl = 1) ''Expected SINGLE row marked as current'')
         (let n = (case sql_first b_is_current tbl of
                     Some b \<Rightarrow> (case b_number b of None \<Rightarrow> 0 | Some n \<Rightarrow> n) | None \<Rightarrow> 0)
          in py_bind (py_lift (x_latest_block sv)) (\<lambda>latest.
               py_lift (x_block_by_number sv (min (n + x_processing_window sv) (k_number latest)))))))"

definition update_ursm_address :: "indexer_services \<Rightarrow> (indexer_state, unit) py" where
  "update_ursm_address sv =
     py_bind (py_gets snd) (\<lambda>addresses.
       if addresses USER_REPLICA_SET_MANAGER = zero_address then
         py_bind (py_lift (x_registry sv)) (\<lambda>a.
           if a \<noteq> zero_address
           then py_modify (\<lambda>(w, addresses). (w, addresses(USER_REPLICA_SET_MANAGER := x_checksum sv a)))
           else py_return ())
       else py_return ())"

section \<open>Receipts and transactions of a block\<close>

text \<open>
  \<open>fetch_tx_receipts\<close>: the receipts by transaction hash; a failed request is logged and
  leaves a gap, which the final count finds.
\<close>

definition fetch_tx_receipts :: "indexer_services \<Rightarrow> chain_block \<Rightarrow> exc + (hash \<times> receipt) list" where
  "fetch_tx_receipts sv block =
     (let block_tx_with_receipts = fold (\<lambda>tx found.
            case x_receipt sv (tx_hash tx) of Inl e \<Rightarrow> found | Inr r \<Rightarrow> AList.update (tx_hash tx) r found)
            (k_transactions block) []
      in if length block_tx_with_receipts \<noteq> length (k_transactions block)
         then Inl (IndexingError ''tx'' (Some (k_number block)) (k_hash block) None
                ''index.py | fetch_tx_receipts Expected'')
         else Inr block_tx_with_receipts)"

text \<open>Python's \<open>sorted\<close> is stable, as is \<open>sort_key\<close>.\<close>

definition sort_block_transactions :: "chain_block \<Rightarrow> int \<Rightarrow> chain_tx list" where
  "sort_block_transactions block start_block =
     (if k_number block > start_block then sort_key tx_index (k_transactions block)
      else sort_key tx_hash (k_transactions block))"

definition get_tx_hash_to_skip :: "redis \<Rightarrow> hash option" where
  "get_tx_hash_to_skip r =
     (case get_indexing_error r of
        Some e \<Rightarrow> if er_has_consensus e then er_txhash e else None
      | None \<Rightarrow> None)"

text \<open>
  \<open>save_skipped_tx\<close>: any exception, also that of indexing a missing error document, is only
  logged. The errors the indexer records always carry a block number. A None transaction hash
  is added to the session like any other; the database rejects it when the session is flushed
  (\<open>flush_skipped\<close> below).
\<close>

definition save_skipped_tx :: "world \<Rightarrow> world" where
  "save_skipped_tx w =
     (case get_indexing_error (w_redis w) of
        None \<Rightarrow> w
      | Some e \<Rightarrow>
          (case er_blocknumber e of
             None \<Rightarrow> w
           | Some n \<Rightarrow>
               (case add_network_level_skipped_transaction n (er_blockhash e) (er_txhash e) (w_db w) of
                  Inl x \<Rightarrow> w
                | Inr d \<Rightarrow> w\<lparr>w_db := d\<rparr>)))"

definition get_contract_type_for_tx :: "(contract_type \<Rightarrow> string) \<Rightarrow> chain_tx \<Rightarrow> contract_type option" where
  "get_contract_type_for_tx addresses tx = find (\<lambda>ty. tx_to tx = Some (addresses ty)) contract_types"

definition tx_target :: "chain_tx \<Rightarrow> string" where
  "tx_target tx = (case tx_to tx of None \<Rightarrow> zero_address | Some a \<Rightarrow> if a = [] then zero_address else a)"

definition should_skip_tx :: "hash option \<Rightarrow> chain_tx \<Rightarrow> bool" where
  "should_skip_tx skip_tx_hash tx \<longleftrightarrow> tx_target tx = zero_address \<or> skip_tx_hash = Some (tx_hash tx)"

text \<open>\<open>txs_grouped_by_type\<close>\<close>

type_synonym grouped_txs = "contract_type \<Rightarrow> receipt list"

text \<open>One turn of the loop that parses the transactions of the block.\<close>

definition parse_tx ::
  "(contract_type \<Rightarrow> string) \<Rightarrow> hash option \<Rightarrow> (hash \<times> receipt) list \<Rightarrow> chain_tx \<Rightarrow> grouped_txs \<Rightarrow>
    (world, grouped_txs) py" where
  "parse_tx addresses skip_tx_hash tx_receipt_dict tx txs_grouped_by_type =
     (case map_of tx_receipt_dict (tx_hash tx) of
        None \<Rightarrow> py_raise (KeyError (tx_hash tx))
      | Some r \<Rightarrow>
          if should_skip_tx skip_tx_hash tx
          then py_seq (py_modify save_skipped_tx) (py_return txs_grouped_by_type)
          else py_return
            (case get_contract_type_for_tx addresses tx of
               None \<Rightarrow> txs_grouped_by_type
             | Some ty \<Rightarrow> txs_grouped_by_type(ty := txs_grouped_by_type ty @ [r])))"

section \<open>Processing a block\<close>

text \<open>
  The first query after the transactions were parsed flushes the rows \<open>save_skipped_tx\<close> added
  to the session; the column \<open>txhash\<close> of skipped transactions is not nullable, and the flush
  of a row without one raises.
\<close>

definition flush_skipped :: "(world, unit) py" where
  "flush_skipped =
     py_bind (py_gets (\<lambda>w. skipped_transactions (w_db w))) (\<lambda>tbl.
       if list_all (\<lambda>r. sk_txhash r \<noteq> None) tbl then py_return ()
       else py_raise (PyException ''null value in column txhash violates not-null constraint''))"

definition add_indexed_block_to_db :: "chain_block \<Rightarrow> (world, unit) py" where
  "add_indexed_block_to_db block =
     py_seq flush_skipped (py_bind (py_gets (\<lambda>w. blocks (w_db w))) (\<lambda>tbl.
       py_seq (py_assert (sql_count b_is_current tbl = 1) ''Expected single row marked as current'')
         (py_modify (update_db (\<lambda>d. d\<lparr>blocks :=
            sql_update b_is_current (\<lambda>b. b\<lparr>b_is_current := False\<rparr>) (blocks d) @
            [\<lparr>b_blockhash = k_hash block, b_parenthash = Some (k_parentHash block),
              b_number = Some (k_number block), b_is_current = True\<rparr>]\<rparr>)))))"

definition add_indexed_block_to_redis :: "chain_block \<Rightarrow> world \<Rightarrow> world" where
  "add_indexed_block_to_redis block w =
     w\<lparr>w_redis := (w_redis w)\<lparr>r_most_recent_block := Some (k_number block),
        r_most_recent_hash := Some (k_hash block)\<rparr>\<rparr>"

text \<open>\<open>changed_entity_ids_map\<close>; the empty dictionary before the first block is None.\<close>

type_synonym changed_ids = "(contract_type \<times> int list) list"

definition process_state_changes ::
  "indexer_services \<Rightarrow> (string \<times> metadata) list \<Rightarrow> grouped_txs \<Rightarrow> chain_block \<Rightarrow> (world, changed_ids) py" where
  "process_state_changes sv cid_metadata txs block =
     (let n = k_number block; ts = k_timestamp block; h = k_hash block in
      py_bind (user_state_update (x_users sv) (x_schedule sv n) (map rc_users (txs USER_FACTORY)) n ts h cid_metadata)
        (\<lambda>(c, user_ids).
      py_bind (digital_content_state_update (x_contents sv)
          (map rc_digital_contents (txs DIGITAL_CONTENT_FACTORY)) n ts h cid_metadata) (\<lambda>(c, content_ids).
      py_bind (social_feature_state_update (map rc_social (txs SOCIAL_FEATURE_FACTORY)) n ts h) (\<lambda>(c, ids).
      py_bind (content_list_state_update (x_b58 sv) (map rc_content_lists (txs CONTENT_LIST_FACTORY)) n ts h)
        (\<lambda>(c, list_ids).
      py_bind (user_library_state_update (map rc_library (txs USER_LIBRARY_FACTORY)) n ts h) (\<lambda>(c, ids).
      py_bind (user_replica_set_state_update (x_sp sv) (map rc_replica_set (txs USER_REPLICA_SET_MANAGER)) n ts h)
        (\<lambda>(c, replica_ids).
      py_return [(USER_FACTORY, user_ids), (DIGITAL_CONTENT_FACTORY, content_ids),
        (CONTENT_LIST_FACTORY, list_ids), (USER_REPLICA_SET_MANAGER, replica_ids)])))))))"

section \<open>Cached entities\<close>

definition get_user_id_cache_key :: "int \<Rightarrow> string" where
  "get_user_id_cache_key i = ''user:id:'' @ str_int i"

definition get_digital_content_id_cache_key :: "int \<Rightarrow> string" where
  "get_digital_content_id_cache_key i = ''digital_content:id:'' @ str_int i"

definition get_content_list_id_cache_key :: "int \<Rightarrow> string" where
  "get_content_list_id_cache_key i = ''contentList:id:'' @ str_int i"

definition redis_delete :: "string list \<Rightarrow> redis \<Rightarrow> redis" where
  "redis_delete keys r = r\<lparr>r_cached_keys := filter (\<lambda>k. k \<notin> set keys) (r_cached_keys r)\<rparr>"

definition remove_cached_user_ids :: "int list \<Rightarrow> redis \<Rightarrow> redis" where
  "remove_cached_user_ids user_ids = redis_delete (map get_user_id_cache_key user_ids)"

definition remove_cached_digital_content_ids :: "int list \<Rightarrow> redis \<Rightarrow> redis" where
  "remove_cached_digital_content_ids ids = redis_delete (map get_digital_content_id_cache_key ids)"

definition remove_cached_content_list_ids :: "int list \<Rightarrow> redis \<Rightarrow> redis" where
  "remove_cached_content_list_ids ids = redis_delete (map get_content_list_id_cache_key ids)"

definition remove_updated_entities_from_cache :: "changed_ids \<Rightarrow> redis \<Rightarrow> redis" where
  "remove_updated_entities_from_cache changed r =
     (let ids = (\<lambda>ty. case map_of changed ty of None \<Rightarrow> [] | Some ids \<Rightarrow> ids);
          clear = (\<lambda>ty handler r. if ids ty \<noteq> [] then handler (ids ty) r else r)
      in clear CONTENT_LIST_FACTORY remove_cached_content_list_ids
          (clear DIGITAL_CONTENT_FACTORY remove_cached_digital_content_ids
            (clear USER_REPLICA_SET_MANAGER remove_cached_user_ids
              (clear USER_FACTORY remove_cached_user_ids r))))"

section \<open>Indexing\<close>

definition create_and_raise_indexing_error :: "indexer_services \<Rightarrow> exc \<Rightarrow> (world, 'a) py" where
  "create_and_raise_indexing_error sv err w =
     (Inl err, w\<lparr>w_redis :=
        confirm_indexing_transaction_error (x_responses sv) (exc_blocknumber err) (exc_blockhash err)
          (exc_txhash err) (exc_message err)
          (set_indexing_error (exc_blocknumber err) (exc_blockhash err) (exc_txhash err)
             (exc_message err) False (w_redis w))\<rparr>)"

text \<open>The \<open>try\<close> block over receipts, metadata, blocks table and handlers.\<close>

definition index_transactions ::
  "indexer_services \<Rightarrow> (contract_type \<Rightarrow> string) \<Rightarrow> hash option \<Rightarrow> chain_block \<Rightarrow> (world, changed_ids) py" where
  "index_transactions sv addresses skip_tx_hash block =
     py_bind (py_lift (fetch_tx_receipts sv block)) (\<lambda>tx_receipt_dict.
     py_bind (py_for (parse_tx addresses skip_tx_hash tx_receipt_dict)
         (sort_block_transactions block (x_sort_start_block sv)) (\<lambda>ty. [])) (\<lambda>txs_grouped_by_type.
     py_bind (\<lambda>w. (fetch_cid_metadata (x_metadata sv) (x_cnodes sv)
         (map rc_users (txs_grouped_by_type USER_FACTORY))
         (map rc_digital_contents (txs_grouped_by_type DIGITAL_CONTENT_FACTORY)) (w_db w), w)) (\<lambda>cid_metadata.
     py_seq (add_indexed_block_to_db block)
       (process_state_changes sv cid_metadata txs_grouped_by_type block))))"

text \<open>
  The body of the \<open>with\<close> statement. The question whether to start the trending challenge is
  asked after the commit; it has no effect on the state and its exceptions are caught.
\<close>

definition index_block_body ::
  "indexer_services \<Rightarrow> (contract_type \<Rightarrow> string) \<Rightarrow> chain_block \<Rightarrow> changed_ids option \<Rightarrow>
    (world, changed_ids option) py" where
  "index_block_body sv addresses block changed =
     py_bind (py_gets (\<lambda>w. get_tx_hash_to_skip (w_redis w))) (\<lambda>skip_tx_hash.
     py_bind
       (if skip_tx_hash = Some ''commit'' then
          py_seq (py_modify save_skipped_tx)
            (py_seq (add_indexed_block_to_db block) (py_return changed))
        else
          py_try (py_bind (index_transactions sv addresses skip_tx_hash block) (\<lambda>c. py_return (Some c)))
            (\<lambda>e. create_and_raise_indexing_error sv
               (IndexingError ''prefetch-cids'' (Some (k_number block)) (k_hash block) None (exc_str e))))
       (\<lambda>changed.
     py_bind (py_gets (\<lambda>w. x_commit sv (w_db w))) (\<lambda>failure.
     py_seq
       (case failure of
          None \<Rightarrow> py_return ()
        | Some e \<Rightarrow> create_and_raise_indexing_error sv
            (IndexingError ''session.commit'' (Some (k_number block)) (k_hash block) (Some ''commit'') (exc_str e)))
       (py_seq
         (if skip_tx_hash \<noteq> None \<and> skip_tx_hash \<noteq> Some []
          then py_modify (\<lambda>w. w\<lparr>w_redis := clear_indexing_error (w_redis w)\<rparr>) else py_return ())
         (py_return changed)))))"

definition index_block ::
  "indexer_services \<Rightarrow> chain_block \<Rightarrow> changed_ids option \<Rightarrow> (indexer_state, changed_ids option) py" where
  "index_block sv block changed =
     py_seq (update_ursm_address sv)
    (py_bind (py_gets snd) (\<lambda>addresses.
     on_node (py_bind
       (scoped_session sv (use_scoped_dispatch_queue (x_rpush sv) (index_block_body sv addresses block changed)))
       (\<lambda>changed.
          py_seq (py_modify (\<lambda>w. w\<lparr>w_redis :=
              (case changed of None \<Rightarrow> w_redis w | Some c \<Rightarrow> remove_updated_entities_from_cache c (w_redis w))\<rparr>))
         (py_seq (py_modify (add_indexed_block_to_redis block)) (py_return changed))))))"

text \<open>The list runs from the newest block to the oldest; it is indexed from its end.\<close>

definition index_blocks :: "indexer_services \<Rightarrow> chain_block list \<Rightarrow> (indexer_state, unit) py" where
  "index_blocks sv blocks_list =
     py_bind (py_for (index_block sv) (rev blocks_list) None) (\<lambda>changed. py_return ())"

section \<open>Finding the intersection with the chain\<close>

text \<open>
  The first loop of \<open>update_task\<close>: from the latest block to the first ancestor the table
  knows. The query compares block hashes only, since Python's \<open>and\<close> of the three SQLAlchemy
  conditions is the first of them. The result is the list of blocks to index and the hash of
  the intersection; None when the loop does not end.
\<close>

partial_function (option) walk_back ::
  "(hash \<Rightarrow> exc + chain_block) \<Rightarrow> hash set \<Rightarrow> chain_block \<Rightarrow> chain_block list \<Rightarrow>
    (exc + (chain_block list \<times> hash)) option" where
  "walk_back get_block known latest_block index_blocks_list =
     (if k_hash latest_block \<in> known then Some (Inr (index_blocks_list, k_hash latest_block))
      else
        (let index_blocks_list = index_blocks_list @ [latest_block];
             block_intersection_found = (k_parentHash latest_block \<in> known)
         in if k_parentHash latest_block = default_padded_start_hash
            then Some (Inr (index_blocks_list, default_config_start_hash))
            else
              (case get_block (k_parentHash latest_block) of
                 Inl e \<Rightarrow> Some (Inl e)
               | Inr parent \<Rightarrow>
                   if block_intersection_found then Some (Inr (index_blocks_list, k_hash parent))
                   else walk_back get_block known parent index_blocks_list)))"

text \<open>The second loop: from the current block of the table down to the intersection.\<close>

partial_function (option) traverse ::
  "block_row list \<Rightarrow> hash \<Rightarrow> block_row \<Rightarrow> block_row list \<Rightarrow> block_row list option" where
  "traverse tbl intersect_block_hash traverse_block revert_blocks_list =
     (if b_blockhash traverse_block = intersect_block_hash then Some revert_blocks_list
      else
        (case sql_first (\<lambda>b. Some (b_blockhash b) = b_parenthash traverse_block) tbl of
           None \<Rightarrow> Some (revert_blocks_list @ [traverse_block])
         | Some parent \<Rightarrow> traverse tbl intersect_block_hash parent (revert_blocks_list @ [traverse_block])))"

declare walk_back.simps [code]

declare traverse.simps [code]

section \<open>The task\<close>

text \<open>A loop that may not end, as a step: None when it does not.\<close>

definition opt_bind ::
  "((exc + 'a) \<times> 's) option \<Rightarrow> ('a \<Rightarrow> 's \<Rightarrow> ((exc + 'b) \<times> 's) option) \<Rightarrow> ((exc + 'b) \<times> 's) option" where
  "opt_bind r f = (case r of
     None \<Rightarrow> None | Some (Inl e, s) \<Rightarrow> Some (Inl e, s) | Some (Inr x, s) \<Rightarrow> f x s)"

definition plan_update ::
  "indexer_services \<Rightarrow> chain_block \<Rightarrow> world \<Rightarrow> (exc + (chain_block list \<times> block_row list)) option" where
  "plan_update sv latest_block w =
     (case walk_back (x_block_by_hash sv) (b_blockhash ` set (blocks (w_db w))) latest_block [] of
        None \<Rightarrow> None
      | Some (Inl e) \<Rightarrow> Some (Inl e)
      | Some (Inr (index_blocks_list, intersect_block_hash)) \<Rightarrow>
          (case filter b_is_current (blocks (w_db w)) of
             [db_current_block] \<Rightarrow>
               (case traverse (blocks (w_db w)) intersect_block_hash db_current_block [] of
                  None \<Rightarrow> None
                | Some revert_blocks_list \<Rightarrow> Some (Inr (index_blocks_list, revert_blocks_list)))
           | _ \<Rightarrow> Some (Inl (AssertionError ''Expected SINGLE row marked as current''))))"

text \<open>\<open>have_lock\<close>: whether the lock was acquired; without it the task does nothing.\<close>

definition update_task ::
  "indexer_services \<Rightarrow> bool \<Rightarrow> indexer_state \<Rightarrow> ((exc + unit) \<times> indexer_state) option" where
  "update_task sv have_lock s =
     (if have_lock then
        opt_bind (Some (on_node (initialize_blocks_table_if_necessary sv) s)) (\<lambda>u s.
        opt_bind (Some (on_node (get_latest_block sv) s)) (\<lambda>latest_block s.
        opt_bind (map_option (\<lambda>r. (r, s)) (plan_update sv latest_block (fst s)))
          (\<lambda>(index_blocks_list, revert_blocks_list) s.
        opt_bind (Some (on_node (scoped_session sv (\<lambda>w.
            case revert_blocks (x_collation sv) revert_blocks_list (w_db w) of
              Inl e \<Rightarrow> (Inl e, w) | Inr d \<Rightarrow> (Inr (), w\<lparr>w_db := d\<rparr>))) s)) (\<lambda>u s.
        Some (index_blocks sv index_blocks_list s)))))
      else Some (Inr (), s))"

end
