(* ===== verification/Indexing.thy ===== *)
theory Indexing
  imports Index
begin

text \<open>
  What the indexing task guarantees: the head of the blocks table, the rollback of a failed
  block, the errors it records, the end of its loops. The handlers take part through one
  interface: they leave the blocks table and the recorded indexing error alone.
\<close>

section \<open>What the handlers leave alone\<close>

text \<open>The blocks table and the recorded indexing error.\<close>

definition framed :: "block_row list \<Rightarrow> indexing_error option \<Rightarrow> world \<Rightarrow> bool" where
  "framed B E w \<longleftrightarrow> blocks (w_db w) = B \<and> r_indexing_error (w_redis w) = E"

locale block_handler =
  fixes handler :: "(world, int \<times> int list) py"
  assumes keeps_frame: "py_keeps (framed B E) handler"
begin

lemma then_keeps:
  assumes "\<And>x. py_keeps (framed B E) (k x)"
  shows "py_keeps (framed B E) (py_bind handler k)"
  by (intro py_keeps_bind keeps_frame assms)

end

lemma framed_update_db [simp]: "(\<And>d. blocks (f d) = blocks d) \<Longrightarrow> framed B E (update_db f w) = framed B E w"
  by (simp add: framed_def)

lemma framed_dispatch [simp]: "framed B E (dispatch ev n u x w) = framed B E w"
  by (simp add: framed_def)

lemma framed_refresh [simp]: "framed B E (enqueue_immediate_balance_refresh us w) = framed B E w"
  by (simp add: framed_def enqueue_immediate_balance_refresh_def)

interpretation frame_of_users: user_handler_invariant sv "\<lambda>uid v w. True"
  "\<lambda>uid v w. framed B E v \<longrightarrow> framed B E w" "\<lambda>uid c v. True" "framed B E" n for sv B E n
proof (intro user_handler_invariant.intro user_handler_invariant_axioms.intro invariant_pool
    update_wallets_steps update_events_steps)
  show "framed B E w \<Longrightarrow> framed B E (store_user n item w)" for w item
    using store_user_db [of n item w] by (auto simp: framed_def)
qed (simp_all add: retire_wallets_def add_wallet_def replace_user_events_def
    add_node_level_skipped_transaction_def)

interpretation user_block: block_handler "user_state_update sv sched txs n ts h meta"
  for sv sched txs n ts h meta
  by unfold_locales (simp add: py_keeps_def frame_of_users.handler_keeps)

interpretation social_block: block_handler "social_feature_state_update txs n ts h" for txs n ts h
  by unfold_locales (auto simp: py_keeps_def framed_def social_run social_result_def split: sum.split)

interpretation library_block: block_handler "user_library_state_update txs n ts h" for txs n ts h
  by unfold_locales (auto simp: py_keeps_def framed_def library_run library_result_def split: sum.split)

interpretation content_block: block_handler "digital_content_state_update sv txs n ts h meta"
  for sv txs n ts h meta
proof unfold_locales
  fix B E
  have mod: "py_keeps (\<lambda>s. framed B E (fst s)) (py_modify f)"
    if "\<And>s. framed B E (fst s) \<Longrightarrow> framed B E (fst (f s))" for f
    using that by (rule py_keeps_modify)
  have upd: "py_keeps (\<lambda>s. framed B E (fst s)) (dc_update_db f)"
    if "\<And>d. blocks (f d) = blocks d" for f
    unfolding dc_update_db_def by (rule py_keeps_modify) (auto simp: that)
  have parse: "py_keeps (\<lambda>s. framed B E (fst s)) (parse_digital_content_event sv entry ev r n ts m)"
    for entry ev r m
    unfolding parse_digital_content_event_def fill_from_metadata_def
      update_digital_content_routes_table_def insert_route_def Let_def
    by (cases ev) (auto intro!: keeps_intros upd mod
        simp: update_stems_table_def update_remixes_table_def retire_route_def add_route_def Let_def
          dispatch_challenge_digital_content_upload_def split: option.split json.split)
  have body: "py_keeps (\<lambda>s. framed B E (fst s)) (digital_content_body sv txs n ts h meta)"
    unfolding digital_content_body_def process_digital_content_tx_def process_digital_content_entry_def
      store_digital_content_def invalidate_old_digital_content_def Let_def
    by (intro keeps_intros parse upd) (simp_all add: add_node_level_skipped_transaction_def)
  show "py_keeps (framed B E) (digital_content_state_update sv txs n ts h meta)"
  proof (rule py_keepsI)
    fix w :: world assume "framed B E w"
    then show "framed B E (snd (digital_content_state_update sv txs n ts h meta w))"
      using py_keepsD [OF body, of "(w, [])"]
      by (simp add: digital_content_state_update_def case_prod_unfold)
  qed
qed

interpretation content_list_block: block_handler "content_list_state_update b58 txs n ts h"
  for b58 txs n ts h
proof unfold_locales
  fix B E
  have parse: "py_keeps (framed B E) (process_content_list_tx b58 n ts h tx acc)" for tx acc
    unfolding process_content_list_tx_def process_content_list_entry_def
    by (intro keeps_intros) (auto simp: add_node_level_skipped_transaction_def intro: keeps_intros)
  have store: "py_keeps (framed B E) (store_content_list item u)" for item u
    by (simp add: py_keeps_def store_content_list_raises)
  show "py_keeps (framed B E) (content_list_state_update b58 txs n ts h)"
    unfolding content_list_state_update_def by (intro keeps_intros parse store)
qed

interpretation replica_block: block_handler "user_replica_set_state_update sp txs n ts h" for sp txs n ts h
proof unfold_locales
  fix B E
  have parse: "py_keeps (framed B E) (process_replica_tx sp n ts h tx acc)" for tx acc
    unfolding process_replica_tx_def process_replica_entry_def
    by (intro keeps_intros) (auto simp: add_node_level_skipped_transaction_def)
  have users: "framed B E (fold store_replica_user ul w) = framed B E w" for ul w
    by (induction ul arbitrary: w)
      (auto simp: store_replica_user_def invalidate_old_user_def Let_def framed_def split: prod.split)
  have cnodes: "py_keeps (framed B E) (store_cnode item u)" for item u
    unfolding store_cnode_def invalidate_old_cnode_record_def by (intro keeps_intros) simp_all
  show "py_keeps (framed B E) (user_replica_set_state_update sp txs n ts h)"
    unfolding user_replica_set_state_update_def
    by (intro keeps_intros parse cnodes) (simp add: users)
qed

lemma process_state_changes_keeps:
  "py_keeps (framed B E) (process_state_changes sv meta txs block)"
  unfolding process_state_changes_def Let_def
  by (intro keeps_intros user_block.then_keeps content_block.then_keeps social_block.then_keeps
      content_list_block.then_keeps library_block.then_keeps replica_block.then_keeps)

section \<open>Sessions and errors\<close>

lemma scoped_session_Inr: "scoped_session sv m w = (Inr x, w') \<Longrightarrow> m w = (Inr x, w')"
  by (auto simp: scoped_session_def split: prod.splits sum.splits option.splits)

lemma scoped_session_Inl: "scoped_session sv m w = (Inl e, w') \<Longrightarrow> w_db w' = w_db w"
  by (auto simp: scoped_session_def split: prod.splits sum.splits option.splits)

lemma scoped_session_redis: "w_redis (snd (scoped_session sv m w)) = w_redis (snd (m w))"
  by (auto simp: scoped_session_def split: prod.split sum.split option.split)

lemma dispatch_queue_Inr:
  "use_scoped_dispatch_queue ok m w = (r, w') \<Longrightarrow> \<exists>w1. m w = (r, w1) \<and> w' = flush ok w1"
  by (auto simp: use_scoped_dispatch_queue_def split: prod.splits)

lemma flush_error [simp]: "r_indexing_error (w_redis (flush ok w)) = r_indexing_error (w_redis w)"
  by (simp add: flush_def)

text \<open>What an error leaves in Redis: its own transaction hash, whatever was recorded before.\<close>

lemma create_and_raise_error:
  "\<exists>e w'. create_and_raise_indexing_error sv err w = (Inl err, w') \<and> w_db w' = w_db w \<and> w_queue w' = w_queue w \<and>
     r_indexing_error (w_redis w') = Some e \<and> er_txhash e = exc_txhash err \<and>
     er_blocknumber e = exc_blocknumber err"
  using error_recorded [of "x_responses sv"]
  by (force simp: create_and_raise_indexing_error_def)

section \<open>The head of the blocks table\<close>

definition extends_head :: "chain_block \<Rightarrow> db \<Rightarrow> db \<Rightarrow> bool" where
  "extends_head block d d' \<longleftrightarrow>
     map b_blockhash (blocks d') = map b_blockhash (blocks d) @ [k_hash block] \<and>
     current_blocks d' = [k_hash block]"

lemma add_block_run:
  assumes "add_indexed_block_to_db block w = (Inr u, w')"
  shows "extends_head block (w_db w) (w_db w')"
proof -
  have "filter b_is_current (sql_update b_is_current (\<lambda>b. b\<lparr>b_is_current := False\<rparr>) tbl) = []" for tbl
    by (auto simp: filter_empty_conv sql_update_def)
  moreover have "map b_blockhash (sql_update b_is_current (\<lambda>b. b\<lparr>b_is_current := False\<rparr>) tbl) = map b_blockhash tbl" for tbl
    by (simp add: sql_update_def)
  ultimately show ?thesis
    using assms by (auto simp: add_indexed_block_to_db_def flush_skipped_def extends_head_def current_blocks_def py_defs
        split: if_splits)
qed

lemma save_skipped_blocks [simp]: "blocks (w_db (save_skipped_tx w)) = blocks (w_db w)"
  by (auto simp: save_skipped_tx_def add_network_level_skipped_transaction_def split: option.split sum.split)

lemma extends_head_cong:
  "extends_head block d d' \<Longrightarrow> blocks d = blocks e \<Longrightarrow> blocks d' = blocks e' \<Longrightarrow> extends_head block e e'"
  by (simp add: extends_head_def current_blocks_def)

lemma save_skipped_redis [simp]: "w_redis (save_skipped_tx w) = w_redis w"
  by (auto simp: save_skipped_tx_def split: option.split sum.split)

lemma parse_txs_keeps:
  "py_keeps (framed B E) (py_for (parse_tx addresses skip dict) txs g)"
  unfolding parse_tx_def by (intro keeps_intros) (simp add: framed_def)

lemma index_transactions_head:
  assumes "index_transactions sv addresses skip block w = (Inr c, w')"
  shows "extends_head block (w_db w) (w_db w')"
proof -
  let ?parse = "\<lambda>dict. py_for (parse_tx addresses skip dict) (sort_block_transactions block (x_sort_start_block sv)) (\<lambda>ty. [])"
  from assms obtain dict g w1 meta w2 where parse: "?parse dict w = (Inr g, w1)"
    and add: "add_indexed_block_to_db block w1 = (Inr (), w2)"
    and process: "process_state_changes sv meta g block w2 = (Inr c, w')"
    unfolding index_transactions_def py_seq_def by (auto elim!: py_bind_InrE simp: py_lift_def)
  have "blocks (w_db w1) = blocks (w_db w)"
    using py_keepsD [OF parse_txs_keeps, where s = w] parse by (metis framed_def snd_conv)
  moreover have "blocks (w_db w') = blocks (w_db w2)"
    using py_keepsD [OF process_state_changes_keeps, where s = w2] process by (metis framed_def snd_conv)
  ultimately show ?thesis
    using extends_head_cong [OF add_block_run [OF add]] by simp
qed

lemma index_block_body_head:
  assumes "index_block_body sv addresses block changed w = (Inr c, w')"
  shows "extends_head block (w_db w) (w_db w')"
proof -
  let ?skip = "get_tx_hash_to_skip (w_redis w)"
  let ?first = "if ?skip = Some ''commit'' then
          py_seq (py_modify save_skipped_tx)
            (py_seq (add_indexed_block_to_db block) (py_return changed))
        else
          py_try (py_bind (index_transactions sv addresses ?skip block) (\<lambda>c. py_return (Some c)))
            (\<lambda>e. create_and_raise_indexing_error sv
               (IndexingError ''prefetch-cids'' (Some (k_number block)) (k_hash block) None (exc_str e)))"
  from assms obtain x w1 where first: "?first w = (Inr x, w1)" and rest: "w_db w' = w_db w1"
    unfolding index_block_body_def
    by (auto elim!: py_bind_InrE simp: py_defs create_and_raise_indexing_error_def
        split: option.splits if_splits prod.splits sum.splits)
  have "extends_head block (w_db w) (w_db w1)"
  proof (cases "?skip = Some ''commit''")
    case True
    with first have "add_indexed_block_to_db block (save_skipped_tx w) = (Inr (), w1)"
      by (auto elim!: py_bind_InrE simp: py_seq_def py_modify_def py_return_def)
    from extends_head_cong [OF add_block_run [OF this]] show ?thesis by simp
  next
    case False
    with first obtain y where "index_transactions sv addresses ?skip block w = (Inr y, w1)"
      by (auto simp: py_try_def py_bind_def py_return_def create_and_raise_indexing_error_def
          split: prod.splits sum.splits)
    then show ?thesis by (rule index_transactions_head)
  qed
  with rest show ?thesis by simp
qed

text \<open>A block in its session, and with the address update and the caches around it.\<close>

definition block_session ::
  "indexer_services \<Rightarrow> (contract_type \<Rightarrow> string) \<Rightarrow> chain_block \<Rightarrow> changed_ids option \<Rightarrow>
    (world, changed_ids option) py" where
  "block_session sv addresses block changed =
     scoped_session sv (use_scoped_dispatch_queue (x_rpush sv) (index_block_body sv addresses block changed))"

lemma remove_cached_frame [simp]:
  "r_indexing_error (remove_updated_entities_from_cache c r) = r_indexing_error r"
  by (simp add: remove_updated_entities_from_cache_def Let_def remove_cached_user_ids_def redis_delete_def
      remove_cached_digital_content_ids_def remove_cached_content_list_ids_def)

lemma index_block_run:
  assumes "index_block sv block changed s = (r, s')"
  obtains (address) e where "x_registry sv = Inl e" "r = Inl e" "s' = s"
  | (failed) e addresses w' where "block_session sv addresses block changed (fst s) = (Inl e, w')" "r = Inl e" "fst s' = w'"
  | (indexed) c addresses w' where "block_session sv addresses block changed (fst s) = (Inr c, w')" "r = Inr c"
      "w_db (fst s') = w_db w'" "r_indexing_error (w_redis (fst s')) = r_indexing_error (w_redis w')"
      "r_most_recent_block (w_redis (fst s')) = Some (k_number block)"
proof -
  obtain w a where s: "s = (w, a)" by (rule prod.exhaust)
  define a' where "a' = (case x_registry sv of Inl e \<Rightarrow> a | Inr b \<Rightarrow>
    if a USER_REPLICA_SET_MANAGER = zero_address \<and> b \<noteq> zero_address
    then a(USER_REPLICA_SET_MANAGER := x_checksum sv b) else a)"
  have update: "update_ursm_address sv s = (case x_registry sv of
      Inl e \<Rightarrow> if a USER_REPLICA_SET_MANAGER = zero_address then (Inl e, s) else (Inr (), w, a')
    | Inr b \<Rightarrow> (Inr (), w, a'))"
    by (auto simp: s a'_def update_ursm_address_def py_defs split: sum.split)
  have body: "index_block sv block changed s = (case update_ursm_address sv s of
      (Inl e, t) \<Rightarrow> (Inl e, t)
    | (Inr u, (w, a)) \<Rightarrow> (case block_session sv a block changed w of
        (Inl e, w') \<Rightarrow> (Inl e, (w', a))
      | (Inr c, w') \<Rightarrow> (Inr c, (add_indexed_block_to_redis block (w'\<lparr>w_redis :=
          (case c of None \<Rightarrow> w_redis w' | Some c \<Rightarrow> remove_updated_entities_from_cache c (w_redis w'))\<rparr>), a))))"
    unfolding index_block_def block_session_def
    by (simp add: py_defs on_node_def split: prod.split sum.split)
  show thesis
  proof (cases "\<exists>e. x_registry sv = Inl e \<and> a USER_REPLICA_SET_MANAGER = zero_address")
    case True
    with assms body update address show thesis by auto
  next
    case False
    then have run: "update_ursm_address sv s = (Inr (), w, a')"
      using update by (auto split: sum.splits)
    obtain q w' where session: "block_session sv a' block changed w = (q, w')" by (rule prod.exhaust)
    show thesis
    proof (cases q)
      case (Inl e)
      with session assms body run failed show thesis by (auto simp: s)
    next
      case (Inr c)
      with session assms body run indexed show thesis
        by (auto simp: s add_indexed_block_to_redis_def split: option.split)
    qed
  qed
qed

lemma block_session_Inr:
  assumes "block_session sv addresses block changed w = (Inr c, w')"
  shows "extends_head block (w_db w) (w_db w')"
proof -
  from assms obtain w1 where "index_block_body sv addresses block changed w = (Inr c, w1)" and "w' = flush (x_rpush sv) w1"
    unfolding block_session_def by (blast dest: scoped_session_Inr dispatch_queue_Inr)
  then show ?thesis using index_block_body_head by simp
qed

lemma index_block_Inr:
  assumes "index_block sv block changed s = (Inr c, s')"
  shows "extends_head block (w_db (fst s)) (w_db (fst s')) \<and>
    r_most_recent_block (w_redis (fst s')) = Some (k_number block)"
  using assms by (cases rule: index_block_run) (auto dest: block_session_Inr)

lemma index_block_Inl:
  assumes "index_block sv block changed s = (Inl e, s')"
  shows "w_db (fst s') = w_db (fst s)"
  using assms by (cases rule: index_block_run) (auto simp: block_session_def dest: scoped_session_Inl)

text \<open>A run over several blocks, up to the first that fails.\<close>

lemma index_loop_run:
  assumes "py_for (index_block sv) bs changed s = (r, s')"
  shows "\<exists>ok rest. bs = ok @ rest \<and>
    map b_blockhash (blocks (w_db (fst s'))) = map b_blockhash (blocks (w_db (fst s))) @ map k_hash ok \<and>
    (ok \<noteq> [] \<longrightarrow> current_blocks (w_db (fst s')) = [k_hash (last ok)]) \<and>
    (ok = [] \<longrightarrow> w_db (fst s') = w_db (fst s)) \<and> ((\<exists>x. r = Inr x) \<longleftrightarrow> rest = [])"
  using assms
proof (induction bs arbitrary: s changed)
  case Nil
  then show ?case by (auto simp: py_return_def)
next
  case (Cons b bs)
  obtain q s1 where step: "index_block sv b changed s = (q, s1)" by (rule prod.exhaust)
  show ?case
  proof (cases q)
    case (Inl e)
    with step Cons.prems have "r = Inl e" "s' = s1" by (simp_all add: py_bind_Inl)
    with index_block_Inl step Inl show ?thesis by (intro exI [of _ "[]"] exI [of _ "b # bs"]) auto
  next
    case (Inr c)
    with step Cons.prems have "py_for (index_block sv) bs c s1 = (r, s')" by (simp add: py_bind_Inr)
    from Cons.IH [OF this] obtain ok rest where IH: "bs = ok @ rest"
      "map b_blockhash (blocks (w_db (fst s'))) = map b_blockhash (blocks (w_db (fst s1))) @ map k_hash ok"
      "ok \<noteq> [] \<longrightarrow> current_blocks (w_db (fst s')) = [k_hash (last ok)]"
      "ok = [] \<longrightarrow> w_db (fst s') = w_db (fst s1)" "(\<exists>x. r = Inr x) \<longleftrightarrow> rest = []" by blast
    have "extends_head b (w_db (fst s)) (w_db (fst s1))"
      using index_block_Inr step Inr by blast
    with IH show ?thesis
      by (intro exI [of _ "b # ok"] exI [of _ rest]) (auto simp: extends_head_def current_blocks_def)
  qed
qed

lemma index_blocks_run:
  assumes "index_blocks sv bs s = (r, s')"
  shows "\<exists>ok rest. rev bs = ok @ rest \<and>
    map b_blockhash (blocks (w_db (fst s'))) = map b_blockhash (blocks (w_db (fst s))) @ map k_hash ok \<and>
    (ok \<noteq> [] \<longrightarrow> current_blocks (w_db (fst s')) = [k_hash (last ok)]) \<and>
    (ok = [] \<longrightarrow> w_db (fst s') = w_db (fst s)) \<and> ((\<exists>x. r = Inr x) \<longleftrightarrow> rest = [])"
proof -
  obtain q t where loop: "py_for (index_block sv) (rev bs) None s = (q, t)" by (rule prod.exhaust)
  then have "s' = t \<and> ((\<exists>x. r = Inr x) \<longleftrightarrow> (\<exists>x. q = Inr x))"
    using assms by (cases q) (auto simp: index_blocks_def py_bind_def py_return_def)
  with index_loop_run [OF loop] show ?thesis by simp
qed

lemma index_blocks_all:
  assumes "index_blocks sv (b # bs) s = (Inr u, s')"
  shows "current_blocks (w_db (fst s')) = [k_hash b]"
proof -
  from index_blocks_run [OF assms] obtain ok where "rev (b # bs) = ok"
    and "ok \<noteq> [] \<longrightarrow> current_blocks (w_db (fst s')) = [k_hash (last ok)]" by auto
  then show ?thesis by auto
qed

section \<open>Blocks that cannot be indexed\<close>

text \<open>
  The state in which a block is stuck: the recorded indexing error has no transaction hash,
  and the block creates a contract.
\<close>

definition stuck_on :: "chain_block \<Rightarrow> indexer_state \<Rightarrow> bool" where
  "stuck_on block s \<longleftrightarrow>
     (\<exists>e. r_indexing_error (w_redis (fst s)) = Some e \<and> er_txhash e = None \<and> er_blocknumber e \<noteq> None) \<and>
     num_network_skipped (w_db (fst s)) < MAX_NETWORK_LEVEL_SKIPPED_TX \<and>
     (\<exists>tx\<in>set (k_transactions block). tx_target tx = zero_address)"

definition null_skipped :: "world \<Rightarrow> bool" where
  "null_skipped w \<longleftrightarrow> (\<exists>r\<in>set (skipped_transactions (w_db w)). sk_txhash r = None)"

lemma null_skipped_save: "null_skipped w \<Longrightarrow> null_skipped (save_skipped_tx w)"
  by (auto simp: null_skipped_def save_skipped_tx_def add_network_level_skipped_transaction_def
      split: option.split sum.split)

lemma save_skipped_null:
  assumes "r_indexing_error (w_redis w) = Some e" and "er_txhash e = None" and "er_blocknumber e \<noteq> None"
    and "num_network_skipped (w_db w) < MAX_NETWORK_LEVEL_SKIPPED_TX"
  shows "null_skipped (save_skipped_tx w)"
  using assms by (auto simp: save_skipped_tx_def get_indexing_error_def add_network_level_skipped_transaction_def
      null_skipped_def)

lemma parse_txs_null:
  assumes "py_for (parse_tx addresses skip dict) txs g w = (Inr g', w')"
    and "null_skipped w \<or> (\<exists>tx\<in>set txs. tx_target tx = zero_address) \<and>
      (\<exists>e. r_indexing_error (w_redis w) = Some e \<and> er_txhash e = None \<and> er_blocknumber e \<noteq> None) \<and>
      num_network_skipped (w_db w) < MAX_NETWORK_LEVEL_SKIPPED_TX"
  shows "null_skipped w'"
  using assms
proof (induction txs arbitrary: g w)
  case Nil
  then show ?case by (auto simp: py_return_def)
next
  case (Cons tx txs)
  from Cons.prems(1) obtain g1 w1 where step: "parse_tx addresses skip dict tx g w = (Inr g1, w1)"
    and rest: "py_for (parse_tx addresses skip dict) txs g1 w1 = (Inr g', w')" by (auto elim: py_bind_InrE)
  have w1: "w1 = (if should_skip_tx skip tx then save_skipped_tx w else w)"
    using step by (auto simp: parse_tx_def py_defs split: option.splits if_splits)
  show ?case
  proof (cases "should_skip_tx skip tx")
    case True
    then have "null_skipped w1" using w1 Cons.prems(2) null_skipped_save save_skipped_null by auto
    with Cons.IH [OF rest] show ?thesis by blast
  next
    case False
    then have "tx_target tx \<noteq> zero_address" by (simp add: should_skip_tx_def)
    with False w1 Cons.IH [OF rest] Cons.prems(2) show ?thesis by auto
  qed
qed

lemma add_block_null: "null_skipped w \<Longrightarrow> \<exists>e. add_indexed_block_to_db block w = (Inl e, w)"
  by (auto simp: null_skipped_def add_indexed_block_to_db_def flush_skipped_def py_defs list_all_iff)

lemma set_sort_block_transactions: "set (sort_block_transactions block n) = set (k_transactions block)"
  by (simp add: sort_block_transactions_def)

lemma stuck_transactions:
  assumes "stuck_on block (w, a)"
  shows "\<exists>e w'. index_transactions sv addresses None block w = (Inl e, w')"
proof (rule ccontr)
  assume "\<nexists>e w'. index_transactions sv addresses None block w = (Inl e, w')"
  then obtain c w' where run: "index_transactions sv addresses None block w = (Inr c, w')"
    by (metis obj_sumE prod.exhaust)
  let ?txs = "sort_block_transactions block (x_sort_start_block sv)"
  from run obtain dict g w1 w2 where "py_for (parse_tx addresses None dict) ?txs (\<lambda>ty. []) w = (Inr g, w1)"
    and add: "add_indexed_block_to_db block w1 = (Inr (), w2)"
    unfolding index_transactions_def py_seq_def by (auto elim!: py_bind_InrE simp: py_lift_def)
  then have "null_skipped w1"
    by (rule_tac parse_txs_null) (use assms in \<open>auto simp: stuck_on_def set_sort_block_transactions\<close>)
  with add add_block_null show False by (metis Inl_Inr_False prod.inject)
qed

lemma stuck_body:
  assumes "stuck_on block (w, a)"
  shows "\<exists>e w' err. index_block_body sv addresses block changed w = (Inl e, w') \<and>
    r_indexing_error (w_redis w') = Some err \<and> er_txhash err = None \<and> er_blocknumber err \<noteq> None"
proof -
  have skip: "get_tx_hash_to_skip (w_redis w) = None"
    using assms by (auto simp: stuck_on_def get_tx_hash_to_skip_def get_indexing_error_def)
  obtain x w1 where fail: "index_transactions sv addresses None block w = (Inl x, w1)"
    using stuck_transactions [OF assms] by blast
  let ?err = "IndexingError ''prefetch-cids'' (Some (k_number block)) (k_hash block) None (exc_str x)"
  obtain e w2 where raise: "create_and_raise_indexing_error sv ?err w1 = (Inl ?err, w2)"
    and rec: "r_indexing_error (w_redis w2) = Some e" "er_txhash e = None" "er_blocknumber e = Some (k_number block)"
    using create_and_raise_error [of sv ?err w1] by auto
  have "create_and_raise_indexing_error sv ?err w1 = ((Inl ?err :: exc + changed_ids option), w2)"
    using raise by (simp add: create_and_raise_indexing_error_def)
  with fail skip rec show ?thesis
    by (auto simp: index_block_body_def py_defs)
qed

section \<open>Recorded errors\<close>

text \<open>The indexer never records the hash of a transaction.\<close>

definition error_unnamed :: "world \<Rightarrow> bool" where
  "error_unnamed w \<longleftrightarrow> (\<forall>e. r_indexing_error (w_redis w) = Some e \<longrightarrow> er_txhash e \<in> {None, Some ''commit''})"

lemma framed_unnamed:
  assumes "\<And>B E. py_keeps (framed B E) m"
  shows "py_keeps error_unnamed m"
proof (rule py_keepsI)
  fix w assume "error_unnamed w"
  moreover have "framed (blocks (w_db w)) (r_indexing_error (w_redis w)) (snd (m w))"
    by (rule py_keepsD [OF assms]) (simp add: framed_def)
  ultimately show "error_unnamed (snd (m w))" by (simp add: error_unnamed_def framed_def)
qed

lemma raise_unnamed:
  assumes "exc_txhash err \<in> {None, Some ''commit''}"
  shows "py_keeps error_unnamed (create_and_raise_indexing_error sv err)"
proof (rule py_keepsI)
  fix w :: world
  show "error_unnamed (snd (create_and_raise_indexing_error sv err w))"
    using error_recorded [of "x_responses sv" "exc_blocknumber err" "exc_blockhash err" "exc_txhash err"
        "exc_message err" "w_redis w"] assms
    by (auto simp: error_unnamed_def create_and_raise_indexing_error_def)
qed

lemma index_block_body_unnamed: "py_keeps error_unnamed (index_block_body sv addresses block changed)"
proof -
  have save: "py_keeps error_unnamed (py_modify save_skipped_tx)"
    by (rule py_keeps_modify) (simp add: error_unnamed_def)
  have add: "py_keeps error_unnamed (add_indexed_block_to_db block)"
    unfolding add_indexed_block_to_db_def flush_skipped_def
    by (intro keeps_intros) (simp_all add: error_unnamed_def)
  have transactions: "py_keeps error_unnamed (index_transactions sv addresses skip block)" for skip
  proof -
    have parse: "py_keeps error_unnamed (py_for (parse_tx addresses skip dict) txs g)" for dict txs g
      by (rule framed_unnamed) (rule parse_txs_keeps)
    have process: "py_keeps error_unnamed (process_state_changes sv meta g block)" for meta g
      by (rule framed_unnamed) (rule process_state_changes_keeps)
    show ?thesis
      unfolding index_transactions_def
      by (intro py_keeps_bind py_keeps_seq py_keeps_lift parse process add) (simp add: py_keeps_def)
  qed
  show ?thesis
    unfolding index_block_body_def
    by (intro keeps_intros save add transactions raise_unnamed)
      (simp_all add: error_unnamed_def clear_indexing_error_def)
qed

lemma block_session_unnamed: "error_unnamed w \<Longrightarrow> error_unnamed (snd (block_session sv addresses block changed w))"
  using py_keepsD [OF index_block_body_unnamed, of w sv addresses block changed]
  by (simp add: error_unnamed_def block_session_def scoped_session_redis use_scoped_dispatch_queue_def case_prod_unfold)

lemma index_block_unnamed:
  assumes "error_unnamed (fst s)"
  shows "error_unnamed (fst (snd (index_block sv block changed s)))"
proof -
  obtain r s' where run: "index_block sv block changed s = (r, s')" by (rule prod.exhaust)
  note session = block_session_unnamed [OF assms, of sv _ block changed]
  show ?thesis
    using run
  proof (cases rule: index_block_run)
    case address
    with run assms show ?thesis by simp
  next
    case (failed e addresses w')
    with session [of addresses] run show ?thesis by simp
  next
    case (indexed c addresses w')
    with session [of addresses] run show ?thesis by (simp add: error_unnamed_def)
  qed
qed

section \<open>The loops of the task\<close>

text \<open>
  \<open>new_chain bs h x\<close>: the blocks \<open>bs\<close> lead from hash \<open>h\<close> down to the hash \<open>x\<close>, each the child
  of the next; the parent of the chain's first block is written \<open>0x0\<close> in the blocks table.
\<close>

definition parent_hash :: "chain_block \<Rightarrow> hash" where
  "parent_hash b = (if k_parentHash b = default_padded_start_hash then default_config_start_hash else k_parentHash b)"

fun new_chain :: "chain_block list \<Rightarrow> hash \<Rightarrow> hash \<Rightarrow> bool" where
  "new_chain [] h x \<longleftrightarrow> h = x"
| "new_chain (b # bs) h x \<longleftrightarrow> k_hash b = h \<and> new_chain bs (parent_hash b) x"

lemma new_chain_snoc: "new_chain (bs @ [b]) h x \<longleftrightarrow> new_chain bs h (k_hash b) \<and> x = parent_hash b"
  by (induction bs arbitrary: h) auto

text \<open>An honest chain: blocks are served under their hash, and parents have smaller numbers.\<close>

definition honest_chain :: "(hash \<Rightarrow> exc + chain_block) \<Rightarrow> bool" where
  "honest_chain get_block \<longleftrightarrow>
     (\<forall>h b. get_block h = Inr b \<longrightarrow> k_hash b = h \<and> 0 \<le> k_number b \<and>
        (\<forall>p. get_block (k_parentHash b) = Inr p \<longrightarrow> k_number p < k_number b))"

definition walk_result :: "hash set \<Rightarrow> hash \<Rightarrow> exc + (chain_block list \<times> hash) \<Rightarrow> bool" where
  "walk_result known h r \<longleftrightarrow> (\<forall>bs x. r = Inr (bs, x) \<longrightarrow> new_chain bs h x \<and>
     (\<forall>b\<in>set bs. k_hash b \<notin> known) \<and> (x \<in> known \<or> x = default_config_start_hash))"

lemma walk_back_returns:
  assumes "honest_chain get_block" and "get_block h = Inr b"
    and "new_chain acc tip h" and "\<forall>c\<in>set acc. k_hash c \<notin> known"
  shows "\<exists>r. walk_back get_block known b acc = Some r \<and> walk_result known tip r"
  using assms(2-)
proof (induction "nat (k_number b)" arbitrary: b h acc rule: less_induct)
  case less
  have b: "k_hash b = h" "0 \<le> k_number b"
    using assms(1) less.prems(1) by (auto simp: honest_chain_def)
  show ?case
  proof (cases "k_hash b \<in> known")
    case True
    then show ?thesis
      using less.prems b by (subst walk_back.simps) (auto simp: walk_result_def)
  next
    case False
    then have acc: "new_chain (acc @ [b]) tip (parent_hash b)" "\<forall>c\<in>set (acc @ [b]). k_hash c \<notin> known"
      using less.prems(2,3) b by (auto simp: new_chain_snoc)
    show ?thesis
    proof (cases "k_parentHash b = default_padded_start_hash")
      case True
      with False acc show ?thesis
        by (subst walk_back.simps) (auto simp: walk_result_def Let_def parent_hash_def)
    next
      case not_first: False
      then have parent: "parent_hash b = k_parentHash b" by (simp add: parent_hash_def)
      show ?thesis
      proof (cases "get_block (k_parentHash b)")
        case (Inl e)
        with False not_first show ?thesis
          by (subst walk_back.simps) (auto simp: walk_result_def Let_def)
      next
        case (Inr p)
        then have p: "k_hash p = k_parentHash b" "0 \<le> k_number p" "k_number p < k_number b"
          using assms(1) less.prems(1) by (auto simp: honest_chain_def)
        show ?thesis
        proof (cases "k_parentHash b \<in> known")
          case True
          with False not_first Inr p acc parent show ?thesis
            by (subst walk_back.simps) (auto simp: walk_result_def Let_def)
        next
          case unknown: False
          have "\<exists>r. walk_back get_block known p (acc @ [b]) = Some r \<and> walk_result known tip r"
            by (rule less.hyps [OF _ Inr]) (use p acc parent in auto)
          moreover have "walk_back get_block known b acc = walk_back get_block known p (acc @ [b])"
            using False not_first Inr unknown by (subst walk_back.simps) (simp add: Let_def)
          ultimately show ?thesis by simp
        qed
      qed
    qed
  qed
qed

text \<open>The second loop follows a chain of the table down to the intersection.\<close>

lemma sql_first_hash:
  assumes "distinct (map b_blockhash tbl)" and "b \<in> set tbl" and "b_parenthash c = Some (b_blockhash b)"
  shows "sql_first (\<lambda>q. Some (b_blockhash q) = b_parenthash c) tbl = Some b"
  using assms
proof (induction tbl)
  case (Cons a tbl)
  then show ?case by (auto simp: sql_first_def image_iff)
qed (simp add: sql_first_def)

fun table_chain :: "block_row list \<Rightarrow> block_row list \<Rightarrow> block_row \<Rightarrow> bool" where
  "table_chain tbl [] p \<longleftrightarrow> p \<in> set tbl"
| "table_chain tbl (b # bs) p \<longleftrightarrow> b \<in> set tbl \<and> b_blockhash b \<noteq> b_blockhash p \<and>
     b_parenthash b \<noteq> Some default_padded_start_hash \<and>
     b_parenthash b = Some (b_blockhash (hd (bs @ [p]))) \<and> table_chain tbl bs p"

lemma traverse_chain:
  assumes "distinct (map b_blockhash tbl)" and "table_chain tbl bs p"
  shows "traverse tbl (b_blockhash p) (hd (bs @ [p])) acc = Some (acc @ bs)"
  using assms(2)
proof (induction bs arbitrary: acc)
  case Nil
  then show ?case by (subst traverse.simps) simp
next
  case (Cons b bs)
  have "hd (bs @ [p]) \<in> set tbl" using Cons.prems by (cases bs) auto
  then have "sql_first (\<lambda>q. Some (b_blockhash q) = b_parenthash b) tbl = Some (hd (bs @ [p]))"
    using assms(1) Cons.prems by (intro sql_first_hash) auto
  with Cons show ?case by (subst traverse.simps) simp
qed

lemma table_chain_known:
  assumes "table_chain (blocks d) bs p" and "distinct (map b_blockhash bs)"
  shows "known_chain d (b_blockhash (hd (bs @ [p]))) bs (b_blockhash p) \<and> p \<in> set (blocks d) \<and>
    b_blockhash p \<notin> b_blockhash ` set bs"
  using assms
proof (induction bs)
  case Nil
  then show ?case by simp
next
  case (Cons b bs)
  have "b_blockhash (hd (bs @ [p])) \<noteq> b_blockhash b" using Cons.prems by (cases bs) auto
  with Cons show ?case by (auto simp: revert_parent_hash_def)
qed

text \<open>A block that is its own parent, as the first row of the table, is never left.\<close>

lemma traverse_self_loop:
  assumes "b_parenthash b = Some (b_blockhash b)" and "b_blockhash b \<noteq> x"
    and "sql_first (\<lambda>q. Some (b_blockhash q) = b_parenthash b) tbl = Some b"
  shows "traverse tbl x b acc = None"
proof -
  have "t = tbl \<longrightarrow> y = x \<longrightarrow> c \<noteq> b" if "traverse t y c acc = Some r" for t y c acc r
    using that
  proof (induction rule: traverse.raw_induct [rotated, consumes 1, case_names step])
    case (step loop t y c acc r)
    show ?case
    proof (intro impI notI)
      assume "t = tbl" "y = x" "c = b"
      with step(2) assms(2,3) have "loop tbl x b (acc @ [b]) = Some r" by simp
      then have "tbl = tbl \<longrightarrow> x = x \<longrightarrow> b \<noteq> b" by (rule step(1))
      then show False by simp
    qed
  qed
  then have "traverse tbl x b acc \<noteq> Some r" for r by blast
  then show ?thesis by (metis not_Some_eq)
qed

lemma walk_back_prefix:
  assumes "walk_back get_block known b acc = Some (Inr (bs, x))"
  shows "\<exists>more. bs = acc @ more \<and> (k_hash b \<notin> known \<longrightarrow> (\<exists>rest. more = b # rest))"
proof -
  have "\<forall>bs x. r = Inr (bs, x) \<longrightarrow> (\<exists>more. bs = acc @ more \<and> (k_hash b \<notin> known \<longrightarrow> (\<exists>rest. more = b # rest)))"
    if "walk_back get_block known b acc = Some r" for r
    using that
  proof (induction rule: walk_back.raw_induct [rotated, consumes 1, case_names step])
    case (step loop get_block known b acc r)
    show ?case
    proof (cases "k_hash b \<in> known \<or> k_parentHash b = default_padded_start_hash \<or> k_parentHash b \<in> known")
      case True
      with step(2) show ?thesis by (auto simp: Let_def split: sum.splits if_splits)
    next
      case False
      show ?thesis
      proof (cases "get_block (k_parentHash b)")
        case (Inl e)
        with step(2) False show ?thesis by (auto simp: Let_def)
      next
        case (Inr p)
        with step(2) False have "loop get_block known p (acc @ [b]) = Some r" by (simp add: Let_def)
        from step(1) [OF this] show ?thesis by fastforce
      qed
    qed
  qed
  with assms show ?thesis by blast
qed

section \<open>Properties\<close>

text \<open>The states the indexer reaches: indexing and reverting blocks, whether that succeeds or fails.\<close>

inductive indexer_reaches :: "indexer_state \<Rightarrow> bool" where
  start: "r_indexing_error (w_redis (fst s)) = None \<Longrightarrow> indexer_reaches s"
| block: "indexer_reaches s \<Longrightarrow> indexer_reaches (snd (index_block sv block changed s))"
| revert: "indexer_reaches (w, addresses) \<Longrightarrow> revert_blocks collation bs (w_db w) = Inr d \<Longrightarrow>
    indexer_reaches (w\<lparr>w_db := d\<rparr>, addresses)"

lemma reaches_unnamed: "indexer_reaches s \<Longrightarrow> error_unnamed (fst s)"
proof (induction rule: indexer_reaches.induct)
  case (start s)
  then show ?case by (simp add: error_unnamed_def)
next
  case (block s sv block changed)
  from block.IH show ?case by (rule index_block_unnamed)
next
  case (revert w addresses collation bs d)
  then show ?case by (simp add: error_unnamed_def)
qed


text \<open>A chain of three blocks; the last contains a transaction that creates a contract.\<close>

definition ex_chain_block :: "int \<Rightarrow> hash \<Rightarrow> hash \<Rightarrow> chain_tx list \<Rightarrow> chain_block" where
  "ex_chain_block n h p txs = \<lparr>k_number = n, k_hash = h, k_parentHash = p, k_timestamp = 100, k_transactions = txs\<rparr>"

definition ex_creation :: chain_tx where
  "ex_creation = \<lparr>tx_hash = ''0x1'', tx_to = None, tx_index = 0\<rparr>"

definition ex_get_block :: "hash \<Rightarrow> exc + chain_block" where
  "ex_get_block h =
     (if h = ''0xa'' then Inr (ex_chain_block 6 ''0xa'' default_padded_start_hash [])
      else if h = ''0xb'' then Inr (ex_chain_block 7 ''0xb'' ''0xa'' [])
      else if h = ''0xc'' then Inr (ex_chain_block 8 ''0xc'' ''0xb'' [ex_creation])
      else Inl (PyException ''BlockNotFound''))"

definition ex_raw_receipt :: receipt where
  "ex_raw_receipt = \<lparr>rc_users = sample_receipt ''0x1'' (\<lambda>t. []), rc_digital_contents = sample_receipt ''0x1'' (\<lambda>t. []),
     rc_social = sample_receipt ''0x1'' (\<lambda>t. []), rc_content_lists = sample_receipt ''0x1'' (\<lambda>t. []),
     rc_library = sample_receipt ''0x1'' (\<lambda>t. []), rc_replica_set = sample_receipt ''0x1'' (\<lambda>t. [])\<rparr>"

definition ex_indexer :: indexer_services where
  "ex_indexer = \<lparr>x_block_by_hash = ex_get_block,
     x_block_by_number = (\<lambda>n. ex_get_block (if n = 6 then ''0xa'' else if n = 7 then ''0xb'' else ''0xc'')),
     x_latest_block = ex_get_block ''0xb'', x_receipt = (\<lambda>h. Inr ex_raw_receipt), x_registry = Inr ''0xf'',
     x_checksum = (\<lambda>a. a), x_start_block = ''0xa'', x_processing_window = 10, x_sort_start_block = 0,
     x_metadata = ex_metadata_services, x_cnodes = [], x_users = ex_services, x_schedule = (\<lambda>n. turns),
     x_contents = ex_content_services, x_b58 = (\<lambda>bs. ''cid''), x_sp = ex_sp, x_responses = [],
     x_commit = (\<lambda>d. None), x_rpush = (\<lambda>e. True), x_collation = (\<lambda>a b. False)\<rparr>"

definition ex_addresses :: "contract_type \<Rightarrow> string" where
  "ex_addresses ty = (if ty = USER_FACTORY then ''0xu'' else ''0xo'')"

definition ex_table :: "block_row list" where
  "ex_table = [\<lparr>b_blockhash = ''0xa'', b_parenthash = Some ''0xa'', b_number = Some 6, b_is_current = True\<rparr>]"

definition ex_node :: indexer_state where
  "ex_node = (empty_world\<lparr>w_db := empty_db\<lparr>blocks := ex_table\<rparr>\<rparr>, ex_addresses)"




text \<open>
  A block that creates a contract can block the indexer for good: once any indexing error
  without a transaction hash is recorded (as that of every failed block is), indexing such a
  block raises, changes nothing in the database and records an error of the same kind, so
  every later attempt fails too, whatever the chain, the content nodes and the other nodes
  answer. (The transaction without a target is "skipped" by inserting a row with the recorded
  error's hash, and that column is not nullable.)
\<close>

theorem contract_creation_blocks_forever:
  assumes "stuck_on block s"
  shows "stuck_on block (fold (\<lambda>(sv, changed) s. snd (index_block sv block changed s)) attempts s) \<and>
    w_db (fst (fold (\<lambda>(sv, changed) s. snd (index_block sv block changed s)) attempts s)) = w_db (fst s) \<and>
    (\<forall>sv changed. \<exists>e. fst (index_block sv block changed s) = Inl e)"
proof -
  have one: "\<exists>e s'. index_block sv block changed s = (Inl e, s') \<and> stuck_on block s' \<and> w_db (fst s') = w_db (fst s)"
    if stuck: "stuck_on block s" for sv changed s
  proof -
    obtain r s' where run: "index_block sv block changed s = (r, s')" by (rule prod.exhaust)
    have session: "\<exists>e w' err. block_session sv addresses block changed (fst s) = (Inl e, w') \<and>
        r_indexing_error (w_redis w') = Some err \<and> er_txhash err = None \<and> er_blocknumber err \<noteq> None" for addresses
      using stuck_body [of block "fst s" "snd s" sv addresses changed] stuck
      by (auto simp: block_session_def scoped_session_def use_scoped_dispatch_queue_def)
    show ?thesis
      using run
    proof (cases rule: index_block_run)
      case (address e)
      with run stuck show ?thesis by simp
    next
      case (failed e addresses w')
      with session [of addresses] index_block_Inl [of sv block changed s e s'] run stuck
      show ?thesis by (auto simp: stuck_on_def)
    next
      case (indexed c addresses w')
      with session [of addresses] show ?thesis by simp
    qed
  qed
  have "stuck_on block (fold (\<lambda>(sv, changed) s. snd (index_block sv block changed s)) attempts s) \<and>
    w_db (fst (fold (\<lambda>(sv, changed) s. snd (index_block sv block changed s)) attempts s)) = w_db (fst s)"
    using assms
  proof (induction attempts arbitrary: s)
    case Nil
    then show ?case by simp
  next
    case (Cons a attempts)
    obtain sv changed where a: "a = (sv, changed)" by (rule prod.exhaust)
    from one [OF Cons.prems, of sv changed] obtain e s' where
      "index_block sv block changed s = (Inl e, s')" "stuck_on block s'" "w_db (fst s') = w_db (fst s)" by blast
    with Cons.IH [of s'] show ?case by (simp add: a)
  qed
  moreover have "\<exists>e. fst (index_block sv block changed s) = Inl e" for sv changed
    using one [OF assms, of sv changed] by auto
  ultimately show ?thesis by blast
qed

text \<open>Block 7 failed once for a missing document; block 8 with the creation is stuck.\<close>

definition ex_failed_node :: indexer_state where
  "ex_failed_node = ((fst ex_node)\<lparr>w_redis := set_indexing_error (Some 7) ''0xb'' None ''Did not fetch all CIDs'' False
     empty_redis\<rparr>, ex_addresses)"

theorem contract_creation_blocks_forever_witness:
  "stuck_on (ex_chain_block 8 ''0xc'' ''0xb'' [ex_creation]) ex_failed_node \<and>
   (\<exists>e. fst (index_block ex_indexer (ex_chain_block 8 ''0xc'' ''0xb'' [ex_creation]) None ex_failed_node) = Inl e)"
proof -
  have stuck: "stuck_on (ex_chain_block 8 ''0xc'' ''0xb'' [ex_creation]) ex_failed_node"
    by (simp add: stuck_on_def ex_failed_node_def ex_node_def ex_chain_block_def ex_creation_def tx_target_def
        set_indexing_error_def get_indexing_error_def empty_redis_def empty_world_def empty_db_def
        num_network_skipped_def sql_count_def MAX_NETWORK_LEVEL_SKIPPED_TX_def)
  from contract_creation_blocks_forever [OF stuck] stuck show ?thesis by blast
qed

text \<open>
  C38. The walk back from the latest block ends on an honest chain (blocks are served under
  their hash and numbers fall towards the first block), for any blocks table; when it does not
  raise, it returns the unknown blocks from the latest one down, each the child of the next,
  and the hash below the last of them, which the table knows or which is the start of the chain.
\<close>

theorem walk_back_terminates:
  assumes "honest_chain get_block" and "get_block h = Inr b"
  shows "\<exists>r. walk_back get_block known b [] = Some r \<and>
    (\<forall>bs x. r = Inr (bs, x) \<longrightarrow> new_chain bs h x \<and> (\<forall>c\<in>set bs. k_hash c \<notin> known) \<and>
      (x \<in> known \<or> x = default_config_start_hash))"
  using walk_back_returns [OF assms, of "[]" h known] by (simp add: walk_result_def)

theorem walk_back_terminates_witness:
  "\<exists>r. walk_back ex_get_block {''0xa''} (ex_chain_block 8 ''0xc'' ''0xb'' [ex_creation]) [] = Some r"
proof -
  have "honest_chain ex_get_block"
    by (auto simp: honest_chain_def ex_get_block_def ex_chain_block_def default_padded_start_hash_def split: if_splits)
  moreover have "ex_get_block ''0xc'' = Inr (ex_chain_block 8 ''0xc'' ''0xb'' [ex_creation])"
    by (simp add: ex_get_block_def)
  ultimately show ?thesis using walk_back_terminates by blast
qed


definition ex_two_blocks :: db where
  "ex_two_blocks = empty_db\<lparr>blocks := [(hd ex_table)\<lparr>b_is_current := False\<rparr>, ex_block]\<rparr>"


text \<open>
  The second loop need not end: \<open>initialize_blocks_table_if_necessary\<close> makes the first row
  of the blocks table its own parent, and when the loop comes to that row and it is not the
  intersection (as when the chain was reset below the start block), the loop never returns,
  whatever blocks were stored after it.
\<close>

theorem undo_past_start_diverges:
  assumes "initialize_blocks_table_if_necessary sv w = (Inr (), w')" and "blocks (w_db w) = []"
    and "x \<noteq> x_start_block sv"
  shows "\<exists>b. blocks (w_db w') = [b] \<and> traverse (blocks (w_db w') @ later) x b [] = None"
proof -
  from assms(1,2) obtain b where b: "blocks (w_db w') = [b]" "b_blockhash b = x_start_block sv"
    "b_parenthash b = Some (x_start_block sv)"
    by (auto simp: initialize_blocks_table_if_necessary_def py_defs elim!: py_bind_InrE dest!: scoped_session_Inr
        split: sum.splits)
  have "sql_first (\<lambda>q. Some (b_blockhash q) = b_parenthash b) ([b] @ later) = Some b"
    using b by (simp add: sql_first_def)
  with traverse_self_loop [of b x "[b] @ later" "[]"] assms(3) b show ?thesis by auto
qed

theorem undo_past_start_diverges_witness:
  "\<exists>w' b. initialize_blocks_table_if_necessary ex_indexer empty_world = (Inr (), w') \<and>
     blocks (w_db w') = [b] \<and> traverse [b] ''0xd'' b [] = None"
proof -
  have "fst (initialize_blocks_table_if_necessary ex_indexer empty_world) = Inr ()" by code_simp
  then obtain w' where run: "initialize_blocks_table_if_necessary ex_indexer empty_world = (Inr (), w')"
    by (metis prod.collapse)
  have "blocks (w_db empty_world) = []" "''0xd'' \<noteq> x_start_block ex_indexer"
    by (simp_all add: empty_world_def empty_db_def ex_indexer_def)
  from undo_past_start_diverges [OF run this, of "[]"] run show ?thesis by fastforce
qed

lemma get_latest_reads: "get_latest_block sv w = (Inr b, w') \<Longrightarrow> w' = w"
  by (auto simp: get_latest_block_def py_defs Let_def dest!: scoped_session_Inr split: if_splits sum.splits)

text \<open>
  C37. A run of the task that returns brings the node to its target: with \<open>w\<close> the node after the
  blocks table was initialized and \<open>latest\<close> the block \<open>get_latest_block\<close> chooses there, either
  the table already held that block or it is the only current block at the end.
\<close>

theorem task_reaches_target:
  assumes "update_task sv True s = Some (Inr u, s')"
  shows "\<exists>v w latest. initialize_blocks_table_if_necessary sv (fst s) = (Inr v, w) \<and>
    get_latest_block sv w = (Inr latest, w) \<and>
    (k_hash latest \<in> b_blockhash ` set (blocks (w_db w)) \<or> current_blocks (w_db (fst s')) = [k_hash latest])"
proof -
  from assms obtain v latest s1 s2 ib rb s3
    where init: "on_node (initialize_blocks_table_if_necessary sv) s = (Inr v, s1)"
      and latest: "on_node (get_latest_block sv) s1 = (Inr latest, s2)"
      and plan: "plan_update sv latest (fst s2) = Some (Inr (ib, rb))"
      and index: "index_blocks sv ib s3 = (Inr u, s')"
    by (auto simp: update_task_def opt_bind_def split: option.splits prod.splits sum.splits)
  obtain w where w: "get_latest_block sv w = (Inr latest, w)" "fst s2 = w" "fst s1 = w"
    using latest get_latest_reads by (fastforce simp: on_node_def split: prod.splits)
  have start: "initialize_blocks_table_if_necessary sv (fst s) = (Inr v, w)"
    using init w(3) by (auto simp: on_node_def split: prod.splits)
  have "current_blocks (w_db (fst s')) = [k_hash latest]" if "k_hash latest \<notin> b_blockhash ` set (blocks (w_db w))"
  proof -
    from plan obtain x where "walk_back (x_block_by_hash sv) (b_blockhash ` set (blocks (w_db w))) latest [] = Some (Inr (ib, x))"
      by (auto simp: plan_update_def w split: option.splits sum.splits prod.splits list.splits)
    with that obtain rest where ib: "ib = latest # rest" by (auto dest: walk_back_prefix)
    show ?thesis using index_blocks_all [OF index [unfolded ib]] .
  qed
  with w start show ?thesis by blast
qed

theorem task_reaches_target_witness:
  "\<exists>s'. update_task ex_indexer True ex_node = Some (Inr (), s') \<and>
     (\<exists>w latest. get_latest_block ex_indexer w = (Inr latest, w) \<and>
       (k_hash latest \<in> b_blockhash ` set (blocks (w_db w)) \<or> current_blocks (w_db (fst s')) = [k_hash latest]))"
proof -
  have "map_option fst (update_task ex_indexer True ex_node) = Some (Inr ())" by code_simp
  then obtain s' where run: "update_task ex_indexer True ex_node = Some (Inr (), s')" by auto
  from task_reaches_target [OF run] run show ?thesis by blast
qed

end
