(* ===== verification/Challenges.thy ===== *)
theory Challenges
  imports Slugs Tables
begin

text \<open>
  The shared part of the rewards challenges, src/challenges/challenge.py: the abstract class
  \<open>ChallengeUpdater\<close> as a record of its methods, and \<open>ChallengeManager\<close>, which turns the
  events of one type into rows of the table of user challenges. The contract of the updaters
  is the locale \<open>challenge_updates\<close>; the updaters themselves are in the theory Updaters.
\<close>

section \<open>Events and updaters\<close>

text \<open>\<open>EventMetadata\<close>, and \<open>FullEventMetadata\<close> with the specifier.\<close>

record event_metadata =
  em_block_number :: int
  em_user_id :: int
  em_extra :: "(string \<times> json) list"

record full_event_metadata = event_metadata +
  em_specifier :: string

text \<open>
  What the updaters use of their surroundings: \<open>datetime.fromtimestamp\<close> in the server's time
  zone (in seconds), the order in which the database returns the unordered query for listen
  streaks, and what else a commit may raise.
\<close>

record challenge_services =
  cs_fromtimestamp :: "timestamp \<Rightarrow> int"
  cs_scan_streaks :: "listen_streak_row list \<Rightarrow> listen_streak_row list"
  cs_commit :: "db \<Rightarrow> exc option"

text \<open>
  The methods of \<open>ChallengeUpdater\<close> the manager calls while it processes events. The user
  challenges are objects of the session that \<open>update_user_challenges\<close> mutates: here it
  returns them as it leaves them.
\<close>

record challenge_updater =
  u_update_user_challenges :: "challenge_services \<Rightarrow> challenge_event \<Rightarrow> user_challenge_row list \<Rightarrow>
     int option \<Rightarrow> full_event_metadata list \<Rightarrow> int option \<Rightarrow> (db, user_challenge_row list) py"
  u_on_after_challenge_creation :: "full_event_metadata list \<Rightarrow> (db, unit) py"
  u_generate_specifier :: "int \<Rightarrow> (string \<times> json) list \<Rightarrow> exc + string"
  u_should_create_new_challenge :: "db \<Rightarrow> int \<Rightarrow> exc + bool"

text \<open>The methods of the base class, which most updaters inherit.\<close>

definition default_updater :: challenge_updater where
  "default_updater = \<lparr>
     u_update_user_challenges = (\<lambda>cs event rows step_count metas starting_block. py_return rows),
     u_on_after_challenge_creation = (\<lambda>metas. py_return ()),
     u_generate_specifier = (\<lambda>user_id extra. Inr (str_int user_id)),
     u_should_create_new_challenge = (\<lambda>d user_id. Inr True)\<rparr>"

section \<open>The manager\<close>

record challenge_manager =
  m_challenge_id :: string
  m_did_init :: bool
  m_starting_block :: "int option"
  m_step_count :: "int option"
  m_challenge_type :: "challenge_type option"
  m_is_active :: bool

definition new_manager :: "string \<Rightarrow> challenge_manager" where
  "new_manager challenge_id = \<lparr>m_challenge_id = challenge_id, m_did_init = False,
     m_starting_block = None, m_step_count = None, m_challenge_type = None, m_is_active = False\<rparr>"

definition init_challenge :: "(challenge_manager \<times> db, unit) py" where
  "init_challenge =
     py_bind (py_gets (\<lambda>(m, d). sql_first (\<lambda>c. ch_id c = m_challenge_id m) (challenges d))) (\<lambda>challenge.
       case challenge of
         None \<Rightarrow> py_raise (PyException ''No matching challenge!'')
       | Some c \<Rightarrow> py_modify (\<lambda>(m, d).
           (m\<lparr>m_starting_block := ch_starting_block c, m_step_count := ch_step_count c,
              m_challenge_type := Some (ch_type c), m_did_init := True, m_is_active := ch_active c\<rparr>, d)))"

text \<open>A dictionary made of a list: a later value replaces an earlier one at its place.\<close>

definition dict_of :: "('v \<Rightarrow> 'k) \<Rightarrow> 'v list \<Rightarrow> ('k \<times> 'v) list" where
  "dict_of key vs = fold (\<lambda>v m. AList.update (key v) v m) vs []"

definition fetch_user_challenges :: "db \<Rightarrow> string \<Rightarrow> string list \<Rightarrow> user_challenge_row list" where
  "fetch_user_challenges d challenge_id specifiers =
     (let rows = filter (\<lambda>r. uc_challenge_id r = challenge_id \<and> uc_specifier r \<in> set specifiers) (user_challenges d);
          specifier_map = dict_of uc_specifier rows
      in List.map_filter (map_of specifier_map) specifiers)"

definition after_starting_block :: "challenge_manager \<Rightarrow> event_metadata list \<Rightarrow> event_metadata list" where
  "after_starting_block m metas =
     (case m_starting_block m of
        None \<Rightarrow> metas
      | Some b \<Rightarrow> filter (\<lambda>e. em_block_number e \<ge> b) metas)"

definition add_specifiers :: "challenge_updater \<Rightarrow> event_metadata list \<Rightarrow> exc + full_event_metadata list" where
  "add_specifiers up metas =
     exc_map (\<lambda>e. exc_bind (u_generate_specifier up (em_user_id e) (em_extra e)) (\<lambda>s.
       Inr (event_metadata.extend e \<lparr>em_specifier = s\<rparr>))) metas"

text \<open>
  Aggregate challenges: a new row only while the user has fewer than \<open>step_count\<close>. The set of
  new specifiers per user has as many elements as the events chosen so far for that user,
  since the specifiers are distinct.
\<close>

fun aggregate_creations ::
  "challenge_updater \<Rightarrow> challenge_manager \<Rightarrow> db \<Rightarrow> full_event_metadata list \<Rightarrow> full_event_metadata list \<Rightarrow>
    exc + full_event_metadata list" where
  "aggregate_creations up m d [] to_create = Inr to_create"
| "aggregate_creations up m d (e # es) to_create =
     (let user_id = em_user_id e;
          completion_count =
            sql_count (\<lambda>r. uc_challenge_id r = m_challenge_id m \<and> uc_user_id r = user_id) (user_challenges d) +
            length (remdups (map em_specifier (filter (\<lambda>c. em_user_id c = user_id) to_create)))
      in if (case m_step_count m of None \<Rightarrow> False | Some k \<Rightarrow> k \<noteq> 0 \<and> int completion_count \<ge> k)
         then aggregate_creations up m d es to_create
         else exc_bind (u_should_create_new_challenge up d user_id) (\<lambda>create.
           aggregate_creations up m d es (if create then to_create @ [e] else to_create)))"

definition create_new_user_challenge :: "challenge_manager \<Rightarrow> full_event_metadata \<Rightarrow> user_challenge_row" where
  "create_new_user_challenge m e =
     \<lparr>uc_challenge_id = m_challenge_id m, uc_user_id = em_user_id e, uc_specifier = em_specifier e,
      uc_is_complete = (m_challenge_type m = Some ChAggregate), uc_current_step_count = Some 0,
      uc_completed_blocknumber = None\<rparr>"

text \<open>
  The users to leave out are the rows of a query for one column. An integer is never equal to
  such a row, a tuple, so the test \<open>user_id not in deactivated_user_ids\<close> holds for every user.
\<close>

datatype id_row = IdRow int

datatype py_value = PyInt int | PyTuple "int list"

fun row_value :: "id_row \<Rightarrow> py_value" where
  "row_value (IdRow i) = PyTuple [i]"

definition deactivated_users :: "db \<Rightarrow> int list \<Rightarrow> id_row list" where
  "deactivated_users d user_ids =
     map (\<lambda>u. IdRow (us_user_id u))
       (filter (\<lambda>u. us_user_id u \<in> set user_ids \<and> us_is_deactivated u = JBool True) (users d))"

definition not_deactivated :: "id_row list \<Rightarrow> int \<Rightarrow> bool" where
  "not_deactivated rows user_id \<longleftrightarrow> PyInt user_id \<notin> row_value ` set rows"

text \<open>\<open>completed_blocknumber\<close> of the challenges that are complete now.\<close>

definition add_block_number ::
  "(string \<times> full_event_metadata) list \<Rightarrow> user_challenge_row \<Rightarrow> exc + user_challenge_row" where
  "add_block_number events_map c =
     (if uc_is_complete c then
        (case map_of events_map (uc_specifier c) of
           None \<Rightarrow> Inl (KeyError (uc_specifier c))
         | Some e \<Rightarrow> Inr (c\<lparr>uc_completed_blocknumber := Some (em_block_number e)\<rparr>))
      else Inr c)"

text \<open>
  The objects of the session that were changed, by primary key, and the new ones: what the
  commit writes. A new row whose object was changed is written as it is now.
\<close>

definition uc_key :: "user_challenge_row \<Rightarrow> string \<times> string" where
  "uc_key r = (uc_challenge_id r, uc_specifier r)"

definition current_object :: "user_challenge_row list \<Rightarrow> user_challenge_row \<Rightarrow> user_challenge_row" where
  "current_object updated r = (case find (\<lambda>u. uc_key u = uc_key r) updated of Some u \<Rightarrow> u | None \<Rightarrow> r)"

definition write_user_challenges ::
  "user_challenge_row list \<Rightarrow> user_challenge_row list \<Rightarrow> db \<Rightarrow> db" where
  "write_user_challenges updated new d =
     d\<lparr>user_challenges := map (current_object updated) (user_challenges d @ new)\<rparr>"

lemma write_user_challenges_rows:
  "user_challenges (write_user_challenges updated new d) = map (current_object updated) (user_challenges d @ new)"
  by (simp add: write_user_challenges_def)

text \<open>The primary keys of the tables the managers write; a violation makes the commit raise.\<close>

definition reward_keys_ok :: "db \<Rightarrow> bool" where
  "reward_keys_ok d \<longleftrightarrow> distinct (map uc_key (user_challenges d)) \<and>
     distinct (map ls_user_id (listen_streaks d)) \<and> distinct (map pc_user_id (profile_completions d)) \<and>
     distinct (map (\<lambda>r. (tr_rank r, tr_type r, tr_version r, tr_week r)) (trending_results d))"

definition commit_rewards :: "challenge_services \<Rightarrow> (db, unit) py" where
  "commit_rewards cs =
     py_bind (py_gets (\<lambda>d. if reward_keys_ok d then cs_commit cs d
                            else Some (PyException ''duplicate key value violates unique constraint''))) (\<lambda>failure.
       case failure of None \<Rightarrow> py_return () | Some e \<Rightarrow> py_raise e)"

text \<open>The events to create rows for.\<close>

definition creations ::
  "challenge_updater \<Rightarrow> challenge_manager \<Rightarrow> full_event_metadata list \<Rightarrow> db \<Rightarrow> exc + full_event_metadata list" where
  "creations up m events d =
     (let existing = fetch_user_challenges d (m_challenge_id m) (map em_specifier events);
          new_metas = filter (\<lambda>e. em_specifier e \<notin> uc_specifier ` set existing) events
      in if m_challenge_type m = Some ChAggregate then aggregate_creations up m d new_metas []
         else Inr new_metas)"

text \<open>The \<open>try\<close> block of \<open>process\<close>.\<close>

definition process_events_with_specifiers ::
  "challenge_updater \<Rightarrow> challenge_services \<Rightarrow> challenge_manager \<Rightarrow> challenge_event \<Rightarrow>
    (string \<times> full_event_metadata) list \<Rightarrow> (db, unit) py" where
  "process_events_with_specifiers up cs m event_type events_map =
     (let events = map snd events_map in
      py_bind (py_gets (\<lambda>d. fetch_user_challenges d (m_challenge_id m) (map em_specifier events))) (\<lambda>existing.
      py_bind (\<lambda>d. (creations up m events d, d)) (\<lambda>to_create.
      let new_user_challenges = map (create_new_user_challenge m) to_create;
          to_update = filter (\<lambda>c. \<not> uc_is_complete c) existing @ new_user_challenges
      in
      py_bind (py_gets (\<lambda>d. deactivated_users d (map uc_user_id to_update))) (\<lambda>deactivated.
      let to_create = filter (\<lambda>e. not_deactivated deactivated (em_user_id e)) to_create;
          to_update = filter (\<lambda>c. not_deactivated deactivated (uc_user_id c)) to_update
      in
      py_seq (u_on_after_challenge_creation up to_create)
     (py_bind (u_update_user_challenges up cs event_type to_update (m_step_count m) events (m_starting_block m))
        (\<lambda>updated.
      py_bind (py_lift (exc_map (add_block_number events_map) updated)) (\<lambda>updated.
      py_seq (py_modify (write_user_challenges updated new_user_challenges))
        (commit_rewards cs))))))))"

text \<open>
  \<open>process\<close>: what raises before the \<open>try\<close> block is propagated, what raises in it rolls the
  session back.
\<close>

definition process ::
  "challenge_updater \<Rightarrow> challenge_services \<Rightarrow> challenge_event \<Rightarrow> event_metadata list \<Rightarrow>
    (challenge_manager \<times> db, unit) py" where
  "process up cs event_type event_metadatas =
     py_bind (py_gets fst) (\<lambda>m.
     py_seq (if m_did_init m then py_return () else init_challenge)
    (py_bind (py_gets fst) (\<lambda>m.
       let metas = after_starting_block m event_metadatas in
       if \<not> m_is_active m then py_return ()
       else if metas = [] then py_return ()
       else py_bind (py_lift (add_specifiers up metas)) (\<lambda>events.
         py_modify (\<lambda>(m, d).
           (case process_events_with_specifiers up cs m event_type (dict_of em_specifier events) d of
              (Inl e, d') \<Rightarrow> (m, d)
            | (Inr u, d') \<Rightarrow> (m, d')))))))"

section \<open>The contract of an updater\<close>

text \<open>
  An updater may change the step counts and the completion of the user challenges it is given,
  and its own tables, but neither what a user challenge is about nor any other table.
\<close>

definition reward_frame :: "db \<Rightarrow> db \<Rightarrow> bool" where
  "reward_frame d d' \<longleftrightarrow> d' = d\<lparr>listen_streaks := listen_streaks d',
     profile_completions := profile_completions d', trending_results := trending_results d'\<rparr>"

definition uc_identity :: "user_challenge_row \<Rightarrow> string \<times> int \<times> string" where
  "uc_identity r = (uc_challenge_id r, uc_user_id r, uc_specifier r)"

lemma reward_frame_refl [simp]: "reward_frame d d"
  by (simp add: reward_frame_def)

lemma reward_frame_trans: "reward_frame d d' \<Longrightarrow> reward_frame d' d'' \<Longrightarrow> reward_frame d d''"
  unfolding reward_frame_def by (cases d, cases d', cases d'') simp

lemma reward_frame_same:
  assumes "reward_frame d d'"
  shows "user_challenges d' = user_challenges d" and "users d' = users d" and "follows d' = follows d"
    and "reposts d' = reposts d" and "saves d' = saves d" and "digital_contents d' = digital_contents d"
    and "challenges d' = challenges d"
  using assms unfolding reward_frame_def by (cases d, cases d', simp)+

lemma reward_frame_updates [simp]:
  "reward_frame d (s\<lparr>profile_completions := x\<rparr>) = reward_frame d s"
  "reward_frame d (s\<lparr>listen_streaks := y\<rparr>) = reward_frame d s"
  "reward_frame d (s\<lparr>trending_results := z\<rparr>) = reward_frame d s"
  unfolding reward_frame_def by (cases d, cases s, auto)+

lemma uc_identity_key: "uc_identity r = uc_identity q \<Longrightarrow> uc_key r = uc_key q"
  by (simp add: uc_identity_def uc_key_def)

locale challenge_updates =
  fixes up :: challenge_updater
  assumes update_frame:
    "u_update_user_challenges up cs event rows k metas b d = (r, d') \<Longrightarrow> reward_frame d d'"
  and update_identity:
    "u_update_user_challenges up cs event rows k metas b d = (Inr rows', d') \<Longrightarrow>
      map uc_identity rows' = map uc_identity rows"
  and creation_frame:
    "u_on_after_challenge_creation up metas d = (u, d') \<Longrightarrow> reward_frame d d'"

section \<open>What processing changes\<close>

lemma not_deactivated_always [simp]: "not_deactivated rows u"
proof -
  have "row_value r \<noteq> PyInt u" for r by (cases r) simp
  then show ?thesis unfolding not_deactivated_def by (metis imageE)
qed

lemma dict_of_entries: "(k, v) \<in> set (dict_of key vs) \<Longrightarrow> v \<in> set vs \<and> k = key v"
proof -
  have "(k, v) \<in> set (fold (\<lambda>v m. AList.update (key v) v m) vs m) \<Longrightarrow> v \<in> set vs \<and> k = key v \<or> (k, v) \<in> set m" for m
  proof (induction vs arbitrary: m)
    case (Cons a vs)
    have "(k, v) \<in> set (AList.update (key a) a m) \<Longrightarrow> (k, v) = (key a, a) \<or> (k, v) \<in> set m"
      by (induction m) (auto split: if_splits)
    with Cons show ?case by fastforce
  qed simp
  from this [of "[]"] show "(k, v) \<in> set (dict_of key vs) \<Longrightarrow> v \<in> set vs \<and> k = key v"
    by (simp add: dict_of_def)
qed

lemma distinct_dict_of: "distinct (map fst (dict_of key vs))"
proof -
  have "distinct (map fst m) \<Longrightarrow> distinct (map fst (fold (\<lambda>v m. AList.update (key v) v m) vs m))" for m
    by (induction vs arbitrary: m) (auto intro: distinct_update)
  from this [of "[]"] show ?thesis by (simp add: dict_of_def)
qed

lemma dict_of_keys: "fst ` set (dict_of key vs) = key ` set vs"
proof -
  have "fst ` set (fold (\<lambda>v m. AList.update (key v) v m) vs m) = fst ` set m \<union> key ` set vs" for m
    by (induction vs arbitrary: m) (auto simp: dom_update)
  from this [of "[]"] show ?thesis by (simp add: dict_of_def)
qed

lemma dict_of_key_list: "map key (map snd (dict_of key vs)) = map fst (dict_of key vs)"
  using dict_of_entries by (fastforce simp: comp_def)

text \<open>The rows the events refer to.\<close>

lemma fetched_rows:
  "r \<in> set (fetch_user_challenges d c specifiers) \<Longrightarrow>
    r \<in> set (user_challenges d) \<and> uc_challenge_id r = c \<and> uc_specifier r \<in> set specifiers"
  unfolding fetch_user_challenges_def Let_def set_map_filter
  by (auto dest!: map_of_SomeD dict_of_entries)

lemma fetched_specifiers:
  "uc_specifier ` set (fetch_user_challenges d c specifiers) =
    {uc_specifier r | r. r \<in> set (user_challenges d) \<and> uc_challenge_id r = c \<and> uc_specifier r \<in> set specifiers}"
  (is "_ = ?R")
proof
  show "uc_specifier ` set (fetch_user_challenges d c specifiers) \<subseteq> ?R"
    using fetched_rows by fast
  show "?R \<subseteq> uc_specifier ` set (fetch_user_challenges d c specifiers)"
  proof
    fix s assume "s \<in> ?R"
    then obtain r where r: "r \<in> set (user_challenges d)" "uc_challenge_id r = c" "uc_specifier r = s"
      "s \<in> set specifiers" by blast
    let ?m = "dict_of uc_specifier (filter (\<lambda>r. uc_challenge_id r = c \<and> uc_specifier r \<in> set specifiers) (user_challenges d))"
    have "s \<in> fst ` set ?m" using r unfolding dict_of_keys by auto
    then obtain q where q: "map_of ?m s = Some q" by (metis map_of_eq_None_iff option.exhaust)
    then have "uc_specifier q = s" by (auto dest: map_of_SomeD dict_of_entries)
    then show "s \<in> uc_specifier ` set (fetch_user_challenges d c specifiers)"
      using q r(4) unfolding fetch_user_challenges_def Let_def set_map_filter by blast
  qed
qed

lemma aggregate_creations_subset:
  "aggregate_creations up m d es acc = Inr res \<Longrightarrow> set res \<subseteq> set es \<union> set acc"
proof (induction es arbitrary: acc)
  case (Cons e es)
  from Cons.prems have "aggregate_creations up m d es acc = Inr res \<or>
      aggregate_creations up m d es (acc @ [e]) = Inr res"
    unfolding aggregate_creations.simps Let_def by (auto simp: exc_bind_Inr_iff split: if_splits)
  with Cons.IH [of acc] Cons.IH [of "acc @ [e]"] show ?case by auto
qed simp

lemma creations_fresh:
  assumes "creations up m events d = Inr to_create" and "e \<in> set to_create"
  shows "e \<in> set events" and "r \<in> set (user_challenges d) \<Longrightarrow> uc_key r \<noteq> (m_challenge_id m, em_specifier e)"
proof -
  let ?new = "filter (\<lambda>e. em_specifier e \<notin> uc_specifier `
    set (fetch_user_challenges d (m_challenge_id m) (map em_specifier events))) events"
  have "e \<in> set ?new"
    using assms aggregate_creations_subset [of up m d ?new "[]"] by (auto simp: creations_def Let_def split: if_splits)
  then show "e \<in> set events" "r \<in> set (user_challenges d) \<Longrightarrow> uc_key r \<noteq> (m_challenge_id m, em_specifier e)"
    by (auto simp: fetched_specifiers uc_key_def)
qed

text \<open>
  \<open>stamped em c c'\<close>: \<open>c'\<close> is the row \<open>c\<close> with the block number of its event, if it is
  complete.
\<close>

lemma add_block_number_result:
  assumes "add_block_number em c = Inr c'"
  shows "uc_identity c' = uc_identity c \<and> uc_is_complete c' = uc_is_complete c \<and>
    uc_current_step_count c' = uc_current_step_count c \<and>
    (uc_is_complete c' \<longrightarrow> (\<exists>e. (uc_specifier c', e) \<in> set em \<and> uc_completed_blocknumber c' = Some (em_block_number e)))"
  using assms map_of_SomeD [of em "uc_specifier c"]
  by (auto simp: add_block_number_def uc_identity_def split: if_splits option.splits)

text \<open>
  What a run of \<open>process\<close> does: it changes nothing but the manager's settings, or the rows
  that exist and the new rows become those the updater and \<open>add_block_number\<close> leave.
\<close>

definition rewards_step ::
  "challenge_updater \<Rightarrow> challenge_manager \<Rightarrow> event_metadata list \<Rightarrow> db \<Rightarrow> db \<Rightarrow> bool" where
  "rewards_step up m metas d d' \<longleftrightarrow> (\<exists>em to_create updated d1.
     distinct (map fst em) \<and> (\<forall>k e. (k, e) \<in> set em \<longrightarrow> em_specifier e = k \<and> event_metadata.truncate e \<in> set (after_starting_block m metas)) \<and>
     creations up m (map snd em) d = Inr to_create \<and> reward_frame d d1 \<and>
     map uc_identity updated = map uc_identity
       (filter (\<lambda>c. \<not> uc_is_complete c) (fetch_user_challenges d (m_challenge_id m) (map fst em)) @
        map (create_new_user_challenge m) to_create) \<and>
     (\<forall>c\<in>set updated. uc_is_complete c \<longrightarrow>
        (\<exists>e. (uc_specifier c, e) \<in> set em \<and> uc_completed_blocknumber c = Some (em_block_number e))) \<and>
     d' = write_user_challenges updated (map (create_new_user_challenge m) to_create) d1 \<and> reward_keys_ok d')"

text \<open>An initialized manager has the settings of the first row of its challenge.\<close>

definition settings_match :: "challenge_manager \<Rightarrow> db \<Rightarrow> bool" where
  "settings_match m d \<longleftrightarrow> (m_did_init m \<longrightarrow>
     (\<exists>c. sql_first (\<lambda>c. ch_id c = m_challenge_id m) (challenges d) = Some c \<and>
        m_starting_block m = ch_starting_block c \<and> m_step_count m = ch_step_count c \<and>
        m_challenge_type m = Some (ch_type c) \<and> m_is_active m = ch_active c))"

lemma rewards_step_challenges: "rewards_step up m metas d d' \<Longrightarrow> challenges d' = challenges d"
  unfolding rewards_step_def by (auto simp: write_user_challenges_def reward_frame_same)

lemma commit_rewards_Inr: "commit_rewards cs d = (Inr u, d') \<Longrightarrow> d' = d \<and> reward_keys_ok d"
  by (auto simp: commit_rewards_def py_defs split: if_splits option.splits)

context challenge_updates begin

lemma events_step:
  assumes "process_events_with_specifiers up cs m ev em d = (Inr u, d')"
    and "\<And>k e. (k, e) \<in> set em \<Longrightarrow> em_specifier e = k \<and> event_metadata.truncate e \<in> set (after_starting_block m metas)"
    and "distinct (map fst em)"
  shows "rewards_step up m metas d d'"
proof -
  let ?events = "map snd em"
  have keys: "map em_specifier ?events = map fst em"
    using assms(2) by (force simp: comp_def)
  let ?existing = "fetch_user_challenges d (m_challenge_id m) (map em_specifier ?events)"
  note run = assms(1) [unfolded process_events_with_specifiers_def Let_def py_seq_def not_deactivated_always
    filter_True py_lift_def]
  from run obtain to_create where create: "creations up m ?events d = Inr to_create"
    by (auto simp: py_gets_def elim!: py_bind_InrE)
  let ?new = "map (create_new_user_challenge m) to_create"
  from run create obtain d1 d2 rows updated
    where made: "u_on_after_challenge_creation up to_create d = (Inr (), d1)"
      and upd: "u_update_user_challenges up cs ev (filter (\<lambda>c. \<not> uc_is_complete c) ?existing @ ?new)
        (m_step_count m) ?events (m_starting_block m) d1 = (Inr rows, d2)"
      and stamp: "exc_map (add_block_number em) rows = Inr updated"
      and commit: "commit_rewards cs (write_user_challenges updated ?new d2) = (Inr u, d')"
    by (auto simp: py_gets_def py_modify_def elim!: py_bind_InrE)
  have rows: "list_all2 (\<lambda>c c'. add_block_number em c = Inr c') rows updated"
    using stamp by (rule exc_map_list_all2)
  then have "map uc_identity updated = map uc_identity rows"
    by (induction rule: list_all2_induct) (auto dest: add_block_number_result)
  moreover have "\<forall>c\<in>set updated. uc_is_complete c \<longrightarrow>
      (\<exists>e. (uc_specifier c, e) \<in> set em \<and> uc_completed_blocknumber c = Some (em_block_number e))"
    using rows by (induction rule: list_all2_induct) (auto dest: add_block_number_result)
  moreover have "reward_frame d d2"
    using creation_frame [OF made] update_frame [OF upd] by (rule reward_frame_trans)
  ultimately show ?thesis
    using create update_identity [OF upd] commit_rewards_Inr [OF commit] assms(2,3)
    unfolding rewards_step_def keys by (intro exI [of _ em] exI [of _ to_create] exI [of _ updated] exI [of _ d2]) auto
qed

lemma add_specifiers_events:
  assumes "add_specifiers up metas = Inr events" and "(k, e) \<in> set (dict_of em_specifier events)"
  shows "em_specifier e = k \<and> event_metadata.truncate e \<in> set metas"
proof -
  have "list_all2 (\<lambda>x y. exc_bind (u_generate_specifier up (em_user_id x) (em_extra x)) (\<lambda>s.
      Inr (event_metadata.extend x \<lparr>em_specifier = s\<rparr>)) = Inr y) metas events"
    using assms(1) unfolding add_specifiers_def by (rule exc_map_list_all2)
  then have "e \<in> set events \<Longrightarrow> event_metadata.truncate e \<in> set metas"
    by (induction rule: list_all2_induct)
      (auto simp: exc_bind_Inr_iff event_metadata.defs)
  with dict_of_entries [OF assms(2)] show ?thesis by simp
qed

text \<open>\<open>process\<close> as a whole.\<close>

lemma process_effect:
  assumes "process up cs ev metas (m, d) = (r, (m', d'))"
  shows "d' = d \<or> m_is_active m' \<and> m_did_init m' \<and> rewards_step up m' metas d d'"
    and "m_challenge_id m' = m_challenge_id m" and "settings_match m d \<Longrightarrow> settings_match m' d"
proof -
  have "\<exists>r1 m1. (if m_did_init m then py_return () else init_challenge) (m, d) = (r1, (m1, d)) \<and>
      m_challenge_id m1 = m_challenge_id m \<and> (settings_match m d \<longrightarrow> settings_match m1 d) \<and>
      (m_did_init m1 \<longleftrightarrow> \<not> (\<exists>e. r1 = Inl e))"
    by (auto simp: init_challenge_def py_defs settings_match_def split: option.split)
  then obtain r1 m1 where init: "(if m_did_init m then py_return () else init_challenge) (m, d) = (r1, (m1, d))"
    and keep: "m_challenge_id m1 = m_challenge_id m" "settings_match m d \<Longrightarrow> settings_match m1 d"
    and did: "m_did_init m1 \<longleftrightarrow> \<not> (\<exists>e. r1 = Inl e)" by blast
  let ?metas = "after_starting_block m1 metas"
  have body: "\<not> m_did_init m1 \<and> m' = m1 \<and> d' = d \<or> m_did_init m1 \<and>
    (if \<not> m_is_active m1 then py_return () else if ?metas = [] then py_return ()
      else py_bind (py_lift (add_specifiers up ?metas)) (\<lambda>events. py_modify (\<lambda>(m, d).
        (case process_events_with_specifiers up cs m ev (dict_of em_specifier events) d of
           (Inl e, d') \<Rightarrow> (m, d) | (Inr u, d') \<Rightarrow> (m, d'))))) (m1, d) = (r, (m', d'))"
    using assms init did by (auto simp: process_def Let_def py_seq_def py_bind_def py_gets_def split: sum.splits)
  have "m' = m1 \<and> (d' = d \<or> m_is_active m1 \<and> m_did_init m1 \<and> rewards_step up m1 metas d d')"
  proof (cases "m_did_init m1 \<and> m_is_active m1 \<and> ?metas \<noteq> [] \<and> (\<exists>es. add_specifiers up ?metas = Inr es)")
    case True
    then obtain events where active: "m_is_active m1" "m_did_init m1" "?metas \<noteq> []"
      and events: "add_specifiers up ?metas = Inr events" by blast
    obtain r2 d2 where run: "process_events_with_specifiers up cs m1 ev (dict_of em_specifier events) d = (r2, d2)"
      by (rule prod.exhaust)
    show ?thesis
    proof (cases r2)
      case (Inl e)
      with body active events run show ?thesis by (auto simp: py_defs)
    next
      case (Inr u)
      with body active events run have "m' = m1" "d' = d2" by (auto simp: py_defs)
      with events_step [OF run [unfolded Inr] add_specifiers_events [OF events] distinct_dict_of] active
      show ?thesis by blast
    qed
  next
    case False
    with body show ?thesis by (auto simp: py_defs split: if_splits sum.splits)
  qed
  with keep show "d' = d \<or> m_is_active m' \<and> m_did_init m' \<and> rewards_step up m' metas d d'"
    "m_challenge_id m' = m_challenge_id m" "settings_match m d \<Longrightarrow> settings_match m' d" by auto
qed

end

section \<open>What a step keeps\<close>

lemma current_object_key [simp]: "uc_key (current_object updated r) = uc_key r"
  by (auto simp: current_object_def find_Some_iff split: option.split)

text \<open>The number of rows of a user for a challenge.\<close>

definition challenge_count :: "db \<Rightarrow> string \<Rightarrow> int \<Rightarrow> nat" where
  "challenge_count d c u = sql_count (\<lambda>r. uc_challenge_id r = c \<and> uc_user_id r = u) (user_challenges d)"

text \<open>
  The rows after a step: each of the rows before it and of the new ones is either untouched
  or replaced by the updated row of the same identity, which was not complete before.
\<close>

lemma rewards_step_rows:
  assumes "rewards_step up m metas d d'"
  obtains em to_create f where "distinct (map fst em)"
    and "\<And>k e. (k, e) \<in> set em \<Longrightarrow> em_specifier e = k \<and> event_metadata.truncate e \<in> set (after_starting_block m metas)"
    and "creations up m (map snd em) d = Inr to_create"
    and "user_challenges d' = map f (user_challenges d @ map (create_new_user_challenge m) to_create)"
    and "\<And>r. r \<in> set (user_challenges d @ map (create_new_user_challenge m) to_create) \<Longrightarrow>
      uc_identity (f r) = uc_identity r"
    and "\<And>r. r \<in> set (user_challenges d) \<Longrightarrow> uc_is_complete r \<Longrightarrow> f r = r"
    and "\<And>r. r \<in> set (user_challenges d @ map (create_new_user_challenge m) to_create) \<Longrightarrow>
      f r = r \<and> r \<in> set (user_challenges d) \<or> uc_challenge_id r = m_challenge_id m \<and>
      (uc_is_complete (f r) \<longrightarrow>
        (\<exists>e. (uc_specifier r, e) \<in> set em \<and> uc_completed_blocknumber (f r) = Some (em_block_number e)))"
proof -
  from assms obtain em to_create updated d1 where em: "distinct (map fst em)"
      "\<And>k e. (k, e) \<in> set em \<Longrightarrow> em_specifier e = k \<and> event_metadata.truncate e \<in> set (after_starting_block m metas)"
    and create: "creations up m (map snd em) d = Inr to_create" and frame: "reward_frame d d1"
    and ids: "map uc_identity updated = map uc_identity
       (filter (\<lambda>c. \<not> uc_is_complete c) (fetch_user_challenges d (m_challenge_id m) (map fst em)) @
        map (create_new_user_challenge m) to_create)"
    and stamp: "\<And>c. c \<in> set updated \<Longrightarrow> uc_is_complete c \<Longrightarrow>
        (\<exists>e. (uc_specifier c, e) \<in> set em \<and> uc_completed_blocknumber c = Some (em_block_number e))"
    and d': "d' = write_user_challenges updated (map (create_new_user_challenge m) to_create) d1"
    and ok: "reward_keys_ok d'"
    unfolding rewards_step_def by blast
  let ?f = "current_object updated" and ?new = "map (create_new_user_challenge m) to_create"
  let ?rows = "user_challenges d @ ?new"
  have rows': "user_challenges d' = map ?f ?rows"
    by (simp add: d' write_user_challenges_def reward_frame_same(1) [OF frame])
  with ok have dist: "distinct (map uc_key ?rows)" by (simp add: reward_keys_ok_def comp_def)
  have changed: "\<exists>u\<in>set updated. ?f r = u \<and> uc_identity u = uc_identity r \<and> uc_challenge_id r = m_challenge_id m \<and>
      (r \<in> set (user_challenges d) \<longrightarrow> \<not> uc_is_complete r)"
    if r: "r \<in> set ?rows" and some: "find (\<lambda>u. uc_key u = uc_key r) updated \<noteq> None" for r
  proof -
    from some obtain u where find: "find (\<lambda>u. uc_key u = uc_key r) updated = Some u" by auto
    then have u: "u \<in> set updated" "uc_key u = uc_key r" "?f r = u"
      using sql_first_SomeD [of "\<lambda>u. uc_key u = uc_key r" updated u]
      by (auto simp: current_object_def sql_first_def)
    have "uc_identity u \<in> uc_identity ` set (filter (\<lambda>c. \<not> uc_is_complete c)
        (fetch_user_challenges d (m_challenge_id m) (map fst em)) @ ?new)"
      using imageI [OF u(1), of uc_identity] unfolding set_map [symmetric] ids by simp
    then obtain q where q: "uc_identity q = uc_identity u"
      "q \<in> set (filter (\<lambda>c. \<not> uc_is_complete c) (fetch_user_challenges d (m_challenge_id m) (map fst em))) \<or> q \<in> set ?new"
      by auto
    have "q \<in> set ?rows" using q(2) fetched_rows by fastforce
    moreover have "uc_key q = uc_key r" using uc_identity_key [OF q(1)] u(2) by simp
    ultimately have "q = r" using r dist unfolding distinct_map by (meson inj_onD)
    moreover have "q \<in> set ?new \<Longrightarrow> q \<notin> set (user_challenges d)"
      using dist by (auto simp: image_iff)
    moreover have "uc_challenge_id q = m_challenge_id m"
      using q(2) by (auto dest: fetched_rows simp: create_new_user_challenge_def)
    ultimately show ?thesis using u q by auto
  qed
  have always: "find (\<lambda>u. uc_key u = uc_key r) updated \<noteq> None" if "r \<in> set ?new" for r
  proof -
    have "uc_identity r \<in> set (map uc_identity updated)" using that unfolding ids by auto
    then show ?thesis by (auto simp: find_None_iff uc_identity_def uc_key_def)
  qed
  have idle: "?f r = r" if "find (\<lambda>u. uc_key u = uc_key r) updated = None" for r
    using that by (simp add: current_object_def)
  show thesis
  proof (rule that [OF em create rows'])
    fix r assume r: "r \<in> set ?rows"
    show "uc_identity (?f r) = uc_identity r" using changed [OF r] idle by metis
    show "?f r = r \<and> r \<in> set (user_challenges d) \<or> uc_challenge_id r = m_challenge_id m \<and>
      (uc_is_complete (?f r) \<longrightarrow>
        (\<exists>e. (uc_specifier r, e) \<in> set em \<and> uc_completed_blocknumber (?f r) = Some (em_block_number e)))"
    proof (cases "find (\<lambda>u. uc_key u = uc_key r) updated")
      case None
      then have "r \<notin> set ?new" using always by blast
      then have "r \<in> set (user_challenges d)" using r by simp
      then show ?thesis using idle [OF None] by simp
    next
      case (Some u)
      with changed [OF r] obtain u where u: "u \<in> set updated" "?f r = u" "uc_identity u = uc_identity r"
        "uc_challenge_id r = m_challenge_id m" by auto
      with stamp [OF u(1)] show ?thesis by (auto simp: uc_identity_def)
    qed
  next
    fix r assume r: "r \<in> set (user_challenges d)" "uc_is_complete r"
    then show "?f r = r" using changed [of r] idle [of r] by (metis UnCI set_append)
  qed
qed

text \<open>Three consequences: completed challenges are final, and every completion is dated.\<close>

lemma rewards_step_final:
  assumes "rewards_step up m metas d d'" and "r \<in> set (user_challenges d)" and "uc_is_complete r"
  shows "r \<in> set (user_challenges d')"
  using assms(1)
proof (rule rewards_step_rows)
  fix em to_create f
  assume rows: "user_challenges d' = map f (user_challenges d @ map (create_new_user_challenge m) to_create)"
    and keep: "\<And>r. r \<in> set (user_challenges d) \<Longrightarrow> uc_is_complete r \<Longrightarrow> f r = r"
  have "f r \<in> set (user_challenges d')" using assms(2) by (simp add: rows)
  then show ?thesis using keep [OF assms(2,3)] by simp
qed

lemma rewards_step_dated:
  assumes "rewards_step up m metas d d'" and "r \<in> set (user_challenges d')" and "uc_is_complete r"
  shows "r \<in> set (user_challenges d) \<or> uc_challenge_id r = m_challenge_id m \<and>
    (\<exists>e\<in>set (after_starting_block m metas). uc_completed_blocknumber r = Some (em_block_number e))"
  using assms(1)
proof (rule rewards_step_rows)
  fix em to_create f
  let ?rows = "user_challenges d @ map (create_new_user_challenge m) to_create"
  assume events: "\<And>k e. (k, e) \<in> set em \<Longrightarrow> em_specifier e = k \<and> event_metadata.truncate e \<in> set (after_starting_block m metas)"
    and rows: "user_challenges d' = map f ?rows"
    and same: "\<And>r. r \<in> set ?rows \<Longrightarrow> uc_identity (f r) = uc_identity r"
    and step: "\<And>r. r \<in> set ?rows \<Longrightarrow> f r = r \<and> r \<in> set (user_challenges d) \<or>
      uc_challenge_id r = m_challenge_id m \<and> (uc_is_complete (f r) \<longrightarrow>
        (\<exists>e. (uc_specifier r, e) \<in> set em \<and> uc_completed_blocknumber (f r) = Some (em_block_number e)))"
  from assms(2) obtain q where q: "q \<in> set ?rows" "r = f q" unfolding rows set_map by blast
  show ?thesis
  proof (cases "f q = q \<and> q \<in> set (user_challenges d)")
    case False
    with step [OF q(1)] q(2) assms(3) obtain e where e: "uc_challenge_id q = m_challenge_id m"
      "(uc_specifier q, e) \<in> set em" "uc_completed_blocknumber r = Some (em_block_number e)" by auto
    with events [OF e(2)] same [OF q(1)] q(2) show ?thesis
      by (auto simp: uc_identity_def event_metadata.defs intro!: bexI [of _ "event_metadata.truncate e"])
  qed (use q in auto)
qed

lemma rewards_step_counts:
  assumes "rewards_step up m metas d d'"
  obtains to_create em where "creations up m (map snd em) d = Inr to_create"
    and "distinct (map fst em)" and "\<And>k e. (k, e) \<in> set em \<Longrightarrow> em_specifier e = k"
    and "\<And>c u. challenge_count d' c u = challenge_count d c u +
      (if c = m_challenge_id m then length (filter (\<lambda>e. em_user_id e = u) to_create) else 0)"
  using assms
proof (rule rewards_step_rows)
  fix em to_create f
  let ?new = "map (create_new_user_challenge m) to_create"
  assume em: "distinct (map fst em)" "creations up m (map snd em) d = Inr to_create"
    "\<And>k e. (k, e) \<in> set em \<Longrightarrow> em_specifier e = k \<and> event_metadata.truncate e \<in> set (after_starting_block m metas)"
    and rows: "user_challenges d' = map f (user_challenges d @ ?new)"
    and same: "\<And>r. r \<in> set (user_challenges d @ ?new) \<Longrightarrow> uc_identity (f r) = uc_identity r"
  have "challenge_count d' c u = challenge_count d c u +
      (if c = m_challenge_id m then length (filter (\<lambda>e. em_user_id e = u) to_create) else 0)" for c u
  proof -
    have "filter (\<lambda>r. uc_challenge_id r = c \<and> uc_user_id r = u) (user_challenges d') =
        map f (filter (\<lambda>r. uc_challenge_id r = c \<and> uc_user_id r = u) (user_challenges d @ ?new))"
      unfolding rows filter_map comp_def
      by (rule arg_cong [where f = "map f"], rule filter_cong [OF refl])
        (use same in \<open>auto simp: uc_identity_def\<close>)
    then show ?thesis
      by (simp add: challenge_count_def sql_count_def filter_map comp_def create_new_user_challenge_def)
  qed
  with em that show thesis by blast
qed

subsection \<open>Aggregate challenges\<close>

lemma aggregate_creations_bounded:
  assumes "aggregate_creations up m d es acc = Inr res" and "m_step_count m = Some k" and "k \<noteq> 0"
    and "distinct (map em_specifier (acc @ es))"
    and "\<And>u. filter (\<lambda>e. em_user_id e = u) acc = [] \<or>
      int (challenge_count d (m_challenge_id m) u + length (filter (\<lambda>e. em_user_id e = u) acc)) \<le> k"
  shows "filter (\<lambda>e. em_user_id e = u) res = [] \<or>
    int (challenge_count d (m_challenge_id m) u + length (filter (\<lambda>e. em_user_id e = u) res)) \<le> k"
  using assms(1,4,5)
proof (induction es arbitrary: acc)
  case Nil
  then show ?case by simp
next
  case (Cons e es)
  let ?of = "\<lambda>u. filter (\<lambda>e. em_user_id e = u)"
  have card: "length (remdups (map em_specifier (?of u acc))) = length (?of u acc)" for u
    using Cons.prems(2) by (simp add: distinct_remdups_id distinct_map inj_on_def)
  have skip: ?thesis if "aggregate_creations up m d es acc = Inr res"
    using that Cons.prems(2,3) by (intro Cons.IH [OF that]) auto
  show ?case
  proof (cases "int (challenge_count d (m_challenge_id m) (em_user_id e) + length (?of (em_user_id e) acc)) \<ge> k")
    case True
    with Cons.prems(1) have "aggregate_creations up m d es acc = Inr res"
      by (simp add: Let_def assms(2,3) card challenge_count_def)
    then show ?thesis by (rule skip)
  next
    case False
    with Cons.prems(1) have "aggregate_creations up m d es acc = Inr res \<or>
        aggregate_creations up m d es (acc @ [e]) = Inr res"
      by (auto simp: Let_def assms(2,3) card challenge_count_def exc_bind_Inr_iff split: if_splits)
    then show ?thesis
    proof
      assume rest: "aggregate_creations up m d es (acc @ [e]) = Inr res"
      show ?thesis
      proof (rule Cons.IH [OF rest])
        show "distinct (map em_specifier ((acc @ [e]) @ es))" using Cons.prems(2) by simp
        show "?of u (acc @ [e]) = [] \<or>
          int (challenge_count d (m_challenge_id m) u + length (?of u (acc @ [e]))) \<le> k" for u
          using Cons.prems(3) [of u] False by auto
      qed
    qed (rule skip)
  qed
qed

text \<open>A step never takes a user of an aggregate challenge above the number of its steps.\<close>

lemma rewards_step_aggregate:
  assumes "rewards_step up m metas d d'" and "m_challenge_type m = Some ChAggregate"
    and "m_step_count m = Some k" and "k \<noteq> 0"
  shows "int (challenge_count d' (m_challenge_id m) u) \<le> max k (int (challenge_count d (m_challenge_id m) u))"
  using assms(1)
proof (rule rewards_step_counts)
  fix to_create em
  assume create: "creations up m (map snd em) d = Inr to_create"
    and em: "distinct (map fst em)" "\<And>k e. (k, e) \<in> set em \<Longrightarrow> em_specifier e = k"
    and count: "\<And>c u. challenge_count d' c u = challenge_count d c u +
      (if c = m_challenge_id m then length (filter (\<lambda>e. em_user_id e = u) to_create) else 0)"
  have "map (em_specifier \<circ> snd) em = map fst em" using em(2) by (auto simp: comp_def)
  with em(1) have dist: "distinct (map em_specifier (map snd em))" by (simp only: map_map)
  from create assms(2) obtain es where agg: "aggregate_creations up m d es [] = Inr to_create"
    and es: "es = filter (\<lambda>e. em_specifier e \<notin> uc_specifier `
      set (fetch_user_challenges d (m_challenge_id m) (map em_specifier (map snd em)))) (map snd em)"
    unfolding creations_def Let_def by auto
  have "distinct (map em_specifier es)" unfolding es by (rule distinct_map_filter [OF dist])
  with aggregate_creations_bounded [OF agg assms(3,4), of u] count [of "m_challenge_id m" u]
  show ?thesis by auto
qed

end
