(* ===== verification/Updaters.thy ===== *)
theory Updaters
  imports Challenges Users
begin

text \<open>
  The challenges of src/challenges, one updater per class: profile completion, listen streak,
  digital content upload, referrals, trending results, and the challenges a single event
  completes. Each is an interpretation of the contract \<open>challenge_updates\<close>.
\<close>

section \<open>Python formatting\<close>

text \<open>The values of an event's \<open>extra\<close> inside an f-string.\<close>

definition hex_digit :: "nat \<Rightarrow> char" where
  "hex_digit n = ''0123456789abcdef'' ! n"

definition repr_char :: "char \<Rightarrow> char \<Rightarrow> string" where
  "repr_char q c =
     (let n = of_char c :: nat in
      if c = CHR 0x5C \<or> c = q then [CHR 0x5C, c]
      else if n = 10 then [CHR 0x5C, CHR ''n'']
      else if n = 13 then [CHR 0x5C, CHR ''r'']
      else if n = 9 then [CHR 0x5C, CHR ''t'']
      else if n < 32 \<or> n = 127 then [CHR 0x5C, CHR ''x'', hex_digit (n div 16), hex_digit (n mod 16)]
      else [c])"

definition repr_str :: "string \<Rightarrow> string" where
  "repr_str s =
     (let q = (if CHR 0x27 \<in> set s \<and> CHR 0x22 \<notin> set s then CHR 0x22 else CHR 0x27)
      in [q] @ concat (map (repr_char q) s) @ [q])"

fun join :: "string \<Rightarrow> string list \<Rightarrow> string" where
  "join sep [] = []"
| "join sep [x] = x"
| "join sep (x # y # xs) = x @ sep @ join sep (y # xs)"

fun py_repr :: "json \<Rightarrow> string" where
  "py_repr JNull = ''None''"
| "py_repr (JBool b) = (if b then ''True'' else ''False'')"
| "py_repr (JInt i) = str_int i"
| "py_repr (JStr s) = repr_str s"
| "py_repr (JList xs) = ''['' @ join '', '' (map py_repr xs) @ '']''"
| "py_repr (JObj kvs) = ''{'' @ join '', '' (map (\<lambda>kv. repr_str (fst kv) @ '': '' @ py_repr (snd kv)) kvs) @ ''}''"

definition py_format :: "json \<Rightarrow> string" where
  "py_format j = (case j of JStr s \<Rightarrow> s | _ \<Rightarrow> py_repr j)"

text \<open>\<open>extra[key]\<close>\<close>

definition dict_get :: "(string \<times> json) list \<Rightarrow> string \<Rightarrow> exc + json" where
  "dict_get extra key = (case map_of extra key of None \<Rightarrow> Inl (KeyError key) | Some j \<Rightarrow> Inr j)"

section \<open>Challenges one event completes\<close>

definition complete_all :: "challenge_services \<Rightarrow> challenge_event \<Rightarrow> user_challenge_row list \<Rightarrow>
    int option \<Rightarrow> full_event_metadata list \<Rightarrow> int option \<Rightarrow> (db, user_challenge_row list) py" where
  "complete_all cs event ucs step_count event_metadatas starting_block =
     py_return (map (\<lambda>c. c\<lparr>uc_is_complete := True\<rparr>) ucs)"

definition ConnectVerifiedChallengeUpdater :: challenge_updater where
  "ConnectVerifiedChallengeUpdater = default_updater\<lparr>u_update_user_challenges := complete_all\<rparr>"

definition MobileInstallChallengeUpdater :: challenge_updater where
  "MobileInstallChallengeUpdater = default_updater\<lparr>u_update_user_challenges := complete_all\<rparr>"

definition SendFirstTipChallengeUpdater :: challenge_updater where
  "SendFirstTipChallengeUpdater = default_updater\<lparr>u_update_user_challenges := complete_all\<rparr>"

definition FirstContentListChallengeUpdater :: challenge_updater where
  "FirstContentListChallengeUpdater = default_updater\<lparr>u_update_user_challenges := complete_all\<rparr>"

definition ReferredChallengeUpdater :: challenge_updater where
  "ReferredChallengeUpdater = default_updater\<lparr>u_update_user_challenges := complete_all\<rparr>"

section \<open>Referrals\<close>

definition generate_referral_specifier :: "int \<Rightarrow> (string \<times> json) list \<Rightarrow> exc + string" where
  "generate_referral_specifier user_id extra =
     exc_bind (dict_get extra ''referred_user_id'') (\<lambda>j. Inr (str_int user_id @ ''=>'' @ py_format j))"

text \<open>\<open>one_or_none\<close> raises on several rows.\<close>

definition does_user_exist_with_verification_status :: "bool \<Rightarrow> db \<Rightarrow> int \<Rightarrow> exc + bool" where
  "does_user_exist_with_verification_status is_verified d user_id =
     (case filter (\<lambda>u. us_user_id u = user_id \<and> us_is_current u \<and> us_is_verified u = is_verified) (users d) of
        [] \<Rightarrow> Inr False
      | [u] \<Rightarrow> Inr True
      | _ \<Rightarrow> Inl (PyException ''Multiple rows were found when one or none was required''))"

definition ReferralChallengeUpdater :: challenge_updater where
  "ReferralChallengeUpdater = default_updater\<lparr>
     u_generate_specifier := generate_referral_specifier,
     u_should_create_new_challenge := does_user_exist_with_verification_status False\<rparr>"

definition VerifiedReferralChallengeUpdater :: challenge_updater where
  "VerifiedReferralChallengeUpdater = default_updater\<lparr>
     u_generate_specifier := generate_referral_specifier,
     u_should_create_new_challenge := does_user_exist_with_verification_status True\<rparr>"

section \<open>Trending results\<close>

definition trending_result :: "full_event_metadata \<Rightarrow> exc + trending_row" where
  "trending_result e =
     (let get = dict_get (em_extra e) in
      exc_bind (get ''user_id'') (\<lambda>user_id. exc_bind (get ''id'') (\<lambda>i. exc_bind (get ''rank'') (\<lambda>rank.
      exc_bind (get ''type'') (\<lambda>ty. exc_bind (get ''version'') (\<lambda>version. exc_bind (get ''week'') (\<lambda>week.
        Inr \<lparr>tr_user_id = user_id, tr_id = i, tr_rank = rank, tr_type = ty, tr_version = version, tr_week = week\<rparr>)))))))"

definition add_trending_results :: "full_event_metadata list \<Rightarrow> (db, unit) py" where
  "add_trending_results metadatas =
     py_bind (py_lift (exc_map trending_result metadatas)) (\<lambda>rows.
       py_modify (\<lambda>d. d\<lparr>trending_results := trending_results d @ rows\<rparr>))"

definition trending_specifier :: "int \<Rightarrow> (string \<times> json) list \<Rightarrow> exc + string" where
  "trending_specifier user_id extra =
     exc_bind (dict_get extra ''week'') (\<lambda>week. exc_bind (dict_get extra ''rank'') (\<lambda>rank.
       Inr (py_format week @ '':'' @ py_format rank)))"

definition TrendingChallengeUpdater :: challenge_updater where
  "TrendingChallengeUpdater = default_updater\<lparr>
     u_update_user_challenges := complete_all,
     u_on_after_challenge_creation := add_trending_results,
     u_generate_specifier := trending_specifier\<rparr>"

section \<open>Uploads\<close>

definition counts_as_upload :: "int \<Rightarrow> digital_content_row \<Rightarrow> bool" where
  "counts_as_upload block_number t \<longleftrightarrow>
     (case dc_blocknumber t of None \<Rightarrow> False | Some n \<Rightarrow> n \<ge> block_number) \<and>
     dc_is_current t \<and> \<not> dc_is_delete t \<and> dc_is_unlisted t = JBool False \<and> dc_stem_of t = JNull"

definition num_digital_content_uploads :: "int \<Rightarrow> db \<Rightarrow> int \<Rightarrow> nat" where
  "num_digital_content_uploads block_number d user_id =
     sql_count (\<lambda>t. dc_owner_id t = Some user_id \<and> counts_as_upload block_number t) (digital_contents d)"

definition update_uploads :: "challenge_services \<Rightarrow> challenge_event \<Rightarrow> user_challenge_row list \<Rightarrow>
    int option \<Rightarrow> full_event_metadata list \<Rightarrow> int option \<Rightarrow> (db, user_challenge_row list) py" where
  "update_uploads cs event ucs step_count event_metadatas starting_block =
     (case (step_count, starting_block) of
        (Some k, Some b) \<Rightarrow>
          py_gets (\<lambda>d. map (\<lambda>c.
            let n = int (num_digital_content_uploads b d (uc_user_id c))
            in c\<lparr>uc_current_step_count := Some n, uc_is_complete := (n \<ge> k)\<rparr>) ucs)
      | _ \<Rightarrow> py_raise (PyException ''Expected a step count and starting block for digital_content upload challenge''))"

definition DigitalContentUploadChallengeUpdater :: challenge_updater where
  "DigitalContentUploadChallengeUpdater = default_updater\<lparr>u_update_user_challenges := update_uploads\<rparr>"

section \<open>Profile completion\<close>

definition REPOST_THRESHOLD :: nat where "REPOST_THRESHOLD = 1"

definition FOLLOW_THRESHOLD :: nat where "FOLLOW_THRESHOLD = 5"

definition FAVORITES_THRESHOLD :: nat where "FAVORITES_THRESHOLD = 1"

text \<open>One turn of the loop over the users' rows.\<close>

definition handle_profile_update :: "user_row \<Rightarrow> unit \<Rightarrow> (db, unit) py" where
  "handle_profile_update u acc =
     py_bind (py_gets (\<lambda>d. sql_first (\<lambda>p. pc_user_id p = us_user_id u) (profile_completions d))) (\<lambda>completion.
       case completion of
         None \<Rightarrow> py_raise (KeyError (str_int (us_user_id u)))
       | Some p \<Rightarrow> py_modify (\<lambda>d. d\<lparr>profile_completions :=
           sql_update (\<lambda>p. pc_user_id p = us_user_id u) (\<lambda>p. p
             \<lparr>pc_profile_description := (us_bio u \<noteq> JNull),
              pc_profile_name := (us_name u \<noteq> JNull),
              pc_profile_picture := (us_profile_picture u \<noteq> JNull \<or> us_profile_picture_sizes u \<noteq> JNull),
              pc_profile_cover_photo := (us_cover_photo u \<noteq> JNull \<or> us_cover_photo_sizes u \<noteq> JNull)\<rparr>)
             (profile_completions d)\<rparr>))"

definition handle_profile_updates :: "int list \<Rightarrow> (db, unit) py" where
  "handle_profile_updates user_ids =
     py_bind (py_gets (\<lambda>d. filter (\<lambda>u. us_user_id u \<in> set user_ids \<and> us_is_current u) (users d))) (\<lambda>us.
       py_for handle_profile_update us ())"

definition handle_reposts :: "int list \<Rightarrow> db \<Rightarrow> db" where
  "handle_reposts user_ids d = d\<lparr>profile_completions :=
     sql_update (\<lambda>p. pc_user_id p \<in> set user_ids) (\<lambda>p. p\<lparr>pc_reposts :=
       (sql_count (\<lambda>r. it_is_current r \<and> it_user_id r = pc_user_id p \<and> \<not> it_is_delete r) (reposts d)
          \<ge> REPOST_THRESHOLD)\<rparr>) (profile_completions d)\<rparr>"

definition handle_follow :: "int list \<Rightarrow> db \<Rightarrow> db" where
  "handle_follow user_ids d = d\<lparr>profile_completions :=
     sql_update (\<lambda>p. pc_user_id p \<in> set user_ids) (\<lambda>p. p\<lparr>pc_follows :=
       (sql_count (\<lambda>r. fl_is_current r \<and> fl_follower_user_id r = pc_user_id p \<and> \<not> fl_is_delete r) (follows d)
          \<ge> FOLLOW_THRESHOLD)\<rparr>) (profile_completions d)\<rparr>"

definition handle_favorite :: "int list \<Rightarrow> db \<Rightarrow> db" where
  "handle_favorite user_ids d = d\<lparr>profile_completions :=
     sql_update (\<lambda>p. pc_user_id p \<in> set user_ids) (\<lambda>p. p\<lparr>pc_favorites :=
       (sql_count (\<lambda>r. it_is_current r \<and> it_user_id r = pc_user_id p \<and> \<not> it_is_delete r) (saves d)
          \<ge> FAVORITES_THRESHOLD)\<rparr>) (profile_completions d)\<rparr>"

definition get_steps_complete :: "profile_row \<Rightarrow> int" where
  "get_steps_complete p =
     of_bool (pc_profile_description p) + of_bool (pc_profile_name p) + of_bool (pc_profile_picture p) +
     of_bool (pc_profile_cover_photo p) + of_bool (pc_follows p) + of_bool (pc_favorites p) +
     of_bool (pc_reposts p)"

definition profile_progress ::
  "profile_row list \<Rightarrow> int option \<Rightarrow> user_challenge_row \<Rightarrow> exc + user_challenge_row" where
  "profile_progress partial_completions step_count c =
     (case map_of (dict_of pc_user_id partial_completions) (uc_user_id c) of
        None \<Rightarrow> Inl (KeyError (str_int (uc_user_id c)))
      | Some p \<Rightarrow> Inr (c\<lparr>uc_current_step_count := Some (get_steps_complete p),
          uc_is_complete := (Some (get_steps_complete p) = step_count)\<rparr>))"

definition update_profile :: "challenge_services \<Rightarrow> challenge_event \<Rightarrow> user_challenge_row list \<Rightarrow>
    int option \<Rightarrow> full_event_metadata list \<Rightarrow> int option \<Rightarrow> (db, user_challenge_row list) py" where
  "update_profile cs event ucs step_count event_metadatas starting_block =
     (let user_ids = map uc_user_id ucs in
      py_seq
        (if event = profile_update then handle_profile_updates user_ids
         else if event = repost then py_modify (handle_reposts user_ids)
         else if event = follow then py_modify (handle_follow user_ids)
         else if event = favorite then py_modify (handle_favorite user_ids)
         else py_return ())
        (py_bind (py_gets (\<lambda>d. filter (\<lambda>p. pc_user_id p \<in> set user_ids) (profile_completions d)))
           (\<lambda>partial_completions. py_lift (exc_map (profile_progress partial_completions step_count) ucs))))"

definition new_profile_completion :: "full_event_metadata \<Rightarrow> profile_row" where
  "new_profile_completion e = \<lparr>pc_user_id = em_user_id e, pc_profile_description = False, pc_profile_name = False,
     pc_profile_picture = False, pc_profile_cover_photo = False, pc_follows = False, pc_favorites = False,
     pc_reposts = False\<rparr>"

definition ProfileChallengeUpdater :: challenge_updater where
  "ProfileChallengeUpdater = default_updater\<lparr>
     u_update_user_challenges := update_profile,
     u_on_after_challenge_creation := (\<lambda>metadatas. py_modify (\<lambda>d. d\<lparr>profile_completions :=
       profile_completions d @ map new_profile_completion metadatas\<rparr>))\<rparr>"

section \<open>Listen streaks\<close>

definition one_day :: int where "one_day = 24 * 60 * 60"

definition record_listen :: "int \<Rightarrow> listen_streak_row \<Rightarrow> listen_streak_row" where
  "record_listen new_date p =
     (case ls_last_listen_date p of
        None \<Rightarrow> p\<lparr>ls_last_listen_date := Some new_date, ls_listen_streak := 1\<rparr>
      | Some last_date \<Rightarrow>
          if new_date - last_date \<ge> one_day
          then p\<lparr>ls_last_listen_date := Some new_date,
            ls_listen_streak := (if new_date - last_date \<ge> 2 * one_day then 1 else ls_listen_streak p + 1)\<rparr>
          else p)"

text \<open>The streaks are paired with the events by their positions.\<close>

fun handle_digital_content_listens ::
  "challenge_services \<Rightarrow> listen_streak_row list \<Rightarrow> full_event_metadata list \<Rightarrow> exc + listen_streak_row list" where
  "handle_digital_content_listens cs [] metas = Inr []"
| "handle_digital_content_listens cs (p # ps) [] = Inl (PyException ''list index out of range'')"
| "handle_digital_content_listens cs (p # ps) (e # es) =
     exc_bind (dict_get (em_extra e) ''created_at'') (\<lambda>j.
       case json_int j of
         None \<Rightarrow> Inl (TypeError ''an integer is required'')
       | Some t \<Rightarrow> exc_bind (handle_digital_content_listens cs ps es) (\<lambda>qs.
           Inr (record_listen (cs_fromtimestamp cs t) p # qs)))"

definition write_streaks :: "listen_streak_row list \<Rightarrow> db \<Rightarrow> db" where
  "write_streaks changed d = d\<lparr>listen_streaks := map (\<lambda>r.
     case find (\<lambda>q. ls_user_id q = ls_user_id r) changed of Some q \<Rightarrow> q | None \<Rightarrow> r) (listen_streaks d)\<rparr>"

definition streak_progress ::
  "listen_streak_row list \<Rightarrow> int \<Rightarrow> user_challenge_row \<Rightarrow> exc + user_challenge_row" where
  "streak_progress partial_completions step_count c =
     (case map_of (dict_of ls_user_id partial_completions) (uc_user_id c) of
        None \<Rightarrow> Inl (KeyError (str_int (uc_user_id c)))
      | Some p \<Rightarrow> Inr (c\<lparr>uc_current_step_count := Some (ls_listen_streak p),
          uc_is_complete := (ls_listen_streak p \<ge> step_count)\<rparr>))"

definition update_listen_streaks :: "challenge_services \<Rightarrow> challenge_event \<Rightarrow> user_challenge_row list \<Rightarrow>
    int option \<Rightarrow> full_event_metadata list \<Rightarrow> int option \<Rightarrow> (db, user_challenge_row list) py" where
  "update_listen_streaks cs event ucs step_count event_metadatas starting_block =
     (case step_count of
        None \<Rightarrow> py_raise (PyException ''Expected a step count for listen streak challenge'')
      | Some k \<Rightarrow>
          py_bind (py_gets (\<lambda>d. cs_scan_streaks cs
            (filter (\<lambda>p. ls_user_id p \<in> uc_user_id ` set ucs) (listen_streaks d)))) (\<lambda>partial_completions.
          py_bind (if event = digital_content_listen
              then py_lift (handle_digital_content_listens cs partial_completions event_metadatas)
              else py_return partial_completions) (\<lambda>partial_completions.
          py_seq (py_modify (write_streaks partial_completions))
            (py_lift (exc_map (streak_progress partial_completions k) ucs)))))"

definition new_listen_streak :: "full_event_metadata \<Rightarrow> listen_streak_row" where
  "new_listen_streak e = \<lparr>ls_user_id = em_user_id e, ls_last_listen_date = None, ls_listen_streak = 0\<rparr>"

definition ChallengeListenStreakUpdater :: challenge_updater where
  "ChallengeListenStreakUpdater = default_updater\<lparr>
     u_update_user_challenges := update_listen_streaks,
     u_on_after_challenge_creation := (\<lambda>metadatas. py_modify (\<lambda>d. d\<lparr>listen_streaks :=
       listen_streaks d @ map new_listen_streak metadatas\<rparr>))\<rparr>"

text \<open>\<open>get_override_challenge_step_count\<close>, of which \<open>now\<close> is the time of the request.\<close>

definition get_listen_streak_override :: "int \<Rightarrow> db \<Rightarrow> int \<Rightarrow> int option" where
  "get_listen_streak_override now d user_id =
     (case sql_first (\<lambda>r. ls_user_id r = user_id) (listen_streaks d) of
        None \<Rightarrow> None
      | Some r \<Rightarrow>
          (case ls_last_listen_date r of
             None \<Rightarrow> None
           | Some last_date \<Rightarrow> if now - last_date \<ge> 2 * one_day then Some 0 else None))"

section \<open>The contract\<close>

lemma exc_map_identity:
  assumes "exc_map f rows = Inr rows'" and "\<And>c c'. f c = Inr c' \<Longrightarrow> uc_identity c' = uc_identity c"
  shows "map uc_identity rows' = map uc_identity rows"
  using exc_map_list_all2 [OF assms(1)]
  by (induction rule: list_all2_induct) (auto dest: assms(2))

lemma default_updates: "challenge_updates default_updater"
  by unfold_locales (auto simp: default_updater_def py_return_def)

lemma complete_all_updates:
  assumes "\<And>metas d u d'. u_on_after_challenge_creation up metas d = (u, d') \<Longrightarrow> reward_frame d d'"
  shows "challenge_updates (up\<lparr>u_update_user_challenges := complete_all\<rparr>)"
  by unfold_locales (use assms in \<open>auto simp: complete_all_def py_return_def uc_identity_def\<close>)

interpretation verified: challenge_updates ConnectVerifiedChallengeUpdater
  unfolding ConnectVerifiedChallengeUpdater_def
  by (rule complete_all_updates [OF challenge_updates.creation_frame [OF default_updates]])

interpretation mobile: challenge_updates MobileInstallChallengeUpdater
  unfolding MobileInstallChallengeUpdater_def
  by (rule complete_all_updates [OF challenge_updates.creation_frame [OF default_updates]])

interpretation tip: challenge_updates SendFirstTipChallengeUpdater
  unfolding SendFirstTipChallengeUpdater_def
  by (rule complete_all_updates [OF challenge_updates.creation_frame [OF default_updates]])

interpretation list: challenge_updates FirstContentListChallengeUpdater
  unfolding FirstContentListChallengeUpdater_def
  by (rule complete_all_updates [OF challenge_updates.creation_frame [OF default_updates]])

interpretation referred: challenge_updates ReferredChallengeUpdater
  unfolding ReferredChallengeUpdater_def
  by (rule complete_all_updates [OF challenge_updates.creation_frame [OF default_updates]])

interpretation referral: challenge_updates ReferralChallengeUpdater
  by unfold_locales (auto simp: ReferralChallengeUpdater_def default_updater_def py_return_def)

interpretation verified_referral: challenge_updates VerifiedReferralChallengeUpdater
  by unfold_locales (auto simp: VerifiedReferralChallengeUpdater_def default_updater_def py_return_def)

interpretation trending: challenge_updates TrendingChallengeUpdater
  by unfold_locales (auto simp: TrendingChallengeUpdater_def default_updater_def py_defs complete_all_def
      add_trending_results_def uc_identity_def split: sum.splits)

interpretation upload: challenge_updates DigitalContentUploadChallengeUpdater
  by unfold_locales (auto simp: DigitalContentUploadChallengeUpdater_def default_updater_def py_defs
      update_uploads_def uc_identity_def Let_def split: option.splits)

lemma profile_progress_identity: "profile_progress ps k c = Inr c' \<Longrightarrow> uc_identity c' = uc_identity c"
  by (auto simp: profile_progress_def uc_identity_def split: option.splits)

lemma streak_progress_identity: "streak_progress ps k c = Inr c' \<Longrightarrow> uc_identity c' = uc_identity c"
  by (auto simp: streak_progress_def uc_identity_def split: option.splits)

lemma handle_profile_updates_frame: "py_keeps (reward_frame d) (handle_profile_updates user_ids)"
  unfolding handle_profile_updates_def handle_profile_update_def
  by (intro keeps_intros) auto

lemma update_profile_result:
  assumes "update_profile cs ev rows k metas b d = (r, d')"
  shows "reward_frame d d' \<and> (\<forall>rows'. r = Inr rows' \<longrightarrow>
    exc_map (profile_progress (filter (\<lambda>p. pc_user_id p \<in> uc_user_id ` set rows) (profile_completions d')) k) rows = Inr rows')"
proof -
  have "py_keeps (reward_frame d) (update_profile cs ev rows k metas b)"
    unfolding update_profile_def Let_def
    by (intro keeps_intros handle_profile_updates_frame)
      (auto simp: handle_reposts_def handle_follow_def handle_favorite_def)
  from py_keepsD [OF this, of d] have "reward_frame d d'" using assms by simp
  moreover have "exc_map (profile_progress (filter (\<lambda>p. pc_user_id p \<in> uc_user_id ` set rows) (profile_completions d')) k) rows
      = Inr rows'" if "r = Inr rows'" for rows'
    using assms unfolding that update_profile_def Let_def py_seq_def
    by (auto simp: py_gets_def py_lift_def elim!: py_bind_InrE)
  ultimately show ?thesis by blast
qed

interpretation profile: challenge_updates ProfileChallengeUpdater
proof unfold_locales
  fix cs ev rows k metas b d r rows' d'
  show "reward_frame d d'" if "u_update_user_challenges ProfileChallengeUpdater cs ev rows k metas b d = (r, d')"
    using that update_profile_result by (simp add: ProfileChallengeUpdater_def)
  show "map uc_identity rows' = map uc_identity rows"
    if "u_update_user_challenges ProfileChallengeUpdater cs ev rows k metas b d = (Inr rows', d')"
  proof -
    from that have "update_profile cs ev rows k metas b d = (Inr rows', d')"
      by (simp add: ProfileChallengeUpdater_def)
    then have "exc_map (profile_progress (filter (\<lambda>p. pc_user_id p \<in> uc_user_id ` set rows)
        (profile_completions d')) k) rows = Inr rows'" using update_profile_result by blast
    then show ?thesis by (rule exc_map_identity) (rule profile_progress_identity)
  qed
qed (auto simp: ProfileChallengeUpdater_def py_modify_def)

lemma update_listen_streaks_frame: "py_keeps (reward_frame d) (update_listen_streaks cs ev rows k metas b)"
  unfolding update_listen_streaks_def
  by (intro keeps_intros) (auto simp: write_streaks_def)

interpretation streak: challenge_updates ChallengeListenStreakUpdater
proof unfold_locales
  fix cs ev rows k metas b d r rows' d'
  show "reward_frame d d'" if "u_update_user_challenges ChallengeListenStreakUpdater cs ev rows k metas b d = (r, d')"
    using that py_keepsD [OF update_listen_streaks_frame, of d d cs ev rows k metas b]
    by (simp add: ChallengeListenStreakUpdater_def)
  show "map uc_identity rows' = map uc_identity rows"
    if "u_update_user_challenges ChallengeListenStreakUpdater cs ev rows k metas b d = (Inr rows', d')"
  proof -
    from that obtain ps n where "exc_map (streak_progress ps n) rows = Inr rows'"
      by (auto simp: ChallengeListenStreakUpdater_def update_listen_streaks_def py_seq_def py_lift_def py_raise_def
          elim!: py_bind_InrE split: option.splits)
    then show ?thesis by (rule exc_map_identity) (rule streak_progress_identity)
  qed
qed (auto simp: ChallengeListenStreakUpdater_def py_modify_def)

section \<open>Challenges one event completes\<close>

text \<open>Their further contract: every given challenge becomes complete, and one row per user.\<close>

locale completing_updates = challenge_updates +
  assumes update_completes: "u_update_user_challenges up cs ev rows k metas b d =
      (Inr (map (\<lambda>c. c\<lparr>uc_is_complete := True\<rparr>) rows), d)"
  and creation_nop: "u_on_after_challenge_creation up metas d = (Inr (), d)"
  and specifier_user: "u_generate_specifier up u extra = Inr (str_int u)"

lemma completing_default:
  "completing_updates (default_updater\<lparr>u_update_user_challenges := complete_all\<rparr>)"
  by unfold_locales (auto simp: default_updater_def complete_all_def py_return_def uc_identity_def)

interpretation verified: completing_updates ConnectVerifiedChallengeUpdater
  unfolding ConnectVerifiedChallengeUpdater_def by (rule completing_default)

interpretation mobile: completing_updates MobileInstallChallengeUpdater
  unfolding MobileInstallChallengeUpdater_def by (rule completing_default)

interpretation tip: completing_updates SendFirstTipChallengeUpdater
  unfolding SendFirstTipChallengeUpdater_def by (rule completing_default)

interpretation list: completing_updates FirstContentListChallengeUpdater
  unfolding FirstContentListChallengeUpdater_def by (rule completing_default)

interpretation referred: completing_updates ReferredChallengeUpdater
  unfolding ReferredChallengeUpdater_def by (rule completing_default)

lemma distinct_new_keys:
  assumes "distinct (map uc_key (user_challenges d))" and "creations up m (map snd em) d = Inr to_create"
    and "m_challenge_type m \<noteq> Some ChAggregate" and "distinct (map em_specifier (map snd em))"
  shows "distinct (map uc_key (user_challenges d @ map (create_new_user_challenge m) to_create))"
proof -
  have "distinct (map em_specifier to_create)"
    using assms(2-4) by (auto simp: creations_def Let_def intro: distinct_map_filter)
  then have "distinct (map uc_key (map (create_new_user_challenge m) to_create))"
    by (auto simp: distinct_map inj_on_def uc_key_def create_new_user_challenge_def)
  moreover have "uc_key ` set (user_challenges d) \<inter> uc_key ` set (map (create_new_user_challenge m) to_create) = {}"
    using creations_fresh(2) [OF assms(2)] by (force simp: uc_key_def create_new_user_challenge_def)
  ultimately show ?thesis using assms(1) by (simp add: image_image)
qed

context completing_updates begin

text \<open>
  The \<open>try\<close> block returns, when the commit does not fail for reasons of its own, and leaves
  every challenge the events are about complete.
\<close>

lemma events_complete:
  assumes "reward_keys_ok d" and "\<And>d. cs_commit cs d = None" and "m_challenge_type m \<noteq> Some ChAggregate"
    and "distinct (map fst em)" and "\<And>k e. (k, e) \<in> set em \<Longrightarrow> em_specifier e = k" and "s \<in> fst ` set em"
  obtains d' r where "process_events_with_specifiers up cs m ev em d = (Inr (), d')"
    and "r \<in> set (user_challenges d')" and "uc_key r = (m_challenge_id m, s)" and "uc_is_complete r"
proof -
  have keys: "map (em_specifier \<circ> snd) em = map fst em" using assms(5) by (auto simp: comp_def)
  let ?existing = "fetch_user_challenges d (m_challenge_id m) (map fst em)"
  obtain to_create where create: "creations up m (map snd em) d = Inr to_create"
    using assms(3) by (simp add: creations_def Let_def)
  let ?new = "map (create_new_user_challenge m) to_create"
  let ?rows = "filter (\<lambda>c. \<not> uc_is_complete c) ?existing @ ?new"
  let ?stamp = "\<lambda>c. c\<lparr>uc_is_complete := True,
    uc_completed_blocknumber := Some (em_block_number (the (map_of em (uc_specifier c))))\<rparr>"
  let ?d' = "write_user_challenges (map ?stamp ?rows) ?new d"
  have spec: "uc_specifier c \<in> fst ` set em" if "c \<in> set ?rows" for c
  proof (cases "c \<in> set ?new")
    case True
    then obtain x where x: "x \<in> set to_create" "uc_specifier c = em_specifier x"
      by (auto simp: create_new_user_challenge_def)
    from creations_fresh(1) [OF create x(1)] obtain k where "(k, x) \<in> set em" by auto
    with assms(5) [OF this] x(2) show ?thesis by force
  next
    case False
    with that have "c \<in> set ?existing" by auto
    from fetched_rows [OF this] show ?thesis by simp
  qed
  have stamped: "exc_map (add_block_number em) (map (\<lambda>c. c\<lparr>uc_is_complete := True\<rparr>) ?rows) = Inr (map ?stamp ?rows)"
  proof -
    have "add_block_number em (c\<lparr>uc_is_complete := True\<rparr>) = Inr (?stamp c)" if "c \<in> set ?rows" for c
    proof -
      from spec [OF that] have "map_of em (uc_specifier c) \<noteq> None" by (simp add: map_of_eq_None_iff)
      then show ?thesis by (auto simp: add_block_number_def)
    qed
    then have "exc_map (\<lambda>c. add_block_number em (c\<lparr>uc_is_complete := True\<rparr>)) ?rows = Inr (map ?stamp ?rows)"
      by (rule exc_map_Inr)
    then show ?thesis by (simp only: exc_map_map)
  qed
  have dist: "distinct (map uc_key (user_challenges d @ ?new))"
    using assms(1,3,4) by (intro distinct_new_keys [OF _ create]) (simp_all add: reward_keys_ok_def keys)
  then have ok: "reward_keys_ok ?d'"
    using assms(1) by (simp add: reward_keys_ok_def write_user_challenges_def comp_def)
  have run: "process_events_with_specifiers up cs m ev em d = (Inr (), ?d')"
    using stamped ok assms(2) create
    by (simp add: process_events_with_specifiers_def py_defs Let_def creation_nop update_completes keys
        commit_rewards_def)
  have "\<exists>q\<in>set (user_challenges d @ ?new). uc_key q = (m_challenge_id m, s)"
  proof (cases "s \<in> uc_specifier ` set ?existing")
    case True
    then show ?thesis by (auto dest!: fetched_rows simp: uc_key_def)
  next
    case False
    from assms(5,6) obtain e where e: "e \<in> set (map snd em)" "em_specifier e = s" by force
    have "to_create = filter (\<lambda>e. em_specifier e \<notin> uc_specifier ` set ?existing) (map snd em)"
      using create assms(3) by (simp add: creations_def Let_def keys)
    then have "e \<in> set to_create" using e False by simp
    then show ?thesis using e(2) by (force simp: uc_key_def create_new_user_challenge_def)
  qed
  then obtain q where q: "q \<in> set (user_challenges d @ ?new)" "uc_key q = (m_challenge_id m, s)" by blast
  let ?r = "current_object (map ?stamp ?rows) q"
  have "uc_is_complete ?r"
  proof (cases "find (\<lambda>u. uc_key u = uc_key q) (map ?stamp ?rows)")
    case None
    have missing: "uc_key c \<noteq> uc_key q" if "c \<in> set ?rows" for c
    proof -
      have "?stamp c \<in> set (map ?stamp ?rows)" using that by (simp only: set_map) (rule imageI)
      with None have "uc_key (?stamp c) \<noteq> uc_key q" unfolding find_None_iff by blast
      then show ?thesis by (simp add: uc_key_def)
    qed
    with q(1) have "q \<in> set (user_challenges d)" by auto
    with q(2) assms(6) have "s \<in> uc_specifier ` set ?existing"
      by (force simp: fetched_specifiers uc_key_def)
    then obtain c where c: "c \<in> set ?existing" "uc_specifier c = s" by blast
    with fetched_rows q(2) have "c \<in> set (user_challenges d)" "uc_key c = uc_key q" by (fastforce simp: uc_key_def)+
    with q(1) dist have "c = q" unfolding distinct_map by (metis UnCI inj_onD set_append)
    moreover have "uc_is_complete c" using missing [of c] c(1) \<open>uc_key c = uc_key q\<close> by auto
    ultimately show ?thesis using None by (simp add: current_object_def)
  next
    case (Some u)
    then have "u \<in> set (map ?stamp ?rows)" using sql_first_SomeD by (fastforce simp: sql_first_def)
    with Some show ?thesis by (auto simp: current_object_def)
  qed
  moreover have "?r \<in> set (user_challenges ?d')"
    using q(1) unfolding write_user_challenges_rows set_map by (rule imageI)
  ultimately show thesis using that run q(2) by simp
qed

lemma process_completes:
  assumes "m_did_init m" and "m_is_active m" and "m_challenge_type m \<noteq> Some ChAggregate"
    and "reward_keys_ok d" and "\<And>d. cs_commit cs d = None" and "e \<in> set (after_starting_block m metas)"
  shows "\<exists>d' r. process up cs ev metas (m, d) = (Inr (), (m, d')) \<and> r \<in> set (user_challenges d') \<and>
    uc_challenge_id r = m_challenge_id m \<and> uc_specifier r = str_int (em_user_id e) \<and> uc_is_complete r"
proof -
  let ?full = "\<lambda>e. event_metadata.extend e \<lparr>em_specifier = str_int (em_user_id e)\<rparr>"
  let ?events = "map ?full (after_starting_block m metas)" and ?s = "str_int (em_user_id e)"
  have events: "add_specifiers up (after_starting_block m metas) = Inr ?events"
    unfolding add_specifiers_def by (rule exc_map_Inr) (simp add: specifier_user)
  have spec: "em_specifier (?full x) = str_int (em_user_id x)" for x by (simp add: event_metadata.defs)
  have mem: "?s \<in> fst ` set (dict_of em_specifier ?events)"
    unfolding dict_of_keys using assms(6) by (intro image_eqI [where x = "?full e"]) (simp_all add: spec)
  have keyed: "\<And>k x. (k, x) \<in> set (dict_of em_specifier ?events) \<Longrightarrow> em_specifier x = k"
    using dict_of_entries by metis
  obtain d' r where run: "process_events_with_specifiers up cs m ev (dict_of em_specifier ?events) d = (Inr (), d')"
    and r: "r \<in> set (user_challenges d')" "uc_key r = (m_challenge_id m, ?s)" "uc_is_complete r"
    using assms(4,5,3) distinct_dict_of keyed mem by (rule events_complete)
  have "after_starting_block m metas \<noteq> []" using assms(6) by auto
  then have "process up cs ev metas (m, d) = (Inr (), (m, d'))"
    using assms(1,2) events run by (simp add: process_def py_defs Let_def)
  with r show ?thesis by (auto simp: uc_key_def)
qed

end

section \<open>Days of a streak\<close>

text \<open>
  A listen streak counts days: after any listens of a user, in whatever order they are
  processed, a streak of \<open>k\<close> ends with a listen that is at least \<open>k - 1\<close> days, and at most
  twice that, after another of the listens.
\<close>

theorem listen_streak_days:
  "\<exists>first_date last_date. first_date \<in> set (x # ds) \<and> last_date \<in> set (x # ds) \<and>
     ls_last_listen_date (fold record_listen (x # ds) (new_listen_streak e)) = Some last_date \<and>
     1 \<le> ls_listen_streak (fold record_listen (x # ds) (new_listen_streak e)) \<and>
     (ls_listen_streak (fold record_listen (x # ds) (new_listen_streak e)) - 1) * one_day \<le> last_date - first_date \<and>
     last_date - first_date \<le> (ls_listen_streak (fold record_listen (x # ds) (new_listen_streak e)) - 1) * (2 * one_day)"
proof -
  let ?ok = "\<lambda>seen p. \<exists>a b. a \<in> seen \<and> b \<in> seen \<and> ls_last_listen_date p = Some b \<and> 1 \<le> ls_listen_streak p \<and>
    (ls_listen_streak p - 1) * one_day \<le> b - a \<and> b - a \<le> (ls_listen_streak p - 1) * (2 * one_day)"
  have step: "?ok (insert d seen) (record_listen d p)" if ok: "?ok seen p" for seen p d
  proof -
    from ok obtain a b where ab: "a \<in> seen" "b \<in> seen" "ls_last_listen_date p = Some b" "1 \<le> ls_listen_streak p"
      "(ls_listen_streak p - 1) * one_day \<le> b - a" "b - a \<le> (ls_listen_streak p - 1) * (2 * one_day)" by blast
    consider "d - b < one_day" | "one_day \<le> d - b" "d - b < 2 * one_day" | "2 * one_day \<le> d - b" by linarith
    then show ?thesis
    proof cases
      case 1
      with ab have "record_listen d p = p" by (simp add: record_listen_def)
      with ok show ?thesis by auto
    next
      case 2
      with ab show ?thesis
        by (intro exI [of _ a] exI [of _ d]) (simp add: record_listen_def one_day_def)
    next
      case 3
      with ab show ?thesis
        by (intro exI [of _ d]) (simp add: record_listen_def one_day_def)
    qed
  qed
  have "?ok seen p \<Longrightarrow> ?ok (set ds \<union> seen) (fold record_listen ds p)" for seen p
  proof (induction ds arbitrary: seen p)
    case (Cons d ds)
    from Cons.IH [OF step [OF Cons.prems, of d]] show ?case by simp
  qed simp
  moreover have "?ok {x} (record_listen x (new_listen_streak e))"
    by (simp add: record_listen_def new_listen_streak_def)
  ultimately have "?ok (set ds \<union> {x}) (fold record_listen ds (record_listen x (new_listen_streak e)))" by blast
  then show ?thesis by simp
qed

end
