(* ===== verification/Challenge_Bus.thy ===== *)
theory Challenge_Bus
  imports Updaters Event_Bus
begin

text \<open>
  The consuming side of \<open>ChallengeEventBus\<close> (src/challenges/challenge_event_bus.py) with the
  managers \<open>setup_challenge_bus\<close> registers, the task src/tasks/index_challenges.py,
  src/challenges/create_new_challenges.py, and the question of
  src/challenges/trending_challenge.py whether a block starts the trending challenge.
\<close>

section \<open>Managers and listeners\<close>

text \<open>The managers, by the names of their module variables.\<close>

datatype manager =
    profile_challenge_manager | listen_streak_challenge_manager | digital_content_upload_challenge_manager
  | referral_challenge_manager | verified_referral_challenge_manager | referred_challenge_manager
  | connect_verified_challenge_manager | mobile_install_challenge_manager
  | trending_digital_content_challenge_manager | trending_underground_digital_content_challenge_manager
  | trending_content_list_challenge_manager | send_first_tip_challenge_manager
  | first_content_list_challenge_manager

fun manager_challenge_id :: "manager \<Rightarrow> string" where
  "manager_challenge_id profile_challenge_manager = ''profile-completion''"
| "manager_challenge_id listen_streak_challenge_manager = ''listen-streak''"
| "manager_challenge_id digital_content_upload_challenge_manager = ''digital-content-upload''"
| "manager_challenge_id referral_challenge_manager = ''referrals''"
| "manager_challenge_id verified_referral_challenge_manager = ''ref-v''"
| "manager_challenge_id referred_challenge_manager = ''referred''"
| "manager_challenge_id connect_verified_challenge_manager = ''connect-verified''"
| "manager_challenge_id mobile_install_challenge_manager = ''mobile-install''"
| "manager_challenge_id trending_digital_content_challenge_manager = ''tt''"
| "manager_challenge_id trending_underground_digital_content_challenge_manager = ''tut''"
| "manager_challenge_id trending_content_list_challenge_manager = ''tp''"
| "manager_challenge_id send_first_tip_challenge_manager = ''send-first-tip''"
| "manager_challenge_id first_content_list_challenge_manager = ''first-content-list''"

fun manager_updater :: "manager \<Rightarrow> challenge_updater" where
  "manager_updater profile_challenge_manager = ProfileChallengeUpdater"
| "manager_updater listen_streak_challenge_manager = ChallengeListenStreakUpdater"
| "manager_updater digital_content_upload_challenge_manager = DigitalContentUploadChallengeUpdater"
| "manager_updater referral_challenge_manager = ReferralChallengeUpdater"
| "manager_updater verified_referral_challenge_manager = VerifiedReferralChallengeUpdater"
| "manager_updater referred_challenge_manager = ReferredChallengeUpdater"
| "manager_updater connect_verified_challenge_manager = ConnectVerifiedChallengeUpdater"
| "manager_updater mobile_install_challenge_manager = MobileInstallChallengeUpdater"
| "manager_updater trending_digital_content_challenge_manager = TrendingChallengeUpdater"
| "manager_updater trending_underground_digital_content_challenge_manager = TrendingChallengeUpdater"
| "manager_updater trending_content_list_challenge_manager = TrendingChallengeUpdater"
| "manager_updater send_first_tip_challenge_manager = SendFirstTipChallengeUpdater"
| "manager_updater first_content_list_challenge_manager = FirstContentListChallengeUpdater"

text \<open>The registrations of \<open>setup_challenge_bus\<close>.\<close>

fun listeners :: "challenge_event \<Rightarrow> manager list" where
  "listeners profile_update = [profile_challenge_manager]"
| "listeners repost = [profile_challenge_manager]"
| "listeners follow = [profile_challenge_manager]"
| "listeners favorite = [profile_challenge_manager]"
| "listeners digital_content_listen = [listen_streak_challenge_manager]"
| "listeners digital_content_upload = [digital_content_upload_challenge_manager]"
| "listeners referral_signup = [referral_challenge_manager, verified_referral_challenge_manager]"
| "listeners referred_signup = [referred_challenge_manager]"
| "listeners connect_verified = [connect_verified_challenge_manager]"
| "listeners mobile_install = [mobile_install_challenge_manager]"
| "listeners trending_digital_content = [trending_digital_content_challenge_manager]"
| "listeners trending_underground = [trending_underground_digital_content_challenge_manager]"
| "listeners trending_content_list = [trending_content_list_challenge_manager]"
| "listeners send_tip = [send_first_tip_challenge_manager]"
| "listeners first_content_list = [first_content_list_challenge_manager]"

section \<open>Processing the queue\<close>

text \<open>The process that runs the challenges: its managers, the database and the Redis queue.\<close>

record challenge_node =
  node_managers :: "manager \<Rightarrow> challenge_manager"
  node_db :: db
  node_queue :: "internal_event list"

definition fresh_managers :: "manager \<Rightarrow> challenge_manager" where
  "fresh_managers c = new_manager (manager_challenge_id c)"

definition event_of :: "internal_event \<Rightarrow> event_metadata" where
  "event_of e = \<lparr>em_block_number = ie_block_number e, em_user_id = ie_user_id e, em_extra = ie_extra e\<rparr>"

text \<open>\<open>event_user_dict\<close>: the events by type, in the order of the first of each type.\<close>

definition group_events :: "internal_event list \<Rightarrow> (challenge_event \<times> event_metadata list) list" where
  "group_events events =
     map (\<lambda>ty. (ty, map event_of (filter (\<lambda>e. ie_event e = ty) events)))
       (rev (remdups (rev (map ie_event events))))"

text \<open>One turn of the inner loop: an exception of a manager is noted and swallowed.\<close>

definition run_listener ::
  "challenge_services \<Rightarrow> challenge_event \<Rightarrow> event_metadata list \<Rightarrow> manager \<Rightarrow> bool \<times> challenge_node \<Rightarrow>
    bool \<times> challenge_node" where
  "run_listener cs event_type event_dicts c s =
     (case s of (did_error, n) \<Rightarrow>
       (case process (manager_updater c) cs event_type event_dicts (node_managers n c, node_db n) of
          (r, (m, d)) \<Rightarrow>
            (did_error \<or> (case r of Inl e \<Rightarrow> True | Inr u \<Rightarrow> False),
             n\<lparr>node_managers := (node_managers n)(c := m), node_db := d\<rparr>)))"

definition run_listeners ::
  "challenge_services \<Rightarrow> challenge_event \<times> event_metadata list \<Rightarrow> bool \<times> challenge_node \<Rightarrow> bool \<times> challenge_node" where
  "run_listeners cs grp = fold (run_listener cs (fst grp) (snd grp)) (listeners (fst grp))"

text \<open>
  \<open>process_events\<close>; \<open>redis_error\<close> says whether reading the queue raises. Redis' \<open>lrange\<close>
  includes its end point.
\<close>

definition process_events ::
  "challenge_services \<Rightarrow> bool \<Rightarrow> nat \<Rightarrow> challenge_node \<Rightarrow> (int \<times> bool) \<times> challenge_node" where
  "process_events cs redis_error max_events n =
     (if redis_error then ((-1, True), n)
      else
        (let events_json = take (Suc max_events) (node_queue n);
             n = n\<lparr>node_queue := drop (length events_json) (node_queue n)\<rparr>;
             (did_error, n) = fold (run_listeners cs) (group_events events_json) (False, n)
         in ((int (length events_json), did_error), n)))"

text \<open>
  \<open>index_challenges\<close>: the result of \<open>process_events\<close> is a pair, which is never false, so the
  time of the last processed event is always set.
\<close>

definition index_challenges ::
  "challenge_services \<Rightarrow> bool \<Rightarrow> int \<Rightarrow> challenge_node \<times> int option \<Rightarrow> challenge_node \<times> int option" where
  "index_challenges cs redis_error now s =
     (case s of (n, last_processed) \<Rightarrow>
        (case process_events cs redis_error 1000 n of (num_processed, n') \<Rightarrow> (n', Some now)))"

section \<open>The table of challenges\<close>

record challenge_json =
  cj_id :: string
  cj_type :: challenge_type
  cj_amount :: string
  cj_active :: bool
  cj_step_count :: "int option"
  cj_starting_block :: "int option"

text \<open>\<open>OverrideChallengeJson\<close>; a key may be absent, or present with the value null.\<close>

record override_json =
  oj_id :: string
  oj_amount :: "string option"
  oj_active :: "bool option"
  oj_step_count :: "int option option"
  oj_starting_block :: "int option option"

definition apply_override :: "override_json \<Rightarrow> challenge_json \<Rightarrow> challenge_json" where
  "apply_override ov c = c\<lparr>
     cj_amount := (case oj_amount ov of None \<Rightarrow> cj_amount c | Some a \<Rightarrow> a),
     cj_active := (case oj_active ov of None \<Rightarrow> cj_active c | Some a \<Rightarrow> a),
     cj_starting_block := (case oj_starting_block ov of None \<Rightarrow> cj_starting_block c | Some b \<Rightarrow> b),
     cj_step_count := (case oj_step_count ov of None \<Rightarrow> cj_step_count c | Some k \<Rightarrow> k)\<rparr>"

text \<open>The overrides of the environment, None outside of stage and dev.\<close>

definition get_challenges_dicts :: "challenge_json list \<Rightarrow> override_json list option \<Rightarrow> challenge_json list" where
  "get_challenges_dicts base overrides =
     (case overrides of
        None \<Rightarrow> base
      | Some os \<Rightarrow> map (\<lambda>c. case map_of (dict_of oj_id os) (cj_id c) of
            None \<Rightarrow> c | Some ov \<Rightarrow> apply_override ov c) base)"

definition challenge_of :: "challenge_json \<Rightarrow> challenge_row" where
  "challenge_of c = \<lparr>ch_id = cj_id c, ch_type = cj_type c, ch_amount = cj_amount c, ch_active = cj_active c,
     ch_step_count = cj_step_count c, ch_starting_block = cj_starting_block c\<rparr>"

definition update_challenge :: "challenge_json \<Rightarrow> challenge_row \<Rightarrow> challenge_row" where
  "update_challenge c r = r\<lparr>ch_active := cj_active c, ch_amount := cj_amount c,
     ch_step_count := cj_step_count c, ch_starting_block := cj_starting_block c\<rparr>"

definition create_new_challenges ::
  "challenge_json list \<Rightarrow> challenge_type list \<Rightarrow> challenge_row list \<Rightarrow> challenge_row list" where
  "create_new_challenges challenges_dicts allowed_challenge_types existing_challenges =
     (let new_challenges = filter (\<lambda>c. cj_id c \<notin> ch_id ` set existing_challenges) challenges_dicts;
          new_challenges = (if allowed_challenge_types = [] then new_challenges
            else filter (\<lambda>c. cj_type c \<in> set allowed_challenge_types) new_challenges)
      in fold (\<lambda>c. sql_update (\<lambda>r. ch_id r = cj_id c) (update_challenge c)) challenges_dicts existing_challenges @
           map challenge_of new_challenges)"

section \<open>When the trending challenge starts\<close>

text \<open>
  A datetime is the number of seconds since 1970 in its own time zone. Daylight saving time
  is that of pytz: an argument.
\<close>

definition weekday :: "int \<Rightarrow> int" where
  "weekday dt = (dt div one_day + 3) mod 7"

definition dt_hour :: "int \<Rightarrow> int" where
  "dt_hour dt = dt mod one_day div 3600"

definition get_is_valid_timestamp :: "(int \<Rightarrow> bool) \<Rightarrow> int \<Rightarrow> bool" where
  "get_is_valid_timestamp is_dst dt =
     (let isFriday = (weekday dt = 4);
          add_hr = is_dst dt;
          lo = (if add_hr then 19 else 20);
          hi = (if add_hr then 20 else 21)
      in isFriday \<and> dt_hour dt \<ge> lo \<and> dt_hour dt < hi)"

text \<open>\<open>week_date\<close> is the date the database keeps for the week of a result.\<close>

definition should_trending_challenge_update ::
  "(int \<Rightarrow> bool) \<Rightarrow> (timestamp \<Rightarrow> int) \<Rightarrow> (json \<Rightarrow> int) \<Rightarrow> db \<Rightarrow> timestamp \<Rightarrow> bool \<times> int option" where
  "should_trending_challenge_update is_dst fromtimestamp week_date d timestamp =
     (let dt = fromtimestamp timestamp in
      if \<not> get_is_valid_timestamp is_dst dt then (False, None)
      else (case first_desc Some (map (week_date \<circ> tr_week) (trending_results d)) of
              None \<Rightarrow> (True, Some (dt div one_day))
            | Some week \<Rightarrow> if week = dt div one_day then (False, None) else (True, Some (dt div one_day))))"

section \<open>The managers and their settings\<close>

lemma manager_updates: "challenge_updates (manager_updater c)"
  by (cases c) (simp_all add: profile.challenge_updates_axioms streak.challenge_updates_axioms
    upload.challenge_updates_axioms referral.challenge_updates_axioms verified_referral.challenge_updates_axioms
    referred.challenge_updates_axioms verified.challenge_updates_axioms mobile.challenge_updates_axioms
    trending.challenge_updates_axioms tip.challenge_updates_axioms list.challenge_updates_axioms)

lemma manager_challenge_id_inject [simp]: "manager_challenge_id c = manager_challenge_id c' \<longleftrightarrow> c = c'"
  by (cases c; cases c') simp_all

definition node_ok :: "challenge_node \<Rightarrow> bool" where
  "node_ok n \<longleftrightarrow> (\<forall>c. m_challenge_id (node_managers n c) = manager_challenge_id c \<and>
     settings_match (node_managers n c) (node_db n))"

lemma node_ok_fresh: "node_managers n = fresh_managers \<Longrightarrow> node_ok n"
  by (simp add: node_ok_def fresh_managers_def new_manager_def settings_match_def)

text \<open>
  Induction over the steps of a run: whatever each step of a manager keeps, the run keeps.
  \<open>evs\<close> are the events the step may be about.
\<close>

definition step_keeps :: "internal_event set \<Rightarrow> (db \<Rightarrow> bool) \<Rightarrow> bool" where
  "step_keeps evs P \<longleftrightarrow> (\<forall>c m metas d d'. P d \<and> m_challenge_id m = manager_challenge_id c \<and>
     m_did_init m \<and> settings_match m d \<and> set metas \<subseteq> event_of ` evs \<and>
     rewards_step (manager_updater c) m metas d d' \<longrightarrow> P d')"

lemma run_listener_keeps:
  assumes "step_keeps evs P" and "set es \<subseteq> event_of ` evs" and "node_ok n" and "P (node_db n)"
  shows "node_ok (snd (run_listener cs ev es c (b, n))) \<and> P (node_db (snd (run_listener cs ev es c (b, n))))"
proof -
  obtain r m d where run: "process (manager_updater c) cs ev es (node_managers n c, node_db n) = (r, (m, d))"
    by (rule prod_cases3)
  note effect = challenge_updates.process_effect [OF manager_updates run]
  have id: "m_challenge_id m = manager_challenge_id c" and settings: "settings_match m (node_db n)"
    using effect(2,3) assms(3) by (auto simp: node_ok_def)
  have "P d"
  proof (cases "d = node_db n")
    case False
    with effect(1) have "m_did_init m" "rewards_step (manager_updater c) m es (node_db n) d" by auto
    with assms(1,2,4) id settings show ?thesis unfolding step_keeps_def by blast
  qed (use assms(4) in simp)
  moreover have "challenges d = challenges (node_db n)"
    using effect(1) rewards_step_challenges by blast
  ultimately show ?thesis
    using assms(3) id settings by (auto simp: run_listener_def run node_ok_def settings_match_def)
qed

lemma run_listeners_keeps:
  assumes "step_keeps evs P" and "set (snd g) \<subseteq> event_of ` evs" and "node_ok n" and "P (node_db n)"
  shows "node_ok (snd (run_listeners cs g (b, n))) \<and> P (node_db (snd (run_listeners cs g (b, n))))"
proof -
  have "node_ok (snd (fold (run_listener cs (fst g) (snd g)) cls (b, n))) \<and>
      P (node_db (snd (fold (run_listener cs (fst g) (snd g)) cls (b, n))))" for cls
    using assms(3,4)
  proof (induction cls arbitrary: b n)
    case (Cons c cls)
    obtain b' n' where step: "run_listener cs (fst g) (snd g) c (b, n) = (b', n')" by (rule prod.exhaust)
    from run_listener_keeps [OF assms(1,2) Cons.prems, of cs "fst g" c b] Cons.IH [of n' b']
    show ?case by (simp add: step)
  qed simp
  then show ?thesis by (simp add: run_listeners_def)
qed

lemma group_events_mem: "g \<in> set (group_events es) \<Longrightarrow> set (snd g) \<subseteq> event_of ` set es"
  by (auto simp: group_events_def)

lemma process_events_keeps:
  assumes "step_keeps (set (node_queue n)) P" and "node_ok n" and "P (node_db n)"
  shows "node_ok (snd (process_events cs re k n)) \<and> P (node_db (snd (process_events cs re k n)))"
proof -
  let ?es = "take (Suc k) (node_queue n)"
  have groups: "set (snd g) \<subseteq> event_of ` set (node_queue n)" if "g \<in> set (group_events ?es)" for g
    using group_events_mem [OF that] set_take_subset [of "Suc k" "node_queue n"] by (auto dest: in_set_takeD)
  have all: "node_ok (snd (fold (run_listeners cs) gs (b, n0))) \<and> P (node_db (snd (fold (run_listeners cs) gs (b, n0))))"
    if "\<And>g. g \<in> set gs \<Longrightarrow> set (snd g) \<subseteq> event_of ` set (node_queue n)" "node_ok n0" "P (node_db n0)" for gs b n0
    using that
  proof (induction gs arbitrary: b n0)
    case (Cons g gs)
    obtain b' n' where step: "run_listeners cs g (b, n0) = (b', n')" by (rule prod.exhaust)
    from run_listeners_keeps [OF assms(1) _ Cons.prems(2,3), of g cs b] Cons.prems(1) [of g]
    have "node_ok n'" "P (node_db n')" by (simp_all add: step)
    with Cons.IH [of n' b'] Cons.prems(1) show ?case by (simp add: step)
  qed simp
  from all [where gs = "group_events ?es" and b = False and
      ?n0.0 = "n\<lparr>node_queue := drop (length ?es) (node_queue n)\<rparr>", OF groups] assms(2,3)
  show ?thesis by (auto simp: process_events_def Let_def node_ok_def split: prod.split)
qed

section \<open>Properties\<close>

text \<open>
  C4. Completion is final: no run of the event bus, whatever events it processes and whatever
  its database calls raise, changes or removes the row of a completed challenge.
\<close>

theorem completed_challenges_final:
  assumes "node_ok n" and "r \<in> set (user_challenges (node_db n))" and "uc_is_complete r"
  shows "r \<in> set (user_challenges (node_db (snd (process_events cs redis_error k n))))"
proof -
  have "step_keeps (set (node_queue n)) (\<lambda>d. r \<in> set (user_challenges d))"
    using assms(3) rewards_step_final unfolding step_keeps_def by blast
  from process_events_keeps [OF this assms(1,2)] show ?thesis by blast
qed

text \<open>A node whose queue holds two mobile installs of one user and a follow.\<close>

definition ex_event :: "challenge_event \<Rightarrow> int \<Rightarrow> int \<Rightarrow> internal_event" where
  "ex_event ev b u = \<lparr>ie_event = ev, ie_block_number = b, ie_user_id = u, ie_extra = []\<rparr>"

definition ex_referral :: "int \<Rightarrow> int \<Rightarrow> internal_event" where
  "ex_referral b i = (ex_event referral_signup b 1)\<lparr>ie_extra := [(''referred_user_id'', JInt i)]\<rparr>"

definition ex_challenge_services :: challenge_services where
  "ex_challenge_services = \<lparr>cs_fromtimestamp = (\<lambda>t. t), cs_scan_streaks = (\<lambda>ps. ps), cs_commit = (\<lambda>d. None)\<rparr>"

definition ex_challenges :: "challenge_row list" where
  "ex_challenges =
     [\<lparr>ch_id = ''mobile-install'', ch_type = ChBoolean, ch_amount = ''100'', ch_active = True,
       ch_step_count = None, ch_starting_block = Some 5\<rparr>,
      \<lparr>ch_id = ''referrals'', ch_type = ChAggregate, ch_amount = ''100'', ch_active = True,
       ch_step_count = Some 2, ch_starting_block = Some 5\<rparr>]"

definition ex_done :: user_challenge_row where
  "ex_done = \<lparr>uc_challenge_id = ''mobile-install'', uc_user_id = 9, uc_specifier = ''9'', uc_is_complete = True,
     uc_current_step_count = Some 0, uc_completed_blocknumber = Some 6\<rparr>"

definition ex_reward_node :: challenge_node where
  "ex_reward_node = \<lparr>node_managers = fresh_managers,
     node_db = empty_db\<lparr>challenges := ex_challenges, user_challenges := [ex_done],
       users := [(lookup_user_record empty_db 1 ''0xb'' 7 100 ''0x1'')\<lparr>us_is_current := True\<rparr>]\<rparr>,
     node_queue = [ex_event mobile_install 7 4, ex_event mobile_install 8 9, ex_event mobile_install 3 5,
       ex_referral 7 11, ex_referral 8 12, ex_referral 8 13]\<rparr>"

lemma ex_reward_node_ok: "node_ok ex_reward_node"
  by (rule node_ok_fresh) (simp add: ex_reward_node_def)

theorem completed_challenges_final_witness:
  "ex_done \<in> set (user_challenges (node_db (snd (process_events ex_challenge_services False 1000 ex_reward_node))))"
proof (rule completed_challenges_final [OF ex_reward_node_ok])
  show "ex_done \<in> set (user_challenges (node_db ex_reward_node))" "uc_is_complete ex_done"
    by (simp_all add: ex_reward_node_def ex_done_def)
qed

text \<open>
  C5. Aggregate challenges are bounded: if a challenge is of type aggregate and has a step count,
  no run of the event bus gives a user more rows of it than steps. (A step count of zero is
  false in Python and means no bound.)
\<close>

theorem aggregate_challenges_bounded:
  assumes "node_ok n" and "sql_first (\<lambda>c. ch_id c = manager_challenge_id g) (challenges (node_db n)) = Some c"
    and "ch_type c = ChAggregate" and "ch_step_count c = Some k" and "k \<noteq> 0"
    and "int (challenge_count (node_db n) (manager_challenge_id g) u) \<le> k"
  shows "int (challenge_count (node_db (snd (process_events cs redis_error max_events n)))
    (manager_challenge_id g) u) \<le> k"
proof -
  let ?P = "\<lambda>d. challenges d = challenges (node_db n) \<and> int (challenge_count d (manager_challenge_id g) u) \<le> k"
  have "?P d'" if P: "?P d" and m: "m_challenge_id m = manager_challenge_id h" "m_did_init m" "settings_match m d"
    and step: "rewards_step (manager_updater h) m metas d d'" for h m metas d d'
  proof -
    have "int (challenge_count d' (manager_challenge_id g) u) \<le> k"
    proof (cases "h = g")
      case True
      have "m_challenge_type m = Some ChAggregate" "m_step_count m = Some k"
        using m(2,3) P assms(2-4) by (auto simp: settings_match_def m(1) True)
      from rewards_step_aggregate [OF step this assms(5), of u] P show ?thesis by (simp add: m(1) True)
    next
      case False
      have "challenge_count d' (manager_challenge_id g) u = challenge_count d (manager_challenge_id g) u"
        using step by (rule rewards_step_counts) (use False in \<open>simp add: m(1)\<close>)
      with P show ?thesis by simp
    qed
    with P rewards_step_challenges [OF step] show ?thesis by simp
  qed
  then have "step_keeps (set (node_queue n)) ?P" unfolding step_keeps_def by blast
  from process_events_keeps [OF this assms(1)] assms(6) show ?thesis by simp
qed

theorem aggregate_challenges_bounded_witness:
  "int (challenge_count (node_db (snd (process_events ex_challenge_services False 1000 ex_reward_node)))
     ''referrals'' 1) \<le> 2"
proof -
  have "sql_first (\<lambda>c. ch_id c = manager_challenge_id referral_challenge_manager) (challenges (node_db ex_reward_node))
      = Some (ex_challenges ! 1)"
    "ch_type (ex_challenges ! 1) = ChAggregate" "ch_step_count (ex_challenges ! 1) = Some 2" "(2 :: int) \<noteq> 0"
    "int (challenge_count (node_db ex_reward_node) (manager_challenge_id referral_challenge_manager) 1) \<le> 2"
    by (simp_all add: ex_reward_node_def ex_challenges_def sql_first_def challenge_count_def sql_count_def ex_done_def)
  from aggregate_challenges_bounded [OF ex_reward_node_ok this] show ?thesis by simp
qed

text \<open>The date of a completion by an event of the queue.\<close>

definition dated_in :: "challenge_node \<Rightarrow> user_challenge_row \<Rightarrow> bool" where
  "dated_in n r \<longleftrightarrow> (\<exists>e\<in>set (node_queue n). uc_completed_blocknumber r = Some (ie_block_number e) \<and>
    (\<exists>c. sql_first (\<lambda>c. ch_id c = uc_challenge_id r) (challenges (node_db n)) = Some c \<and>
      (\<forall>b. ch_starting_block c = Some b \<longrightarrow> b \<le> ie_block_number e)))"

lemma rewards_step_dated_in:
  assumes "challenges d = challenges (node_db n)" and "m_did_init m" and "settings_match m d"
    and "set metas \<subseteq> event_of ` set (node_queue n)" and "rewards_step up m metas d d'"
    and "r \<in> set (user_challenges d')" and "uc_is_complete r"
  shows "r \<in> set (user_challenges d) \<or> dated_in n r"
proof (rule disjCI)
  assume "\<not> dated_in n r"
  show "r \<in> set (user_challenges d)"
  proof (rule ccontr)
    assume "r \<notin> set (user_challenges d)"
    with rewards_step_dated [OF assms(5-7)] obtain e where e: "uc_challenge_id r = m_challenge_id m"
      "e \<in> set (after_starting_block m metas)" "uc_completed_blocknumber r = Some (em_block_number e)" by blast
    from assms(2,3) obtain c where c: "sql_first (\<lambda>c. ch_id c = m_challenge_id m) (challenges d) = Some c"
      "m_starting_block m = ch_starting_block c" by (auto simp: settings_match_def)
    from e(2) have "e \<in> set metas" "\<forall>b. ch_starting_block c = Some b \<longrightarrow> b \<le> em_block_number e"
      by (auto simp: after_starting_block_def c(2) split: option.splits)
    with assms(1,4) e(1,3) c(1) have "dated_in n r" by (fastforce simp: event_of_def dated_in_def)
    with \<open>\<not> dated_in n r\<close> show False ..
  qed
qed



text \<open>
  C7. One event is enough for the challenges that need only one: if the manager is active, no
  event of the batch is needed but one from the starting block on, and the commit does not
  fail for reasons of its own, \<open>process\<close> returns and the user's row is complete. (Also if the
  user is deactivated: the test that should leave out deactivated users compares a number
  with rows of a query.)
\<close>

theorem event_completes_challenge:
  assumes "c \<in> {connect_verified_challenge_manager, mobile_install_challenge_manager,
      send_first_tip_challenge_manager, first_content_list_challenge_manager, referred_challenge_manager}"
    and "m_did_init m" and "m_is_active m" and "m_challenge_type m \<noteq> Some ChAggregate"
    and "reward_keys_ok d" and "\<And>d. cs_commit cs d = None" and "e \<in> set (after_starting_block m metas)"
  shows "\<exists>d' r. process (manager_updater c) cs ev metas (m, d) = (Inr (), (m, d')) \<and>
    r \<in> set (user_challenges d') \<and> uc_challenge_id r = m_challenge_id m \<and>
    uc_specifier r = str_int (em_user_id e) \<and> uc_is_complete r"
proof -
  have "completing_updates (manager_updater c)"
    using assms(1) verified.completing_updates_axioms mobile.completing_updates_axioms
      tip.completing_updates_axioms list.completing_updates_axioms referred.completing_updates_axioms
    by (auto simp: completing_updates_def verified.challenge_updates_axioms mobile.challenge_updates_axioms
        tip.challenge_updates_axioms list.challenge_updates_axioms referred.challenge_updates_axioms)
  from completing_updates.process_completes [OF this assms(2-7)] show ?thesis .
qed

definition ex_mobile_manager :: challenge_manager where
  "ex_mobile_manager = \<lparr>m_challenge_id = ''mobile-install'', m_did_init = True, m_starting_block = Some 5,
     m_step_count = None, m_challenge_type = Some ChBoolean, m_is_active = True\<rparr>"

theorem event_completes_challenge_witness:
  "\<exists>d' r. process MobileInstallChallengeUpdater ex_challenge_services mobile_install
       [event_of (ex_event mobile_install 7 4)]
       (ex_mobile_manager, empty_db\<lparr>users := [(lookup_user_record empty_db 4 ''0xb'' 7 100 ''0x1'')
          \<lparr>us_is_deactivated := JBool True\<rparr>]\<rparr>) = (Inr (), (ex_mobile_manager, d')) \<and>
     r \<in> set (user_challenges d') \<and> uc_specifier r = ''4'' \<and> uc_is_complete r"
proof -
  let ?m = ex_mobile_manager and ?e = "event_of (ex_event mobile_install 7 4)"
  let ?d = "empty_db\<lparr>users := [(lookup_user_record empty_db 4 ''0xb'' 7 100 ''0x1'')\<lparr>us_is_deactivated := JBool True\<rparr>]\<rparr>"
  have "mobile_install_challenge_manager \<in> {connect_verified_challenge_manager, mobile_install_challenge_manager,
      send_first_tip_challenge_manager, first_content_list_challenge_manager, referred_challenge_manager}"
    "m_did_init ?m" "m_is_active ?m" "m_challenge_type ?m \<noteq> Some ChAggregate" "reward_keys_ok ?d"
    "\<And>d. cs_commit ex_challenge_services d = None" "?e \<in> set (after_starting_block ?m [?e])"
    by (simp_all add: ex_mobile_manager_def reward_keys_ok_def empty_db_def ex_challenge_services_def
        after_starting_block_def event_of_def ex_event_def)
  moreover have "str_int (em_user_id ?e) = ''4''" by code_simp
  ultimately show ?thesis using event_completes_challenge [of mobile_install_challenge_manager ?m ?d _ ?e "[?e]"]
    by fastforce
qed

text \<open>
  A run of the event bus takes one event more than \<open>max_events\<close> from the front of the
  queue, as Redis' \<open>lrange\<close> includes its end, reports how many it took, and leaves the rest in
  order.
\<close>

theorem process_events_dequeues:
  "fst (fst (process_events cs False max_events n)) = int (min (length (node_queue n)) (max_events + 1)) \<and>
   node_queue (snd (process_events cs False max_events n)) = drop (max_events + 1) (node_queue n)"
proof -
  have one: "node_queue (snd (run_listener cs ev es c s)) = node_queue (snd s)" for ev es c s
    by (auto simp: run_listener_def split: prod.split)
  have "node_queue (snd (fold (run_listener cs ev es) cls s)) = node_queue (snd s)" for ev es cls s
    by (induction cls arbitrary: s) (simp_all add: one)
  then have two: "node_queue (snd (run_listeners cs g s)) = node_queue (snd s)" for g s
    by (simp add: run_listeners_def)
  have "node_queue (snd (fold (run_listeners cs) gs s)) = node_queue (snd s)" for gs s
    by (induction gs arbitrary: s) (simp_all add: two)
  then have "node_queue n' = node_queue (snd s)" if "fold (run_listeners cs) gs s = (b, n')" for gs s b n'
    using that by (metis snd_conv)
  then show ?thesis
    by (auto simp: process_events_def Let_def min_def split: prod.split)
qed

lemma day_parts:
  "0 \<le> r \<Longrightarrow> r < one_day \<Longrightarrow> (q * one_day + r) div one_day = q \<and> (q * one_day + r) mod one_day = r"
  by (simp add: one_day_def)

text \<open>
  The window of the trending challenge is Friday from 12pm to 1pm Pacific time: the test on
  UTC hours is the test that the local time (seven hours earlier with daylight saving time,
  eight without) is on a Friday with hour 12.
\<close>

theorem trending_window_pacific:
  "get_is_valid_timestamp is_dst dt =
     (weekday (dt - (if is_dst dt then 7 else 8) * 3600) = 4 \<and>
      dt_hour (dt - (if is_dst dt then 7 else 8) * 3600) = 12)"
proof -
  have shift: "weekday dt = 4 \<and> 12 + off \<le> dt_hour dt \<and> dt_hour dt < 13 + off \<longleftrightarrow>
      weekday (dt - off * 3600) = 4 \<and> dt_hour (dt - off * 3600) = 12" if "off \<in> {7, 8}" for off
  proof -
    let ?q = "dt div one_day" and ?r = "dt mod one_day"
    have dt: "dt = ?q * one_day + ?r" and r: "0 \<le> ?r" "?r < one_day" by (simp_all add: one_day_def)
    show ?thesis
    proof (cases "off * 3600 \<le> ?r")
      case True
      have eq: "dt - off * 3600 = ?q * one_day + (?r - off * 3600)" using dt by simp
      have "0 \<le> ?r - off * 3600" "?r - off * 3600 < one_day" using True r that by auto
      from day_parts [OF this, of ?q]
      have "(dt - off * 3600) div one_day = ?q" "(dt - off * 3600) mod one_day = ?r - off * 3600"
        by (simp_all only: eq)
      moreover have "(?r - off * 3600) div 3600 = ?r div 3600 - off" using that by auto
      ultimately show ?thesis by (auto simp: weekday_def dt_hour_def)
    next
      case False
      have eq: "dt - off * 3600 = (?q - 1) * one_day + (?r - off * 3600 + one_day)" using dt by (simp add: one_day_def)
      have "0 \<le> ?r - off * 3600 + one_day" "?r - off * 3600 + one_day < one_day"
        using False r that by (auto simp: one_day_def)
      from day_parts [OF this, of "?q - 1"]
      have "(dt - off * 3600) mod one_day = ?r - off * 3600 + one_day" by (simp only: eq)
      moreover have "16 * 3600 \<le> ?r - off * 3600 + one_day" using r that by (auto simp: one_day_def)
      ultimately have "16 \<le> dt_hour (dt - off * 3600)" unfolding dt_hour_def by linarith
      moreover have "dt_hour dt < 12 + off" using False r that unfolding dt_hour_def by auto
      ultimately show ?thesis by auto
    qed
  qed
  show ?thesis
    using shift [of "if is_dst dt then 7 else 8"] by (auto simp: get_is_valid_timestamp_def Let_def)
qed

end
