(* ===== verification/Solana_Client.thy ===== *)
theory Solana_Client
  imports Event_Bus Helpers
begin

text \<open>
  The client of the Solana nodes, src/solana/solana_client_manager.py, the documents its calls
  return (src/solana/solana_transaction_types.py) and the keys of
  src/utils/cache_solana_program.py. A node is the record of its answers: what the attempt
  number \<open>i\<close> of a call returns or raises.
\<close>

section \<open>Documents\<close>

text \<open>One entry of the result of \<open>get_signatures_for_address\<close>.\<close>

record signature_info =
  si_signature :: string
  si_slot :: int
  si_blockTime :: int

text \<open>
  A token balance of a transaction. The amount is the decimal string of an unsigned 64 bit
  number, here that number.
\<close>

record token_balance =
  tb_accountIndex :: nat
  tb_owner :: string
  tb_amount :: int

record instruction =
  in_accounts :: "nat list"
  in_data :: string
  in_programIdIndex :: nat

text \<open>The member \<open>result\<close> of a transaction; the two lists of balances may be missing.\<close>

record transaction_info =
  sx_slot :: int
  sx_blockTime :: int
  sx_err :: bool
  sx_logMessages :: "string list"
  sx_accountKeys :: "string list"
  sx_instructions :: "instruction list"
  sx_preTokenBalances :: "token_balance list option"
  sx_postTokenBalances :: "token_balance list option"

section \<open>Nodes, attempts and retries\<close>

text \<open>
  \<open>sn_interrupted\<close> says whether the 30 seconds of \<open>timeout\<close> pass before the call for these
  signatures is done.
\<close>

record solana_node =
  sn_signatures :: "string \<Rightarrow> string option \<Rightarrow> nat option \<Rightarrow> nat \<Rightarrow> exc + signature_info list"
  sn_interrupted :: "string \<Rightarrow> string option \<Rightarrow> bool"
  sn_transaction :: "string \<Rightarrow> nat \<Rightarrow> exc + transaction_info option"
  sn_slot :: "nat \<Rightarrow> exc + int"

definition DEFAULT_MAX_RETRIES :: nat where
  "DEFAULT_MAX_RETRIES = 5"

text \<open>The \<open>while num_retries > 0\<close> loops: \<open>num_retries\<close> attempts from number \<open>i\<close> on.\<close>

fun attempts :: "(nat \<Rightarrow> exc + 'a) \<Rightarrow> exc \<Rightarrow> nat \<Rightarrow> nat \<Rightarrow> exc + 'a" where
  "attempts call failed 0 i = Inl failed"
| "attempts call failed (Suc num_retries) i =
     (case call i of Inr x \<Rightarrow> Inr x | Inl e \<Rightarrow> attempts call failed num_retries (Suc i))"

text \<open>\<open>_try_all\<close>, without the random order no call asks for.\<close>

fun try_all :: "'c list \<Rightarrow> ('c \<Rightarrow> exc + 'a) \<Rightarrow> string \<Rightarrow> exc + 'a" where
  "try_all [] func message = Inl (PyException message)"
| "try_all (c # cs) func message = (case func c of Inr x \<Rightarrow> Inr x | Inl e \<Rightarrow> try_all cs func message)"

definition try_all_with_timeout ::
  "'c list \<Rightarrow> ('c \<Rightarrow> bool) \<Rightarrow> ('c \<Rightarrow> exc + 'a) \<Rightarrow> string \<Rightarrow> exc + 'a" where
  "try_all_with_timeout clients interrupted func message =
     try_all clients (\<lambda>c. if interrupted c then Inl (PyException ''TimeoutError'') else func c) message"

text \<open>A result that is None is no result.\<close>

definition found_tx :: "exc + transaction_info option \<Rightarrow> exc + transaction_info" where
  "found_tx r = (case r of Inl e \<Rightarrow> Inl e | Inr None \<Rightarrow> Inl (PyException ''no result'') | Inr (Some t) \<Rightarrow> Inr t)"

definition get_sol_tx_info :: "solana_node list \<Rightarrow> string \<Rightarrow> exc + transaction_info" where
  "get_sol_tx_info clients tx_sig =
     try_all clients
       (\<lambda>c. attempts (\<lambda>i. found_tx (sn_transaction c tx_sig i))
              (PyException (''Failed to fetch '' @ tx_sig)) DEFAULT_MAX_RETRIES 0)
       (''All requests failed to fetch '' @ tx_sig)"

definition get_signatures_for_address ::
  "solana_node list \<Rightarrow> string \<Rightarrow> string option \<Rightarrow> nat option \<Rightarrow> exc + signature_info list" where
  "get_signatures_for_address clients account before limit =
     try_all_with_timeout clients (\<lambda>c. sn_interrupted c account before)
       (\<lambda>c. attempts (sn_signatures c account before limit)
              (PyException (''Failed to fetch account '' @ account)) DEFAULT_MAX_RETRIES 0)
       ''All requests failed''"

definition get_slot :: "solana_node list \<Rightarrow> exc + int" where
  "get_slot clients =
     try_all clients (\<lambda>c. attempts (sn_slot c) (PyException ''get_slot failed'') DEFAULT_MAX_RETRIES 0)
       ''All requests failed to fetch''"

text \<open>What the calls return is what some node answered in one of its attempts.\<close>

lemma attempts_Inr:
  "attempts call failed n i = Inr x \<longleftrightarrow>
    (\<exists>j<n. call (i + j) = Inr x \<and> (\<forall>k<j. isl (call (i + k))))"
proof (induction n arbitrary: i)
  case (Suc n)
  show ?case
  proof (cases "call i")
    case (Inl e)
    have "(\<exists>j<Suc n. call (i + j) = Inr x \<and> (\<forall>k<j. isl (call (i + k)))) \<longleftrightarrow>
        (\<exists>j<n. call (Suc i + j) = Inr x \<and> (\<forall>k<j. isl (call (Suc i + k))))"
    proof
      assume "\<exists>j<Suc n. call (i + j) = Inr x \<and> (\<forall>k<j. isl (call (i + k)))"
      then obtain j where j: "j < Suc n" "call (i + j) = Inr x" "\<forall>k<j. isl (call (i + k))" by blast
      with Inl obtain j' where [simp]: "j = Suc j'" by (cases j) auto
      from j show "\<exists>j<n. call (Suc i + j) = Inr x \<and> (\<forall>k<j. isl (call (Suc i + k)))"
        by (intro exI [of _ j']) auto
    next
      assume "\<exists>j<n. call (Suc i + j) = Inr x \<and> (\<forall>k<j. isl (call (Suc i + k)))"
      then obtain j where j: "j < n" "call (Suc i + j) = Inr x" "\<forall>k<j. isl (call (Suc i + k))" by blast
      have "isl (call (i + k))" if "k < Suc j" for k
        using that j(3) Inl by (cases k) auto
      with j show "\<exists>j<Suc n. call (i + j) = Inr x \<and> (\<forall>k<j. isl (call (i + k)))"
        by (intro exI [of _ "Suc j"]) auto
    qed
    with Inl Suc show ?thesis by simp
  next
    case (Inr y)
    have "(\<exists>j<Suc n. call (i + j) = Inr x \<and> (\<forall>k<j. isl (call (i + k)))) \<longleftrightarrow> y = x"
    proof
      assume "\<exists>j<Suc n. call (i + j) = Inr x \<and> (\<forall>k<j. isl (call (i + k)))"
      then obtain j where j: "call (i + j) = Inr x" "\<forall>k<j. isl (call (i + k))" by blast
      with Inr have "j = 0" by (metis add.right_neutral gr0I sum.disc(2))
      with j Inr show "y = x" by simp
    next
      assume "y = x"
      with Inr show "\<exists>j<Suc n. call (i + j) = Inr x \<and> (\<forall>k<j. isl (call (i + k)))"
        by (intro exI [of _ 0]) simp
    qed
    with Inr show ?thesis by simp
  qed
qed simp

lemma try_all_Inr: "try_all cs func m = Inr x \<Longrightarrow> \<exists>c\<in>set cs. func c = Inr x"
  by (induction cs) (auto split: sum.splits)

lemma try_all_Inl: "isl (try_all cs func m) \<longleftrightarrow> (\<forall>c\<in>set cs. isl (func c))"
  by (induction cs) (auto split: sum.splits)

text \<open>The first node that answers at all decides, and its first answer.\<close>

lemma try_all_first:
  "(\<And>c. c \<in> set cs \<Longrightarrow> isl (func c)) \<Longrightarrow> func d = Inr x \<Longrightarrow> try_all (cs @ d # ds) func m = Inr x"
proof (induction cs)
  case (Cons c cs)
  from Cons.prems(1) [of c] obtain e where "func c = Inl e" by (cases "func c") auto
  with Cons show ?case by simp
qed simp

lemma found_tx_Inr [simp]: "found_tx r = Inr t \<longleftrightarrow> r = Inr (Some t)"
  by (auto simp: found_tx_def split: sum.splits option.splits)

lemma attempts_found:
  assumes "attempts (\<lambda>i. found_tx (call i)) failed n 0 = Inr t"
  shows "\<exists>i<n. call i = Inr (Some t)"
  using assms unfolding attempts_Inr found_tx_Inr by auto

lemma get_sol_tx_info_answered:
  assumes "get_sol_tx_info clients tx_sig = Inr t"
  shows "\<exists>c\<in>set clients. \<exists>i<DEFAULT_MAX_RETRIES. sn_transaction c tx_sig i = Inr (Some t)"
  using try_all_Inr [OF assms [unfolded get_sol_tx_info_def]] by (blast dest: attempts_found)

section \<open>Sessions and cached transactions\<close>

text \<open>
  \<open>scoped_session\<close> of src/utils/session_manager.py with what a commit raises as an argument:
  commit when the body returned, roll the database back otherwise. Redis is not rolled back.
\<close>

definition session_scope :: "(db \<Rightarrow> exc option) \<Rightarrow> (world, 'a) py \<Rightarrow> (world, 'a) py" where
  "session_scope commit body w =
     (case body w of
        (Inl e, w') \<Rightarrow> (Inl e, w'\<lparr>w_db := w_db w\<rparr>)
      | (Inr x, w') \<Rightarrow>
          (case commit (w_db w') of
             Some e \<Rightarrow> (Inl e, w'\<lparr>w_db := w_db w\<rparr>)
           | None \<Rightarrow> (Inr x, w')))"

lemma session_scope_InrD:
  "session_scope commit body w = (Inr x, w') \<Longrightarrow> body w = (Inr x, w') \<and> commit (w_db w') = None"
  by (auto simp: session_scope_def split: prod.splits sum.splits option.splits)

lemma session_scope_InlD:
  "session_scope commit body w = (Inl e, w') \<Longrightarrow> w_db w' = w_db w"
  by (auto simp: session_scope_def split: prod.splits sum.splits option.splits)

text \<open>\<open>CachedProgramTxInfo\<close> under the key of a program.\<close>

definition cached_tx :: "string \<Rightarrow> int \<Rightarrow> int \<Rightarrow> json" where
  "cached_tx signature slot timestamp =
     JObj [(''signature'', JStr signature), (''slot'', JInt slot), (''timestamp'', JInt timestamp)]"

definition cache_latest_sol_db_tx :: "string \<Rightarrow> string \<Rightarrow> int \<Rightarrow> int \<Rightarrow> world \<Rightarrow> world" where
  "cache_latest_sol_db_tx cache_key signature slot timestamp =
     redis_set cache_key (cached_tx signature slot timestamp)"

definition cache_latest_sol_play_program_tx :: "string \<Rightarrow> signature_info \<Rightarrow> world \<Rightarrow> world" where
  "cache_latest_sol_play_program_tx cache_key tx =
     redis_set cache_key (cached_tx (si_signature tx) (si_slot tx) (si_blockTime tx))"

definition fetch_and_cache_latest_program_tx_redis ::
  "solana_node list \<Rightarrow> string \<Rightarrow> string \<Rightarrow> (world, unit) py" where
  "fetch_and_cache_latest_program_tx_redis clients program cache_key =
     py_bind (py_lift (get_signatures_for_address clients program None (Some 1))) (\<lambda>transactions_array.
       case transactions_array of
         [] \<Rightarrow> py_return ()
       | tx # rest \<Rightarrow> py_modify (cache_latest_sol_play_program_tx cache_key tx))"

lemma cache_latest_simps [simp, row_simps]:
  "w_db (cache_latest_sol_db_tx k s n t w) = w_db w"
  "w_queue (cache_latest_sol_db_tx k s n t w) = w_queue w"
  "w_db (cache_latest_sol_play_program_tx k tx w) = w_db w"
  by (simp_all add: cache_latest_sol_db_tx_def cache_latest_sol_play_program_tx_def)

end
