(* ===== verification/Solana_Signatures.thy ===== *)
theory Solana_Signatures
  imports Solana_Client "HOL-Library.Sublist"
begin

text \<open>
  How the Solana indexers find the transactions they have not processed: they page backwards
  through the signatures of a program, newest first, until they meet a transaction the
  database has. The same loop is in \<open>get_transaction_signatures\<close> of
  src/tasks/index_rewards_manager.py, in \<open>process_user_bank_txs\<close> of src/tasks/index_user_bank.py, in
  src/tasks/index_spl_token.py and src/tasks/index_solana_plays.py, and in
  \<open>get_transaction_batches_to_process\<close> of src/solana/solana_program_indexer.py. What they share is
  the locale \<open>page_scan\<close>.
\<close>

section \<open>Constants\<close>

definition FETCH_TX_SIGNATURES_BATCH_SIZE :: nat where
  "FETCH_TX_SIGNATURES_BATCH_SIZE = 1000"

definition WRITE_TX_SIGNATURES_BATCH_SIZE :: nat where
  "WRITE_TX_SIGNATURES_BATCH_SIZE = 500"

definition TX_SIGNATURES_MAX_BATCHES :: nat where
  "TX_SIGNATURES_MAX_BATCHES = 100"

definition TX_SIGNATURES_RESIZE_LENGTH :: nat where
  "TX_SIGNATURES_RESIZE_LENGTH = 75"

section \<open>The loop\<close>

type_synonym signatures_rpc = "string option \<Rightarrow> exc + signature_info list"

text \<open>
  One iteration requests a page, scans it (the transactions to process, and whether the
  intersection was found) and bounds the list of batches. The last transactions of the
  pages are returned too: two of the indexers push them to a Redis list.
\<close>

partial_function (option) walk ::
  "signatures_rpc \<Rightarrow> (signature_info list \<Rightarrow> 'i list \<times> bool) \<Rightarrow> ('i list list \<Rightarrow> 'i list list) \<Rightarrow>
    string option \<Rightarrow> 'i list list \<Rightarrow> signature_info list \<Rightarrow>
    ((exc + 'i list list) \<times> signature_info list) option" where
  "walk rpc scan bound last_tx_signature transaction_signatures seen =
     (case rpc last_tx_signature of
        Inl e \<Rightarrow> Some (Inl e, seen)
      | Inr [] \<Rightarrow> Some (Inr transaction_signatures, seen)
      | Inr (t # ts) \<Rightarrow>
          (case scan (t # ts) of (batch, intersection_found) \<Rightarrow>
             let last_tx = last (t # ts);
                 batches = bound (if batch = [] then transaction_signatures
                                  else transaction_signatures @ [batch])
             in if intersection_found then Some (Inr batches, seen @ [last_tx])
                else walk rpc scan bound (Some (si_signature last_tx)) batches (seen @ [last_tx])))"

declare walk.simps [code]

text \<open>\<open>transaction_signatures[-TX_SIGNATURES_RESIZE_LENGTH:]\<close>: the oldest batches are last.\<close>

definition resize_batches :: "'a list list \<Rightarrow> 'a list list" where
  "resize_batches batches =
     (if length batches > TX_SIGNATURES_MAX_BATCHES
      then drop (length batches - TX_SIGNATURES_RESIZE_LENGTH) batches else batches)"

text \<open>
  The scan of a page: transactions above the latest processed slot are new; below it the
  database is asked, unless the slot is not above \<open>min_slot\<close>, in which case the transaction is
  passed over.
\<close>

fun scan_page ::
  "int \<Rightarrow> int option \<Rightarrow> (string \<Rightarrow> bool) \<Rightarrow> string list \<Rightarrow> signature_info list \<Rightarrow> string list \<times> bool" where
  "scan_page latest_processed_slot min_slot exists batch [] = (batch, False)"
| "scan_page latest_processed_slot min_slot exists batch (tx # txs) =
     (if si_slot tx > latest_processed_slot
      then scan_page latest_processed_slot min_slot exists (batch @ [si_signature tx]) txs
      else if (case min_slot of None \<Rightarrow> True | Some m \<Rightarrow> si_slot tx > m) then
        (if exists (si_signature tx) then (batch, True)
         else scan_page latest_processed_slot min_slot exists (batch @ [si_signature tx]) txs)
      else scan_page latest_processed_slot min_slot exists batch txs)"

text \<open>\<open>get_transaction_signatures\<close>, with what it asks the database; the oldest batch comes first.\<close>

definition get_transaction_signatures ::
  "signatures_rpc \<Rightarrow> int \<Rightarrow> (string \<Rightarrow> bool) \<Rightarrow> int option \<Rightarrow> (exc + string list list) option" where
  "get_transaction_signatures rpc latest_processed_slot tx_exists min_slot =
     map_option (\<lambda>(r, seen). case r of Inl e \<Rightarrow> Inl e | Inr batches \<Rightarrow> Inr (rev batches))
       (walk rpc (scan_page latest_processed_slot min_slot tx_exists []) resize_batches None [] [])"

section \<open>Histories\<close>

text \<open>
  \<open>get_signatures_for_address\<close> as the documentation of the nodes describes it: with a history,
  newest first, a call returns the next entries older than the signature \<open>before\<close>.
\<close>

definition older_than :: "string option \<Rightarrow> signature_info list \<Rightarrow> signature_info list" where
  "older_than before history =
     (case before of
        None \<Rightarrow> history
      | Some s \<Rightarrow> tl (dropWhile (\<lambda>t. si_signature t \<noteq> s) history))"

definition serves :: "signature_info list \<Rightarrow> signatures_rpc \<Rightarrow> bool" where
  "serves history rpc \<longleftrightarrow> (\<forall>before.
     rpc before = Inr (take FETCH_TX_SIGNATURES_BATCH_SIZE (older_than before history)))"

definition history_rpc :: "signature_info list \<Rightarrow> signatures_rpc" where
  "history_rpc history before = Inr (take FETCH_TX_SIGNATURES_BATCH_SIZE (older_than before history))"

lemma serves_history_rpc [simp]: "serves history (history_rpc history)"
  by (simp add: serves_def history_rpc_def)

lemma older_than_None [simp]: "older_than None h = h"
  by (simp add: older_than_def)

lemma older_than_last:
  assumes "distinct (map si_signature (pre @ page @ rest))" and "page \<noteq> []"
  shows "older_than (Some (si_signature (last page))) (pre @ page @ rest) = rest"
proof -
  obtain init t where page: "page = init @ [t]" using assms(2) by (metis rev_exhaust)
  have "\<forall>x\<in>set (pre @ init). si_signature x \<noteq> si_signature t"
    using assms(1) by (auto simp: page image_iff)
  then have "dropWhile (\<lambda>x. si_signature x \<noteq> si_signature t) ((pre @ init) @ t # rest) = t # rest"
    by (subst dropWhile_append2) auto
  then show ?thesis by (simp add: page older_than_def)
qed

text \<open>What the loops rely on: how a page is scanned and how the list of batches is bounded.\<close>

locale page_scan =
  fixes scan :: "signature_info list \<Rightarrow> 'i list \<times> bool"
    and bound :: "'i list list \<Rightarrow> 'i list list"
    and item :: "signature_info \<Rightarrow> 'i" and stop :: "signature_info \<Rightarrow> bool" and skip :: "signature_info \<Rightarrow> bool"
  assumes scan_eq: "scan page =
      (map item (filter (\<lambda>t. \<not> skip t) (takeWhile (\<lambda>t. \<not> stop t) page)), \<exists>t\<in>set page. stop t)"
    and bound_suffix: "suffix (bound xs) xs"
    and bound_small: "length xs \<le> TX_SIGNATURES_MAX_BATCHES \<Longrightarrow> bound xs = xs"
    and bound_nonempty: "xs \<noteq> [] \<Longrightarrow> bound xs \<noteq> []"
begin

definition wanted :: "signature_info list \<Rightarrow> 'i list" where
  "wanted ts = map item (filter (\<lambda>t. \<not> skip t) (takeWhile (\<lambda>t. \<not> stop t) ts))"

definition unbounded :: bool where
  "unbounded \<longleftrightarrow> (\<forall>xs. bound xs = xs)"

lemma wanted_append:
  "wanted (xs @ ys) = (if \<exists>t\<in>set xs. stop t then wanted xs else wanted xs @ wanted ys)"
proof (cases "\<exists>t\<in>set xs. stop t")
  case True
  then obtain t where "t \<in> set xs" and "\<not> \<not> stop t" by blast
  then have "takeWhile (\<lambda>t. \<not> stop t) (xs @ ys) = takeWhile (\<lambda>t. \<not> stop t) xs"
    by (rule takeWhile_append1)
  with True show ?thesis by (simp add: wanted_def)
next
  case False
  then have "takeWhile (\<lambda>t. \<not> stop t) (xs @ ys) = xs @ takeWhile (\<lambda>t. \<not> stop t) ys"
    and "takeWhile (\<lambda>t. \<not> stop t) xs = xs"
    by (auto simp: takeWhile_append2 takeWhile_eq_all_conv)
  with False show ?thesis by (simp only: wanted_def filter_append map_append if_False)
qed

lemma bound_concat: "\<exists>dropped. concat xs = dropped @ concat (bound xs)"
proof -
  obtain pre where "xs = pre @ bound xs" using bound_suffix [of xs] by (auto simp: suffix_def)
  then have "concat xs = concat pre @ concat (bound xs)" by (metis concat_append)
  then show ?thesis ..
qed

lemma bound_batches: "(\<And>b. b \<in> set xs \<Longrightarrow> P b) \<Longrightarrow> b \<in> set (bound xs) \<Longrightarrow> P b"
  using set_mono_suffix [OF bound_suffix] by blast

text \<open>
  On a history with distinct signatures the loop ends, whatever the batches collected before. Every
  batch is non-empty, and together the batches are what the history has above the first
  transaction that stops the walk, less a newest part when there were too many.
\<close>

lemma walk_from:
  assumes hist: "history = pre @ rest" "distinct (map si_signature history)" "serves history rpc"
    and before: "older_than before history = rest"
    and batches: "\<And>b. b \<in> set batches \<Longrightarrow> b \<noteq> []"
  shows "\<exists>bs seen' dropped. walk rpc scan bound before batches seen = Some (Inr bs, seen') \<and>
    concat batches @ wanted rest = dropped @ concat bs \<and> (\<forall>b\<in>set bs. b \<noteq> []) \<and>
    (batches \<noteq> [] \<or> wanted rest \<noteq> [] \<longrightarrow> bs \<noteq> []) \<and>
    (unbounded \<or> length batches + length (takeWhile (\<lambda>t. \<not> stop t) rest) div
       FETCH_TX_SIGNATURES_BATCH_SIZE < TX_SIGNATURES_MAX_BATCHES \<longrightarrow> dropped = [])"
  using assms
proof (induction rest arbitrary: pre before batches seen rule: length_induct)
  case (1 rest)
  let ?N = FETCH_TX_SIGNATURES_BATCH_SIZE
  let ?ns = "takeWhile (\<lambda>t. \<not> stop t)"
  have N: "?N = 1000" by (simp add: FETCH_TX_SIGNATURES_BATCH_SIZE_def)
  define page where "page = take ?N rest"
  define rest' where "rest' = drop ?N rest"
  have rest: "rest = page @ rest'" by (simp add: page_def rest'_def)
  have answer: "rpc before = Inr page" using 1(4,5) by (simp add: serves_def page_def)
  show ?case
  proof (cases page)
    case Nil
    then have "rest = []" by (simp add: page_def N)
    with Nil answer 1(6) show ?thesis by (subst walk.simps) (auto simp: wanted_def)
  next
    case (Cons t ts)
    define batch where "batch = fst (scan page)"
    define batches' where "batches' = bound (if batch = [] then batches else batches @ [batch])"
    have scan: "scan page = (batch, \<exists>t\<in>set page. stop t)" by (simp add: batch_def scan_eq)
    have batch: "batch = wanted page" by (simp add: batch_def scan_eq wanted_def)
    have step: "walk rpc scan bound before batches seen =
        (if \<exists>t\<in>set page. stop t then Some (Inr batches', seen @ [last page])
         else walk rpc scan bound (Some (si_signature (last page))) batches' (seen @ [last page]))"
      using answer scan Cons by (subst walk.simps) (simp add: batches'_def Let_def)
    have all: "b \<noteq> []" if "b \<in> set batches'" for b
      using that 1(6) unfolding batches'_def by (elim bound_batches [rotated]) (auto split: if_splits)
    have conc: "concat (if batch = [] then batches else batches @ [batch]) = concat batches @ wanted page"
      by (simp add: batch)
    obtain dropped where dropped: "concat batches @ wanted page = dropped @ concat batches'"
      using bound_concat [of "if batch = [] then batches else batches @ [batch]"]
      unfolding conc batches'_def by blast
    have ne: "batches' \<noteq> []" if "batches \<noteq> [] \<or> wanted page \<noteq> []"
      using that unfolding batches'_def batch by (intro bound_nonempty) auto
    have small: "batches' = (if batch = [] then batches else batches @ [batch])"
      if "unbounded \<or> length batches < TX_SIGNATURES_MAX_BATCHES"
      using that
    proof
      assume "length batches < TX_SIGNATURES_MAX_BATCHES"
      then show ?thesis unfolding batches'_def by (intro bound_small) auto
    qed (simp add: batches'_def unbounded_def)
    show ?thesis
    proof (cases "\<exists>t\<in>set page. stop t")
      case True
      have w: "wanted rest = wanted page" using True by (simp add: rest wanted_append)
      have d: "dropped = []" if "unbounded \<or> length batches < TX_SIGNATURES_MAX_BATCHES"
        using dropped conc small [OF that] by simp
      show ?thesis
      proof (intro exI conjI impI)
        show "walk rpc scan bound before batches seen = Some (Inr batches', seen @ [last page])"
          by (simp only: step True if_True)
        show "concat batches @ wanted rest = dropped @ concat batches'" by (simp only: w dropped)
      qed (use all ne d in \<open>auto simp: w\<close>)
    next
      case False
      have w: "wanted rest = wanted page @ wanted rest'" using False by (simp add: rest wanted_append)
      have tw: "?ns rest = page @ ?ns rest'"
        using False by (simp add: rest takeWhile_append2)
      have shorter: "length rest' < length rest" using Cons by (simp add: rest)
      have hist': "history = (pre @ page) @ rest'" using 1(2) by (simp add: rest)
      have before': "older_than (Some (si_signature (last page))) history = rest'"
        using older_than_last [of pre page rest'] 1(2,3) Cons by (simp add: rest)
      obtain bs seen' dropped' where
        run: "walk rpc scan bound (Some (si_signature (last page))) batches' (seen @ [last page]) = Some (Inr bs, seen')"
        and conc': "concat batches' @ wanted rest' = dropped' @ concat bs"
        and ne': "\<forall>b\<in>set bs. b \<noteq> []" and prog: "batches' \<noteq> [] \<or> wanted rest' \<noteq> [] \<longrightarrow> bs \<noteq> []"
        and d': "unbounded \<or> length batches' + length (?ns rest') div ?N < TX_SIGNATURES_MAX_BATCHES
          \<longrightarrow> dropped' = []"
        using 1(1) [rule_format, OF shorter hist' 1(3,4) before' all] by blast
      have dn: "dropped @ dropped' = []"
        if lt: "unbounded \<or> length batches + length (?ns rest) div ?N < TX_SIGNATURES_MAX_BATCHES"
      proof -
        have b': "batches' = (if batch = [] then batches else batches @ [batch])"
          using lt by (intro small) auto
        have "dropped = []" using dropped conc b' by simp
        moreover have "dropped' = []"
        proof (cases "length page = ?N")
          case True
          then have "length (?ns rest) div ?N = Suc (length (?ns rest') div ?N)"
            by (simp add: tw N)
          then show ?thesis using d' lt b' by (auto split: if_splits)
        next
          case False
          then have "rest' = []" by (simp add: page_def rest'_def)
          then have "bs = batches'"
            using run before' 1(4) by (subst (asm) walk.simps) (simp add: serves_def)
          then show ?thesis using conc' \<open>rest' = []\<close> by (simp add: wanted_def)
        qed
        ultimately show ?thesis by simp
      qed
      show ?thesis
      proof (intro exI conjI impI)
        show "walk rpc scan bound before batches seen = Some (Inr bs, seen')"
          using False run by (simp only: step if_False)
        show "concat batches @ wanted rest = (dropped @ dropped') @ concat bs"
          using dropped conc' by (simp add: w) (metis append.assoc)
        show "bs \<noteq> []" if "batches \<noteq> [] \<or> wanted rest \<noteq> []"
          using that ne prog by (auto simp: w)
      qed (use ne' dn in auto)
    qed
  qed
qed

lemma walk_history:
  assumes "distinct (map si_signature history)" and "serves history rpc"
  obtains bs seen dropped where "walk rpc scan bound None [] [] = Some (Inr bs, seen)"
    and "wanted history = dropped @ concat bs" and "\<And>b. b \<in> set bs \<Longrightarrow> b \<noteq> []"
    and "wanted history \<noteq> [] \<Longrightarrow> bs \<noteq> []"
    and "unbounded \<or> length (takeWhile (\<lambda>t. \<not> stop t) history) <
      TX_SIGNATURES_MAX_BATCHES * FETCH_TX_SIGNATURES_BATCH_SIZE \<Longrightarrow> dropped = []"
proof -
  have "\<exists>bs seen' dropped. walk rpc scan bound None [] [] = Some (Inr bs, seen') \<and>
    concat [] @ wanted history = dropped @ concat bs \<and> (\<forall>b\<in>set bs. b \<noteq> []) \<and>
    ([] \<noteq> ([]::'i list list) \<or> wanted history \<noteq> [] \<longrightarrow> bs \<noteq> []) \<and>
    (unbounded \<or> length ([]::'i list list) + length (takeWhile (\<lambda>t. \<not> stop t) history) div
       FETCH_TX_SIGNATURES_BATCH_SIZE < TX_SIGNATURES_MAX_BATCHES \<longrightarrow> dropped = [])"
    by (rule walk_from [of history "[]" history]) (use assms in auto)
  then obtain bs seen dropped where w: "walk rpc scan bound None [] [] = Some (Inr bs, seen)"
    "wanted history = dropped @ concat bs" "\<forall>b\<in>set bs. b \<noteq> []" "wanted history \<noteq> [] \<longrightarrow> bs \<noteq> []"
    and d: "unbounded \<or> length (takeWhile (\<lambda>t. \<not> stop t) history) div
       FETCH_TX_SIGNATURES_BATCH_SIZE < TX_SIGNATURES_MAX_BATCHES \<longrightarrow> dropped = []"
    unfolding concat.simps append_Nil list.size add_0 by blast
  have "unbounded \<or> length (takeWhile (\<lambda>t. \<not> stop t) history) <
      TX_SIGNATURES_MAX_BATCHES * FETCH_TX_SIGNATURES_BATCH_SIZE \<Longrightarrow> dropped = []"
    using d by (auto simp: less_mult_imp_div_less)
  with w show thesis by (intro that [OF w(1,2)]) blast+
qed

end

section \<open>Rewards manager and user bank\<close>

lemma resize_batches_suffix: "suffix (resize_batches xs) xs"
  by (simp add: resize_batches_def suffix_drop)

lemma scan_page_eq:
  "scan_page latest min_slot tx_exists b page =
    (b @ map si_signature (filter (\<lambda>t. \<not> (si_slot t \<le> latest \<and> \<not> (case min_slot of None \<Rightarrow> True | Some m \<Rightarrow> m < si_slot t)))
      (takeWhile (\<lambda>t. \<not> (si_slot t \<le> latest \<and> (case min_slot of None \<Rightarrow> True | Some m \<Rightarrow> m < si_slot t) \<and>
         tx_exists (si_signature t))) page)),
     \<exists>t\<in>set page. si_slot t \<le> latest \<and> (case min_slot of None \<Rightarrow> True | Some m \<Rightarrow> m < si_slot t) \<and>
         tx_exists (si_signature t))"
  by (induction page arbitrary: b) (auto simp: not_less not_le split: option.splits)

interpretation sp: page_scan "scan_page latest min_slot tx_exists []" resize_batches si_signature
    "\<lambda>t. si_slot t \<le> latest \<and> (case min_slot of None \<Rightarrow> True | Some m \<Rightarrow> m < si_slot t) \<and> tx_exists (si_signature t)"
    "\<lambda>t. si_slot t \<le> latest \<and> \<not> (case min_slot of None \<Rightarrow> True | Some m \<Rightarrow> m < si_slot t)"
  for latest min_slot tx_exists
proof unfold_locales
  show "resize_batches xs \<noteq> []" if "xs \<noteq> []" for xs :: "string list list"
    using that by (simp add: resize_batches_def TX_SIGNATURES_RESIZE_LENGTH_def TX_SIGNATURES_MAX_BATCHES_def) arith
  show "suffix (resize_batches xs) xs" for xs :: "string list list" by (rule resize_batches_suffix)
qed (simp_all add: scan_page_eq resize_batches_def)

text \<open>
  The intersection of a history with the database: the database holds exactly the oldest part
  \<open>old\<close> of the history, none of it above the latest slot, and every slot is above \<open>min_slot\<close>.
\<close>

definition database_holds :: "signature_info list \<Rightarrow> int \<Rightarrow> (string \<Rightarrow> bool) \<Rightarrow> int option \<Rightarrow> bool" where
  "database_holds old latest tx_exists min_slot \<longleftrightarrow>
     (\<forall>s. tx_exists s \<longleftrightarrow> s \<in> si_signature ` set old) \<and> (\<forall>t\<in>set old. si_slot t \<le> latest)"

definition above_min :: "int option \<Rightarrow> signature_info list \<Rightarrow> bool" where
  "above_min min_slot history \<longleftrightarrow> (case min_slot of None \<Rightarrow> True | Some m \<Rightarrow> \<forall>t\<in>set history. m < si_slot t)"

lemma wanted_new:
  assumes dist: "distinct (map si_signature (new @ old))"
    and db: "database_holds old latest tx_exists min_slot" and min: "above_min min_slot (new @ old)"
  shows "sp.wanted latest min_slot tx_exists (new @ old) = map si_signature new" (is "?w = _")
    and "takeWhile (\<lambda>t. \<not> (si_slot t \<le> latest \<and> (case min_slot of None \<Rightarrow> True | Some m \<Rightarrow> m < si_slot t) \<and>
      tx_exists (si_signature t))) (new @ old) = new"
proof -
  let ?stop = "\<lambda>t. si_slot t \<le> latest \<and> (case min_slot of None \<Rightarrow> True | Some m \<Rightarrow> m < si_slot t) \<and> tx_exists (si_signature t)"
  have ok: "case min_slot of None \<Rightarrow> True | Some m \<Rightarrow> m < si_slot t" if "t \<in> set (new @ old)" for t
    using min that by (simp add: above_min_def split: option.splits)
  have fresh: "\<not> ?stop t" if "t \<in> set new" for t
    using that db dist by (auto simp: database_holds_def)
  have "takeWhile (\<lambda>t. \<not> ?stop t) old = []"
    using ok db by (cases old) (auto simp: database_holds_def)
  with fresh show tw: "takeWhile (\<lambda>t. \<not> ?stop t) (new @ old) = new"
    by (subst takeWhile_append2) auto
  have "filter (\<lambda>t. \<not> (si_slot t \<le> latest \<and> \<not> (case min_slot of None \<Rightarrow> True | Some m \<Rightarrow> m < si_slot t))) new = new"
    using ok by (simp add: filter_id_conv)
  then show "?w = map si_signature new" by (simp only: sp.wanted_def tw)
qed

lemma signatures_found:
  assumes "distinct (map si_signature (new @ old))" and "serves (new @ old) rpc"
    and "database_holds old latest tx_exists min_slot" and "above_min min_slot (new @ old)"
  shows "\<exists>batches dropped.
    get_transaction_signatures rpc latest tx_exists min_slot = Some (Inr batches) \<and>
    map si_signature new = dropped @ concat (rev batches) \<and> (\<forall>b\<in>set batches. b \<noteq> []) \<and>
    (new \<noteq> [] \<longrightarrow> batches \<noteq> []) \<and>
    (length new < TX_SIGNATURES_MAX_BATCHES * FETCH_TX_SIGNATURES_BATCH_SIZE \<longrightarrow> dropped = [])"
proof -
  note new = wanted_new [OF assms(1,3,4)]
  obtain bs seen dropped where
    "walk rpc (scan_page latest min_slot tx_exists []) resize_batches None [] [] = Some (Inr bs, seen)"
    and "map si_signature new = dropped @ concat bs" and "\<And>b. b \<in> set bs \<Longrightarrow> b \<noteq> []"
    and "map si_signature new \<noteq> [] \<Longrightarrow> bs \<noteq> []"
    and "length new < TX_SIGNATURES_MAX_BATCHES * FETCH_TX_SIGNATURES_BATCH_SIZE \<Longrightarrow> dropped = []"
    by (rule sp.walk_history [OF assms(1,2), of latest min_slot tx_exists, unfolded new]) (rule that, simp_all)
  then show ?thesis
    by (intro exI [of _ "rev bs"] exI [of _ dropped]) (auto simp: get_transaction_signatures_def)
qed

text \<open>
  C26. When the database holds the oldest part of a program's history, the walk through the
  signatures ends, and the batches it returns, oldest first, are exactly the transactions
  directly above that part: no transaction in between is left out, and only when there are a
  hundred pages of new transactions are the newest put off to a later run.
\<close>

theorem signatures_contiguous:
  assumes "distinct (map si_signature (new @ old))" and "serves (new @ old) rpc"
    and "database_holds old latest tx_exists min_slot" and "above_min min_slot (new @ old)"
  shows "\<exists>batches dropped.
    get_transaction_signatures rpc latest tx_exists min_slot = Some (Inr batches) \<and>
    map si_signature new = dropped @ concat (rev batches) \<and> (\<forall>b\<in>set batches. b \<noteq> []) \<and>
    (new \<noteq> [] \<longrightarrow> batches \<noteq> []) \<and>
    (length new < TX_SIGNATURES_MAX_BATCHES * FETCH_TX_SIGNATURES_BATCH_SIZE \<longrightarrow> dropped = [])"
  using assms by (rule signatures_found)

definition ex_tx :: "string \<Rightarrow> int \<Rightarrow> signature_info" where
  "ex_tx s n = \<lparr>si_signature = s, si_slot = n, si_blockTime = 100 + n\<rparr>"

lemma ex_tx_simps [simp]:
  "si_signature (ex_tx s n) = s" "si_slot (ex_tx s n) = n" "si_blockTime (ex_tx s n) = 100 + n"
  by (simp_all add: ex_tx_def)

theorem signatures_contiguous_witness:
  "\<exists>batches dropped.
    get_transaction_signatures (history_rpc [ex_tx ''d'' 8, ex_tx ''c'' 7, ex_tx ''b'' 7, ex_tx ''a'' 5])
      7 (\<lambda>s. s \<in> {''b'', ''a''}) (Some 1) = Some (Inr batches) \<and>
    [''d'', ''c''] = dropped @ concat (rev batches) \<and> dropped = []"
  using signatures_contiguous [of "[ex_tx ''d'' 8, ex_tx ''c'' 7]" "[ex_tx ''b'' 7, ex_tx ''a'' 5]"
      "history_rpc [ex_tx ''d'' 8, ex_tx ''c'' 7, ex_tx ''b'' 7, ex_tx ''a'' 5]" 7 "\<lambda>s. s \<in> {''b'', ''a''}" "Some 1"]
  by (simp add: database_holds_def above_min_def TX_SIGNATURES_MAX_BATCHES_def FETCH_TX_SIGNATURES_BATCH_SIZE_def)
    fastforce

section \<open>The program indexer\<close>

text \<open>
  \<open>get_transaction_batches_to_process\<close> of src/solana/solana_program_indexer.py collects all
  unindexed transactions first and makes batches of them afterwards.
\<close>

fun scan_unindexed ::
  "int \<Rightarrow> (string \<Rightarrow> bool) \<Rightarrow> signature_info list \<Rightarrow> signature_info list \<Rightarrow> signature_info list \<times> bool" where
  "scan_unindexed latest_processed_slot is_tx_in_db unindexed [] = (unindexed, False)"
| "scan_unindexed latest_processed_slot is_tx_in_db unindexed (tx # txs) =
     (if si_slot tx > latest_processed_slot
      then scan_unindexed latest_processed_slot is_tx_in_db (unindexed @ [tx]) txs
      else if is_tx_in_db (si_signature tx) then (unindexed, True)
      else scan_unindexed latest_processed_slot is_tx_in_db (unindexed @ [tx]) txs)"

partial_function (option) walk_unindexed ::
  "signatures_rpc \<Rightarrow> int \<Rightarrow> (string \<Rightarrow> bool) \<Rightarrow> string option \<Rightarrow> signature_info list \<Rightarrow>
    (exc + signature_info list) option" where
  "walk_unindexed rpc latest_processed_slot is_tx_in_db last_tx_signature unindexed =
     (case rpc last_tx_signature of
        Inl e \<Rightarrow> Some (Inl e)
      | Inr [] \<Rightarrow> Some (Inr unindexed)
      | Inr (t # ts) \<Rightarrow>
          (case scan_unindexed latest_processed_slot is_tx_in_db unindexed (t # ts) of
             (unindexed, intersection_found) \<Rightarrow>
               if intersection_found then Some (Inr unindexed)
               else walk_unindexed rpc latest_processed_slot is_tx_in_db
                      (if unindexed = [] then last_tx_signature else Some (si_signature (last unindexed)))
                      unindexed))"

declare walk_unindexed.simps [code]

text \<open>The loop over \<open>range(1, len(unindexed_transactions))\<close>: \<open>prev\<close> is the transaction before.\<close>

fun slot_batches :: "string list \<Rightarrow> signature_info \<Rightarrow> signature_info list \<Rightarrow> string list list" where
  "slot_batches batch prev [] = (if batch = [] then [] else [batch])"
| "slot_batches batch prev (tx # txs) =
     (if length batch \<ge> WRITE_TX_SIGNATURES_BATCH_SIZE \<and> si_slot prev \<noteq> si_slot tx
      then batch # slot_batches [si_signature tx] tx txs
      else slot_batches (batch @ [si_signature tx]) tx txs)"

definition transaction_batches :: "signature_info list \<Rightarrow> string list list" where
  "transaction_batches unindexed =
     (if length unindexed \<le> FETCH_TX_SIGNATURES_BATCH_SIZE then [map si_signature unindexed]
      else case unindexed of
        [] \<Rightarrow> []
      | t # ts \<Rightarrow> rev (resize_batches (slot_batches [si_signature t] t ts)))"

definition get_transaction_batches_to_process ::
  "signatures_rpc \<Rightarrow> int \<Rightarrow> (string \<Rightarrow> bool) \<Rightarrow> (exc + string list list) option" where
  "get_transaction_batches_to_process rpc latest_processed_slot is_tx_in_db =
     map_option (\<lambda>r. case r of Inl e \<Rightarrow> Inl e | Inr unindexed \<Rightarrow> Inr (transaction_batches unindexed))
       (walk_unindexed rpc latest_processed_slot is_tx_in_db None [])"

lemma scan_unindexed_eq:
  "scan_unindexed latest in_db un page =
    (un @ takeWhile (\<lambda>t. \<not> (si_slot t \<le> latest \<and> in_db (si_signature t))) page,
     \<exists>t\<in>set page. si_slot t \<le> latest \<and> in_db (si_signature t))"
  by (induction page arbitrary: un) (auto simp: not_less not_le)

text \<open>It is the same walk, with the transactions themselves as items and no bound.\<close>

interpretation un: page_scan "scan_unindexed latest in_db []" "\<lambda>bs. bs" "\<lambda>t. t"
    "\<lambda>t. si_slot t \<le> latest \<and> in_db (si_signature t)" "\<lambda>t. False"
  for latest in_db
  by unfold_locales (simp_all add: scan_unindexed_eq)

lemma walk_unindexed_walk:
  "walk (\<lambda>b. rpc b) (scan_unindexed latest in_db []) (\<lambda>bs. bs) before bs seen = Some (Inr bs', seen') \<Longrightarrow>
   walk_unindexed rpc latest in_db before (concat bs) = Some (Inr (concat bs'))"
proof -
  have "\<forall>bs' seen'. scan = scan_unindexed latest in_db [] \<longrightarrow> bound = (\<lambda>bs. bs) \<longrightarrow> res = (Inr bs', seen') \<longrightarrow>
      walk_unindexed rpc latest in_db before (concat bs) = Some (Inr (concat bs'))"
    if "walk rpc scan bound before bs seen = Some res" for scan bound before bs seen res
    using that
  proof (induction rule: walk.raw_induct [rotated, consumes 1, case_names step])
    case (step loop rpc scan bound before bs seen res)
    show ?case
    proof (intro allI impI)
      fix bs' seen'
      assume scan: "scan = scan_unindexed latest in_db []" and bound: "bound = (\<lambda>bs. bs)" and res: "res = (Inr bs', seen')"
      show "walk_unindexed rpc latest in_db before (concat bs) = Some (Inr (concat bs'))"
      proof (cases "rpc before")
        case (Inl e)
        with step(2) res show ?thesis by simp
      next
        case (Inr page)
        show ?thesis
        proof (cases page)
          case Nil
          with step(2) Inr res show ?thesis by (subst walk_unindexed.simps) simp
        next
          case (Cons t ts)
          let ?stop = "\<lambda>t. si_slot t \<le> latest \<and> in_db (si_signature t)"
          let ?b = "takeWhile (\<lambda>t. \<not> ?stop t) page"
          let ?bs = "if ?b = [] then bs else bs @ [?b]"
          have c: "concat ?bs = concat bs @ ?b" by simp
          show ?thesis
          proof (cases "\<exists>t\<in>set page. ?stop t")
            case True
            with step(2) Inr Cons res show ?thesis
              by (subst walk_unindexed.simps)
                (auto simp: scan bound scan_unindexed_eq Let_def simp del: takeWhile.simps split: if_splits)
          next
            case False
            then have b: "?b = page" by (simp add: takeWhile_eq_all_conv)
            have "scan_unindexed latest in_db un page = (un @ page, False)" for un
              unfolding scan_unindexed_eq b using False by simp
            then have sc: "scan_unindexed latest in_db un (t # ts) = (un @ t # ts, False)" for un
              by (simp only: Cons)
            have "loop rpc scan bound (Some (si_signature (last page))) (bs @ [page]) (seen @ [last page]) = Some res"
              using step(2) Inr Cons by (simp add: scan bound sc Let_def del: scan_unindexed.simps last.simps)
            from step(1) [OF this] scan bound res
            have "walk_unindexed rpc latest in_db (Some (si_signature (last page))) (concat bs @ page) = Some (Inr (concat bs'))"
              by simp
            with Inr Cons show ?thesis by (subst walk_unindexed.simps) (simp add: sc del: scan_unindexed.simps last.simps)
          qed
        qed
      qed
    qed
  qed
  then show "walk (\<lambda>b. rpc b) (scan_unindexed latest in_db []) (\<lambda>bs. bs) before bs seen = Some (Inr bs', seen') \<Longrightarrow>
    walk_unindexed rpc latest in_db before (concat bs) = Some (Inr (concat bs'))" by blast
qed

text \<open>
  How the batches are cut: none is empty, and the last transaction of a batch and the first of
  the next one have different slots.
\<close>

lemma slot_batches_groups:
  assumes "cur \<noteq> []"
  shows "\<exists>gs. slot_batches (map si_signature cur) (last cur) ts = map (map si_signature) gs \<and>
    concat gs = cur @ ts \<and> (\<forall>g\<in>set gs. g \<noteq> []) \<and> gs \<noteq> [] \<and> hd (hd gs) = hd cur \<and>
    successively (\<lambda>g h. si_slot (last g) \<noteq> si_slot (hd h)) gs"
  using assms
proof (induction ts arbitrary: cur)
  case Nil
  then show ?case by (intro exI [of _ "[cur]"]) simp
next
  case (Cons t ts)
  show ?case
  proof (cases "length cur \<ge> WRITE_TX_SIGNATURES_BATCH_SIZE \<and> si_slot (last cur) \<noteq> si_slot t")
    case True
    obtain gs where gs: "slot_batches (map si_signature [t]) (last [t]) ts = map (map si_signature) gs"
      "concat gs = [t] @ ts" "\<forall>g\<in>set gs. g \<noteq> []" "gs \<noteq> []" "hd (hd gs) = hd [t]"
      "successively (\<lambda>g h. si_slot (last g) \<noteq> si_slot (hd h)) gs"
      using Cons.IH [of "[t]"] by blast
    with True Cons.prems show ?thesis
      by (intro exI [of _ "cur # gs"]) (cases gs; simp)
  next
    case False
    obtain gs where gs: "slot_batches (map si_signature (cur @ [t])) (last (cur @ [t])) ts = map (map si_signature) gs"
      "concat gs = (cur @ [t]) @ ts" "\<forall>g\<in>set gs. g \<noteq> []" "gs \<noteq> []" "hd (hd gs) = hd (cur @ [t])"
      "successively (\<lambda>g h. si_slot (last g) \<noteq> si_slot (hd h)) gs"
      using Cons.IH [of "cur @ [t]"] by blast
    with False Cons.prems show ?thesis by (intro exI [of _ gs]) auto
  qed
qed

lemma sorted_groups_apart:
  assumes "sorted_wrt (\<lambda>x y. f y \<le> (f x :: int)) (concat gs)" and "\<forall>g\<in>set gs. g \<noteq> []"
    and "successively (\<lambda>g h. f (last g) \<noteq> f (hd h)) gs"
  shows "sorted_wrt (\<lambda>g h. \<forall>x\<in>set g. \<forall>y\<in>set h. f y < f x) gs"
  using assms
proof (induction gs)
  case (Cons g gs)
  have rest: "sorted_wrt (\<lambda>g h. \<forall>x\<in>set g. \<forall>y\<in>set h. f y < f x) gs"
    using Cons.prems by (intro Cons.IH) (auto simp: sorted_wrt_append successively_Cons)
  have "f y < f x" if x: "x \<in> set g" and y: "y \<in> set (concat gs)" for x y
  proof -
    obtain h hs where gs: "gs = h # hs" using y by (cases gs) auto
    have h: "h \<noteq> []" "g \<noteq> []" using Cons.prems(2) gs by auto
    have "f (last g) \<le> f x"
      using Cons.prems(1) x h(2) by (cases g rule: rev_cases) (auto simp: sorted_wrt_append)
    moreover have "f (hd h) \<le> f (last g)"
      using Cons.prems(1) h by (cases h) (auto simp: gs sorted_wrt_append)
    moreover have "f (last g) \<noteq> f (hd h)" using Cons.prems(3) gs by simp
    moreover have "f y \<le> f (hd h)"
      using Cons.prems(1) y h by (cases h) (auto simp: gs sorted_wrt_append)
    ultimately show ?thesis by linarith
  qed
  then show ?case using rest by (simp only: sorted_wrt.simps) fastforce
qed simp

text \<open>
  The program indexer never splits the transactions of one slot over two batches: on a
  history whose slots do not increase from newer to older, a batch with one transaction of a
  slot has all the unindexed transactions of that slot.
\<close>

theorem slots_not_split:
  assumes "sorted_wrt (\<lambda>t u. si_slot u \<le> si_slot t) unindexed"
    and "batch \<in> set (transaction_batches unindexed)" and "t \<in> set unindexed" and "u \<in> set unindexed"
    and "distinct (map si_signature unindexed)"
    and "si_signature t \<in> set batch" and "si_slot u = si_slot t"
  shows "si_signature u \<in> set batch"
proof (cases "length unindexed \<le> FETCH_TX_SIGNATURES_BATCH_SIZE")
  case True
  with assms show ?thesis by (simp add: transaction_batches_def)
next
  case False
  then obtain x xs where un: "unindexed = x # xs"
    by (cases unindexed) (auto simp: FETCH_TX_SIGNATURES_BATCH_SIZE_def)
  obtain gs where gs: "slot_batches [si_signature x] x xs = map (map si_signature) gs"
    "concat gs = unindexed" "\<forall>g\<in>set gs. g \<noteq> []" "successively (\<lambda>g h. si_slot (last g) \<noteq> si_slot (hd h)) gs"
    using slot_batches_groups [of "[x]" xs] by (auto simp: un)
  have "batch \<in> set (resize_batches (slot_batches [si_signature x] x xs))"
    using assms(2) False by (simp add: transaction_batches_def un)
  then have "batch \<in> set (slot_batches [si_signature x] x xs)"
    using set_mono_suffix [OF resize_batches_suffix] by blast
  then obtain g where g: "g \<in> set gs" "batch = map si_signature g" by (auto simp: gs(1))
  have "set g \<subseteq> set unindexed" using g(1) by (auto simp: gs(2) [symmetric])
  then have t: "t \<in> set g"
    using assms(3,5,6) g(2) by (auto simp: distinct_map inj_on_def)
  obtain h where h: "h \<in> set gs" "u \<in> set h" using assms(4) by (auto simp: gs(2) [symmetric])
  have "sorted_wrt (\<lambda>g h. \<forall>x\<in>set g. \<forall>y\<in>set h. si_slot y < si_slot x) gs"
    using assms(1) gs by (intro sorted_groups_apart) auto
  then have "g = h \<or> (\<forall>x\<in>set g. \<forall>y\<in>set h. si_slot y < si_slot x) \<or> (\<forall>x\<in>set h. \<forall>y\<in>set g. si_slot y < si_slot x)"
    using g(1) h(1) unfolding sorted_wrt_iff_nth_less in_set_conv_nth by (metis linorder_neqE_nat)
  with t h(2) assms(7) have "g = h" by fastforce
  then show ?thesis using h(2) g(2) by simp
qed

theorem slots_not_split_witness:
  "''b'' \<in> set (hd (transaction_batches [ex_tx ''c'' 8, ex_tx ''b'' 7, ex_tx ''a'' 7]))"
  using slots_not_split [of "[ex_tx ''c'' 8, ex_tx ''b'' 7, ex_tx ''a'' 7]"
      "hd (transaction_batches [ex_tx ''c'' 8, ex_tx ''b'' 7, ex_tx ''a'' 7])" "ex_tx ''a'' 7" "ex_tx ''b'' 7"]
  by (simp add: transaction_batches_def FETCH_TX_SIGNATURES_BATCH_SIZE_def)

text \<open>The walk of the program indexer finds the same transactions.\<close>

lemma program_batches_contiguous:
  assumes "distinct (map si_signature (new @ old))" and "serves (new @ old) rpc"
    and "database_holds old latest in_db None"
  shows "get_transaction_batches_to_process rpc latest in_db = Some (Inr (transaction_batches new))"
proof -
  let ?stop = "\<lambda>t. si_slot t \<le> latest \<and> in_db (si_signature t)"
  have "takeWhile (\<lambda>t. \<not> ?stop t) old = []"
    using assms(3) by (cases old) (auto simp: database_holds_def)
  moreover have "\<not> ?stop t" if "t \<in> set new" for t
    using that assms(1,3) by (auto simp: database_holds_def)
  ultimately have tw: "takeWhile (\<lambda>t. \<not> ?stop t) (new @ old) = new"
    by (subst takeWhile_append2) auto
  then have w: "un.wanted latest in_db (new @ old) = new" by (simp add: un.wanted_def)
  obtain bs seen where run: "walk rpc (scan_unindexed latest in_db []) (\<lambda>bs. bs) None [] [] = Some (Inr bs, seen)"
    and "un.wanted latest in_db (new @ old) = concat bs"
  proof (rule un.walk_history [OF assms(1,2), of latest in_db])
    fix bs seen dropped
    assume "walk rpc (scan_unindexed latest in_db []) (\<lambda>bs. bs) None [] [] = Some (Inr bs, seen)"
      and "un.wanted latest in_db (new @ old) = dropped @ concat bs"
      and "un.unbounded \<or> length (takeWhile (\<lambda>t. \<not> ?stop t) (new @ old)) <
        TX_SIGNATURES_MAX_BATCHES * FETCH_TX_SIGNATURES_BATCH_SIZE \<Longrightarrow> dropped = []"
    then show thesis by (intro that) (simp_all add: un.unbounded_def)
  qed
  with w have "concat bs = new" by simp
  with walk_unindexed_walk [OF run] show ?thesis
    by (simp add: get_transaction_batches_to_process_def)
qed

end
