(* ===== verification/Program_Index.thy ===== *)
theory Program_Index
  imports Solana_Signatures
begin

text \<open>
  What the indexers of Solana programs share (tasks/index_rewards_manager.py and
  tasks/index_user_bank.py): a table of the indexed transactions, batches that are committed
  whole or not at all, and the walk of the theory Solana_Signatures that finds the batches. The
  locale is the contract of one batch; its consequence is that the table never has a gap.
\<close>

text \<open>\<open>keys.index(key)\<close>, a ValueError when the key is missing.\<close>

definition index_of :: "'a \<Rightarrow> 'a list \<Rightarrow> exc + nat" where
  "index_of key keys =
     (if key \<in> set keys then Inr (length (takeWhile (\<lambda>k. k \<noteq> key) keys))
      else Inl (PyException ''ValueError''))"

lemma index_of_Inr: "index_of key keys = Inr i \<Longrightarrow> i < length keys \<and> keys ! i = key"
proof (induction keys arbitrary: i)
  case (Cons k ks)
  show ?case
  proof (cases "k = key")
    case True
    with Cons.prems show ?thesis by (simp add: index_of_def)
  next
    case False
    with Cons.prems obtain j where j: "index_of key ks = Inr j" "i = Suc j"
      by (auto simp: index_of_def split: if_splits)
    from Cons.IH [OF j(1)] show ?thesis by (simp add: j(2))
  qed
qed (simp add: index_of_def)

text \<open>The table has exactly the transactions \<open>old\<close> of a history, each once and with its slot.\<close>

definition has_stored :: "signature_info list \<Rightarrow> signature_info list \<Rightarrow> program_tx_row list \<Rightarrow> bool" where
  "has_stored history old rows \<longleftrightarrow>
     pt_signature ` set rows = si_signature ` set old \<and>
     distinct (map pt_signature rows) \<and>
     (\<forall>r\<in>set rows. \<exists>t\<in>set history. pt_signature r = si_signature t \<and> pt_slot r = si_slot t)"

definition stored_oldest :: "signature_info list \<Rightarrow> program_tx_row list \<Rightarrow> bool" where
  "stored_oldest history rows \<longleftrightarrow> (\<exists>new old. history = new @ old \<and> has_stored history old rows)"

lemma stored_oldestI: "history = new @ old \<Longrightarrow> has_stored history old rows \<Longrightarrow> stored_oldest history rows"
  unfolding stored_oldest_def by blast

lemma stored_nothing: "stored_oldest [] []"
  by (simp add: stored_oldest_def has_stored_def)

lemma stored_grow:
  assumes "stored_oldest history rows"
  shows "stored_oldest (new @ history) rows"
proof -
  obtain n old where "history = n @ old" "has_stored history old rows"
    using assms by (auto simp: stored_oldest_def)
  then have "new @ history = (new @ n) @ old" and "has_stored (new @ history) old rows"
    by (auto simp: has_stored_def)
  then show ?thesis by (rule stored_oldestI)
qed

text \<open>The slot a node gives for a signature.\<close>

definition node_slot :: "solana_node list \<Rightarrow> string \<Rightarrow> int \<Rightarrow> bool" where
  "node_slot nodes s n \<longleftrightarrow> (\<exists>i. get_sol_tx_info nodes s = Inr i \<and> n = sx_slot i)"

text \<open>
  The contract of a batch: it changes the table only when it returns, and then it has added one
  row for each signature of the batch, in the order the futures complete, none of them twice, with
  the slot the node gave.
\<close>

locale indexed_program =
  fixes rows :: "db \<Rightarrow> program_tx_row list"
    and batch :: "string list \<Rightarrow> 'acc \<Rightarrow> (world, 'acc) py"
    and completion :: "string list \<Rightarrow> string list"
    and slot_of :: "string \<Rightarrow> int \<Rightarrow> bool"
  assumes batch_Inl: "batch b acc w = (Inl e, w') \<Longrightarrow> rows (w_db w') = rows (w_db w)"
    and batch_Inr: "batch b acc w = (Inr acc', w') \<Longrightarrow>
      \<exists>added. rows (w_db w') = rows (w_db w) @ added \<and> map pt_signature added = completion b \<and>
        distinct (map pt_signature (rows (w_db w'))) \<and>
        (\<forall>r\<in>set added. slot_of (pt_signature r) (pt_slot r))"
begin

lemma batch_stored:
  assumes honest: "\<And>t n. t \<in> set history \<Longrightarrow> slot_of (si_signature t) n \<Longrightarrow> n = si_slot t"
    and completes: "\<And>b. set (completion b) = set b" and sub: "set b \<subseteq> set history"
    and has: "has_stored history old (rows (w_db w))"
    and run: "batch (map si_signature b) acc w = (Inr acc', w')"
  shows "has_stored history (b @ old) (rows (w_db w'))"
proof -
  obtain added where rows: "rows (w_db w') = rows (w_db w) @ added"
    and sigs: "map pt_signature added = completion (map si_signature b)"
    and dist: "distinct (map pt_signature (rows (w_db w')))"
    and slots: "\<And>r. r \<in> set added \<Longrightarrow> slot_of (pt_signature r) (pt_slot r)"
    using batch_Inr [OF run] by blast
  have set_added: "pt_signature ` set added = si_signature ` set b"
    using completes [of "map si_signature b"] by (simp flip: sigs)
  have "\<exists>t\<in>set history. pt_signature r = si_signature t \<and> pt_slot r = si_slot t" if r: "r \<in> set added" for r
  proof -
    obtain t where t: "t \<in> set b" "pt_signature r = si_signature t" using set_added r by auto
    with sub slots [OF r] have "t \<in> set history" "slot_of (si_signature t) (pt_slot r)" by auto
    with honest t(2) show ?thesis by blast
  qed
  then have "\<forall>r\<in>set (rows (w_db w')). \<exists>t\<in>set history. pt_signature r = si_signature t \<and> pt_slot r = si_slot t"
    using has by (auto simp: rows has_stored_def)
  moreover have "pt_signature ` set (rows (w_db w')) = si_signature ` set (b @ old)"
    using has set_added by (auto simp: rows has_stored_def)
  ultimately show ?thesis using dist unfolding has_stored_def by blast
qed

lemma batches_stored:
  assumes honest: "\<And>t n. t \<in> set history \<Longrightarrow> slot_of (si_signature t) n \<Longrightarrow> n = si_slot t"
    and completes: "\<And>b. set (completion b) = set b"
    and split: "history = new @ old" "map si_signature new = dropped @ concat (rev batches)"
    and has: "has_stored history old (rows (w_db w))"
    and run: "py_for batch batches acc w = (r, w')"
  shows "stored_oldest history (rows (w_db w'))"
    and "r = Inr acc' \<Longrightarrow> dropped = [] \<Longrightarrow> has_stored history history (rows (w_db w'))"
proof -
  have "stored_oldest history (rows (w_db w')) \<and>
      (\<forall>acc'. r = Inr acc' \<longrightarrow> dropped = [] \<longrightarrow> has_stored history history (rows (w_db w')))"
    using split has run
  proof (induction batches arbitrary: new old acc w)
    case Nil
    then show ?case by (auto simp: stored_oldest_def py_return_def)
  next
    case (Cons b bs)
    from Cons.prems(2) have "map si_signature new = (dropped @ concat (rev bs)) @ b" by simp
    then obtain n1 nb where new: "new = n1 @ nb" and n1: "map si_signature n1 = dropped @ concat (rev bs)"
      and nb: "map si_signature nb = b"
      by (metis map_eq_append_conv)
    obtain r1 w1 where step: "batch b acc w = (r1, w1)" by (metis surj_pair)
    show ?case
    proof (cases r1)
      case (Inl e)
      with Cons.prems(4) step have "r = Inl e" "w' = w1" by (auto simp: py_bind_def)
      moreover have "rows (w_db w1) = rows (w_db w)" using batch_Inl step Inl by blast
      ultimately show ?thesis using Cons.prems(1,3) by (auto simp: stored_oldest_def)
    next
      case (Inr acc1)
      have sub: "set nb \<subseteq> set history" by (auto simp: Cons.prems(1) new)
      have "has_stored history (nb @ old) (rows (w_db w1))"
        using batch_stored [OF honest completes sub Cons.prems(3)] step Inr nb by blast
      moreover have "history = n1 @ nb @ old" by (simp add: Cons.prems(1) new)
      moreover have "py_for batch bs acc1 w1 = (r, w')"
        using Cons.prems(4) step Inr by (simp add: py_bind_def)
      ultimately show ?thesis using Cons.IH [of n1 "nb @ old" w1 acc1] n1 by blast
    qed
  qed
  then show "stored_oldest history (rows (w_db w'))"
    and "r = Inr acc' \<Longrightarrow> dropped = [] \<Longrightarrow> has_stored history history (rows (w_db w'))" by blast+
qed

end

text \<open>The walk from such a table finds what is missing.\<close>

lemma walk_of_stored:
  assumes serves: "serves history rpc" and dist: "distinct (map si_signature history)"
    and above: "\<And>t. t \<in> set history \<Longrightarrow> min_slot < si_slot t"
    and split: "history = new @ old" and has: "has_stored history old rows"
    and latest: "\<And>r. r \<in> set rows \<Longrightarrow> pt_slot r \<le> latest"
    and in_db: "\<And>s. in_db s \<longleftrightarrow> s \<in> pt_signature ` set rows"
  obtains batches dropped where "get_transaction_signatures rpc latest in_db (Some min_slot) = Some (Inr batches)"
    and "map si_signature new = dropped @ concat (rev batches)"
    and "length new < TX_SIGNATURES_MAX_BATCHES * FETCH_TX_SIGNATURES_BATCH_SIZE \<Longrightarrow> dropped = []"
proof -
  have "si_slot t \<le> latest" if "t \<in> set old" for t
  proof -
    have "si_signature t \<in> pt_signature ` set rows" using has that by (simp add: has_stored_def)
    then obtain r where r: "r \<in> set rows" "pt_signature r = si_signature t" by auto
    then obtain u where u: "u \<in> set history" "si_signature u = si_signature t" "pt_slot r = si_slot u"
      using has unfolding has_stored_def by metis
    have "u = t" using dist u(1,2) that split by (auto simp: distinct_map dest: inj_onD)
    with u(3) latest [OF r(1)] show ?thesis by simp
  qed
  then have holds: "database_holds old latest in_db (Some min_slot)"
    using has by (simp add: database_holds_def has_stored_def in_db)
  have "above_min (Some min_slot) (new @ old)" using above split by (simp add: above_min_def)
  from signatures_found [OF _ _ holds this] dist serves show thesis
    unfolding split by (metis that)
qed

lemma cache_program_tx_db: "w_db (snd (fetch_and_cache_latest_program_tx_redis nodes p k w)) = w_db w"
  by (simp add: fetch_and_cache_latest_program_tx_redis_def py_defs split: sum.split list.split)

end
