(* ===== verification/Solana_Parser.thy ===== *)
theory Solana_Parser
  imports Helpers
begin

text \<open>
  The decoding of instruction data, src/solana/solana_parser.py: little-endian numbers,
  length-prefixed strings and Ethereum addresses, in the order an instruction format lists
  them. Base 58 is the third-party package base58, the parameter \<open>b58decode\<close>.
\<close>

section \<open>Numbers in bytes\<close>

text \<open>\<open>int.from_bytes(bs, "little")\<close> and \<open>int.from_bytes(bs, "big")\<close>\<close>

fun from_le :: "bytes \<Rightarrow> nat" where
  "from_le [] = 0"
| "from_le (b # bs) = b + 256 * from_le bs"

definition from_be :: "bytes \<Rightarrow> nat" where
  "from_be bs = from_le (rev bs)"

text \<open>\<open>n.to_bytes(k, byteorder="little")\<close>: an OverflowError when the number needs more bytes.\<close>

fun le_bytes :: "nat \<Rightarrow> nat \<Rightarrow> bytes" where
  "le_bytes 0 n = []"
| "le_bytes (Suc k) n = (n mod 256) # le_bytes k (n div 256)"

definition to_bytes_le :: "nat \<Rightarrow> int \<Rightarrow> exc + bytes" where
  "to_bytes_le k n =
     (if n < 0 then Inl (PyException ''can't convert negative int to unsigned'')
      else if n \<ge> 256 ^ k then Inl (PyException ''int too big to convert'')
      else Inr (le_bytes k (nat n)))"

lemma length_le_bytes [simp]: "length (le_bytes k n) = k"
  by (induction k arbitrary: n) auto

lemma from_le_bytes: "from_le (le_bytes k n) = n mod 256 ^ k"
proof (induction k arbitrary: n)
  case (Suc k)
  have "n mod 256 ^ Suc k = n mod 256 + 256 * (n div 256 mod 256 ^ k)"
    by (simp add: mod_mult2_eq add.commute)
  with Suc show ?case by simp
qed simp

lemma from_le_bytes_small [simp]: "n < 256 ^ k \<Longrightarrow> from_le (le_bytes k n) = n"
  by (simp add: from_le_bytes)

lemma from_le_less: "(\<And>b. b \<in> set bs \<Longrightarrow> b < 256) \<Longrightarrow> from_le bs < 256 ^ length bs"
proof (induction bs)
  case (Cons b bs)
  then have "b < 256" and "from_le bs < 256 ^ length bs" by auto
  then have "b + 256 * from_le bs < 256 * (from_le bs + 1)" by simp
  also have "\<dots> \<le> 256 * 256 ^ length bs" using \<open>from_le bs < 256 ^ length bs\<close> by simp
  finally show ?case by simp
qed simp

lemma from_le_append: "from_le (xs @ ys) = from_le xs + 256 ^ length xs * from_le ys"
  by (induction xs) (auto simp: algebra_simps)

lemma from_be_snoc: "from_be (bs @ [b]) = 256 * from_be bs + b"
  by (simp add: from_be_def)

section \<open>Hexadecimal\<close>

definition hex_digit :: "nat \<Rightarrow> char" where
  "hex_digit n = (if n < 10 then char_of (48 + n) else char_of (87 + n))"

text \<open>\<open>f"{n:x}"\<close> and the padding of \<open>f"{n:0kx}"\<close>\<close>

fun hex_of_nat :: "nat \<Rightarrow> string" where
  "hex_of_nat n = (if n < 16 then [hex_digit n] else hex_of_nat (n div 16) @ [hex_digit (n mod 16)])"

declare hex_of_nat.simps [simp del]

definition pad_hex :: "nat \<Rightarrow> nat \<Rightarrow> string" where
  "pad_hex k n = replicate (k - length (hex_of_nat n)) (CHR ''0'') @ hex_of_nat n"

text \<open>The two digits of each byte, as \<open>bytes.hex()\<close> gives them.\<close>

definition byte_hex :: "nat \<Rightarrow> string" where
  "byte_hex b = [hex_digit (b div 16), hex_digit (b mod 16)]"

definition bytes_hex :: "bytes \<Rightarrow> string" where
  "bytes_hex bs = concat (map byte_hex bs)"

lemma hex_digit_0: "hex_digit 0 = CHR ''0''"
  by code_simp

text \<open>The digits of a number below \<open>16 ^ k\<close>, with leading zeros.\<close>

fun hex_fixed :: "nat \<Rightarrow> nat \<Rightarrow> string" where
  "hex_fixed 0 n = []"
| "hex_fixed (Suc k) n = hex_fixed k (n div 16) @ [hex_digit (n mod 16)]"

lemma length_hex_fixed [simp]: "length (hex_fixed k n) = k"
  by (induction k arbitrary: n) auto

lemma hex_fixed_0: "hex_fixed k 0 = replicate k (CHR ''0'')"
  by (induction k) (auto simp: hex_digit_0 replicate_append_same)

lemma pad_hex_fixed: "0 < k \<Longrightarrow> n < 16 ^ k \<Longrightarrow> pad_hex k n = hex_fixed k n"
proof (induction k arbitrary: n)
  case (Suc k)
  show ?case
  proof (cases "n < 16")
    case True
    then show ?thesis by (simp add: pad_hex_def hex_of_nat.simps [of n] hex_fixed_0)
  next
    case False
    then have "0 < k" using Suc.prems(2) by (cases k) auto
    moreover have "n div 16 < 16 ^ k" using Suc.prems(2) by (simp add: div_less_iff_less_mult mult.commute)
    ultimately have "pad_hex k (n div 16) = hex_fixed k (n div 16)" by (rule Suc.IH)
    with False show ?thesis by (simp add: pad_hex_def hex_of_nat.simps [of n])
  qed
qed simp

lemma hex_fixed_from_be:
  "(\<And>b. b \<in> set bs \<Longrightarrow> b < 256) \<Longrightarrow> hex_fixed (2 * length bs) (from_be bs) = bytes_hex bs"
proof (induction bs rule: rev_induct)
  case (snoc b bs)
  then have "b < 256" by simp
  then have small: "b div 16 < 16" by simp
  have b: "256 * from_be bs + b = b + 16 * (16 * from_be bs)" by simp
  have d: "(256 * from_be bs + b) div 16 = b div 16 + 16 * from_be bs"
    unfolding b by (simp only: div_mult_self2 numeral_neq_zero)
  have m: "(256 * from_be bs + b) mod 16 = b mod 16"
    unfolding b by (simp only: mod_mult_self2)
  show ?case
    using snoc small
    by (simp add: from_be_snoc bytes_hex_def byte_hex_def numeral_2_eq_2 d m)
qed (simp add: bytes_hex_def)

lemma pad_hex_bytes:
  assumes "\<And>b. b \<in> set bs \<Longrightarrow> b < 256" and "bs \<noteq> []"
  shows "pad_hex (2 * length bs) (from_be bs) = bytes_hex bs"
proof -
  have "from_be bs < 256 ^ length bs"
    using from_le_less [of "rev bs"] assms(1) by (simp add: from_be_def)
  then have "from_be bs < 16 ^ (2 * length bs)" by (simp add: power_mult)
  then have "pad_hex (2 * length bs) (from_be bs) = hex_fixed (2 * length bs) (from_be bs)"
    using assms(2) by (intro pad_hex_fixed) auto
  then show ?thesis by (simp add: hex_fixed_from_be [OF assms(1)])
qed

section \<open>Instruction formats\<close>

datatype solana_instruction_type = U64 | String_type | EthereumAddress | UnixTimestamp

definition solana_instruction_space :: "solana_instruction_type \<Rightarrow> nat" where
  "solana_instruction_space t =
     (case t of U64 \<Rightarrow> 8 | String_type \<Rightarrow> 4 | EthereumAddress \<Rightarrow> 20 | UnixTimestamp \<Rightarrow> 8)"

record instruction_format =
  if_name :: string
  if_type :: solana_instruction_type

datatype param_value = PInt nat | PStr string

definition py_slice :: "'a list \<Rightarrow> nat \<Rightarrow> nat \<Rightarrow> 'a list" where
  "py_slice xs start end = take (end - start) (drop start xs)"

text \<open>\<open>str(bs, "utf-8")\<close>\<close>

definition utf8_str :: "bytes \<Rightarrow> exc + string" where
  "utf8_str bs = (if valid_utf8 bs then Inr (map char_of bs) else Inl UnicodeDecodeError)"

text \<open>One step of the loop: the value and the new \<open>last_end\<close>.\<close>

definition parse_param :: "bytes \<Rightarrow> nat \<Rightarrow> solana_instruction_type \<Rightarrow> exc + param_value \<times> nat" where
  "parse_param decoded last_end t =
     (let type_len = solana_instruction_space t in
      case t of
        U64 \<Rightarrow> Inr (PInt (from_le (py_slice decoded last_end (last_end + type_len))), last_end + type_len)
      | String_type \<Rightarrow>
          (let instr_len = from_le (py_slice decoded last_end (last_end + type_len));
               start = last_end + type_len;
               finish = last_end + type_len + instr_len
           in exc_bind (utf8_str (py_slice decoded start finish)) (\<lambda>s. Inr (PStr s, finish)))
      | EthereumAddress \<Rightarrow>
          (let decoded_int = from_be (py_slice decoded last_end (last_end + type_len))
           in Inr (PStr (''0x'' @ pad_hex 40 decoded_int), last_end + type_len))
      | UnixTimestamp \<Rightarrow> Inr (PInt (from_le (py_slice decoded last_end (last_end + type_len))), last_end + type_len))"

fun parse_params ::
  "bytes \<Rightarrow> nat \<Rightarrow> instruction_format list \<Rightarrow> (string \<times> param_value) list \<Rightarrow>
    exc + (string \<times> param_value) list" where
  "parse_params decoded last_end [] decoded_params = Inr decoded_params"
| "parse_params decoded last_end (intr # intrs) decoded_params =
     exc_bind (parse_param decoded last_end (if_type intr)) (\<lambda>(v, last_end).
       parse_params decoded last_end intrs (AList.update (if_name intr) v decoded_params))"

definition parse_instruction_data ::
  "(string \<Rightarrow> exc + bytes) \<Rightarrow> string \<Rightarrow> instruction_format list \<Rightarrow> exc + (string \<times> param_value) list" where
  "parse_instruction_data b58decode data formats =
     exc_bind (b58decode data) (\<lambda>decoded. parse_params (drop 1 decoded) 0 formats [])"

section \<open>The encoding the programs use\<close>

text \<open>
  The structs the docstrings of the indexers give, field after field: numbers as eight
  little-endian bytes, strings with a length of four bytes, addresses as their twenty bytes.
\<close>

datatype field = FU64 nat | FString string | FAddress bytes | FTime nat

fun field_type :: "field \<Rightarrow> solana_instruction_type" where
  "field_type (FU64 n) = U64"
| "field_type (FString s) = String_type"
| "field_type (FAddress bs) = EthereumAddress"
| "field_type (FTime n) = UnixTimestamp"

definition string_bytes :: "string \<Rightarrow> bytes" where
  "string_bytes s = map of_char s"

fun encode_field :: "field \<Rightarrow> bytes" where
  "encode_field (FU64 n) = le_bytes 8 n"
| "encode_field (FString s) = le_bytes 4 (length s) @ string_bytes s"
| "encode_field (FAddress bs) = bs"
| "encode_field (FTime n) = le_bytes 8 n"

fun field_value :: "field \<Rightarrow> param_value" where
  "field_value (FU64 n) = PInt n"
| "field_value (FString s) = PStr s"
| "field_value (FAddress bs) = PStr (''0x'' @ bytes_hex bs)"
| "field_value (FTime n) = PInt n"

fun field_ok :: "field \<Rightarrow> bool" where
  "field_ok (FU64 n) = (n < 2 ^ 64)"
| "field_ok (FString s) = (length s < 2 ^ 32 \<and> valid_utf8 (string_bytes s))"
| "field_ok (FAddress bs) = (length bs = 20 \<and> (\<forall>b\<in>set bs. b < 256))"
| "field_ok (FTime n) = (n < 2 ^ 64)"

lemma utf8_str_bytes [simp]: "valid_utf8 (string_bytes s) \<Longrightarrow> utf8_str (string_bytes s) = Inr s"
  by (simp add: utf8_str_def string_bytes_def comp_def)

lemma length_string_bytes [simp]: "length (string_bytes s) = length s"
  by (simp add: string_bytes_def)

lemma py_slice_at:
  "length pre = start \<Longrightarrow> length mid = n \<Longrightarrow> py_slice (pre @ mid @ post) start (start + n) = mid"
  by (auto simp: py_slice_def)

lemma parse_param_encode:
  assumes "field_ok f" and "length pre = n"
  shows "parse_param (pre @ encode_field f @ post) n (field_type f) =
    Inr (field_value f, n + length (encode_field f))"
proof (cases f)
  case (FU64 v)
  with assms show ?thesis
    by (simp add: parse_param_def solana_instruction_space_def py_slice_at)
next
  case (FTime v)
  with assms show ?thesis
    by (simp add: parse_param_def solana_instruction_space_def py_slice_at)
next
  case (FAddress bs)
  have "20 + n = n + 20" by simp
  with FAddress assms show ?thesis
    using pad_hex_bytes [of bs] assms(1)
    by (cases "bs = []") (auto simp: parse_param_def solana_instruction_space_def py_slice_at)
next
  case (FString s)
  have 1: "py_slice (pre @ (le_bytes 4 (length s) @ string_bytes s) @ post) n (n + 4) = le_bytes 4 (length s)"
    using py_slice_at [of pre n "le_bytes 4 (length s)" 4] assms(2) by simp
  have 2: "py_slice (pre @ (le_bytes 4 (length s) @ string_bytes s) @ post) (n + 4) (n + 4 + length s) = string_bytes s"
    using py_slice_at [of "pre @ le_bytes 4 (length s)" "n + 4" "string_bytes s" "length s" post] assms(2) by simp
  have "length s < 256 ^ 4" using assms(1) FString by simp
  then show ?thesis
    using assms(1) FString by (simp only: parse_param_def solana_instruction_space_def encode_field.simps
        field_type.simps solana_instruction_type.case Let_def 1 2 from_le_bytes_small)
      simp
qed

lemma parse_params_encode:
  assumes "list_all2 (\<lambda>i f. if_type i = field_type f \<and> field_ok f) formats fs"
    and "distinct (map fst ps @ map if_name formats)"
  shows "parse_params (pre @ concat (map encode_field fs)) (length pre) formats ps =
    Inr (ps @ zip (map if_name formats) (map field_value fs))"
  using assms
proof (induction formats fs arbitrary: pre ps rule: list_all2_induct)
  case Nil
  then show ?case by simp
next
  case (Cons i formats f fs)
  have "parse_param (pre @ encode_field f @ concat (map encode_field fs)) (length pre) (if_type i) =
      Inr (field_value f, length (pre @ encode_field f))"
    using Cons.hyps parse_param_encode [of f pre "length pre"] by simp
  moreover have "AList.update (if_name i) (field_value f) ps = ps @ [(if_name i, field_value f)]"
    using Cons.prems by (intro update_nonmem) auto
  ultimately show ?case
    using Cons.IH [of "ps @ [(if_name i, field_value f)]" "pre @ encode_field f"] Cons.prems by simp
qed

text \<open>
  C29. Round trip of instruction data: parsing the encoding of fields of the types of a format,
  within the bounds of those types, gives back the fields under their names; an address becomes
  "0x" and the forty digits of its bytes, leading zeros included.
\<close>

theorem parse_encoded_instruction:
  assumes "list_all2 (\<lambda>i f. if_type i = field_type f \<and> field_ok f) formats fs"
    and "distinct (map if_name formats)"
    and "b58decode data = Inr (tag # concat (map encode_field fs))"
  shows "parse_instruction_data b58decode data formats =
    Inr (zip (map if_name formats) (map field_value fs))"
  using parse_params_encode [OF assms(1), of "[]" "[]"] assms(2,3)
  by (simp add: parse_instruction_data_def)

definition ex_formats :: "instruction_format list" where
  "ex_formats = [\<lparr>if_name = ''amount'', if_type = U64\<rparr>, \<lparr>if_name = ''id'', if_type = String_type\<rparr>]"

theorem parse_encoded_instruction_witness:
  "parse_instruction_data (\<lambda>s. Inr (7 # concat (map encode_field [FU64 300, FString ''a:b'']))) ''3Bx'' ex_formats =
    Inr [(''amount'', PInt 300), (''id'', PStr ''a:b'')]"
  using parse_encoded_instruction [of ex_formats "[FU64 300, FString ''a:b'']"
      "\<lambda>s. Inr (7 # concat (map encode_field [FU64 300, FString ''a:b'']))" "''3Bx''" 7]
  by (simp add: ex_formats_def string_bytes_def)

end
