(* ===== verification/Rewards_Manager.thy ===== *)
theory Rewards_Manager
  imports Program_Index Solana_Parser Slugs Users "HOL-Library.Multiset"
begin

text \<open>
  src/tasks/index_rewards_manager.py: the indexer of the transactions of the Rewards Manager
  program. It finds the transactions the table \<open>reward_manager_txs\<close> does not have, parses the
  transfer instruction of each, and records the disbursements of challenge rewards.
\<close>

section \<open>Configuration and data\<close>

text \<open>
  The configured addresses, the nodes, what a commit raises besides violated keys, and the
  order in which the futures of a batch complete.
\<close>

record reward_services =
  rw_program :: string
  rw_program_valid :: bool
  rw_account :: string
  rw_min_slot :: int
  rw_nodes :: "solana_node list"
  rw_b58decode :: "string \<Rightarrow> exc + bytes"
  rw_commit :: "db \<Rightarrow> exc option"
  rw_completion :: "string list \<Rightarrow> string list"

definition rewards_manager_transfer_instr :: "instruction_format list" where
  "rewards_manager_transfer_instr =
     [\<lparr>if_name = ''amount'', if_type = U64\<rparr>, \<lparr>if_name = ''id'', if_type = String_type\<rparr>,
      \<lparr>if_name = ''eth_recipient'', if_type = EthereumAddress\<rparr>]"

record reward_transfer =
  rt_amount :: nat
  rt_challenge_id :: string
  rt_specifier :: string
  rt_eth_recipient :: string

record reward_tx_info =
  ri_tx_sig :: string
  ri_slot :: int
  ri_timestamp :: int
  ri_transfer_instruction :: "reward_transfer option"

definition latest_sol_rewards_manager_db_tx_key :: string where
  "latest_sol_rewards_manager_db_tx_key = ''latest_sol_program_tx:rewards_manager:db''"

definition latest_sol_rewards_manager_program_tx_key :: string where
  "latest_sol_rewards_manager_program_tx_key = ''latest_sol_program_tx:rewards_manager:chain''"

definition latest_sol_rewards_manager_slot_key :: string where
  "latest_sol_rewards_manager_slot_key = ''latest_sol_slot:rewards_manager''"

section \<open>Parsing\<close>

definition parse_transfer_instruction_data ::
  "(string \<Rightarrow> exc + bytes) \<Rightarrow> string \<Rightarrow> exc + (string \<times> param_value) list" where
  "parse_transfer_instruction_data b58decode data =
     parse_instruction_data b58decode data rewards_manager_transfer_instr"

text \<open>\<open>transfer_id.split(":", 1)\<close>, which has two parts when there is a colon.\<close>

definition parse_transfer_instruction_id :: "string \<Rightarrow> (string \<times> string) option" where
  "parse_transfer_instruction_id transfer_id =
     (case dropWhile (\<lambda>c. c \<noteq> CHR '':'') transfer_id of
        [] \<Rightarrow> None
      | _ # specifier \<Rightarrow> Some (takeWhile (\<lambda>c. c \<noteq> CHR '':'') transfer_id, specifier))"

text \<open>Every exception in the function is turned into None.\<close>

definition get_valid_instruction :: "reward_services \<Rightarrow> transaction_info \<Rightarrow> instruction option" where
  "get_valid_instruction sv tx =
     (if ''Program log: Instruction: Transfer'' \<notin> set (sx_logMessages tx) then None
      else if rw_account sv \<notin> set (sx_accountKeys tx) then None
      else case index_of (rw_program sv) (sx_accountKeys tx) of
        Inl e \<Rightarrow> None
      | Inr program_index \<Rightarrow> find (\<lambda>i. in_programIdIndex i = program_index) (sx_instructions tx))"

text \<open>The three parameters of the instruction; the format gives each its type.\<close>

definition transfer_of_params :: "(string \<times> param_value) list \<Rightarrow> reward_transfer option" where
  "transfer_of_params params =
     (case (map_of params ''amount'', map_of params ''id'', map_of params ''eth_recipient'') of
        (Some (PInt amount), Some (PStr transfer_id), Some (PStr eth_recipient)) \<Rightarrow>
          (case parse_transfer_instruction_id transfer_id of
             None \<Rightarrow> None
           | Some (challenge_id, specifier) \<Rightarrow>
               Some \<lparr>rt_amount = amount, rt_challenge_id = challenge_id, rt_specifier = specifier,
                     rt_eth_recipient = eth_recipient\<rparr>)
      | _ \<Rightarrow> None)"

definition fetch_and_parse_sol_rewards_transfer_instruction ::
  "reward_services \<Rightarrow> string \<Rightarrow> exc + reward_tx_info" where
  "fetch_and_parse_sol_rewards_transfer_instruction sv tx_sig =
     exc_bind (get_sol_tx_info (rw_nodes sv) tx_sig) (\<lambda>result.
       let tx_metadata = \<lparr>ri_tx_sig = tx_sig, ri_slot = sx_slot result, ri_timestamp = sx_blockTime result,
                          ri_transfer_instruction = None\<rparr>
       in if sx_err result then Inr tx_metadata
          else case get_valid_instruction sv result of
            None \<Rightarrow> Inr tx_metadata
          | Some instruction \<Rightarrow>
              exc_bind (parse_transfer_instruction_data (rw_b58decode sv) (in_data instruction)) (\<lambda>params.
                Inr (tx_metadata\<lparr>ri_transfer_instruction := transfer_of_params params\<rparr>)))"

section \<open>Storing a batch\<close>

text \<open>\<open>users_map\<close>, from a query whose later rows win; an unknown recipient becomes user 0.\<close>

definition users_map :: "db \<Rightarrow> string list \<Rightarrow> (string \<times> int) list" where
  "users_map d eth_recipients =
     rev (List.map_filter (\<lambda>u. case us_wallet u of
         Some w \<Rightarrow> if w \<in> set eth_recipients \<and> us_is_current u then Some (w, us_user_id u) else None
       | None \<Rightarrow> None) (users d))"

definition recipient_user :: "(string \<times> int) list \<Rightarrow> string \<Rightarrow> int" where
  "recipient_user m eth_recipient = (case map_of m eth_recipient of Some i \<Rightarrow> i | None \<Rightarrow> 0)"

definition disbursement_of :: "(string \<times> int) list \<Rightarrow> reward_tx_info \<Rightarrow> disbursement_row option" where
  "disbursement_of m tx =
     (case ri_transfer_instruction tx of
        None \<Rightarrow> None
      | Some t \<Rightarrow> Some \<lparr>cd_challenge_id = rt_challenge_id t, cd_user_id = recipient_user m (rt_eth_recipient t),
           cd_specifier = rt_specifier t, cd_signature = ri_tx_sig tx, cd_slot = ri_slot tx,
           cd_amount = str_nat (rt_amount t)\<rparr>)"

definition reward_manager_tx :: "reward_tx_info \<Rightarrow> program_tx_row" where
  "reward_manager_tx tx = \<lparr>pt_signature = ri_tx_sig tx, pt_slot = ri_slot tx, pt_created_at = ri_timestamp tx\<rparr>"

definition disbursement_key :: "disbursement_row \<Rightarrow> string \<times> string" where
  "disbursement_key r = (cd_challenge_id r, cd_specifier r)"

text \<open>
  The bulk insert raises when a primary key is taken; the primary key of the transactions is
  checked when the session flushes, before the commit.
\<close>

definition process_batch_sol_reward_manager_txs :: "reward_tx_info list \<Rightarrow> (world, unit) py" where
  "process_batch_sol_reward_manager_txs txs =
     py_bind (py_gets (\<lambda>w. users_map (w_db w)
       (List.map_filter (\<lambda>tx. map_option rt_eth_recipient (ri_transfer_instruction tx)) txs))) (\<lambda>m.
     let new_disbursements = List.map_filter (disbursement_of m) txs in
     py_seq (py_modify (update_programs (\<lambda>p. p\<lparr>reward_manager_txs :=
       reward_manager_txs p @ map reward_manager_tx txs\<rparr>)))
    (if new_disbursements = [] then py_return ()
     else py_bind (py_gets (\<lambda>w. distinct (map disbursement_key
              (challenge_disbursements (w_programs w) @ new_disbursements)))) (\<lambda>keys_free.
       if \<not> keys_free then py_raise (PyException ''duplicate key value violates unique constraint'')
       else py_seq (py_modify (update_programs (\<lambda>p. p\<lparr>challenge_disbursements :=
              challenge_disbursements p @ new_disbursements\<rparr>)))
            (py_modify (enqueue_immediate_balance_refresh (map cd_user_id new_disbursements))))))"

definition commit_reward_txs :: "reward_services \<Rightarrow> db \<Rightarrow> exc option" where
  "commit_reward_txs sv d =
     (if distinct (map pt_signature (reward_manager_txs (programs d))) then rw_commit sv d
      else Some (PyException ''duplicate key value violates unique constraint''))"

section \<open>The task\<close>

definition get_latest_reward_disbursment_slot :: "db \<Rightarrow> int" where
  "get_latest_reward_disbursment_slot d =
     (case first_desc (\<lambda>r. Some (pt_slot r)) (reward_manager_txs (programs d)) of
        None \<Rightarrow> 0 | Some r \<Rightarrow> pt_slot r)"

definition get_tx_in_db :: "db \<Rightarrow> string \<Rightarrow> bool" where
  "get_tx_in_db d tx_sig \<longleftrightarrow> sql_count (\<lambda>r. pt_signature r = tx_sig) (reward_manager_txs (programs d)) > 0"

text \<open>One iteration of the loop over the batches.\<close>

definition process_signature_batch ::
  "reward_services \<Rightarrow> string option \<Rightarrow> string list \<Rightarrow> reward_tx_info option \<Rightarrow>
    (world, reward_tx_info option) py" where
  "process_signature_batch sv last_tx_sig tx_sig_batch last_tx =
     py_bind (py_lift (exc_map (fetch_and_parse_sol_rewards_transfer_instruction sv)
                         (rw_completion sv tx_sig_batch))) (\<lambda>transfer_instructions.
     py_seq (session_scope (commit_reward_txs sv) (process_batch_sol_reward_manager_txs transfer_instructions))
       (py_return (case find (\<lambda>t. last_tx_sig = Some (ri_tx_sig t)) (rev transfer_instructions) of
                     Some t \<Rightarrow> Some t | None \<Rightarrow> last_tx)))"

definition process_transaction_signatures ::
  "reward_services \<Rightarrow> string list list \<Rightarrow> (world, reward_tx_info option) py" where
  "process_transaction_signatures sv transaction_signatures =
     (let last_tx_sig = (if transaction_signatures \<noteq> [] \<and> last transaction_signatures \<noteq> []
                         then Some (hd (last transaction_signatures)) else None) in
      py_bind (py_for (process_signature_batch sv last_tx_sig) transaction_signatures None) (\<lambda>last_tx.
      py_seq (case last_tx of
                None \<Rightarrow> py_return ()
              | Some t \<Rightarrow> py_modify (cache_latest_sol_db_tx latest_sol_rewards_manager_db_tx_key
                  (ri_tx_sig t) (ri_slot t) (ri_timestamp t)))
        (py_return last_tx)))"

text \<open>The RPC of the walk.\<close>

definition reward_signatures_rpc :: "reward_services \<Rightarrow> signatures_rpc" where
  "reward_signatures_rpc sv before =
     get_signatures_for_address (rw_nodes sv) (rw_program sv) before (Some FETCH_TX_SIGNATURES_BATCH_SIZE)"

text \<open>
  \<open>latest_global_slot\<close> stays unbound when \<open>get_slot\<close> raised, and reading it then raises an
  UnboundLocalError. None is a walk that does not return.
\<close>

definition process_solana_rewards_manager :: "reward_services \<Rightarrow> world \<Rightarrow> ((exc + unit) \<times> world) option" where
  "process_solana_rewards_manager sv w =
     (if \<not> rw_program_valid sv then Some (Inr (), w)
      else if rw_account sv = [] then Some (Inr (), w)
      else
        (let latest_global_slot = get_slot (rw_nodes sv) in
         case get_transaction_signatures (reward_signatures_rpc sv)
                (get_latest_reward_disbursment_slot (w_db w)) (get_tx_in_db (w_db w)) (Some (rw_min_slot sv)) of
           None \<Rightarrow> None
         | Some r \<Rightarrow> Some (
             py_bind (py_lift r) (\<lambda>transaction_signatures.
             py_bind (process_transaction_signatures sv transaction_signatures) (\<lambda>last_tx.
               case last_tx of
                 Some t \<Rightarrow> py_modify (redis_set latest_sol_rewards_manager_slot_key (JInt (ri_slot t)))
               | None \<Rightarrow>
                   (case latest_global_slot of
                      Inl e \<Rightarrow> py_raise (PyException ''UnboundLocalError'')
                    | Inr slot \<Rightarrow> py_modify (redis_set latest_sol_rewards_manager_slot_key (JInt slot))))) w)))"

text \<open>The Celery task; \<open>have_lock\<close> says whether the lock was free.\<close>

definition index_rewards_manager ::
  "reward_services \<Rightarrow> bool \<Rightarrow> world \<Rightarrow> ((exc + unit) \<times> world) option" where
  "index_rewards_manager sv have_lock w =
     (case fetch_and_cache_latest_program_tx_redis (rw_nodes sv) (rw_program sv)
             latest_sol_rewards_manager_program_tx_key w of
        (Inl e, w') \<Rightarrow> Some (Inl e, w')
      | (Inr u, w') \<Rightarrow> if have_lock then process_solana_rewards_manager sv w' else Some (Inr (), w'))"

section \<open>No gaps\<close>

abbreviation reward_rows :: "db \<Rightarrow> program_tx_row list" where
  "reward_rows d \<equiv> reward_manager_txs (programs d)"

text \<open>
  Nodes that serve a history: the signatures, and transactions whose slot is the slot of their
  signature. Every future of a batch completes once.
\<close>

definition honest_nodes :: "reward_services \<Rightarrow> signature_info list \<Rightarrow> bool" where
  "honest_nodes sv history \<longleftrightarrow> serves history (reward_signatures_rpc sv) \<and>
     (\<forall>t\<in>set history. \<forall>i. get_sol_tx_info (rw_nodes sv) (si_signature t) = Inr i \<longrightarrow> sx_slot i = si_slot t) \<and>
     (\<forall>b. mset (rw_completion sv b) = mset b)"

lemma honest_slot:
  "honest_nodes sv history \<Longrightarrow> t \<in> set history \<Longrightarrow>
    get_sol_tx_info (rw_nodes sv) (si_signature t) = Inr i \<Longrightarrow> sx_slot i = si_slot t"
  by (simp add: honest_nodes_def)

lemma honest_completion: "honest_nodes sv history \<Longrightarrow> set (rw_completion sv b) = set b"
  unfolding honest_nodes_def by (metis mset_eq_setD)

lemma in_db_iff: "get_tx_in_db d s \<longleftrightarrow> s \<in> pt_signature ` set (reward_rows d)"
  by (auto simp: get_tx_in_db_def sql_count_0 image_iff simp flip: neq0_conv)

lemma reward_manager_tx_simps [simp]:
  "pt_signature (reward_manager_tx i) = ri_tx_sig i"
  "pt_slot (reward_manager_tx i) = ri_slot i"
  by (simp_all add: reward_manager_tx_def)

lemma fetch_and_parse_Inr:
  assumes "fetch_and_parse_sol_rewards_transfer_instruction sv s = Inr i"
  shows "ri_tx_sig i = s" and "\<exists>r. get_sol_tx_info (rw_nodes sv) s = Inr r \<and> ri_slot i = sx_slot r"
  using assms unfolding fetch_and_parse_sol_rewards_transfer_instruction_def Let_def
  by (auto simp: exc_bind_Inr_iff split: if_splits option.splits)

lemma fetch_all_Inr:
  assumes "exc_map (fetch_and_parse_sol_rewards_transfer_instruction sv) sigs = Inr infos"
  shows "map ri_tx_sig infos = sigs"
    and "\<forall>i\<in>set infos. \<exists>r. get_sol_tx_info (rw_nodes sv) (ri_tx_sig i) = Inr r \<and> ri_slot i = sx_slot r"
proof -
  from exc_map_list_all2 [OF assms]
  have "map ri_tx_sig infos = sigs \<and>
    (\<forall>i\<in>set infos. \<exists>r. get_sol_tx_info (rw_nodes sv) (ri_tx_sig i) = Inr r \<and> ri_slot i = sx_slot r)"
    by (induction rule: list_all2_induct) (auto dest: fetch_and_parse_Inr)
  then show "map ri_tx_sig infos = sigs"
    and "\<forall>i\<in>set infos. \<exists>r. get_sol_tx_info (rw_nodes sv) (ri_tx_sig i) = Inr r \<and> ri_slot i = sx_slot r" by auto
qed

lemma process_batch_rows:
  "process_batch_sol_reward_manager_txs infos w = (Inr u, w') \<Longrightarrow>
    reward_rows (w_db w') = reward_rows (w_db w) @ map reward_manager_tx infos"
  by (auto simp: process_batch_sol_reward_manager_txs_def py_defs Let_def split: if_splits)

lemma signature_batch_Inl:
  "process_signature_batch sv s b acc w = (Inl e, w') \<Longrightarrow> w_db w' = w_db w"
  unfolding process_signature_batch_def py_bind_def py_lift_def py_seq_def py_return_def
  by (auto split: sum.splits prod.splits dest: session_scope_InlD)

lemma signature_batch_Inr:
  assumes "process_signature_batch sv s b acc w = (Inr acc', w')"
  shows "\<exists>infos. exc_map (fetch_and_parse_sol_rewards_transfer_instruction sv) (rw_completion sv b) = Inr infos \<and>
    reward_rows (w_db w') = reward_rows (w_db w) @ map reward_manager_tx infos \<and>
    distinct (map pt_signature (reward_rows (w_db w'))) \<and>
    session_scope (commit_reward_txs sv) (process_batch_sol_reward_manager_txs infos) w = (Inr (), w')"
proof -
  obtain infos where infos: "exc_map (fetch_and_parse_sol_rewards_transfer_instruction sv) (rw_completion sv b) = Inr infos"
    and run: "session_scope (commit_reward_txs sv) (process_batch_sol_reward_manager_txs infos) w = (Inr (), w')"
    using assms unfolding process_signature_batch_def py_seq_def
    by (elim py_bind_InrE) (auto simp: py_lift_def py_return_def)
  from session_scope_InrD [OF run]
  have "reward_rows (w_db w') = reward_rows (w_db w) @ map reward_manager_tx infos"
    and "distinct (map pt_signature (reward_rows (w_db w')))"
    by (auto dest: process_batch_rows simp: commit_reward_txs_def split: if_splits)
  with infos run show ?thesis by blast
qed

lemma honest_node_slot:
  "honest_nodes sv history \<Longrightarrow> t \<in> set history \<Longrightarrow> node_slot (rw_nodes sv) (si_signature t) n \<Longrightarrow> n = si_slot t"
  by (auto simp: node_slot_def dest: honest_slot)

interpretation rewards: indexed_program reward_rows "process_signature_batch sv s" "rw_completion sv"
  "node_slot (rw_nodes sv)" for sv s
proof
  fix b acc w acc' w'
  assume "process_signature_batch sv s b acc w = (Inr acc', w')"
  from signature_batch_Inr [OF this]
  obtain infos where infos: "exc_map (fetch_and_parse_sol_rewards_transfer_instruction sv) (rw_completion sv b) = Inr infos"
    and rows: "reward_rows (w_db w') = reward_rows (w_db w) @ map reward_manager_tx infos"
    and dist: "distinct (map pt_signature (reward_rows (w_db w')))" by blast
  have "map pt_signature (map reward_manager_tx infos) = rw_completion sv b"
    using fetch_all_Inr(1) [OF infos] by (simp add: comp_def)
  moreover have "\<forall>r\<in>set (map reward_manager_tx infos). node_slot (rw_nodes sv) (pt_signature r) (pt_slot r)"
    using fetch_all_Inr(2) [OF infos] by (auto simp: node_slot_def)
  ultimately show "\<exists>added. reward_rows (w_db w') = reward_rows (w_db w) @ added \<and>
      map pt_signature added = rw_completion sv b \<and> distinct (map pt_signature (reward_rows (w_db w'))) \<and>
      (\<forall>r\<in>set added. node_slot (rw_nodes sv) (pt_signature r) (pt_slot r))"
    using rows dist by (intro exI [of _ "map reward_manager_tx infos"]) simp
qed (simp add: signature_batch_Inl)

lemma latest_slot_bounds:
  assumes "r \<in> set (reward_rows d)"
  shows "pt_slot r \<le> get_latest_reward_disbursment_slot d"
proof -
  obtain q where q: "first_desc (\<lambda>r. Some (pt_slot r)) (reward_rows d) = Some q"
    using assms by (cases "first_desc (\<lambda>r. Some (pt_slot r)) (reward_rows d)") auto
  from first_desc_max [OF q assms] have "pt_slot r \<le> pt_slot q" by simp
  then show ?thesis by (simp add: get_latest_reward_disbursment_slot_def q)
qed

lemma process_sigs_loop:
  assumes "process_transaction_signatures sv batches w = (r, w')"
  shows "\<exists>sig rl wl. py_for (process_signature_batch sv sig) batches None w = (rl, wl) \<and>
    w_db w' = w_db wl \<and> (\<forall>x. r = Inr x \<longrightarrow> (\<exists>acc. rl = Inr acc))"
proof -
  define sig where "sig = (if batches \<noteq> [] \<and> last batches \<noteq> [] then Some (hd (last batches)) else None)"
  obtain rl wl where loop: "py_for (process_signature_batch sv sig) batches None w = (rl, wl)"
    by (metis surj_pair)
  have "w_db w' = w_db wl \<and> (\<forall>x. r = Inr x \<longrightarrow> (\<exists>acc. rl = Inr acc))"
    using assms loop unfolding process_transaction_signatures_def Let_def sig_def [symmetric]
    by (cases rl) (auto simp: py_defs split: option.splits)
  with loop show ?thesis by (intro exI [of _ sig] exI [of _ rl] exI [of _ wl] conjI) simp_all
qed

lemma run_after_walk:
  assumes "rw_program_valid sv" and "rw_account sv \<noteq> []"
    and "get_transaction_signatures (reward_signatures_rpc sv) (get_latest_reward_disbursment_slot (w_db w))
      (get_tx_in_db (w_db w)) (Some (rw_min_slot sv)) = Some (Inr batches)"
    and "process_transaction_signatures sv batches w = (r1, w1)"
  shows "\<exists>r2 w2. process_solana_rewards_manager sv w = Some (r2, w2) \<and> w_db w2 = w_db w1 \<and>
    (r2 = Inr () \<longrightarrow> (\<exists>x. r1 = Inr x))"
proof (cases r1)
  case (Inl e)
  with assms show ?thesis by (simp add: process_solana_rewards_manager_def Let_def py_defs)
next
  case (Inr acc)
  show ?thesis
  proof (cases acc)
    case None
    with assms Inr show ?thesis
      by (cases "get_slot (rw_nodes sv)") (simp_all add: process_solana_rewards_manager_def Let_def py_defs)
  next
    case (Some t)
    with assms Inr show ?thesis by (simp add: process_solana_rewards_manager_def Let_def py_defs)
  qed
qed

lemma run_rewards_manager:
  assumes honest: "honest_nodes sv history" and dist: "distinct (map si_signature history)"
    and above: "\<And>t. t \<in> set history \<Longrightarrow> rw_min_slot sv < si_slot t"
    and split: "history = new @ old" and has: "has_stored history old (reward_rows (w_db w))"
  shows "\<exists>r w'. process_solana_rewards_manager sv w = Some (r, w') \<and>
    stored_oldest history (reward_rows (w_db w')) \<and>
    (r = Inr () \<longrightarrow> rw_program_valid sv \<longrightarrow> rw_account sv \<noteq> [] \<longrightarrow>
      length new < TX_SIGNATURES_MAX_BATCHES * FETCH_TX_SIGNATURES_BATCH_SIZE \<longrightarrow>
      has_stored history history (reward_rows (w_db w')))"
proof (cases "rw_program_valid sv \<and> rw_account sv \<noteq> []")
  case False
  with stored_oldestI [OF split has] show ?thesis by (auto simp: process_solana_rewards_manager_def)
next
  case True
  let ?d = "w_db w"
  have serves: "serves history (reward_signatures_rpc sv)" using honest by (simp add: honest_nodes_def)
  obtain batches dropped where
    walk: "get_transaction_signatures (reward_signatures_rpc sv) (get_latest_reward_disbursment_slot ?d)
      (get_tx_in_db ?d) (Some (rw_min_slot sv)) = Some (Inr batches)"
    and new: "map si_signature new = dropped @ concat (rev batches)"
    and small: "length new < TX_SIGNATURES_MAX_BATCHES * FETCH_TX_SIGNATURES_BATCH_SIZE \<Longrightarrow> dropped = []"
    using walk_of_stored [OF serves dist above split has latest_slot_bounds in_db_iff] by blast
  obtain r1 w1 where proc: "process_transaction_signatures sv batches w = (r1, w1)"
    by (metis surj_pair)
  obtain sig rl wl where loop: "py_for (process_signature_batch sv sig) batches None w = (rl, wl)"
    and wl: "w_db w1 = w_db wl" and rl: "\<And>x. r1 = Inr x \<Longrightarrow> \<exists>acc. rl = Inr acc"
    using process_sigs_loop [OF proc] by (elim exE conjE) (rule that, simp_all)
  note stored = rewards.batches_stored [OF honest_node_slot [OF honest] honest_completion [OF honest] split new has loop]
  obtain r2 w2 where run: "process_solana_rewards_manager sv w = Some (r2, w2)" and w2: "w_db w2 = w_db w1"
    and r2: "r2 = Inr () \<Longrightarrow> \<exists>x. r1 = Inr x"
    using run_after_walk [OF _ _ walk proc] True by blast
  show ?thesis
  proof (intro exI conjI impI)
    show "process_solana_rewards_manager sv w = Some (r2, w2)" by (rule run)
    show "stored_oldest history (reward_rows (w_db w2))" using stored(1) by (simp only: w2 wl)
  next
    assume "r2 = Inr ()" and "length new < TX_SIGNATURES_MAX_BATCHES * FETCH_TX_SIGNATURES_BATCH_SIZE"
    then obtain acc where "rl = Inr acc" "dropped = []" using r2 rl small by blast
    then show "has_stored history history (reward_rows (w_db w2))" using stored(2) by (simp only: w2 wl)
  qed
qed

text \<open>
  The life of the indexer: the history of the program grows, tasks run, with whatever nodes and
  whatever their outcome, and other parts of the server write other tables.
\<close>

inductive rewards_system :: "signature_info list \<Rightarrow> world \<Rightarrow> bool" where
  start: "reward_rows (w_db w) = [] \<Longrightarrow> rewards_system [] w"
| grow: "rewards_system history w \<Longrightarrow> distinct (map si_signature (new @ history)) \<Longrightarrow>
    rewards_system (new @ history) w"
| run: "rewards_system history w \<Longrightarrow> honest_nodes sv history \<Longrightarrow>
    (\<And>t. t \<in> set history \<Longrightarrow> rw_min_slot sv < si_slot t) \<Longrightarrow>
    index_rewards_manager sv have_lock w = Some (r, w') \<Longrightarrow> rewards_system history w'"
| other: "rewards_system history w \<Longrightarrow> reward_rows (w_db w') = reward_rows (w_db w) \<Longrightarrow>
    rewards_system history w'"

lemma task_run:
  assumes "honest_nodes sv history" and "distinct (map si_signature history)"
    and "\<And>t. t \<in> set history \<Longrightarrow> rw_min_slot sv < si_slot t"
    and "history = new @ old" and "has_stored history old (reward_rows (w_db w))"
  shows "\<exists>r w'. index_rewards_manager sv have_lock w = Some (r, w') \<and>
    stored_oldest history (reward_rows (w_db w')) \<and>
    (r = Inr () \<longrightarrow> have_lock \<longrightarrow> rw_program_valid sv \<longrightarrow> rw_account sv \<noteq> [] \<longrightarrow>
      length new < TX_SIGNATURES_MAX_BATCHES * FETCH_TX_SIGNATURES_BATCH_SIZE \<longrightarrow>
      has_stored history history (reward_rows (w_db w')))"
proof -
  obtain r0 w0 where c: "fetch_and_cache_latest_program_tx_redis (rw_nodes sv) (rw_program sv)
      latest_sol_rewards_manager_program_tx_key w = (r0, w0)" by (metis surj_pair)
  then have db: "w_db w0 = w_db w" by (metis cache_program_tx_db snd_conv)
  have oldest: "stored_oldest history (reward_rows (w_db w))" using assms(4,5) by (rule stored_oldestI)
  show ?thesis
  proof (cases "isl r0 \<or> \<not> have_lock")
    case True
    with c oldest show ?thesis
      by (cases r0) (simp_all add: index_rewards_manager_def db)
  next
    case False
    then obtain u where "r0 = Inr u" and "have_lock" by (cases r0) auto
    with c have "index_rewards_manager sv have_lock w = process_solana_rewards_manager sv w0"
      by (simp add: index_rewards_manager_def)
    with run_rewards_manager [OF assms(1-4), of w0] assms(5) show ?thesis by (auto simp: db)
  qed
qed

lemma rewards_system_invariant:
  assumes "rewards_system history w"
  shows "distinct (map si_signature history) \<and> stored_oldest history (reward_rows (w_db w))"
  using assms
proof induction
  case (start w)
  then show ?case by (simp add: stored_nothing)
next
  case (grow history w new)
  from stored_grow [of history _ new] grow.IH grow.hyps(2) show ?case by blast
next
  case (run history w sv have_lock r w')
  then obtain new old where "history = new @ old" "has_stored history old (reward_rows (w_db w))"
    by (auto simp: stored_oldest_def)
  from task_run [OF run.hyps(2) _ run.hyps(3) this, of have_lock] run.IH run.hyps(4)
  show ?case by auto
next
  case (other history w w')
  then show ?case by simp
qed

text \<open>
  C9. The index of reward transactions never has a gap: whatever runs of the indexer happened,
  completed, interrupted between or within batches by an exception, or resumed after the history
  grew, the transactions in the database are exactly the oldest part of the program's history,
  each once and with its slot.
\<close>

theorem rewards_no_gap:
  assumes "rewards_system history w"
  shows "\<exists>new old. history = new @ old \<and>
    pt_signature ` set (reward_manager_txs (programs (w_db w))) = si_signature ` set old \<and>
    distinct (map pt_signature (reward_manager_txs (programs (w_db w)))) \<and>
    (\<forall>r\<in>set (reward_manager_txs (programs (w_db w))).
       \<exists>t\<in>set history. pt_signature r = si_signature t \<and> pt_slot r = si_slot t)"
  using rewards_system_invariant [OF assms] unfolding stored_oldest_def has_stored_def by blast


text \<open>A node that serves a history of transactions without a transfer, for the examples.\<close>

definition ex_node :: "signature_info list \<Rightarrow> solana_node" where
  "ex_node history = \<lparr>
     sn_signatures = (\<lambda>account before limit i. Inr (take (case limit of None \<Rightarrow> 1000 | Some n \<Rightarrow> n) (older_than before history))),
     sn_interrupted = (\<lambda>account before. False),
     sn_transaction = (\<lambda>s i. Inr (map_option (\<lambda>t. \<lparr>sx_slot = si_slot t, sx_blockTime = si_blockTime t,
        sx_err = False, sx_logMessages = [], sx_accountKeys = [], sx_instructions = [],
        sx_preTokenBalances = None, sx_postTokenBalances = None\<rparr>) (find (\<lambda>t. si_signature t = s) history))),
     sn_slot = (\<lambda>i. Inr 9)\<rparr>"

definition ex_reward_services :: "signature_info list \<Rightarrow> reward_services" where
  "ex_reward_services history = \<lparr>rw_program = ''prog'', rw_program_valid = True, rw_account = ''acct'',
     rw_min_slot = 0, rw_nodes = [ex_node history], rw_b58decode = (\<lambda>s. Inl (PyException ''Invalid character'')),
     rw_commit = (\<lambda>d. None), rw_completion = rev\<rparr>"

lemma find_distinct:
  "distinct (map f xs) \<Longrightarrow> x \<in> set xs \<Longrightarrow> find (\<lambda>y. f y = f x) xs = Some x"
  by (induction xs) auto

lemma ex_honest: "distinct (map si_signature h) \<Longrightarrow> honest_nodes (ex_reward_services h) h"
  by (auto simp: honest_nodes_def serves_def reward_signatures_rpc_def ex_reward_services_def ex_node_def
      get_signatures_for_address_def try_all_with_timeout_def get_sol_tx_info_def DEFAULT_MAX_RETRIES_def
      found_tx_def find_distinct numeral_nat FETCH_TX_SIGNATURES_BATCH_SIZE_def)

lemma ex_rewards_system: "rewards_system [ex_tx ''b'' 7, ex_tx ''a'' 5] empty_world"
  using grow [OF start, of empty_world "[ex_tx ''b'' 7, ex_tx ''a'' 5]"]
  by (simp add: empty_world_def empty_db_def empty_programs_def)

theorem rewards_no_gap_witness:
  "\<exists>w' new old. rewards_system ([ex_tx ''c'' 8] @ [ex_tx ''b'' 7, ex_tx ''a'' 5]) w' \<and>
    [ex_tx ''c'' 8] @ [ex_tx ''b'' 7, ex_tx ''a'' 5] = new @ old \<and>
    pt_signature ` set (reward_manager_txs (programs (w_db w'))) = si_signature ` set old"
proof -
  let ?h = "[ex_tx ''b'' 7, ex_tx ''a'' 5]"
  have honest: "honest_nodes (ex_reward_services ?h) ?h" by (rule ex_honest) simp
  have min: "rw_min_slot (ex_reward_services ?h) < si_slot t" if "t \<in> set ?h" for t
    using that by (auto simp: ex_reward_services_def)
  have none: "has_stored ?h [] (reward_rows (w_db empty_world))"
    by (simp add: has_stored_def empty_world_def empty_db_def empty_programs_def)
  obtain r w' where w': "index_rewards_manager (ex_reward_services ?h) True empty_world = Some (r, w')"
    using task_run [OF honest _ min, of ?h "[]" empty_world True] none by auto
  have "rewards_system ?h w'" by (rule run [OF ex_rewards_system honest min w'])
  then have "rewards_system ([ex_tx ''c'' 8] @ ?h) w'" by (rule grow) simp
  with rewards_no_gap [OF this] show ?thesis by blast
qed


end
