(* ===== verification/Python_Numbers.thy ===== *)
theory Python_Numbers
  imports Slugs
begin

text \<open>
  Numbers in Python strings: \<open>int(s)\<close>, which columns and instructions that hold numbers as text
  are read with, and the conversion of token amounts of src/utils/spl_digitalcoin.py.
\<close>

text \<open>Digits, with single underscores between them.\<close>

definition number_syntax :: "string \<Rightarrow> bool" where
  "number_syntax s \<longleftrightarrow> s \<noteq> [] \<and> list_all (\<lambda>c. is_digit c \<or> c = CHR ''_'') s \<and> is_digit (hd s) \<and>
     is_digit (last s) \<and> no_double (CHR ''_'') s"

definition unsigned_int :: "string \<Rightarrow> exc + int" where
  "unsigned_int s =
     (if number_syntax s then Inr (int (digits_value (filter is_digit s)))
      else Inl (PyException ''ValueError''))"

definition py_int :: "string \<Rightarrow> exc + int" where
  "py_int s =
     (case strip s of
        [] \<Rightarrow> Inl (PyException ''ValueError'')
      | c # cs \<Rightarrow>
          if c = CHR ''-'' then exc_bind (unsigned_int cs) (\<lambda>i. Inr (- i))
          else if c = CHR ''+'' then unsigned_int cs
          else unsigned_int (c # cs))"

lemma underscore_no_digit: "\<not> is_digit (CHR ''_'')"
  by code_simp

lemma no_double_digits: "list_all is_digit s \<Longrightarrow> no_double (CHR ''_'') s"
  by (induction s rule: induct_list012) (auto simp: underscore_no_digit)

lemma number_syntax_digits: "list_all is_digit s \<Longrightarrow> s \<noteq> [] \<Longrightarrow> number_syntax s"
  by (simp add: number_syntax_def no_double_digits) (simp add: list_all_iff)

lemma digit_no_space: "is_digit c \<Longrightarrow> \<not> is_space c"
  by (auto simp: is_digit_def is_space_def Let_def)

lemma dropWhile_hd: "\<not> P (hd s) \<Longrightarrow> dropWhile P s = s"
  by (cases s) auto

lemma strip_no_space: "s \<noteq> [] \<Longrightarrow> \<not> is_space (hd s) \<Longrightarrow> \<not> is_space (last s) \<Longrightarrow> strip s = s"
  by (simp add: strip_def dropWhile_hd hd_rev)

lemma unsigned_int_str_nat [simp]: "unsigned_int (str_nat n) = Inr (int n)"
proof -
  have "filter is_digit (str_nat n) = str_nat n"
    using is_digit_str_nat [of n] by (simp add: filter_id_conv list_all_iff)
  then show ?thesis
    by (simp add: unsigned_int_def number_syntax_digits is_digit_str_nat digits_value_str_nat)
qed

lemma hd_str_nat: "is_digit (hd (str_nat n))"
  using is_digit_str_nat [of n] by (cases "str_nat n") auto

lemma sign_chars: "\<not> is_digit (CHR ''-'')" "\<not> is_digit (CHR ''+'')" "\<not> is_space (CHR ''-'')"
  by code_simp+

lemma strip_str_nat [simp]: "strip (str_nat n) = str_nat n"
  by (rule strip_no_space) (simp_all add: digit_no_space hd_str_nat last_str_nat)

lemma strip_negative: "strip (CHR ''-'' # str_nat n) = CHR ''-'' # str_nat n"
  by (rule strip_no_space) (simp_all add: digit_no_space last_str_nat sign_chars)

lemma py_int_str_nat [simp]: "py_int (str_nat n) = Inr (int n)"
proof (cases "str_nat n")
  case (Cons c cs)
  then have "is_digit c" using hd_str_nat [of n] by simp
  then have "c \<noteq> CHR ''-''" "c \<noteq> CHR ''+''" using sign_chars by auto
  then show ?thesis
    unfolding py_int_def strip_str_nat by (simp add: Cons unsigned_int_str_nat [of n, unfolded Cons])
qed simp

lemma py_int_str_int [simp]: "py_int (str_int i) = Inr i"
  by (simp add: str_int_def) (simp add: py_int_def strip_negative)

section \<open>Token amounts\<close>

definition SPL_TO_WEI :: int where
  "SPL_TO_WEI = 10 ^ 10"

text \<open>\<open>to_wei\<close> on an optional number; None and zero give zero.\<close>

definition to_wei :: "int option \<Rightarrow> int" where
  "to_wei balance = (case balance of None \<Rightarrow> 0 | Some b \<Rightarrow> b * SPL_TO_WEI)"

definition to_wei_string :: "int \<Rightarrow> string" where
  "to_wei_string spl_amount = str_int spl_amount @ ''0000000000''"

end
