(* ===== verification/Attestation.thy ===== *)
theory Attestation
  imports Rewards_Manager Python_Numbers Challenge_Bus Metadata
begin

text \<open>
  The node's attestations that a user has completed a challenge, src/queries/get_attestation.py,
  with the addresses of oracles of src/tasks/index_oracles.py; and the list of challenges still to be
  paid, src/queries/get_undisbursed_challenges.py. With the theory Rewards_Manager this closes the
  loop of a reward: a completed challenge is attested, the reward is transferred on Solana with the
  attestations, the indexer records the disbursement, and no further attestation is given.
\<close>

section \<open>Services\<close>

text \<open>
  Parameters: the oracles the Ethereum contract lists, the conversion of hexadecimal strings to
  bytes (eth-utils), hash and signature with the delegate's key (web3, eth-keys), the wallets of the
  other registered nodes, and the bytes of the configured rewards manager account.
\<close>

record attestation_services =
  at_chain_oracles :: "exc + string list"
  at_hex_bytes :: "string \<Rightarrow> exc + bytes"
  at_sign :: "bytes \<Rightarrow> string"
  at_owner_wallet :: string
  at_other_wallets :: "exc + string list"
  at_rewards_account :: "bytes option"

definition oracle_addresses_key :: string where
  "oracle_addresses_key = ''oracle_addresses''"

text \<open>An exception of the contract call is logged and gives no oracles.\<close>

definition get_oracle_addresses_from_chain :: "attestation_services \<Rightarrow> (world, string list) py" where
  "get_oracle_addresses_from_chain sv =
     (case at_chain_oracles sv of
        Inl e \<Rightarrow> py_return []
      | Inr oracle_addresses \<Rightarrow>
          py_seq (py_modify (redis_set oracle_addresses_key (JStr (join '','' oracle_addresses))))
            (py_return oracle_addresses))"

definition is_valid_oracle :: "attestation_services \<Rightarrow> string \<Rightarrow> (world, bool) py" where
  "is_valid_oracle sv address =
     py_bind (py_gets (redis_get oracle_addresses_key)) (\<lambda>oracle_addresses.
     py_bind (case oracle_addresses of
                Some (JStr s) \<Rightarrow> if s \<noteq> [] then py_return (split_comma s) else get_oracle_addresses_from_chain sv
              | _ \<Rightarrow> get_oracle_addresses_from_chain sv)
       (\<lambda>addresses. py_return (address \<in> set addresses)))"

section \<open>The attested message\<close>

definition WDGC_DECIMALS :: nat where
  "WDGC_DECIMALS = 8"

record attestation =
  a_amount :: string
  a_oracle_address :: string
  a_user_address :: string
  a_challenge_id :: string
  a_challenge_specifier :: string

definition get_combined_id :: "attestation \<Rightarrow> string" where
  "get_combined_id a = a_challenge_id a @ '':'' @ a_challenge_specifier a"

definition get_encoded_amount :: "attestation \<Rightarrow> exc + bytes" where
  "get_encoded_amount a = exc_bind (py_int (a_amount a)) (\<lambda>n. to_bytes_le 8 (n * 10 ^ WDGC_DECIMALS))"

definition attestation_repr :: "attestation \<Rightarrow> string" where
  "attestation_repr a = join ''_'' [a_user_address a, a_amount a, get_combined_id a, a_oracle_address a]"

text \<open>\<open>to_bytes(text="_").join(items)\<close>\<close>

fun join_bytes :: "bytes \<Rightarrow> bytes list \<Rightarrow> bytes" where
  "join_bytes sep [] = []"
| "join_bytes sep [x] = x"
| "join_bytes sep (x # y # xs) = x @ sep @ join_bytes sep (y # xs)"

definition get_attestation_bytes :: "attestation_services \<Rightarrow> attestation \<Rightarrow> exc + bytes" where
  "get_attestation_bytes sv a =
     exc_bind (at_hex_bytes sv (a_user_address a)) (\<lambda>user_bytes.
     exc_bind (at_hex_bytes sv (a_oracle_address a)) (\<lambda>oracle_bytes.
     exc_bind (get_encoded_amount a) (\<lambda>amount_bytes.
       Inr (join_bytes (string_bytes ''_'')
         [user_bytes, amount_bytes, string_bytes (get_combined_id a), oracle_bytes]))))"

section \<open>Attestations\<close>

definition CHALLENGE_INCOMPLETE :: string where
  "CHALLENGE_INCOMPLETE = ''CHALLENGE_INCOMPLETE''"

definition ALREADY_DISBURSED :: string where
  "ALREADY_DISBURSED = ''ALREADY_DISBURSED''"

definition INVALID_ORACLE :: string where
  "INVALID_ORACLE = ''INVALID_ORACLE''"

definition MISSING_CHALLENGES :: string where
  "MISSING_CHALLENGES = ''MISSING_CHALLENGES''"

definition INVALID_INPUT :: string where
  "INVALID_INPUT = ''INVALID_INPUT''"

definition USER_NOT_FOUND :: string where
  "USER_NOT_FOUND = ''USER_NOT_FOUND''"

text \<open>\<open>AttestationError\<close> is a subclass of \<open>Exception\<close> with the message as argument.\<close>

abbreviation AttestationError :: "string \<Rightarrow> exc" where
  "AttestationError m \<equiv> PyException m"

text \<open>\<open>one_or_none()\<close>\<close>

definition one_or_none :: "'r list \<Rightarrow> exc + 'r option" where
  "one_or_none rows =
     (case rows of [] \<Rightarrow> Inr None | [r] \<Rightarrow> Inr (Some r) | _ \<Rightarrow> Inl (PyException ''MultipleResultsFound''))"

text \<open>An outer join: the matching rows, or one row of NULLs.\<close>

definition outer_rows :: "'r list \<Rightarrow> 'r option list" where
  "outer_rows rows = (if rows = [] then [None] else map Some rows)"

definition challenges_and_disbursements ::
  "db \<Rightarrow> int \<Rightarrow> string \<Rightarrow> string \<Rightarrow> (user_challenge_row \<times> challenge_row \<times> disbursement_row option) list" where
  "challenges_and_disbursements d user_id challenge_id specifier =
     concat (map (\<lambda>uc.
       concat (map (\<lambda>c. map (\<lambda>x. (uc, c, x))
           (outer_rows (filter (\<lambda>x. cd_specifier x = uc_specifier uc \<and> cd_challenge_id x = uc_challenge_id uc)
              (challenge_disbursements (programs d)))))
         (filter (\<lambda>c. ch_id c = uc_challenge_id uc) (challenges d))))
       (filter (\<lambda>uc. uc_user_id uc = user_id \<and> uc_challenge_id uc = challenge_id \<and> uc_specifier uc = specifier)
          (user_challenges d)))"

text \<open>A wallet that is NULL becomes the text "None".\<close>

definition get_attestation ::
  "attestation_services \<Rightarrow> string \<Rightarrow> int \<Rightarrow> string \<Rightarrow> string \<Rightarrow> (world, string \<times> string) py" where
  "get_attestation sv challenge_id user_id oracle_address specifier =
     (if user_id = 0 \<or> challenge_id = [] \<or> oracle_address = [] then py_raise (AttestationError INVALID_INPUT)
      else
      py_bind (is_valid_oracle sv oracle_address) (\<lambda>valid.
      if \<not> valid then py_raise (AttestationError INVALID_ORACLE) else
      py_bind (\<lambda>w. (one_or_none (challenges_and_disbursements (w_db w) user_id challenge_id specifier), w)) (\<lambda>row.
      case row of
        None \<Rightarrow> py_raise (AttestationError MISSING_CHALLENGES)
      | Some (user_challenge, challenge, disbursement) \<Rightarrow>
          if \<not> uc_is_complete user_challenge then py_raise (AttestationError CHALLENGE_INCOMPLETE)
          else if disbursement \<noteq> None then py_raise (AttestationError ALREADY_DISBURSED)
          else
          py_bind (\<lambda>w. (one_or_none (filter (\<lambda>u. us_is_current u \<and> us_user_id u = user_id \<and>
              us_is_deactivated u = JBool False) (users (w_db w))), w)) (\<lambda>user.
          case user of
            None \<Rightarrow> py_raise (AttestationError USER_NOT_FOUND)
          | Some u \<Rightarrow>
              let user_address = (case us_wallet u of None \<Rightarrow> ''None'' | Some a \<Rightarrow> a);
                  attestation = \<lparr>a_amount = ch_amount challenge, a_oracle_address = oracle_address,
                    a_user_address = user_address, a_challenge_id = ch_id challenge,
                    a_challenge_specifier = uc_specifier user_challenge\<rparr>
              in py_bind (py_lift (get_attestation_bytes sv attestation)) (\<lambda>attestation_bytes.
                   py_return (at_owner_wallet sv, at_sign sv attestation_bytes))))))"

definition verify_discovery_node_exists_on_chain :: "attestation_services \<Rightarrow> string \<Rightarrow> exc + bool" where
  "verify_discovery_node_exists_on_chain sv new_sender_address =
     exc_bind (at_other_wallets sv) (\<lambda>addresses. Inr (new_sender_address \<in> set addresses))"

definition ADD_SENDER_MESSAGE_PREFIX :: string where
  "ADD_SENDER_MESSAGE_PREFIX = ''add''"

definition get_create_sender_attestation :: "attestation_services \<Rightarrow> string \<Rightarrow> exc + (string \<times> string)" where
  "get_create_sender_attestation sv new_sender_address =
     (case at_rewards_account sv of
        None \<Rightarrow> Inl (PyException ''No Rewards Manager Account initialized'')
      | Some account \<Rightarrow>
          exc_bind (verify_discovery_node_exists_on_chain sv new_sender_address) (\<lambda>is_valid.
          if \<not> is_valid then Inl (PyException (''Expected '' @ new_sender_address @ '' to be registered on chain''))
          else exc_bind (at_hex_bytes sv new_sender_address) (\<lambda>address_bytes.
            let attestation_bytes = join_bytes [] [string_bytes ADD_SENDER_MESSAGE_PREFIX, account, address_bytes]
            in Inr (at_owner_wallet sv, at_sign sv attestation_bytes))))"

section \<open>Undisbursed challenges\<close>

record undisbursed_challenge =
  un_challenge_id :: string
  un_user_id :: int
  un_specifier :: string
  un_amount :: string
  un_completed_blocknumber :: "int option"
  un_handle :: "string option"
  un_wallet :: "string option"

record undisbursed_args =
  ug_user_id :: "int option"
  ug_limit :: "int option"
  ug_offset :: "int option"
  ug_completed_blocknumber :: "int option"

definition MAX_LIMIT :: int where
  "MAX_LIMIT = 500"

definition DEFAULT_LIMIT :: int where
  "DEFAULT_LIMIT = 100"

text \<open>
  The order of the rows: by block number, NULL last, then by user, then by challenge in the
  database's collation, here a rank of strings.
\<close>

fun block_before :: "int option \<Rightarrow> int option \<Rightarrow> bool" where
  "block_before (Some a) (Some b) = (a < b)"
| "block_before (Some a) None = True"
| "block_before None b = False"

definition undisbursed_before ::
  "(string \<Rightarrow> nat) \<Rightarrow> undisbursed_challenge \<Rightarrow> undisbursed_challenge \<Rightarrow> bool" where
  "undisbursed_before collation p q \<longleftrightarrow>
     block_before (un_completed_blocknumber p) (un_completed_blocknumber q) \<or>
     un_completed_blocknumber p = un_completed_blocknumber q \<and>
       (un_user_id p < un_user_id q \<or>
        un_user_id p = un_user_id q \<and> collation (un_challenge_id p) < collation (un_challenge_id q))"

fun insert_ordered :: "('a \<Rightarrow> 'a \<Rightarrow> bool) \<Rightarrow> 'a \<Rightarrow> 'a list \<Rightarrow> 'a list" where
  "insert_ordered before x [] = [x]"
| "insert_ordered before x (y # ys) = (if before y x then y # insert_ordered before x ys else x # y # ys)"

definition order_by :: "('a \<Rightarrow> 'a \<Rightarrow> bool) \<Rightarrow> 'a list \<Rightarrow> 'a list" where
  "order_by before xs = foldr (insert_ordered before) xs []"

definition undisbursed_rows :: "db \<Rightarrow> undisbursed_args \<Rightarrow> undisbursed_challenge list" where
  "undisbursed_rows d args =
     concat (map (\<lambda>uc. concat (map (\<lambda>c. concat (map (\<lambda>u. map (\<lambda>b.
         \<lparr>un_challenge_id = ch_id c, un_user_id = uc_user_id uc, un_specifier = uc_specifier uc,
          un_amount = ch_amount c, un_completed_blocknumber = uc_completed_blocknumber uc,
          un_handle = us_handle u, un_wallet = us_wallet u\<rparr>)
       (filter (\<lambda>b. us_wallet u = Some (ba_ethereum_address b)) (user_bank_accounts (programs d))))
       (filter (\<lambda>u. us_user_id u = uc_user_id uc \<and> us_is_current u \<and> us_is_deactivated u = JBool False) (users d))))
       (filter (\<lambda>c. ch_id c = uc_challenge_id uc \<and> ch_active c) (challenges d))))
       (filter (\<lambda>uc. uc_is_complete uc \<and>
          filter (\<lambda>x. cd_specifier x = uc_specifier uc \<and> cd_challenge_id x = uc_challenge_id uc \<and>
            cd_user_id x = uc_user_id uc) (challenge_disbursements (programs d)) = [] \<and>
          (case ug_user_id args of None \<Rightarrow> True | Some i \<Rightarrow> uc_user_id uc = i) \<and>
          (case ug_completed_blocknumber args of None \<Rightarrow> True
           | Some n \<Rightarrow> (case uc_completed_blocknumber uc of None \<Rightarrow> False | Some m \<Rightarrow> m > n)))
         (user_challenges d)))"

definition get_undisbursed_challenges ::
  "(string \<Rightarrow> nat) \<Rightarrow> db \<Rightarrow> undisbursed_args \<Rightarrow> undisbursed_challenge list" where
  "get_undisbursed_challenges collation d args =
     (let limit = (case ug_limit args of None \<Rightarrow> DEFAULT_LIMIT | Some l \<Rightarrow> min MAX_LIMIT l);
          offset = (case ug_offset args of None \<Rightarrow> 0 | Some n \<Rightarrow> n)
      in take (nat limit) (drop (nat offset) (order_by (undisbursed_before collation) (undisbursed_rows d args))))"

section \<open>When an attestation is given\<close>

text \<open>
  The user challenge of the specifier is complete and not disbursed, and the user is active.
\<close>

definition disbursed :: "db \<Rightarrow> string \<Rightarrow> string \<Rightarrow> bool" where
  "disbursed d challenge_id specifier \<longleftrightarrow>
     (\<exists>x\<in>set (challenge_disbursements (programs d)). disbursement_key x = (challenge_id, specifier))"

definition attestable ::
  "db \<Rightarrow> int \<Rightarrow> string \<Rightarrow> string \<Rightarrow> user_challenge_row \<Rightarrow> challenge_row \<Rightarrow> user_row \<Rightarrow> bool" where
  "attestable d user_id challenge_id specifier uc c u \<longleftrightarrow>
     uc \<in> set (user_challenges d) \<and> uc_user_id uc = user_id \<and> uc_key uc = (challenge_id, specifier) \<and>
     uc_is_complete uc \<and> c \<in> set (challenges d) \<and> ch_id c = challenge_id \<and>
     \<not> disbursed d challenge_id specifier \<and>
     u \<in> set (users d) \<and> us_is_current u \<and> us_user_id u = user_id \<and> us_is_deactivated u = JBool False"

definition attested :: "string \<Rightarrow> user_challenge_row \<Rightarrow> challenge_row \<Rightarrow> user_row \<Rightarrow> attestation" where
  "attested oracle_address uc c u =
     \<lparr>a_amount = ch_amount c, a_oracle_address = oracle_address,
      a_user_address = (case us_wallet u of None \<Rightarrow> ''None'' | Some a \<Rightarrow> a), a_challenge_id = ch_id c,
      a_challenge_specifier = uc_specifier uc\<rparr>"

lemma one_or_none_Some: "one_or_none rows = Inr (Some r) \<longleftrightarrow> rows = [r]"
  by (auto simp: one_or_none_def split: list.splits)

lemma outer_rows_None: "None \<in> set (outer_rows rows) \<longleftrightarrow> rows = []"
  by (auto simp: outer_rows_def)

lemma joined_row_None:
  assumes "(uc, c, None) \<in> set (challenges_and_disbursements d user_id challenge_id specifier)"
  shows "uc \<in> set (user_challenges d)" and "uc_user_id uc = user_id" and "uc_key uc = (challenge_id, specifier)"
    and "c \<in> set (challenges d)" and "ch_id c = challenge_id" and "\<not> disbursed d challenge_id specifier"
proof -
  from assms have uc: "uc \<in> set (user_challenges d)" "uc_user_id uc = user_id"
    "uc_challenge_id uc = challenge_id" "uc_specifier uc = specifier"
    and c: "c \<in> set (challenges d)" "ch_id c = uc_challenge_id uc"
    and none: "None \<in> set (outer_rows (filter (\<lambda>x. cd_specifier x = uc_specifier uc \<and>
      cd_challenge_id x = uc_challenge_id uc) (challenge_disbursements (programs d))))"
    unfolding challenges_and_disbursements_def by auto
  show "uc \<in> set (user_challenges d)" "uc_user_id uc = user_id" "uc_key uc = (challenge_id, specifier)"
    "c \<in> set (challenges d)" "ch_id c = challenge_id" "\<not> disbursed d challenge_id specifier"
    using uc c none by (auto simp: uc_key_def outer_rows_None disbursed_def disbursement_key_def filter_empty_conv)
qed

lemma is_valid_oracle_runs:
  "\<exists>v w'. is_valid_oracle sv oracle w = (Inr v, w') \<and> w_db w' = w_db w"
  unfolding is_valid_oracle_def get_oracle_addresses_from_chain_def py_defs
  by (auto split: option.split json.split sum.split)

lemma attestation_sound:
  assumes "get_attestation sv challenge_id user_id oracle_address specifier w = (Inr res, w')"
  shows "\<exists>uc c u bytes. attestable (w_db w) user_id challenge_id specifier uc c u \<and>
    get_attestation_bytes sv (attested oracle_address uc c u) = Inr bytes \<and>
    res = (at_owner_wallet sv, at_sign sv bytes) \<and> fst (is_valid_oracle sv oracle_address w) = Inr True"
proof -
  obtain v w1 where valid: "is_valid_oracle sv oracle_address w = (Inr v, w1)" and db: "w_db w1 = w_db w"
    using is_valid_oracle_runs by blast
  let ?rows = "challenges_and_disbursements (w_db w) user_id challenge_id specifier"
  let ?us = "filter (\<lambda>u. us_is_current u \<and> us_user_id u = user_id \<and> us_is_deactivated u = JBool False) (users (w_db w))"
  have v: v using assms valid
    by (auto simp: get_attestation_def py_defs split: if_splits)
  then obtain row where row: "one_or_none ?rows = Inr (Some row)"
    using assms valid
    by (cases "one_or_none ?rows"; cases "projr (one_or_none ?rows)")
      (auto simp: get_attestation_def py_defs db split: if_splits)
  obtain uc c x where r: "row = (uc, c, x)" by (cases row)
  have complete: "uc_is_complete uc" and x: "x = None"
    using assms valid row r v by (auto simp: get_attestation_def py_defs db split: if_splits)
  obtain u where u: "one_or_none ?us = Inr (Some u)"
    using assms valid row r v complete x
    by (cases "one_or_none ?us"; cases "projr (one_or_none ?us)")
      (auto simp: get_attestation_def py_defs db split: if_splits)
  obtain bs where bs: "get_attestation_bytes sv (attested oracle_address uc c u) = Inr bs"
    and res: "res = (at_owner_wallet sv, at_sign sv bs)"
    using assms valid row r v complete x u
    by (cases "get_attestation_bytes sv (attested oracle_address uc c u)")
      (auto simp: get_attestation_def py_defs db Let_def attested_def split: if_splits)
  from row r x have "(uc, c, None) \<in> set ?rows" by (simp add: one_or_none_Some)
  note facts = joined_row_None [OF this]
  from u have "u \<in> set ?us" by (simp add: one_or_none_Some)
  then have "attestable (w_db w) user_id challenge_id specifier uc c u"
    using facts complete by (simp add: attestable_def)
  with bs res v valid show ?thesis by auto
qed

text \<open>The keys the database keeps: the primary keys, and one current row per user.\<close>

definition attestation_keys :: "db \<Rightarrow> bool" where
  "attestation_keys d \<longleftrightarrow> distinct (map uc_key (user_challenges d)) \<and> distinct (map ch_id (challenges d)) \<and>
     distinct (map us_user_id (filter us_is_current (users d)))"

lemma filter_unique:
  assumes "distinct (map f (filter Q xs))" and "x \<in> set xs" and "P x" "Q x"
    and "\<And>y. y \<in> set xs \<Longrightarrow> P y \<Longrightarrow> Q y \<and> f y = f x"
  shows "filter P xs = [x]"
  using assms
proof (induction xs)
  case (Cons y ys)
  show ?case
  proof (cases "y = x")
    case True
    have "\<not> P z" if z: "z \<in> set ys" for z
    proof
      assume "P z"
      then have "Q z" "f z = f x" using Cons.prems(5) [of z] z by auto
      moreover have "z \<in> set (filter Q ys)" using z \<open>Q z\<close> by simp
      ultimately have "f x \<in> f ` set (filter Q ys)" by (metis imageI)
      with Cons.prems(1,4) True show False by simp
    qed
    with True Cons.prems(3) show ?thesis by (simp add: filter_empty_conv)
  next
    case False
    then have x: "x \<in> set ys" using Cons.prems(2) by simp
    have "\<not> P y"
    proof
      assume "P y"
      then have "Q y" "f y = f x" using Cons.prems(5) [of y] by auto
      moreover have "f x \<in> f ` set (filter Q ys)" using x Cons.prems(4) by auto
      ultimately show False using Cons.prems(1) by simp
    qed
    moreover have "distinct (map f (filter Q ys))" using Cons.prems(1) by (cases "Q y") simp_all
    then have "filter P ys = [x]"
      by (rule Cons.IH) (use x Cons.prems(3,4) in simp_all, rule Cons.prems(5), simp_all)
    ultimately show ?thesis by simp
  qed
qed simp

lemma attestation_complete:
  assumes keys: "attestation_keys (w_db w)"
    and at: "attestable (w_db w) user_id challenge_id specifier uc c u"
    and input: "user_id \<noteq> 0" "challenge_id \<noteq> []" "oracle_address \<noteq> []"
    and valid: "fst (is_valid_oracle sv oracle_address w) = Inr True"
    and bytes: "get_attestation_bytes sv (attested oracle_address uc c u) = Inr bs"
  shows "\<exists>w'. get_attestation sv challenge_id user_id oracle_address specifier w =
    (Inr (at_owner_wallet sv, at_sign sv bs), w')"
proof -
  let ?d = "w_db w"
  obtain w1 where o: "is_valid_oracle sv oracle_address w = (Inr True, w1)" and db: "w_db w1 = ?d"
    using is_valid_oracle_runs [of sv oracle_address w] valid by auto
  have ucs: "filter (\<lambda>uc. uc_user_id uc = user_id \<and> uc_challenge_id uc = challenge_id \<and> uc_specifier uc = specifier)
      (user_challenges ?d) = [uc]"
    by (rule filter_unique [where f = uc_key and Q = "\<lambda>_. True"])
      (use keys at in \<open>auto simp: attestation_keys_def attestable_def uc_key_def\<close>)
  have cs: "filter (\<lambda>c. ch_id c = uc_challenge_id uc) (challenges ?d) = [c]"
    by (rule filter_unique [where f = ch_id and Q = "\<lambda>_. True"])
      (use keys at in \<open>auto simp: attestation_keys_def attestable_def uc_key_def\<close>)
  have ds: "filter (\<lambda>x. cd_specifier x = uc_specifier uc \<and> cd_challenge_id x = uc_challenge_id uc)
      (challenge_disbursements (programs ?d)) = []"
    using at by (auto simp: attestable_def disbursed_def disbursement_key_def uc_key_def filter_empty_conv)
  have us: "filter (\<lambda>u. us_is_current u \<and> us_user_id u = user_id \<and> us_is_deactivated u = JBool False) (users ?d) = [u]"
    by (rule filter_unique [where f = us_user_id and Q = us_is_current])
      (use keys at in \<open>auto simp: attestation_keys_def attestable_def\<close>)
  have rows: "challenges_and_disbursements ?d user_id challenge_id specifier = [(uc, c, None)]"
    by (simp add: challenges_and_disbursements_def ucs cs ds outer_rows_def)
  have "uc_is_complete uc" using at by (simp add: attestable_def)
  with o rows us bytes input show ?thesis
    by (simp add: get_attestation_def py_defs db one_or_none_def Let_def attested_def [symmetric])
qed

text \<open>
  C27. An attestation is given exactly when it should be: for a known oracle and a non-empty request,
  the node signs the message of the attestation if and only if the user's challenge is complete and
  has no disbursement, and the user is current and not deactivated (and the addresses and the amount
  can be encoded); in every other case it raises.
\<close>

theorem attestation_given_iff:
  assumes "attestation_keys (w_db w)" and "user_id \<noteq> 0" and "challenge_id \<noteq> []" and "oracle_address \<noteq> []"
    and "fst (is_valid_oracle sv oracle_address w) = Inr True"
  shows "fst (get_attestation sv challenge_id user_id oracle_address specifier w) = Inr (owner, signature) \<longleftrightarrow>
    (\<exists>uc c u bs. attestable (w_db w) user_id challenge_id specifier uc c u \<and>
       get_attestation_bytes sv (attested oracle_address uc c u) = Inr bs \<and>
       owner = at_owner_wallet sv \<and> signature = at_sign sv bs)"
proof
  assume "fst (get_attestation sv challenge_id user_id oracle_address specifier w) = Inr (owner, signature)"
  then obtain w' where "get_attestation sv challenge_id user_id oracle_address specifier w = (Inr (owner, signature), w')"
    by (metis prod.collapse)
  from attestation_sound [OF this] show "\<exists>uc c u bs. attestable (w_db w) user_id challenge_id specifier uc c u \<and>
       get_attestation_bytes sv (attested oracle_address uc c u) = Inr bs \<and>
       owner = at_owner_wallet sv \<and> signature = at_sign sv bs"
    by auto
next
  assume "\<exists>uc c u bs. attestable (w_db w) user_id challenge_id specifier uc c u \<and>
       get_attestation_bytes sv (attested oracle_address uc c u) = Inr bs \<and>
       owner = at_owner_wallet sv \<and> signature = at_sign sv bs"
  then show "fst (get_attestation sv challenge_id user_id oracle_address specifier w) = Inr (owner, signature)"
    using attestation_complete [OF assms(1) _ assms(2-5)] by fastforce
qed

definition ex_attestation_services :: attestation_services where
  "ex_attestation_services = \<lparr>at_chain_oracles = Inr [''0xaa''], at_hex_bytes = (\<lambda>s. Inr (replicate 20 (length s))),
     at_sign = (\<lambda>bs. map char_of bs), at_owner_wallet = ''0x11'', at_other_wallets = Inr [],
     at_rewards_account = None\<rparr>"

definition ex_rewarded_user :: user_row where
  "ex_rewarded_user = (ex_user 1)\<lparr>us_user_id := 1, us_is_current := True, us_wallet := Some ''0xbb'',
     us_is_deactivated := JBool False\<rparr>"

definition ex_rewards_world :: world where
  "ex_rewards_world = empty_world\<lparr>w_db := empty_db\<lparr>users := [ex_rewarded_user],
     challenges := [\<lparr>ch_id = ''mobile-install'', ch_type = ChBoolean, ch_amount = ''1'', ch_active = True,
       ch_step_count = None, ch_starting_block = None\<rparr>],
     user_challenges := [\<lparr>uc_challenge_id = ''mobile-install'', uc_user_id = 1, uc_specifier = ''1'',
       uc_is_complete = True, uc_current_step_count = Some 0, uc_completed_blocknumber = Some 5\<rparr>]\<rparr>\<rparr>"

theorem attestation_given_iff_witness:
  "\<exists>signature. fst (get_attestation ex_attestation_services ''mobile-install'' 1 ''0xaa'' ''1'' ex_rewards_world) =
    Inr (''0x11'', signature)"
proof -
  let ?d = "w_db ex_rewards_world"
  have keys: "attestation_keys ?d" by code_simp
  have orc: "fst (is_valid_oracle ex_attestation_services ''0xaa'' ex_rewards_world) = Inr True" by code_simp
  let ?uc = "hd (user_challenges ?d)" and ?c = "hd (challenges ?d)" and ?u = "hd (users ?d)"
  have at: "attestable ?d 1 ''mobile-install'' ''1'' ?uc ?c ?u"
    by code_simp
  have "a_amount (attested ''0xaa'' ?uc ?c ?u) = ''1''" and "py_int ''1'' = Inr 1" by code_simp+
  then obtain bs where bs: "get_attestation_bytes ex_attestation_services (attested ''0xaa'' ?uc ?c ?u) = Inr bs"
    by (simp add: get_attestation_bytes_def get_encoded_amount_def to_bytes_le_def WDGC_DECIMALS_def
        ex_attestation_services_def)
  have "fst (get_attestation ex_attestation_services ''mobile-install'' 1 ''0xaa'' ''1'' ex_rewards_world) =
      Inr (''0x11'', at_sign ex_attestation_services bs)"
    unfolding attestation_given_iff [OF keys _ _ _ orc, of 1 "''mobile-install''", simplified]
    using at bs by (auto simp: ex_attestation_services_def)
  then show ?thesis ..
qed

section \<open>What the message determines\<close>

lemma to_bytes_le_Inr: "to_bytes_le k n = Inr bs \<longleftrightarrow> 0 \<le> n \<and> n < 256 ^ k \<and> bs = le_bytes k (nat n)"
  by (auto simp: to_bytes_le_def)

lemma to_bytes_le_inject: "to_bytes_le k m = Inr bs \<Longrightarrow> to_bytes_le k n = Inr bs \<Longrightarrow> m = n"
proof -
  assume "to_bytes_le k m = Inr bs" and "to_bytes_le k n = Inr bs"
  then have b: "0 \<le> m" "0 \<le> n" "m < 256 ^ k" "n < 256 ^ k" and eq: "le_bytes k (nat m) = le_bytes k (nat n)"
    by (auto simp: to_bytes_le_Inr)
  have "nat m < 256 ^ k" "nat n < 256 ^ k"
    using b by (simp_all add: nat_less_iff)
  then have "nat m = nat n" using eq by (metis from_le_bytes_small)
  with b show "m = n" by simp
qed

lemma string_bytes_inject [simp]: "string_bytes s = string_bytes t \<longleftrightarrow> s = t"
  unfolding string_bytes_def by (rule inj_map_eq_map) (auto intro: injI)

lemma colon_split_inject:
  assumes "CHR '':'' \<notin> set a" and "CHR '':'' \<notin> set b" and "a @ '':'' @ s = b @ '':'' @ t"
  shows "a = b" and "s = t"
proof -
  have tw: "takeWhile (\<lambda>c. c \<noteq> CHR '':'') (x @ '':'' @ y) = x"
    if "CHR '':'' \<notin> set x" for x y :: string
    using that by (subst takeWhile_append2) auto
  show "a = b" using tw [OF assms(1), of s] tw [OF assms(2), of t] assms(3) by simp
  with assms(3) show "s = t" by simp
qed


text \<open>The id in the transfer instruction is the combined id of the attestation, and is split back.\<close>

lemma parse_combined_id:
  "CHR '':'' \<notin> set challenge_id \<Longrightarrow>
    parse_transfer_instruction_id (challenge_id @ '':'' @ specifier) = Some (challenge_id, specifier)"
proof -
  assume "CHR '':'' \<notin> set challenge_id"
  then have "dropWhile (\<lambda>c. c \<noteq> CHR '':'') (challenge_id @ '':'' @ specifier) = '':'' @ specifier"
    and "takeWhile (\<lambda>c. c \<noteq> CHR '':'') (challenge_id @ '':'' @ specifier) = challenge_id"
    by (subst dropWhile_append2 takeWhile_append2; auto)+
  then show ?thesis by (simp add: parse_transfer_instruction_id_def)
qed

section \<open>No double payout\<close>

lemma process_batch_disbursements:
  assumes "process_batch_sol_reward_manager_txs infos w = (Inr u, w')"
  shows "\<exists>m. challenge_disbursements (w_programs w') =
    challenge_disbursements (w_programs w) @ List.map_filter (disbursement_of m) infos"
  using assms
  by (auto simp: process_batch_sol_reward_manager_txs_def py_defs Let_def split: if_splits)

lemma batch_disburses:
  assumes "process_signature_batch rw s batch acc w = (Inr acc', w1)"
    and "tx_sig \<in> set (rw_completion rw batch)"
    and "fetch_and_parse_sol_rewards_transfer_instruction rw tx_sig = Inr i"
    and "ri_transfer_instruction i = Some t"
  shows "disbursed (w_db w1) (rt_challenge_id t) (rt_specifier t)"
proof -
  obtain infos where infos: "exc_map (fetch_and_parse_sol_rewards_transfer_instruction rw) (rw_completion rw batch) = Inr infos"
    and run: "session_scope (commit_reward_txs rw) (process_batch_sol_reward_manager_txs infos) w = (Inr (), w1)"
    using signature_batch_Inr [OF assms(1)] by blast
  have "i \<in> set infos"
  proof -
    obtain k where k: "k < length (rw_completion rw batch)" "rw_completion rw batch ! k = tx_sig"
      using assms(2) by (meson in_set_conv_nth)
    have "k < length infos" "infos ! k = i"
      using exc_map_list_all2 [OF infos] k assms(3) by (auto simp: list_all2_conv_all_nth)
    then show ?thesis by (metis nth_mem)
  qed
  moreover obtain m where "challenge_disbursements (w_programs w1) =
      challenge_disbursements (w_programs w) @ List.map_filter (disbursement_of m) infos"
    using session_scope_InrD [OF run] process_batch_disbursements by blast
  moreover obtain r where "disbursement_of m i = Some r"
    and "disbursement_key r = (rt_challenge_id t, rt_specifier t)"
    using assms(4) by (simp add: disbursement_of_def disbursement_key_def)
  ultimately have "r \<in> set (challenge_disbursements (w_programs w1))"
    by (auto simp: set_map_filter)
  with \<open>disbursement_key r = _\<close> show ?thesis unfolding disbursed_def by blast
qed

lemma transfer_parsed:
  assumes "get_sol_tx_info (rw_nodes rw) tx_sig = Inr tx" and "\<not> sx_err tx"
    and "get_valid_instruction rw tx = Some instr"
    and "rw_b58decode rw (in_data instr) =
      Inr (tag # concat (map encode_field [FU64 amount, FString (challenge_id @ '':'' @ specifier), FAddress address]))"
    and "list_all field_ok [FU64 amount, FString (challenge_id @ '':'' @ specifier), FAddress address]"
    and "CHR '':'' \<notin> set challenge_id"
  shows "\<exists>i. fetch_and_parse_sol_rewards_transfer_instruction rw tx_sig = Inr i \<and>
    ri_transfer_instruction i = Some \<lparr>rt_amount = amount, rt_challenge_id = challenge_id,
      rt_specifier = specifier, rt_eth_recipient = ''0x'' @ bytes_hex address\<rparr>"
proof -
  let ?fs = "[FU64 amount, FString (challenge_id @ '':'' @ specifier), FAddress address]"
  have "parse_instruction_data (rw_b58decode rw) (in_data instr) rewards_manager_transfer_instr =
      Inr (zip (map if_name rewards_manager_transfer_instr) (map field_value ?fs))"
    using assms(5) parse_params_encode [of rewards_manager_transfer_instr ?fs "[]" "[]"] assms(4)
    by (simp add: rewards_manager_transfer_instr_def parse_instruction_data_def)
  then show ?thesis
    using assms(1-3) parse_combined_id [OF assms(6), of specifier]
    by (simp add: fetch_and_parse_sol_rewards_transfer_instruction_def Let_def
        parse_transfer_instruction_data_def transfer_of_params_def rewards_manager_transfer_instr_def)
qed

text \<open>
  C8. A reward is not paid twice: once a transaction that transfers the reward of a challenge and
  specifier is in a batch the indexer stored, the node gives no further attestation for them, to
  whichever user and oracle, in any later state that still has the disbursements.
\<close>

theorem no_double_payout:
  assumes "get_sol_tx_info (rw_nodes rw) tx_sig = Inr tx" and "\<not> sx_err tx"
    and "get_valid_instruction rw tx = Some instr"
    and "rw_b58decode rw (in_data instr) =
      Inr (tag # concat (map encode_field [FU64 amount, FString (challenge_id @ '':'' @ specifier), FAddress address]))"
    and "list_all field_ok [FU64 amount, FString (challenge_id @ '':'' @ specifier), FAddress address]"
    and "CHR '':'' \<notin> set challenge_id"
    and "tx_sig \<in> set (rw_completion rw batch)"
    and "process_signature_batch rw s batch acc w = (Inr acc', w1)"
    and "set (challenge_disbursements (programs (w_db w1))) \<subseteq> set (challenge_disbursements (programs (w_db w2)))"
  shows "\<exists>e. fst (get_attestation sv challenge_id user_id oracle_address specifier w2) = Inl e"
proof -
  obtain i where "fetch_and_parse_sol_rewards_transfer_instruction rw tx_sig = Inr i"
    and "ri_transfer_instruction i = Some \<lparr>rt_amount = amount, rt_challenge_id = challenge_id,
      rt_specifier = specifier, rt_eth_recipient = ''0x'' @ bytes_hex address\<rparr>"
    using transfer_parsed [OF assms(1-6)] by blast
  from batch_disburses [OF assms(8,7) this] have "disbursed (w_db w1) challenge_id specifier" by simp
  then have dis: "disbursed (w_db w2) challenge_id specifier" using assms(9) by (auto simp: disbursed_def)
  show ?thesis
  proof (cases "get_attestation sv challenge_id user_id oracle_address specifier w2")
    case (Pair r w')
    have "\<exists>e. r = Inl e"
    proof (cases r)
      case (Inr res)
      with Pair have "get_attestation sv challenge_id user_id oracle_address specifier w2 = (Inr res, w')" by simp
      from attestation_sound [OF this] dis show ?thesis by (auto simp: attestable_def)
    qed simp
    with Pair show ?thesis by simp
  qed
qed

definition ex_ambiguous :: "string \<Rightarrow> attestation" where
  "ex_ambiguous amount = \<lparr>a_amount = amount, a_oracle_address = ''0xaa'', a_user_address = ''0xbb'',
     a_challenge_id = ''tt'', a_challenge_specifier = ''1:2''\<rparr>"


definition ex_payout_fields :: "field list" where
  "ex_payout_fields = [FU64 7, FString ''mobile-install:1'', FAddress (replicate 19 0 @ [17])]"

definition ex_payout_tx :: transaction_info where
  "ex_payout_tx = \<lparr>sx_slot = 5, sx_blockTime = 105, sx_err = False,
     sx_logMessages = [''Program log: Instruction: Transfer''], sx_accountKeys = [''acct'', ''prog''],
     sx_instructions = [\<lparr>in_accounts = [], in_data = ''data'', in_programIdIndex = 1\<rparr>],
     sx_preTokenBalances = None, sx_postTokenBalances = None\<rparr>"

definition ex_payout_services :: reward_services where
  "ex_payout_services = (ex_reward_services [])\<lparr>
     rw_nodes := [(ex_node [])\<lparr>sn_transaction := (\<lambda>s i. Inr (Some ex_payout_tx))\<rparr>],
     rw_b58decode := (\<lambda>s. Inr (4 # concat (map encode_field ex_payout_fields)))\<rparr>"

theorem no_double_payout_witness:
  "\<exists>w1 e. process_signature_batch ex_payout_services None [''sig''] None ex_rewards_world = (Inr None, w1) \<and>
    fst (get_attestation ex_attestation_services ''mobile-install'' 1 ''0xaa'' ''1'' w1) = Inl e"
proof -
  let ?run = "process_signature_batch ex_payout_services None [''sig''] None ex_rewards_world"
  have "fst ?run = Inr None" by code_simp
  then obtain w1 where run: "?run = (Inr None, w1)" by (metis prod.collapse)
  have tx: "get_sol_tx_info (rw_nodes ex_payout_services) ''sig'' = Inr ex_payout_tx" by code_simp
  have err: "\<not> sx_err ex_payout_tx" by (simp add: ex_payout_tx_def)
  have instr: "get_valid_instruction ex_payout_services ex_payout_tx = Some (hd (sx_instructions ex_payout_tx))"
    by code_simp
  have data: "rw_b58decode ex_payout_services (in_data (hd (sx_instructions ex_payout_tx))) =
      Inr (4 # concat (map encode_field [FU64 7, FString (''mobile-install'' @ '':'' @ ''1''), FAddress (replicate 19 0 @ [17])]))"
    by (simp add: ex_payout_services_def ex_payout_fields_def)
  have ok: "list_all field_ok [FU64 7, FString (''mobile-install'' @ '':'' @ ''1''), FAddress (replicate 19 0 @ [17])]"
    by (simp add: string_bytes_def)
  have colon: "CHR '':'' \<notin> set ''mobile-install''" by simp
  have mem: "''sig'' \<in> set (rw_completion ex_payout_services [''sig''])"
    by (simp add: ex_payout_services_def ex_reward_services_def)
  from no_double_payout [OF tx err instr data ok colon mem run subset_refl] run show ?thesis by blast
qed

section \<open>The two queries disagree\<close>

text \<open>
  \<open>get_undisbursed_challenges\<close> also compares the user of a disbursement, \<open>get_attestation\<close> does not.
  A disbursement to a wallet the node does not know is recorded for user 0.
\<close>

lemma attestation_refused:
  assumes keys: "attestation_keys (w_db w)"
    and uc: "uc \<in> set (user_challenges (w_db w))" "uc_is_complete uc" "uc_user_id uc \<noteq> 0" "uc_challenge_id uc \<noteq> []"
    and c: "c \<in> set (challenges (w_db w))" "ch_id c = uc_challenge_id uc"
    and dist: "distinct (map disbursement_key (challenge_disbursements (programs (w_db w))))"
    and dis: "disbursed (w_db w) (uc_challenge_id uc) (uc_specifier uc)"
    and valid: "fst (is_valid_oracle sv oracle_address w) = Inr True" and "oracle_address \<noteq> []"
  shows "fst (get_attestation sv (uc_challenge_id uc) (uc_user_id uc) oracle_address (uc_specifier uc) w) =
    Inl (PyException ALREADY_DISBURSED)"
proof -
  let ?d = "w_db w"
  obtain w1 where o: "is_valid_oracle sv oracle_address w = (Inr True, w1)" and db: "w_db w1 = ?d"
    using is_valid_oracle_runs [of sv oracle_address w] valid by auto
  have ucs: "filter (\<lambda>q. uc_user_id q = uc_user_id uc \<and> uc_challenge_id q = uc_challenge_id uc \<and>
      uc_specifier q = uc_specifier uc) (user_challenges ?d) = [uc]"
    by (rule filter_unique [where f = uc_key and Q = "\<lambda>_. True"])
      (use keys uc in \<open>auto simp: attestation_keys_def uc_key_def\<close>)
  have cs: "filter (\<lambda>q. ch_id q = uc_challenge_id uc) (challenges ?d) = [c]"
    by (rule filter_unique [where f = ch_id and Q = "\<lambda>_. True"])
      (use keys c in \<open>auto simp: attestation_keys_def\<close>)
  obtain x where x: "x \<in> set (challenge_disbursements (programs ?d))"
    "disbursement_key x = (uc_challenge_id uc, uc_specifier uc)"
    using dis by (auto simp: disbursed_def)
  have ds: "filter (\<lambda>q. cd_specifier q = uc_specifier uc \<and> cd_challenge_id q = uc_challenge_id uc)
      (challenge_disbursements (programs ?d)) = [x]"
    by (rule filter_unique [where f = disbursement_key and Q = "\<lambda>_. True"])
      (use dist x in \<open>auto simp: disbursement_key_def\<close>)
  have "challenges_and_disbursements ?d (uc_user_id uc) (uc_challenge_id uc) (uc_specifier uc) = [(uc, c, Some x)]"
    by (simp add: challenges_and_disbursements_def ucs cs ds outer_rows_def)
  with o uc assms(11) show ?thesis
    by (simp add: get_attestation_def py_defs db one_or_none_def)
qed

text \<open>
  A disbursement recorded for another user id, as for a recipient the node does not know, leaves
  the challenge in the list of undisbursed challenges of its user although the node refuses every
  attestation for it as already disbursed.
\<close>

theorem misattributed_disbursement_listed:
  assumes "attestation_keys (w_db w)"
    and "distinct (map disbursement_key (challenge_disbursements (programs (w_db w))))"
    and "uc \<in> set (user_challenges (w_db w))" and "uc_is_complete uc" and "uc_user_id uc \<noteq> 0"
    and "uc_challenge_id uc \<noteq> []"
    and "c \<in> set (challenges (w_db w))" and "ch_id c = uc_challenge_id uc" and "ch_active c"
    and "u \<in> set (users (w_db w))" and "us_is_current u" and "us_user_id u = uc_user_id uc"
    and "us_is_deactivated u = JBool False"
    and "b \<in> set (user_bank_accounts (programs (w_db w)))" and "us_wallet u = Some (ba_ethereum_address b)"
    and "x \<in> set (challenge_disbursements (programs (w_db w)))"
    and "disbursement_key x = uc_key uc" and "cd_user_id x \<noteq> uc_user_id uc"
    and "fst (is_valid_oracle sv oracle_address w) = Inr True" and "oracle_address \<noteq> []"
  shows "uc_specifier uc \<in> un_specifier ` set (undisbursed_rows (w_db w)
      \<lparr>ug_user_id = Some (uc_user_id uc), ug_limit = None, ug_offset = None, ug_completed_blocknumber = None\<rparr>) \<and>
    fst (get_attestation sv (uc_challenge_id uc) (uc_user_id uc) oracle_address (uc_specifier uc) w) =
      Inl (PyException ALREADY_DISBURSED)"
proof
  have none: "filter (\<lambda>q. cd_specifier q = uc_specifier uc \<and> cd_challenge_id q = uc_challenge_id uc \<and>
      cd_user_id q = uc_user_id uc) (challenge_disbursements (programs (w_db w))) = []"
  proof (rule ccontr)
    assume "\<not> ?thesis"
    then obtain q where q: "q \<in> set (challenge_disbursements (programs (w_db w)))"
      "disbursement_key q = uc_key uc" "cd_user_id q = uc_user_id uc"
      by (auto simp: filter_empty_conv disbursement_key_def uc_key_def)
    have "q = x" using assms(2,16,17) q(1,2) by (metis distinct_map inj_onD)
    with q(3) assms(18) show False by simp
  qed
  show "uc_specifier uc \<in> un_specifier ` set (undisbursed_rows (w_db w)
      \<lparr>ug_user_id = Some (uc_user_id uc), ug_limit = None, ug_offset = None, ug_completed_blocknumber = None\<rparr>)"
    using assms(3-15) none
    by (force simp: undisbursed_rows_def image_iff intro!: bexI [of _ uc] bexI [of _ c] bexI [of _ u] bexI [of _ b])
  have "disbursed (w_db w) (uc_challenge_id uc) (uc_specifier uc)"
    using assms(16,17) by (auto simp: disbursed_def uc_key_def)
  then show "fst (get_attestation sv (uc_challenge_id uc) (uc_user_id uc) oracle_address (uc_specifier uc) w) =
      Inl (PyException ALREADY_DISBURSED)"
    by (rule attestation_refused [OF assms(1,3-8,2) _ assms(19,20)])
qed

definition ex_misattributed_world :: world where
  "ex_misattributed_world = update_programs (\<lambda>p. p\<lparr>
     user_bank_accounts := [\<lparr>ba_signature = ''s0'', ba_ethereum_address = ''0xbb'', ba_bank_account = ''bank'',
       ba_created_at = 1\<rparr>],
     challenge_disbursements := [\<lparr>cd_challenge_id = ''mobile-install'', cd_user_id = 0, cd_specifier = ''1'',
       cd_signature = ''s1'', cd_slot = 5, cd_amount = ''100000000''\<rparr>]\<rparr>) ex_rewards_world"

theorem misattributed_disbursement_listed_witness:
  "''1'' \<in> un_specifier ` set (undisbursed_rows (w_db ex_misattributed_world)
      \<lparr>ug_user_id = Some 1, ug_limit = None, ug_offset = None, ug_completed_blocknumber = None\<rparr>) \<and>
    fst (get_attestation ex_attestation_services ''mobile-install'' 1 ''0xaa'' ''1'' ex_misattributed_world) =
      Inl (PyException ALREADY_DISBURSED)"
proof -
  let ?w = ex_misattributed_world
  let ?uc = "hd (user_challenges (w_db ?w))" and ?c = "hd (challenges (w_db ?w))" and ?u = "hd (users (w_db ?w))"
    and ?b = "hd (user_bank_accounts (programs (w_db ?w)))" and ?x = "hd (challenge_disbursements (programs (w_db ?w)))"
  have 1: "attestation_keys (w_db ?w)"
    "distinct (map disbursement_key (challenge_disbursements (programs (w_db ?w))))"
    "?uc \<in> set (user_challenges (w_db ?w))" "uc_is_complete ?uc" "uc_user_id ?uc \<noteq> 0" "uc_challenge_id ?uc \<noteq> []"
    "?c \<in> set (challenges (w_db ?w))" "ch_id ?c = uc_challenge_id ?uc" "ch_active ?c"
    "?u \<in> set (users (w_db ?w))" "us_is_current ?u" "us_user_id ?u = uc_user_id ?uc" "us_is_deactivated ?u = JBool False"
    "?b \<in> set (user_bank_accounts (programs (w_db ?w)))" "us_wallet ?u = Some (ba_ethereum_address ?b)"
    "?x \<in> set (challenge_disbursements (programs (w_db ?w)))" "disbursement_key ?x = uc_key ?uc"
    "cd_user_id ?x \<noteq> uc_user_id ?uc" "fst (is_valid_oracle ex_attestation_services ''0xaa'' ?w) = Inr True"
    by code_simp+
  have uc: "uc_user_id ?uc = 1" "uc_specifier ?uc = ''1''" "uc_challenge_id ?uc = ''mobile-install''" by code_simp+
  from misattributed_disbursement_listed [OF 1, unfolded uc] show ?thesis by simp
qed

end
