(* ===== verification/User_Bank.thy ===== *)
theory User_Bank
  imports Program_Index Solana_Parser Users
begin

text \<open>
  tasks/index_user_bank.py: the indexer of the Claimable Token program, whose transactions create
  the users' bank accounts and transfer tokens between them. A transfer between two known users is
  a tip. The derivation of an account's address (solana/solana_helpers.py) rests on the functions
  of the solana package, which are parameters.
\<close>

section \<open>Configuration and addresses\<close>

record solana_keys =
  sk_find_program_address :: "bytes list \<Rightarrow> string \<Rightarrow> exc + (string \<times> nat)"
  sk_create_with_seed :: "string \<Rightarrow> string \<Rightarrow> string \<Rightarrow> exc + string"
  sk_key_bytes :: "string \<Rightarrow> bytes"
  sk_b58encode :: "bytes \<Rightarrow> string"

definition SPL_TOKEN_ID :: string where
  "SPL_TOKEN_ID = ''TokenkegQfeZyiNwAJbNbGKPFXCWuBvf9Ss623VQ5DA''"

definition get_base_address :: "solana_keys \<Rightarrow> string \<Rightarrow> string \<Rightarrow> exc + (string \<times> nat)" where
  "get_base_address k mint program_id = sk_find_program_address k [sk_key_bytes k mint] program_id"

definition get_derived_address ::
  "solana_keys \<Rightarrow> string \<Rightarrow> bytes \<Rightarrow> string \<Rightarrow> exc + (string \<times> string)" where
  "get_derived_address k base hashed_eth_pk spl_token_id =
     (let seed = sk_b58encode k hashed_eth_pk in
      exc_bind (sk_create_with_seed k base seed spl_token_id) (\<lambda>key. Inr (key, seed)))"

definition get_address_pair ::
  "solana_keys \<Rightarrow> string \<Rightarrow> bytes \<Rightarrow> string \<Rightarrow> string \<Rightarrow> exc + ((string \<times> nat) \<times> (string \<times> string))" where
  "get_address_pair k mint hashed_eth_pk program_id spl_token_id =
     exc_bind (get_base_address k mint program_id) (\<lambda>(base_pk, base_seed).
     exc_bind (get_derived_address k base_pk hashed_eth_pk spl_token_id) (\<lambda>(derived_pk, derive_seed).
       Inr ((base_pk, base_seed), (derived_pk, derive_seed))))"

text \<open>
  The mint and the program; whether both keys are configured; the order in which the futures of a
  batch complete.
\<close>

record bank_services =
  bk_program :: string
  bk_mint :: string
  bk_configured :: bool
  bk_min_slot :: int
  bk_nodes :: "solana_node list"
  bk_keys :: solana_keys
  bk_b58decode :: "string \<Rightarrow> exc + bytes"
  bk_commit :: "db \<Rightarrow> exc option"
  bk_completion :: "string list \<Rightarrow> string list"
  bk_rpush_ok :: "internal_event \<Rightarrow> bool"

definition TRANSFER_SENDER_ACCOUNT_INDEX :: nat where
  "TRANSFER_SENDER_ACCOUNT_INDEX = 1"

definition TRANSFER_RECEIVER_ACCOUNT_INDEX :: nat where
  "TRANSFER_RECEIVER_ACCOUNT_INDEX = 2"

definition latest_sol_user_bank_db_tx_key :: string where
  "latest_sol_user_bank_db_tx_key = ''latest_sol_program_tx:user_bank:db''"

definition latest_sol_user_bank_program_tx_key :: string where
  "latest_sol_user_bank_program_tx_key = ''latest_sol_program_tx:user_bank:chain''"

definition latest_sol_user_bank_slot_key :: string where
  "latest_sol_user_bank_slot_key = ''latest_sol_slot:user_bank''"

section \<open>Tips\<close>

text \<open>\<open>refresh_user_balances\<close>: the current users with one of the bank accounts.\<close>

definition bank_users :: "db \<Rightarrow> string list \<Rightarrow> (int \<times> string) list" where
  "bank_users d accts =
     concat (map (\<lambda>u. map (\<lambda>b. (us_user_id u, ba_bank_account b))
         (filter (\<lambda>b. ba_bank_account b \<in> set accts \<and> us_wallet u = Some (ba_ethereum_address b))
            (user_bank_accounts (programs d))))
       (filter us_is_current (users d)))"

definition refresh_user_balances :: "string list \<Rightarrow> (world, (int \<times> string) list) py" where
  "refresh_user_balances accts =
     py_bind (py_gets (\<lambda>w. bank_users (w_db w) accts)) (\<lambda>results.
     py_seq (if results = [] then py_return () else py_modify (enqueue_immediate_balance_refresh (map fst results)))
       (py_return results))"

text \<open>The loop that sorts the two users into sender and receiver.\<close>

fun tip_users ::
  "string \<Rightarrow> string \<Rightarrow> (int \<times> string) list \<Rightarrow> int option \<times> int option \<Rightarrow> int option \<times> int option" where
  "tip_users sender_account receiver_account [] acc = acc"
| "tip_users sender_account receiver_account ((user_id, acct) # rest) (sender, receiver) =
     tip_users sender_account receiver_account rest
       (if acct = sender_account then (Some user_id, receiver)
        else if acct = receiver_account then (sender, Some user_id) else (sender, receiver))"

text \<open>\<open>xs[i]\<close> with the IndexError.\<close>

definition list_index :: "'a list \<Rightarrow> nat \<Rightarrow> exc + 'a" where
  "list_index xs i = (if i < length xs then Inr (xs ! i) else Inl (PyException ''IndexError''))"

definition dict_member :: "string \<Rightarrow> 'a option \<Rightarrow> exc + 'a" where
  "dict_member key v = (case v of None \<Rightarrow> Inl (KeyError key) | Some x \<Rightarrow> Inr x)"

definition balance_of :: "nat \<Rightarrow> token_balance list \<Rightarrow> int option" where
  "balance_of i balances = map_option tb_amount (find (\<lambda>b. tb_accountIndex b = i) balances)"

text \<open>What was sent and what was received; None when a balance is missing.\<close>

definition tip_amounts :: "nat \<Rightarrow> nat \<Rightarrow> token_balance list \<Rightarrow> token_balance list \<Rightarrow> (int \<times> int) option" where
  "tip_amounts sender_index receiver_index pre post =
     (case (balance_of sender_index pre, balance_of receiver_index pre,
            balance_of sender_index post, balance_of receiver_index post) of
        (Some pre_sender, Some pre_receiver, Some post_sender, Some post_receiver) \<Rightarrow>
          Some (pre_sender - post_sender, post_receiver - pre_receiver)
      | _ \<Rightarrow> None)"

definition store_tip :: "tip_row \<Rightarrow> (world, unit) py" where
  "store_tip tip =
     py_seq (py_modify (update_programs (\<lambda>p. p\<lparr>user_tips := user_tips p @ [tip]\<rparr>)))
       (py_modify (dispatch send_tip (Some (tip_slot tip)) (Some (tip_sender_user_id tip)) []))"

definition process_transfer_instruction :: "instruction \<Rightarrow> transaction_info \<Rightarrow> string \<Rightarrow> (world, unit) py" where
  "process_transfer_instruction instr tx tx_sig =
     py_bind (py_lift (list_index (in_accounts instr) TRANSFER_SENDER_ACCOUNT_INDEX)) (\<lambda>sender_index.
     py_bind (py_lift (list_index (in_accounts instr) TRANSFER_RECEIVER_ACCOUNT_INDEX)) (\<lambda>receiver_index.
     py_bind (py_lift (list_index (sx_accountKeys tx) sender_index)) (\<lambda>sender_account.
     py_bind (py_lift (list_index (sx_accountKeys tx) receiver_index)) (\<lambda>receiver_account.
     py_bind (refresh_user_balances [sender_account, receiver_account]) (\<lambda>user_id_accounts.
     if length user_id_accounts \<noteq> 2 then py_return ()
     else case tip_users sender_account receiver_account user_id_accounts (None, None) of
       (Some sender_user_id, Some receiver_user_id) \<Rightarrow>
         py_bind (py_lift (dict_member ''preTokenBalances'' (sx_preTokenBalances tx))) (\<lambda>pre.
         py_bind (py_lift (dict_member ''postTokenBalances'' (sx_postTokenBalances tx))) (\<lambda>post.
         case tip_amounts sender_index receiver_index pre post of
           None \<Rightarrow> py_return ()
         | Some (sent_amount, received_amount) \<Rightarrow>
             if sent_amount \<noteq> received_amount then py_return ()
             else store_tip \<lparr>tip_signature = tx_sig, tip_amount = sent_amount,
               tip_sender_user_id = sender_user_id, tip_receiver_user_id = receiver_user_id,
               tip_slot = sx_slot tx, tip_created_at = sx_blockTime tx\<rparr>))
     | _ \<Rightarrow> py_return ())))))"

section \<open>Transactions\<close>

definition create_token_account_instr :: "instruction_format list" where
  "create_token_account_instr = [\<lparr>if_name = ''eth_address'', if_type = EthereumAddress\<rparr>]"

definition parse_create_token_data ::
  "(string \<Rightarrow> exc + bytes) \<Rightarrow> string \<Rightarrow> exc + (string \<times> param_value) list" where
  "parse_create_token_data b58decode data = parse_instruction_data b58decode data create_token_account_instr"

definition get_valid_bank_instruction :: "string \<Rightarrow> transaction_info \<Rightarrow> instruction option" where
  "get_valid_bank_instruction program tx =
     (case index_of program (sx_accountKeys tx) of
        Inl e \<Rightarrow> None
      | Inr user_bank_program_index \<Rightarrow>
          find (\<lambda>i. in_programIdIndex i = user_bank_program_index) (sx_instructions tx))"

text \<open>The address under the key \<open>eth_address\<close>; the format makes it a string.\<close>

definition eth_address_of :: "(string \<times> param_value) list \<Rightarrow> exc + string" where
  "eth_address_of params =
     (case map_of params ''eth_address'' of Some (PStr s) \<Rightarrow> Inr s | _ \<Rightarrow> Inl (KeyError ''eth_address''))"

text \<open>
  The branch for a new account. The address is derived from the bytes of the instruction and has
  to be one of the transaction's keys; \<open>if bank_acct_index\<close> passes over the first key.
\<close>

definition process_create_instruction ::
  "bank_services \<Rightarrow> instruction \<Rightarrow> transaction_info \<Rightarrow> string \<Rightarrow> (world, unit) py" where
  "process_create_instruction sv instr tx tx_sig =
     py_bind (py_lift (parse_create_token_data (bk_b58decode sv) (in_data instr))) (\<lambda>parsed_token_data.
     py_bind (py_lift (eth_address_of parsed_token_data)) (\<lambda>eth_addr.
     py_bind (py_lift (bk_b58decode sv (in_data instr))) (\<lambda>raw.
     let public_key_bytes = take 20 (drop 1 raw) in
     py_bind (py_lift (get_address_pair (bk_keys sv) (bk_mint sv) public_key_bytes (bk_program sv) SPL_TOKEN_ID))
       (\<lambda>(base, derived_address).
     let bank_acct = fst derived_address in
     case index_of bank_acct (sx_accountKeys tx) of
       Inl e \<Rightarrow> py_return ()
     | Inr bank_acct_index \<Rightarrow>
         if bank_acct_index = 0 then py_return ()
         else py_modify (update_programs (\<lambda>p. p\<lparr>user_bank_accounts := user_bank_accounts p @
           [\<lparr>ba_signature = tx_sig, ba_ethereum_address = eth_addr, ba_bank_account = bank_acct,
             ba_created_at = sx_blockTime tx\<rparr>]\<rparr>))))))"

definition CREATE_LOG :: string where
  "CREATE_LOG = ''Program log: Instruction: CreateTokenAccount''"

definition TRANSFER_LOG :: string where
  "TRANSFER_LOG = ''Program log: Instruction: Transfer''"

definition process_user_bank_tx_details ::
  "bank_services \<Rightarrow> transaction_info \<Rightarrow> string \<Rightarrow> (world, unit) py" where
  "process_user_bank_tx_details sv tx tx_sig =
     (if sx_err tx then py_return ()
      else if CREATE_LOG \<notin> set (sx_logMessages tx) \<and> TRANSFER_LOG \<notin> set (sx_logMessages tx)
      then py_return ()
      else case get_valid_bank_instruction (bk_program sv) tx of
        None \<Rightarrow> py_return ()
      | Some instr \<Rightarrow>
          if CREATE_LOG \<in> set (sx_logMessages tx) then process_create_instruction sv instr tx tx_sig
          else process_transfer_instruction instr tx tx_sig)"

definition parse_user_bank_transaction :: "bank_services \<Rightarrow> string \<Rightarrow> (world, transaction_info \<times> string) py" where
  "parse_user_bank_transaction sv tx_sig =
     py_bind (py_lift (get_sol_tx_info (bk_nodes sv) tx_sig)) (\<lambda>tx_info.
     py_seq (process_user_bank_tx_details sv tx_info tx_sig)
    (py_seq (py_modify (update_programs (\<lambda>p. p\<lparr>user_bank_txs := user_bank_txs p @
        [\<lparr>pt_signature = tx_sig, pt_slot = sx_slot tx_info, pt_created_at = sx_blockTime tx_info\<rparr>]\<rparr>)))
      (py_return (tx_info, tx_sig))))"

section \<open>The task\<close>

definition get_highest_user_bank_tx_slot :: "bank_services \<Rightarrow> db \<Rightarrow> int" where
  "get_highest_user_bank_tx_slot sv d =
     (case first_desc (\<lambda>r. Some (pt_slot r)) (user_bank_txs (programs d)) of
        None \<Rightarrow> bk_min_slot sv | Some r \<Rightarrow> pt_slot r)"

definition get_bank_tx_in_db :: "db \<Rightarrow> string \<Rightarrow> bool" where
  "get_bank_tx_in_db d tx_sig \<longleftrightarrow> sql_count (\<lambda>r. pt_signature r = tx_sig) (user_bank_txs (programs d)) > 0"

text \<open>The primary keys of the three tables, checked when the session flushes.\<close>

definition commit_bank_txs :: "bank_services \<Rightarrow> db \<Rightarrow> exc option" where
  "commit_bank_txs sv d =
     (if distinct (map pt_signature (user_bank_txs (programs d))) \<and>
         distinct (map ba_signature (user_bank_accounts (programs d))) \<and>
         distinct (map (\<lambda>t. (tip_slot t, tip_signature t)) (user_tips (programs d)))
      then bk_commit sv d
      else Some (PyException ''duplicate key value violates unique constraint''))"

text \<open>
  One batch: the futures run in the order they complete, and the first exception ends the batch
  (nothing the other futures still add is committed).
\<close>

definition bank_future ::
  "bank_services \<Rightarrow> string option \<Rightarrow> string \<Rightarrow> transaction_info option \<Rightarrow>
    (world, transaction_info option) py" where
  "bank_future sv last_tx_sig tx_sig last_tx =
     py_bind (parse_user_bank_transaction sv tx_sig) (\<lambda>(tx_info, s).
       py_return (if last_tx_sig = Some s then Some tx_info else last_tx))"

definition process_bank_batch ::
  "bank_services \<Rightarrow> string option \<Rightarrow> string list \<Rightarrow> transaction_info option \<Rightarrow>
    (world, transaction_info option) py" where
  "process_bank_batch sv last_tx_sig tx_sig_batch last_tx =
     session_scope (commit_bank_txs sv)
       (py_for (bank_future sv last_tx_sig) (bk_completion sv tx_sig_batch) last_tx)"

definition bank_signatures_rpc :: "bank_services \<Rightarrow> signatures_rpc" where
  "bank_signatures_rpc sv before =
     get_signatures_for_address (bk_nodes sv) (bk_program sv) before (Some FETCH_TX_SIGNATURES_BATCH_SIZE)"

text \<open>What is written to Redis when all batches are done.\<close>

definition report_bank_progress ::
  "bank_services \<Rightarrow> string option \<Rightarrow> transaction_info option \<Rightarrow> (world, unit) py" where
  "report_bank_progress sv last_tx_sig last_tx =
     (case last_tx of
        Some tx \<Rightarrow>
          py_seq (case last_tx_sig of
              None \<Rightarrow> py_return ()
            | Some s \<Rightarrow> py_modify (cache_latest_sol_db_tx latest_sol_user_bank_db_tx_key s (sx_slot tx) (sx_blockTime tx)))
          (py_modify (redis_set latest_sol_user_bank_slot_key (JInt (sx_slot tx))))
      | None \<Rightarrow>
          (case get_slot (bk_nodes sv) of
             Inl e \<Rightarrow> py_raise (PyException ''UnboundLocalError'')
           | Inr slot \<Rightarrow> py_modify (redis_set latest_sol_user_bank_slot_key (JInt slot))))"

definition process_bank_signatures :: "bank_services \<Rightarrow> string list list \<Rightarrow> (world, unit) py" where
  "process_bank_signatures sv transaction_signatures =
     (let last_tx_sig = (if transaction_signatures \<noteq> [] \<and> last transaction_signatures \<noteq> []
                         then Some (hd (last transaction_signatures)) else None) in
      py_bind (py_for (process_bank_batch sv last_tx_sig) transaction_signatures None)
        (report_bank_progress sv last_tx_sig))"

text \<open>None is a walk that does not return.\<close>

definition process_user_bank_txs :: "bank_services \<Rightarrow> world \<Rightarrow> ((exc + unit) \<times> world) option" where
  "process_user_bank_txs sv w =
     (if \<not> bk_configured sv then Some (Inr (), w)
      else case get_transaction_signatures (bank_signatures_rpc sv)
             (get_highest_user_bank_tx_slot sv (w_db w)) (get_bank_tx_in_db (w_db w)) (Some (bk_min_slot sv)) of
        None \<Rightarrow> None
      | Some r \<Rightarrow> Some (py_bind (py_lift r) (process_bank_signatures sv) w))"

definition index_user_bank :: "bank_services \<Rightarrow> bool \<Rightarrow> world \<Rightarrow> ((exc + unit) \<times> world) option" where
  "index_user_bank sv have_lock w =
     (case fetch_and_cache_latest_program_tx_redis (bk_nodes sv) (bk_program sv)
             latest_sol_user_bank_program_tx_key w of
        (Inl e, w') \<Rightarrow> Some (Inl e, w')
      | (Inr u, w') \<Rightarrow>
          if have_lock
          then map_option (\<lambda>(r, w''). (r, flush (bk_rpush_ok sv) w'')) (process_user_bank_txs sv w')
          else Some (Inr (), w'))"

section \<open>Tips and transfers\<close>

text \<open>\<open>owns d u a\<close>: the wallet of the current user \<open>u\<close> has the bank account \<open>a\<close>.\<close>

definition owns :: "db \<Rightarrow> int \<Rightarrow> string \<Rightarrow> bool" where
  "owns d u a \<longleftrightarrow> (\<exists>r\<in>set (users d). us_is_current r \<and> us_user_id r = u \<and>
     (\<exists>b\<in>set (user_bank_accounts (programs d)). ba_bank_account b = a \<and> us_wallet r = Some (ba_ethereum_address b)))"

lemma bank_users_iff: "(u, a) \<in> set (bank_users d accts) \<longleftrightarrow> a \<in> set accts \<and> owns d u a"
proof -
  have "(u, a) \<in> set (bank_users d accts) \<longleftrightarrow> (\<exists>r. r \<in> set (users d) \<and> us_is_current r \<and>
      (\<exists>b. b \<in> set (user_bank_accounts (programs d)) \<and> ba_bank_account b \<in> set accts \<and>
        us_wallet r = Some (ba_ethereum_address b) \<and> u = us_user_id r \<and> a = ba_bank_account b))"
    by (simp add: bank_users_def image_iff) blast
  then show ?thesis unfolding owns_def by blast
qed

lemma owns_mono:
  "owns d u a \<Longrightarrow> users d' = users d \<Longrightarrow>
    set (user_bank_accounts (programs d)) \<subseteq> set (user_bank_accounts (programs d')) \<Longrightarrow> owns d' u a"
  by (simp add: owns_def) blast

text \<open>The accounts and the amount of a transfer, from the balances before and after.\<close>

definition transferred :: "transaction_info \<Rightarrow> instruction \<Rightarrow> string \<Rightarrow> string \<Rightarrow> int \<Rightarrow> bool" where
  "transferred tx instr sender_account receiver_account amount \<longleftrightarrow> (\<exists>si ri pre post.
     list_index (in_accounts instr) TRANSFER_SENDER_ACCOUNT_INDEX = Inr si \<and>
     list_index (in_accounts instr) TRANSFER_RECEIVER_ACCOUNT_INDEX = Inr ri \<and>
     list_index (sx_accountKeys tx) si = Inr sender_account \<and>
     list_index (sx_accountKeys tx) ri = Inr receiver_account \<and>
     sx_preTokenBalances tx = Some pre \<and> sx_postTokenBalances tx = Some post \<and>
     tip_amounts si ri pre post = Some (amount, amount))"

lemma tip_amounts_Some:
  "tip_amounts si ri pre post = Some (m, n) \<longleftrightarrow> (\<exists>a b c d. balance_of si pre = Some a \<and>
    balance_of ri pre = Some b \<and> balance_of si post = Some c \<and> balance_of ri post = Some d \<and>
    m = a - c \<and> n = d - b)"
  by (auto simp: tip_amounts_def split: option.splits)

lemma tip_users_sound:
  "tip_users s r xs (so, ro) = (so', ro') \<Longrightarrow>
    (\<forall>a. so' = Some a \<longrightarrow> so = Some a \<or> (a, s) \<in> set xs) \<and>
    (\<forall>b. ro' = Some b \<longrightarrow> ro = Some b \<or> (b, r) \<in> set xs \<and> r \<noteq> s)"
proof (induction xs arbitrary: so ro)
  case (Cons x xs)
  then show ?case by (cases x) (auto split: if_splits)
qed simp

text \<open>A tip that the balances of its transaction and the accounts of its users explain.\<close>

definition tip_backed :: "bank_services \<Rightarrow> db \<Rightarrow> tip_row \<Rightarrow> bool" where
  "tip_backed sv d tip \<longleftrightarrow> (\<exists>tx instr sender_account receiver_account.
     get_sol_tx_info (bk_nodes sv) (tip_signature tip) = Inr tx \<and> \<not> sx_err tx \<and>
     get_valid_bank_instruction (bk_program sv) tx = Some instr \<and>
     TRANSFER_LOG \<in> set (sx_logMessages tx) \<and> tip_slot tip = sx_slot tx \<and>
     transferred tx instr sender_account receiver_account (tip_amount tip) \<and>
     sender_account \<noteq> receiver_account \<and> owns d (tip_sender_user_id tip) sender_account \<and>
     owns d (tip_receiver_user_id tip) receiver_account)"

lemma refresh_user_balances_run:
  "refresh_user_balances accts w = (Inr (bank_users (w_db w) accts),
     (if bank_users (w_db w) accts = [] then w
      else enqueue_immediate_balance_refresh (map fst (bank_users (w_db w) accts)) w))"
  by (simp add: refresh_user_balances_def py_defs)

lemma store_tip_run:
  "store_tip tip w = (Inr (), dispatch send_tip (Some (tip_slot tip)) (Some (tip_sender_user_id tip)) []
     (update_programs (\<lambda>p. p\<lparr>user_tips := user_tips p @ [tip]\<rparr>) w))"
  by (simp add: store_tip_def py_defs)

lemma refresh_db [simp]: "w_db (enqueue_immediate_balance_refresh us w) = w_db w"
  by (simp add: enqueue_immediate_balance_refresh_def)

lemma programs_frame [simp]:
  "users (w_db (update_programs f w)) = users (w_db w)" by simp

text \<open>The condition under which a transfer is stored as a tip.\<close>

definition tip_found :: "db \<Rightarrow> transaction_info \<Rightarrow> instruction \<Rightarrow> int \<Rightarrow> int \<Rightarrow> int \<Rightarrow> bool" where
  "tip_found d tx instr a b n \<longleftrightarrow> (\<exists>si ri sa ra pre post.
     list_index (in_accounts instr) TRANSFER_SENDER_ACCOUNT_INDEX = Inr si \<and>
     list_index (in_accounts instr) TRANSFER_RECEIVER_ACCOUNT_INDEX = Inr ri \<and>
     list_index (sx_accountKeys tx) si = Inr sa \<and> list_index (sx_accountKeys tx) ri = Inr ra \<and>
     length (bank_users d [sa, ra]) = 2 \<and>
     tip_users sa ra (bank_users d [sa, ra]) (None, None) = (Some a, Some b) \<and>
     sx_preTokenBalances tx = Some pre \<and> sx_postTokenBalances tx = Some post \<and>
     tip_amounts si ri pre post = Some (n, n))"

definition transfer_tip :: "transaction_info \<Rightarrow> string \<Rightarrow> int \<Rightarrow> int \<Rightarrow> int \<Rightarrow> tip_row" where
  "transfer_tip tx s a b n = \<lparr>tip_signature = s, tip_amount = n, tip_sender_user_id = a,
     tip_receiver_user_id = b, tip_slot = sx_slot tx, tip_created_at = sx_blockTime tx\<rparr>"

lemma no_tip_stored:
  assumes "\<And>a b n. \<not> tip_found (w_db w) tx instr a b n"
    and "process_transfer_instruction instr tx s w = (r, w')"
  shows "w_db w' = w_db w"
  using assms unfolding tip_found_def
  by (auto simp: process_transfer_instruction_def py_defs refresh_user_balances_run store_tip_run Let_def dict_member_def
      split: sum.splits prod.splits if_splits option.splits)

lemma tip_stored:
  assumes "tip_found (w_db w) tx instr a b n"
  shows "\<exists>w'. process_transfer_instruction instr tx s w = (Inr (), w') \<and> users (w_db w') = users (w_db w) \<and>
    programs (w_db w') = (programs (w_db w))\<lparr>user_tips := user_tips (programs (w_db w)) @ [transfer_tip tx s a b n]\<rparr> \<and>
    w_queue w' = w_queue w @ [\<lparr>ie_event = send_tip, ie_block_number = sx_slot tx, ie_user_id = a, ie_extra = []\<rparr>]"
proof -
  obtain si ri sa ra pre post where
    T: "list_index (in_accounts instr) TRANSFER_SENDER_ACCOUNT_INDEX = Inr si"
     "list_index (in_accounts instr) TRANSFER_RECEIVER_ACCOUNT_INDEX = Inr ri"
     "list_index (sx_accountKeys tx) si = Inr sa" "list_index (sx_accountKeys tx) ri = Inr ra"
     "length (bank_users (w_db w) [sa, ra]) = 2"
     "tip_users sa ra (bank_users (w_db w) [sa, ra]) (None, None) = (Some a, Some b)"
     "sx_preTokenBalances tx = Some pre" "sx_postTokenBalances tx = Some post"
     "tip_amounts si ri pre post = Some (n, n)"
    using assms unfolding tip_found_def by blast
  have "bank_users (w_db w) [sa, ra] \<noteq> []" using T(5) by auto
  with T show ?thesis
    by (simp add: process_transfer_instruction_def py_defs refresh_user_balances_run store_tip_run
        dict_member_def transfer_tip_def) (simp add: enqueue_immediate_balance_refresh_def)
qed

lemma tip_found_sound:
  assumes "tip_found d tx instr a b n"
  shows "\<exists>sa ra. transferred tx instr sa ra n \<and> sa \<noteq> ra \<and> owns d a sa \<and> owns d b ra"
proof -
  obtain si ri sa ra pre post where
    T: "list_index (in_accounts instr) TRANSFER_SENDER_ACCOUNT_INDEX = Inr si"
     "list_index (in_accounts instr) TRANSFER_RECEIVER_ACCOUNT_INDEX = Inr ri"
     "list_index (sx_accountKeys tx) si = Inr sa" "list_index (sx_accountKeys tx) ri = Inr ra"
     "tip_users sa ra (bank_users d [sa, ra]) (None, None) = (Some a, Some b)"
     "sx_preTokenBalances tx = Some pre" "sx_postTokenBalances tx = Some post"
     "tip_amounts si ri pre post = Some (n, n)"
    using assms unfolding tip_found_def by blast
  then have "transferred tx instr sa ra n" unfolding transferred_def by blast
  moreover have "sa \<noteq> ra" "owns d a sa" "owns d b ra"
    using tip_users_sound [OF T(5)] by (auto simp: bank_users_iff)
  ultimately show ?thesis by blast
qed

lemma two_users:
  assumes "distinct (map snd us)" and "(a, s) \<in> set us" and "(b, r) \<in> set us" and "s \<noteq> r"
    and "snd ` set us \<subseteq> {s, r}"
  shows "length us = 2 \<and> tip_users s r us (None, None) = (Some a, Some b)"
proof -
  have "length us = card (snd ` set us)" using assms(1) by (metis distinct_card length_map list.set_map)
  also have "snd ` set us = {s, r}" using assms(2,3,5) by force
  finally have len: "length us = 2" using assms(4) by simp
  then obtain x y where us: "us = [x, y]" by (auto simp: numeral_2_eq_2 length_Suc_conv)
  show ?thesis using assms len unfolding us by (cases x; cases y) auto
qed

lemma tip_found_complete:
  assumes "transferred tx instr sa ra n" and "sa \<noteq> ra" and "owns d a sa" and "owns d b ra"
    and "distinct (map snd (bank_users d [sa, ra]))"
  shows "tip_found d tx instr a b n"
proof -
  have "snd ` set (bank_users d [sa, ra]) \<subseteq> {sa, ra}" by (auto simp: bank_users_iff)
  moreover have "(a, sa) \<in> set (bank_users d [sa, ra])" "(b, ra) \<in> set (bank_users d [sa, ra])"
    using assms(3,4) by (simp_all add: bank_users_iff)
  ultimately have "length (bank_users d [sa, ra]) = 2 \<and>
      tip_users sa ra (bank_users d [sa, ra]) (None, None) = (Some a, Some b)"
    using two_users assms(2,5) by blast
  with assms(1) show ?thesis unfolding tip_found_def transferred_def by blast
qed

text \<open>A transfer is a failed, irrelevant or valid transaction.\<close>

definition is_transfer :: "bank_services \<Rightarrow> transaction_info \<Rightarrow> instruction \<Rightarrow> bool" where
  "is_transfer sv tx instr \<longleftrightarrow> \<not> sx_err tx \<and> CREATE_LOG \<notin> set (sx_logMessages tx) \<and>
     TRANSFER_LOG \<in> set (sx_logMessages tx) \<and> get_valid_bank_instruction (bk_program sv) tx = Some instr"

lemma details_of_transfer:
  "is_transfer sv tx instr \<Longrightarrow>
    process_user_bank_tx_details sv tx s = process_transfer_instruction instr tx s"
  by (simp add: process_user_bank_tx_details_def is_transfer_def)

lemma create_frame:
  assumes "process_create_instruction sv instr tx s w = (r, w')"
  shows "users (w_db w') = users (w_db w) \<and> user_tips (w_programs w') = user_tips (w_programs w) \<and>
    user_bank_txs (w_programs w') = user_bank_txs (w_programs w) \<and>
    set (user_bank_accounts (w_programs w)) \<subseteq> set (user_bank_accounts (w_programs w'))"
  using assms
  by (auto simp: process_create_instruction_def py_defs Let_def split: sum.splits prod.splits if_splits)

text \<open>The transactions that are no transfers add no tip; the tables only grow.\<close>

lemma details_cases:
  assumes "process_user_bank_tx_details sv tx s w = (r, w')"
  shows "users (w_db w') = users (w_db w) \<and> user_bank_txs (w_programs w') = user_bank_txs (w_programs w) \<and>
    set (user_bank_accounts (w_programs w)) \<subseteq> set (user_bank_accounts (w_programs w')) \<and>
    (user_tips (w_programs w') = user_tips (w_programs w) \<or>
     (\<exists>instr a b n. is_transfer sv tx instr \<and> tip_found (w_db w) tx instr a b n \<and>
        user_tips (w_programs w') = user_tips (w_programs w) @ [transfer_tip tx s a b n]))"
proof (cases "\<exists>instr. is_transfer sv tx instr")
  case True
  then obtain instr where i: "is_transfer sv tx instr" by blast
  note run = assms [unfolded details_of_transfer [OF i]]
  show ?thesis
  proof (cases "\<exists>a b n. tip_found (w_db w) tx instr a b n")
    case True
    then obtain a b n where f: "tip_found (w_db w) tx instr a b n" by blast
    from tip_stored [OF f, of s] run i f show ?thesis by auto
  next
    case False
    with no_tip_stored [OF _ run] show ?thesis by simp
  qed
next
  case False
  show ?thesis
  proof (cases "\<exists>instr. process_create_instruction sv instr tx s w = (r, w')")
    case True
    with create_frame show ?thesis by blast
  next
    case no_create: False
    then have "w' = w"
      using assms False
      by (auto simp: process_user_bank_tx_details_def is_transfer_def py_return_def split: if_splits option.splits)
    then show ?thesis by simp
  qed
qed

definition transfer_accounts :: "transaction_info \<Rightarrow> instruction \<Rightarrow> string \<Rightarrow> string \<Rightarrow> bool" where
  "transfer_accounts tx instr sender_account receiver_account \<longleftrightarrow> (\<exists>si ri.
     list_index (in_accounts instr) TRANSFER_SENDER_ACCOUNT_INDEX = Inr si \<and>
     list_index (in_accounts instr) TRANSFER_RECEIVER_ACCOUNT_INDEX = Inr ri \<and>
     list_index (sx_accountKeys tx) si = Inr sender_account \<and>
     list_index (sx_accountKeys tx) ri = Inr receiver_account)"

lemma transferred_accounts:
  "transferred tx instr sa' ra' n \<Longrightarrow> transfer_accounts tx instr sa ra \<Longrightarrow> sa' = sa \<and> ra' = ra"
  by (auto simp: transferred_def transfer_accounts_def)

lemma transferred_amount:
  "transferred tx instr sa ra m \<Longrightarrow> transferred tx instr sa ra n \<Longrightarrow> m = n"
  by (auto simp: transferred_def)

lemma tip_found_iff:
  assumes "transfer_accounts tx instr sa ra" and "distinct (map snd (bank_users d [sa, ra]))"
  shows "tip_found d tx instr a b n \<longleftrightarrow>
    sa \<noteq> ra \<and> owns d a sa \<and> owns d b ra \<and> transferred tx instr sa ra n"
  using tip_found_sound [of d tx instr a b n] tip_found_complete [of tx instr sa ra n d a b]
    transferred_accounts assms by blast

lemma tip_found_unique:
  "tip_found d tx instr a b n \<Longrightarrow> tip_found d tx instr a' b' n' \<Longrightarrow> a = a' \<and> b = b' \<and> n = n'"
  by (auto simp: tip_found_def)

lemma transfer_tip_inject [simp]:
  "transfer_tip tx s a b n = transfer_tip tx s a' b' n' \<longleftrightarrow> a = a' \<and> b = b' \<and> n = n'"
  by (auto simp: transfer_tip_def)

lemma transfer_returns:
  assumes "transfer_accounts tx instr sa ra" and "sx_preTokenBalances tx \<noteq> None" "sx_postTokenBalances tx \<noteq> None"
  shows "\<exists>w'. process_transfer_instruction instr tx s w = (Inr (), w')"
  using assms unfolding transfer_accounts_def
  by (auto simp: process_transfer_instruction_def py_defs refresh_user_balances_run store_tip_run Let_def dict_member_def
      split: sum.splits prod.splits if_splits option.splits)

text \<open>
  C12. A transaction of the Claimable Token program is stored as a tip exactly when it should be:
  with at most one current user for each of the two accounts, a tip of an amount from one user to
  another is added if and only if the two accounts differ and belong to these users and the
  balances say that the sender lost and the receiver gained this amount; nothing else is added,
  and the transaction never raises.
\<close>

theorem tip_recorded_iff:
  assumes "is_transfer sv tx instr" and "transfer_accounts tx instr sa ra"
    and "sx_preTokenBalances tx \<noteq> None" and "sx_postTokenBalances tx \<noteq> None"
    and "distinct (map snd (bank_users (w_db w) [sa, ra]))"
  shows "\<exists>w' new. process_user_bank_tx_details sv tx s w = (Inr (), w') \<and>
    user_tips (w_programs w') = user_tips (w_programs w) @ new \<and> length new \<le> 1 \<and>
    (\<forall>t\<in>set new. \<exists>a b n. t = transfer_tip tx s a b n) \<and>
    (\<forall>a b n. transfer_tip tx s a b n \<in> set new \<longleftrightarrow>
       sa \<noteq> ra \<and> owns (w_db w) a sa \<and> owns (w_db w) b ra \<and> transferred tx instr sa ra n)"
proof (cases "\<exists>a b n. tip_found (w_db w) tx instr a b n")
  case True
  then obtain a b n where f: "tip_found (w_db w) tx instr a b n" by blast
  have iff: "transfer_tip tx s a' b' n' \<in> set [transfer_tip tx s a b n] \<longleftrightarrow> tip_found (w_db w) tx instr a' b' n'" for a' b' n'
    using f tip_found_unique by auto
  from tip_stored [OF f, of s] obtain w' where
    "process_transfer_instruction instr tx s w = (Inr (), w')"
    "user_tips (w_programs w') = user_tips (w_programs w) @ [transfer_tip tx s a b n]" by auto
  then show ?thesis
    unfolding details_of_transfer [OF assms(1)] tip_found_iff [OF assms(2,5), symmetric]
    by (intro exI [of _ w'] exI [of _ "[transfer_tip tx s a b n]"]) (use iff in auto)
next
  case False
  obtain w' where run: "process_transfer_instruction instr tx s w = (Inr (), w')"
    using transfer_returns [OF assms(2-4)] by blast
  from no_tip_stored [OF _ run] False have "w_db w' = w_db w" by blast
  with run False show ?thesis
    unfolding details_of_transfer [OF assms(1)] tip_found_iff [OF assms(2,5), symmetric]
    by (intro exI [of _ w'] exI [of _ "[]"]) auto
qed

text \<open>An example: users 1 and 2 with the accounts A and B; A sends 30 to B.\<close>

definition ex_transfer :: instruction where
  "ex_transfer = \<lparr>in_accounts = [9, 1, 2], in_data = ''t'', in_programIdIndex = 0\<rparr>"

definition ex_balance :: "nat \<Rightarrow> int \<Rightarrow> token_balance" where
  "ex_balance i n = \<lparr>tb_accountIndex = i, tb_owner = ''o'', tb_amount = n\<rparr>"

definition ex_transfer_tx :: transaction_info where
  "ex_transfer_tx = \<lparr>sx_slot = 7, sx_blockTime = 100, sx_err = False, sx_logMessages = [TRANSFER_LOG],
     sx_accountKeys = [''P'', ''A'', ''B''], sx_instructions = [ex_transfer],
     sx_preTokenBalances = Some [ex_balance 2 5, ex_balance 1 50],
     sx_postTokenBalances = Some [ex_balance 2 35, ex_balance 1 20]\<rparr>"

definition ex_bank_user :: "int \<Rightarrow> string \<Rightarrow> user_row" where
  "ex_bank_user i wallet = (ex_user i)\<lparr>us_user_id := i, us_is_current := True, us_wallet := Some wallet\<rparr>"

definition ex_account :: "string \<Rightarrow> string \<Rightarrow> bank_account_row" where
  "ex_account wallet a = \<lparr>ba_signature = a, ba_ethereum_address = wallet, ba_bank_account = a, ba_created_at = 1\<rparr>"

definition ex_bank_world :: "bank_account_row list \<Rightarrow> world" where
  "ex_bank_world accounts = empty_world\<lparr>w_db := empty_db\<lparr>users := [ex_bank_user 1 ''0xa'', ex_bank_user 2 ''0xb''],
     programs := empty_programs\<lparr>user_bank_accounts := accounts\<rparr>\<rparr>\<rparr>"

definition ex_bank_node :: "(string \<times> transaction_info) list \<Rightarrow> signature_info list \<Rightarrow> solana_node" where
  "ex_bank_node txs history = \<lparr>
     sn_signatures = (\<lambda>account before limit i. Inr (take (case limit of None \<Rightarrow> 1000 | Some n \<Rightarrow> n) (older_than before history))),
     sn_interrupted = (\<lambda>account before. False), sn_transaction = (\<lambda>s i. Inr (map_of txs s)), sn_slot = (\<lambda>i. Inr 9)\<rparr>"

definition ex_keys :: solana_keys where
  "ex_keys = \<lparr>sk_find_program_address = (\<lambda>seeds p. Inr (p, 255)), sk_create_with_seed = (\<lambda>b s p. Inr ''B''),
     sk_key_bytes = (\<lambda>s. []), sk_b58encode = (\<lambda>b. ''s'')\<rparr>"

definition ex_bank_services ::
  "(string \<times> transaction_info) list \<Rightarrow> signature_info list \<Rightarrow> (string list \<Rightarrow> string list) \<Rightarrow> bank_services" where
  "ex_bank_services txs history order = \<lparr>bk_program = ''P'', bk_mint = ''M'', bk_configured = True, bk_min_slot = 0,
     bk_nodes = [ex_bank_node txs history], bk_keys = ex_keys, bk_b58decode = (\<lambda>s. Inr (1 # replicate 20 11)),
     bk_commit = (\<lambda>d. None), bk_completion = order, bk_rpush_ok = (\<lambda>e. True)\<rparr>"

lemma ex_is_transfer: "is_transfer (ex_bank_services txs history f) ex_transfer_tx ex_transfer"
  by (simp add: is_transfer_def ex_transfer_tx_def TRANSFER_LOG_def CREATE_LOG_def get_valid_bank_instruction_def
      index_of_def ex_bank_services_def ex_transfer_def)

lemma ex_transfer_accounts: "transfer_accounts ex_transfer_tx ex_transfer ''A'' ''B''"
  by (simp add: transfer_accounts_def ex_transfer_tx_def ex_transfer_def list_index_def
      TRANSFER_SENDER_ACCOUNT_INDEX_def TRANSFER_RECEIVER_ACCOUNT_INDEX_def)

lemma ex_transferred: "transferred ex_transfer_tx ex_transfer ''A'' ''B'' 30"
  by (simp add: transferred_def ex_transfer_tx_def ex_transfer_def list_index_def
      TRANSFER_SENDER_ACCOUNT_INDEX_def TRANSFER_RECEIVER_ACCOUNT_INDEX_def tip_amounts_def balance_of_def ex_balance_def)

lemma ex_owns:
  "owns (w_db (ex_bank_world [ex_account ''0xa'' ''A'', ex_account ''0xb'' ''B''])) 1 ''A''"
  "owns (w_db (ex_bank_world [ex_account ''0xa'' ''A'', ex_account ''0xb'' ''B''])) 2 ''B''"
  by (simp_all add: owns_def ex_bank_world_def ex_account_def ex_bank_user_def)

theorem tip_recorded_iff_witness:
  "\<exists>w' new. process_user_bank_tx_details (ex_bank_services [] [] id) ex_transfer_tx ''x''
      (ex_bank_world [ex_account ''0xa'' ''A'', ex_account ''0xb'' ''B'']) = (Inr (), w') \<and>
    transfer_tip ex_transfer_tx ''x'' 1 2 30 \<in> set (user_tips (w_programs w'))"
proof -
  let ?w = "ex_bank_world [ex_account ''0xa'' ''A'', ex_account ''0xb'' ''B'']"
  have dist: "distinct (map snd (bank_users (w_db ?w) [''A'', ''B'']))"
    by (simp add: bank_users_def ex_bank_world_def ex_account_def ex_bank_user_def)
  have "sx_preTokenBalances ex_transfer_tx \<noteq> None" "sx_postTokenBalances ex_transfer_tx \<noteq> None"
    by (simp_all add: ex_transfer_tx_def)
  from tip_recorded_iff [OF ex_is_transfer [of "[]" "[]" id] ex_transfer_accounts this dist, of "''x''"]
  obtain w' new where run: "process_user_bank_tx_details (ex_bank_services [] [] id) ex_transfer_tx ''x'' ?w = (Inr (), w')"
    and tips: "user_tips (w_programs w') = user_tips (w_programs ?w) @ new"
    and new: "transfer_tip ex_transfer_tx ''x'' 1 2 30 \<in> set new \<longleftrightarrow> ''A'' \<noteq> ''B'' \<and> owns (w_db ?w) 1 ''A'' \<and>
      owns (w_db ?w) 2 ''B'' \<and> transferred ex_transfer_tx ex_transfer ''A'' ''B'' 30"
    by blast
  have "transfer_tip ex_transfer_tx ''x'' 1 2 30 \<in> set new"
    unfolding new using ex_owns ex_transferred by simp
  with run tips show ?thesis by auto
qed

section \<open>Batches\<close>

text \<open>What a future that returned has done.\<close>

lemma future_InrE:
  assumes "bank_future sv s sig acc w = (Inr acc', w')"
  obtains tx w1 where "get_sol_tx_info (bk_nodes sv) sig = Inr tx"
    and "process_user_bank_tx_details sv tx sig w = (Inr (), w1)"
    and "w' = update_programs (\<lambda>p. p\<lparr>user_bank_txs := user_bank_txs p @
      [\<lparr>pt_signature = sig, pt_slot = sx_slot tx, pt_created_at = sx_blockTime tx\<rparr>]\<rparr>) w1"
  using assms unfolding bank_future_def parse_user_bank_transaction_def py_seq_def
  by (elim py_bind_InrE) (auto simp: py_lift_def py_modify_def py_return_def split: prod.splits)

lemma future_step:
  assumes "bank_future sv s sig acc w = (Inr acc', w')"
  shows "users (w_db w') = users (w_db w) \<and>
    set (user_bank_accounts (w_programs w)) \<subseteq> set (user_bank_accounts (w_programs w')) \<and>
    (\<exists>r. user_bank_txs (w_programs w') = user_bank_txs (w_programs w) @ [r] \<and> pt_signature r = sig \<and>
       node_slot (bk_nodes sv) sig (pt_slot r)) \<and>
    (\<exists>new. user_tips (w_programs w') = user_tips (w_programs w) @ new \<and>
       (\<forall>t\<in>set new. tip_signature t = sig \<and> tip_backed sv (w_db w) t))"
proof -
  obtain tx w1 where tx: "get_sol_tx_info (bk_nodes sv) sig = Inr tx"
    and run: "process_user_bank_tx_details sv tx sig w = (Inr (), w1)"
    and w': "w' = update_programs (\<lambda>p. p\<lparr>user_bank_txs := user_bank_txs p @
      [\<lparr>pt_signature = sig, pt_slot = sx_slot tx, pt_created_at = sx_blockTime tx\<rparr>]\<rparr>) w1"
    using future_InrE [OF assms] .
  note c = details_cases [OF run]
  have backed: "tip_signature t = sig \<and> tip_backed sv (w_db w) t"
    if "is_transfer sv tx instr" "tip_found (w_db w) tx instr a b n" "t = transfer_tip tx sig a b n" for instr a b n t
    using that tx tip_found_sound [OF that(2)]
    by (auto simp: tip_backed_def is_transfer_def transfer_tip_def)
  have tips: "\<exists>new. user_tips (w_programs w') = user_tips (w_programs w) @ new \<and>
       (\<forall>t\<in>set new. tip_signature t = sig \<and> tip_backed sv (w_db w) t)"
  proof (cases "user_tips (w_programs w1) = user_tips (w_programs w)")
    case True
    then show ?thesis by (simp add: w')
  next
    case False
    with c obtain instr a b n where "is_transfer sv tx instr" "tip_found (w_db w) tx instr a b n"
      "user_tips (w_programs w1) = user_tips (w_programs w) @ [transfer_tip tx sig a b n]" by blast
    with backed show ?thesis by (simp add: w')
  qed
  have "node_slot (bk_nodes sv) sig (sx_slot tx)" using tx by (auto simp: node_slot_def)
  with c tips show ?thesis by (simp add: w')
qed

lemma tip_backed_mono:
  "tip_backed sv d t \<Longrightarrow> users d' = users d \<Longrightarrow>
    set (user_bank_accounts (programs d)) \<subseteq> set (user_bank_accounts (programs d')) \<Longrightarrow> tip_backed sv d' t"
  unfolding tip_backed_def using owns_mono by blast

lemma futures_step:
  assumes "py_for (bank_future sv s) sigs acc w = (Inr acc', w')"
  shows "users (w_db w') = users (w_db w) \<and>
    set (user_bank_accounts (w_programs w)) \<subseteq> set (user_bank_accounts (w_programs w')) \<and>
    (\<exists>added. user_bank_txs (w_programs w') = user_bank_txs (w_programs w) @ added \<and>
       map pt_signature added = sigs \<and> (\<forall>r\<in>set added. node_slot (bk_nodes sv) (pt_signature r) (pt_slot r))) \<and>
    (\<exists>new. user_tips (w_programs w') = user_tips (w_programs w) @ new \<and>
       (\<forall>t\<in>set new. tip_signature t \<in> set sigs \<and> tip_backed sv (w_db w') t))"
  using assms
proof (induction sigs arbitrary: acc w)
  case Nil
  then show ?case by (simp add: py_return_def)
next
  case (Cons sig sigs)
  then obtain acc1 w1 where step: "bank_future sv s sig acc w = (Inr acc1, w1)"
    and rest: "py_for (bank_future sv s) sigs acc1 w1 = (Inr acc', w')"
    by (auto elim: py_bind_InrE)
  note one = future_step [OF step] and more = Cons.IH [OF rest]
  obtain r where r: "user_bank_txs (w_programs w1) = user_bank_txs (w_programs w) @ [r]" "pt_signature r = sig"
    "node_slot (bk_nodes sv) sig (pt_slot r)" using one by blast
  obtain added where a: "user_bank_txs (w_programs w') = user_bank_txs (w_programs w1) @ added"
    "map pt_signature added = sigs" "\<forall>r\<in>set added. node_slot (bk_nodes sv) (pt_signature r) (pt_slot r)"
    using more by blast
  obtain n1 where n1: "user_tips (w_programs w1) = user_tips (w_programs w) @ n1"
    "\<forall>t\<in>set n1. tip_signature t = sig \<and> tip_backed sv (w_db w) t" using one by blast
  obtain n2 where n2: "user_tips (w_programs w') = user_tips (w_programs w1) @ n2"
    "\<forall>t\<in>set n2. tip_signature t \<in> set sigs \<and> tip_backed sv (w_db w') t" using more by blast
  have us: "users (w_db w') = users (w_db w)"
    and acc: "set (user_bank_accounts (w_programs w)) \<subseteq> set (user_bank_accounts (w_programs w'))"
    using one more by auto
  have "tip_backed sv (w_db w') t" if "t \<in> set n1" for t
    using n1(2) that tip_backed_mono us acc by blast
  then have "\<forall>t\<in>set (n1 @ n2). tip_signature t \<in> set (sig # sigs) \<and> tip_backed sv (w_db w') t"
    using n1(2) n2(2) by auto
  moreover have "user_tips (w_programs w') = user_tips (w_programs w) @ n1 @ n2" by (simp add: n1(1) n2(1))
  moreover have "user_bank_txs (w_programs w') = user_bank_txs (w_programs w) @ r # added" by (simp add: r(1) a(1))
  ultimately show ?case using us acc a r
    by (intro conjI exI [of _ "n1 @ n2"] exI [of _ "r # added"]) auto
qed

abbreviation bank_rows :: "db \<Rightarrow> program_tx_row list" where
  "bank_rows d \<equiv> user_bank_txs (programs d)"

lemma batch_InrD:
  assumes "process_bank_batch sv s b acc w = (Inr acc', w')"
  shows "py_for (bank_future sv s) (bk_completion sv b) acc w = (Inr acc', w')"
    and "distinct (map pt_signature (bank_rows (w_db w')))"
  using session_scope_InrD [OF assms [unfolded process_bank_batch_def]]
  by (auto simp: commit_bank_txs_def split: if_splits)

interpretation bank: indexed_program bank_rows "process_bank_batch sv s" "bk_completion sv"
  "node_slot (bk_nodes sv)" for sv s
proof
  fix b acc w e w'
  assume "process_bank_batch sv s b acc w = (Inl e, w')"
  then have "w_db w' = w_db w" unfolding process_bank_batch_def by (rule session_scope_InlD)
  then show "bank_rows (w_db w') = bank_rows (w_db w)" by simp
next
  fix b acc w acc' w'
  assume "process_bank_batch sv s b acc w = (Inr acc', w')"
  from futures_step [OF batch_InrD(1) [OF this]] batch_InrD(2) [OF this]
  show "\<exists>added. bank_rows (w_db w') = bank_rows (w_db w) @ added \<and>
      map pt_signature added = bk_completion sv b \<and> distinct (map pt_signature (bank_rows (w_db w'))) \<and>
      (\<forall>r\<in>set added. node_slot (bk_nodes sv) (pt_signature r) (pt_slot r))" by blast
qed

text \<open>
  C11. Every tip is backed by its transaction: when a batch of the user bank indexer is stored, each
  tip it added is that of a successful transfer of the batch between two different accounts, whose
  owners are the tip's sender and receiver, with its amount being what the sender's balance lost
  and the receiver's gained; a batch that fails adds no tip.
\<close>

theorem tips_backed:
  assumes "process_bank_batch sv last_tx_sig batch last_tx w = (r, w')"
    and "set (bk_completion sv batch) = set batch"
  shows "\<exists>new. user_tips (w_programs w') = user_tips (w_programs w) @ new \<and>
    (\<forall>tip\<in>set new. tip_signature tip \<in> set batch \<and> tip_backed sv (w_db w') tip) \<and>
    (isl r \<longrightarrow> new = [])"
proof (cases r)
  case (Inl e)
  with assms(1) have "w_db w' = w_db w"
    unfolding process_bank_batch_def by (auto dest: session_scope_InlD)
  then show ?thesis by simp
next
  case (Inr x)
  with assms(1) have "process_bank_batch sv last_tx_sig batch last_tx w = (Inr x, w')" by simp
  from futures_step [OF batch_InrD(1) [OF this]] show ?thesis using assms(2) Inr by auto
qed

theorem tips_backed_witness:
  "\<exists>r w' new. process_bank_batch (ex_bank_services [(''x'', ex_transfer_tx)] [] id) None [''x''] None
      (ex_bank_world [ex_account ''0xa'' ''A'', ex_account ''0xb'' ''B'']) = (r, w') \<and>
    user_tips (w_programs w') = new \<and> (\<forall>tip\<in>set new. tip_signature tip = ''x'')"
proof -
  let ?sv = "ex_bank_services [(''x'', ex_transfer_tx)] [] id"
    and ?w = "ex_bank_world [ex_account ''0xa'' ''A'', ex_account ''0xb'' ''B'']"
  obtain r w' where run: "process_bank_batch ?sv None [''x''] None ?w = (r, w')" by (metis surj_pair)
  have order: "set (bk_completion ?sv [''x'']) = set [''x'']" by (simp add: ex_bank_services_def)
  have none: "user_tips (w_programs ?w) = []" by (simp add: ex_bank_world_def empty_programs_def)
  from tips_backed [OF run order] run none show ?thesis by fastforce
qed

text \<open>Nodes that serve a history, as for the rewards.\<close>

definition honest_bank :: "bank_services \<Rightarrow> signature_info list \<Rightarrow> bool" where
  "honest_bank sv history \<longleftrightarrow> serves history (bank_signatures_rpc sv) \<and>
     (\<forall>t\<in>set history. \<forall>n. node_slot (bk_nodes sv) (si_signature t) n \<longrightarrow> n = si_slot t) \<and>
     (\<forall>b. set (bk_completion sv b) = set b)"

lemma honest_bankD:
  assumes "honest_bank sv history"
  shows "serves history (bank_signatures_rpc sv)"
    and "t \<in> set history \<Longrightarrow> node_slot (bk_nodes sv) (si_signature t) n \<Longrightarrow> n = si_slot t"
    and "set (bk_completion sv b) = set b"
  using assms by (simp_all add: honest_bank_def)

lemma bank_latest:
  assumes "r \<in> set (bank_rows d)"
  shows "pt_slot r \<le> get_highest_user_bank_tx_slot sv d"
proof -
  obtain q where q: "first_desc (\<lambda>r. Some (pt_slot r)) (bank_rows d) = Some q"
    using assms by (cases "first_desc (\<lambda>r. Some (pt_slot r)) (bank_rows d)") auto
  from first_desc_max [OF q assms] show ?thesis by (simp add: get_highest_user_bank_tx_slot_def q)
qed

lemma bank_in_db: "get_bank_tx_in_db d s \<longleftrightarrow> s \<in> pt_signature ` set (bank_rows d)"
  by (auto simp: get_bank_tx_in_db_def sql_count_0 image_iff simp flip: neq0_conv)

lemma report_db: "report_bank_progress sv s t w = (r, w') \<Longrightarrow> w_db w' = w_db w"
  by (auto simp: report_bank_progress_def py_defs cache_latest_sol_db_tx_def split: option.splits sum.splits)

lemma bank_signatures_loop:
  assumes "process_bank_signatures sv batches w = (r, w')"
  shows "\<exists>s rl wl. py_for (process_bank_batch sv s) batches None w = (rl, wl) \<and> w_db w' = w_db wl \<and>
    (\<forall>x. r = Inr x \<longrightarrow> (\<exists>acc. rl = Inr acc))"
proof -
  define s where "s = (if batches \<noteq> [] \<and> last batches \<noteq> [] then Some (hd (last batches)) else None)"
  obtain rl wl where loop: "py_for (process_bank_batch sv s) batches None w = (rl, wl)" by (metis surj_pair)
  have "w_db w' = w_db wl \<and> (\<forall>x. r = Inr x \<longrightarrow> (\<exists>acc. rl = Inr acc))"
    using assms loop unfolding process_bank_signatures_def Let_def s_def [symmetric]
    by (cases rl) (auto simp: py_bind_def dest: report_db)
  with loop show ?thesis by (intro exI [of _ s] exI [of _ rl] exI [of _ wl]) simp
qed

lemma flush_programs [simp]: "w_db (flush ok w) = w_db w" by simp

lemma bank_task_run:
  assumes honest: "honest_bank sv history" and dist: "distinct (map si_signature history)"
    and above: "\<And>t. t \<in> set history \<Longrightarrow> bk_min_slot sv < si_slot t"
    and split: "history = new @ old" and has: "has_stored history old (bank_rows (w_db w))"
  shows "\<exists>r w'. index_user_bank sv have_lock w = Some (r, w') \<and> stored_oldest history (bank_rows (w_db w')) \<and>
    (r = Inr () \<longrightarrow> have_lock \<longrightarrow> bk_configured sv \<longrightarrow>
      length new < TX_SIGNATURES_MAX_BATCHES * FETCH_TX_SIGNATURES_BATCH_SIZE \<longrightarrow>
      has_stored history history (bank_rows (w_db w')))"
proof -
  obtain r0 w0 where c: "fetch_and_cache_latest_program_tx_redis (bk_nodes sv) (bk_program sv)
      latest_sol_user_bank_program_tx_key w = (r0, w0)" by (metis surj_pair)
  then have db: "w_db w0 = w_db w"
    by (metis cache_program_tx_db snd_conv)
  have oldest: "stored_oldest history (bank_rows (w_db w))" using split has by (rule stored_oldestI)
  show ?thesis
  proof (cases "isl r0 \<or> \<not> have_lock \<or> \<not> bk_configured sv")
    case True
    with c oldest show ?thesis
      by (cases r0) (auto simp: index_user_bank_def process_user_bank_txs_def db)
  next
    case False
    then obtain u where r0: "r0 = Inr u" and lock: "have_lock" and conf: "bk_configured sv" by (cases r0) auto
    obtain batches dropped where
      walk: "get_transaction_signatures (bank_signatures_rpc sv) (get_highest_user_bank_tx_slot sv (w_db w))
        (get_bank_tx_in_db (w_db w)) (Some (bk_min_slot sv)) = Some (Inr batches)"
      and new: "map si_signature new = dropped @ concat (rev batches)"
      and small: "length new < TX_SIGNATURES_MAX_BATCHES * FETCH_TX_SIGNATURES_BATCH_SIZE \<Longrightarrow> dropped = []"
      using walk_of_stored [OF honest_bankD(1) [OF honest] dist above split has bank_latest bank_in_db] by blast
    obtain r1 w1 where proc: "process_bank_signatures sv batches w0 = (r1, w1)" by (metis surj_pair)
    obtain s rl wl where loop: "py_for (process_bank_batch sv s) batches None w0 = (rl, wl)"
      and wl: "w_db w1 = w_db wl" and rl: "\<And>x. r1 = Inr x \<Longrightarrow> \<exists>acc. rl = Inr acc"
      using bank_signatures_loop [OF proc] by (elim exE conjE) (rule that, simp_all)
    have has0: "has_stored history old (bank_rows (w_db w0))" using has by (simp add: db)
    note stored = bank.batches_stored [OF honest_bankD(2) [OF honest] honest_bankD(3) [OF honest] split new has0 loop]
    have run: "index_user_bank sv have_lock w = Some (r1, flush (bk_rpush_ok sv) w1)"
      using c r0 lock conf walk proc by (simp add: index_user_bank_def process_user_bank_txs_def db py_bind_def py_lift_def)
    show ?thesis
    proof (intro exI conjI impI)
      show "index_user_bank sv have_lock w = Some (r1, flush (bk_rpush_ok sv) w1)" by (rule run)
      show "stored_oldest history (bank_rows (w_db (flush (bk_rpush_ok sv) w1)))" using stored(1) by (simp add: wl)
    next
      assume "r1 = Inr ()" and "length new < TX_SIGNATURES_MAX_BATCHES * FETCH_TX_SIGNATURES_BATCH_SIZE"
      then obtain acc where "rl = Inr acc" "dropped = []" using rl small by blast
      then show "has_stored history history (bank_rows (w_db (flush (bk_rpush_ok sv) w1)))"
        using stored(2) by (simp add: wl)
    qed
  qed
qed

text \<open>
  The life of the indexer, as for the rewards: the history grows, tasks run with whatever nodes and
  outcome, and other parts of the server write other tables.
\<close>

inductive bank_system :: "signature_info list \<Rightarrow> world \<Rightarrow> bool" where
  start: "bank_rows (w_db w) = [] \<Longrightarrow> bank_system [] w"
| grow: "bank_system history w \<Longrightarrow> distinct (map si_signature (new @ history)) \<Longrightarrow>
    bank_system (new @ history) w"
| run: "bank_system history w \<Longrightarrow> honest_bank sv history \<Longrightarrow>
    (\<And>t. t \<in> set history \<Longrightarrow> bk_min_slot sv < si_slot t) \<Longrightarrow>
    index_user_bank sv have_lock w = Some (r, w') \<Longrightarrow> bank_system history w'"
| other: "bank_system history w \<Longrightarrow> bank_rows (w_db w') = bank_rows (w_db w) \<Longrightarrow> bank_system history w'"

lemma bank_system_invariant:
  assumes "bank_system history w"
  shows "distinct (map si_signature history) \<and> stored_oldest history (bank_rows (w_db w))"
  using assms
proof induction
  case (start w)
  then show ?case by (simp add: stored_nothing)
next
  case (grow history w new)
  from stored_grow [of history _ new] grow.IH grow.hyps(2) show ?case by blast
next
  case (run history w sv have_lock r w')
  then obtain new old where "history = new @ old" "has_stored history old (bank_rows (w_db w))"
    by (auto simp: stored_oldest_def)
  from bank_task_run [OF run.hyps(2) _ run.hyps(3) this, of have_lock] run.IH run.hyps(4)
  show ?case by auto
next
  case (other history w w')
  then show ?case by simp
qed


lemma ex_honest_bank:
  assumes "\<And>t tx. t \<in> set history \<Longrightarrow> map_of txs (si_signature t) = Some tx \<Longrightarrow> sx_slot tx = si_slot t"
    and "\<And>b. set (f b) = set b"
  shows "honest_bank (ex_bank_services txs history f) history"
proof -
  let ?sv = "ex_bank_services txs history f"
  have nodes: "bk_nodes ?sv = [ex_bank_node txs history]" by (simp add: ex_bank_services_def)
  have "serves history (bank_signatures_rpc ?sv)"
    by (simp add: serves_def bank_signatures_rpc_def nodes get_signatures_for_address_def
        try_all_with_timeout_def ex_bank_node_def DEFAULT_MAX_RETRIES_def eval_nat_numeral)
  moreover have "n = si_slot t"
    if t: "t \<in> set history" and slot: "node_slot (bk_nodes ?sv) (si_signature t) n" for t n
  proof -
    obtain tx where "get_sol_tx_info [ex_bank_node txs history] (si_signature t) = Inr tx" "n = sx_slot tx"
      using slot by (auto simp: node_slot_def nodes)
    then have "map_of txs (si_signature t) = Some tx"
      by (cases "map_of txs (si_signature t)")
        (simp_all add: get_sol_tx_info_def ex_bank_node_def found_tx_def DEFAULT_MAX_RETRIES_def eval_nat_numeral)
    with assms(1) [OF t] \<open>n = sx_slot tx\<close> show ?thesis by simp
  qed
  moreover have "bk_completion ?sv = f" by (simp add: ex_bank_services_def)
  ultimately show ?thesis using assms(2) by (simp add: honest_bank_def)
qed


text \<open>
  C14. A tip is lost when its transaction completes before the one that creates the receiver's
  account: the transfer adds no tip but counts as indexed, so that no later run looks at it again.
  The futures of a batch are submitted newest first, so within a batch this is the usual order.
\<close>

theorem tip_before_account_lost:
  assumes "get_sol_tx_info (bk_nodes sv) s = Inr tx" and "is_transfer sv tx instr"
    and "transfer_accounts tx instr sa ra"
    and "sx_preTokenBalances tx \<noteq> None" and "sx_postTokenBalances tx \<noteq> None"
    and "\<And>b. b \<in> set (user_bank_accounts (w_programs w)) \<Longrightarrow> ba_bank_account b \<noteq> ra"
  shows "\<exists>acc' w'. bank_future sv last_tx_sig s acc w = (Inr acc', w') \<and>
    user_tips (w_programs w') = user_tips (w_programs w) \<and> get_bank_tx_in_db (w_db w') s"
proof -
  have none: "\<not> tip_found (w_db w) tx instr a b n" for a b n
  proof
    assume "tip_found (w_db w) tx instr a b n"
    then obtain sa' ra' where "transferred tx instr sa' ra' n" and o: "owns (w_db w) b ra'"
      using tip_found_sound by blast
    then have "ra' = ra" using transferred_accounts assms(3) by blast
    with o obtain x where "x \<in> set (user_bank_accounts (w_programs w))" "ba_bank_account x = ra"
      by (auto simp: owns_def)
    with assms(6) show False by blast
  qed
  obtain w1 where run: "process_transfer_instruction instr tx s w = (Inr (), w1)"
    using transfer_returns [OF assms(3-5)] by blast
  have db: "w_db w1 = w_db w" using no_tip_stored [OF none run] .
  show ?thesis
    using run assms(1)
    by (simp add: bank_future_def parse_user_bank_transaction_def details_of_transfer [OF assms(2)] py_defs
        db bank_in_db)
qed

definition ex_create :: instruction where
  "ex_create = \<lparr>in_accounts = [], in_data = ''c'', in_programIdIndex = 0\<rparr>"

definition ex_create_tx :: transaction_info where
  "ex_create_tx = \<lparr>sx_slot = 6, sx_blockTime = 90, sx_err = False, sx_logMessages = [CREATE_LOG],
     sx_accountKeys = [''P'', ''B''], sx_instructions = [ex_create],
     sx_preTokenBalances = None, sx_postTokenBalances = None\<rparr>"

theorem tip_before_account_lost_witness:
  "\<exists>acc' w'. bank_future (ex_bank_services [(''x'', ex_transfer_tx)] [] id) None ''x'' None
      (ex_bank_world [ex_account ''0xa'' ''A'']) = (Inr acc', w') \<and>
    user_tips (w_programs w') = [] \<and> get_bank_tx_in_db (w_db w') ''x''"
proof -
  let ?sv = "ex_bank_services [(''x'', ex_transfer_tx)] [] id"
  have tx: "get_sol_tx_info (bk_nodes ?sv) ''x'' = Inr ex_transfer_tx"
    by (simp add: ex_bank_services_def get_sol_tx_info_def ex_bank_node_def found_tx_def DEFAULT_MAX_RETRIES_def eval_nat_numeral)
  have bal: "sx_preTokenBalances ex_transfer_tx \<noteq> None" "sx_postTokenBalances ex_transfer_tx \<noteq> None"
    by (simp_all add: ex_transfer_tx_def)
  let ?w = "ex_bank_world [ex_account ''0xa'' ''A'']"
  have other: "ba_bank_account b \<noteq> ''B''" if "b \<in> set (user_bank_accounts (w_programs ?w))" for b
    using that by (simp add: ex_bank_world_def ex_account_def)
  have empty: "user_tips (w_programs ?w) = []" by (simp add: ex_bank_world_def empty_programs_def)
  from tip_before_account_lost [where w = "?w", OF tx ex_is_transfer ex_transfer_accounts bal other, where acc = None and last_tx_sig = None]
  show ?thesis unfolding empty .
qed

end
