(* ===== verification/Aggregate_Tips.thy ===== *)
theory Aggregate_Tips
  imports User_Bank
begin

text \<open>
  tasks/index_aggregate_tips.py: the totals of the tips between two users, the numbers of
  supporters, and the moves on the leaderboard of a user's supporters. The update counts the tips
  between the checkpoint of the last update and the highest slot of a tip
  (utils/update_indexing_checkpoints.py, tasks/aggregates/__init__.py).
\<close>

section \<open>Checkpoints\<close>

text \<open>\<open>INSERT ... ON CONFLICT (key) DO UPDATE\<close>: \<open>upd old excluded\<close> is the updated row.\<close>

definition insert_on_conflict ::
  "('r \<Rightarrow> 'k) \<Rightarrow> ('r \<Rightarrow> 'r \<Rightarrow> 'r) \<Rightarrow> 'r \<Rightarrow> 'r list \<Rightarrow> 'r list" where
  "insert_on_conflict key upd r rows =
     (if key r \<in> key ` set rows then map (\<lambda>q. if key q = key r then upd q r else q) rows else rows @ [r])"

definition save_indexed_checkpoint :: "string \<Rightarrow> int \<Rightarrow> program_tables \<Rightarrow> program_tables" where
  "save_indexed_checkpoint tablename checkpoint p =
     p\<lparr>indexing_checkpoints := insert_on_conflict cp_tablename
        (\<lambda>old excluded. old\<lparr>cp_last_checkpoint := cp_last_checkpoint excluded\<rparr>)
        \<lparr>cp_tablename = tablename, cp_last_checkpoint = checkpoint\<rparr> (indexing_checkpoints p)\<rparr>"

definition get_last_indexed_checkpoint :: "string \<Rightarrow> program_tables \<Rightarrow> int" where
  "get_last_indexed_checkpoint tablename p =
     (case find (\<lambda>r. cp_tablename r = tablename) (indexing_checkpoints p) of
        None \<Rightarrow> 0 | Some r \<Rightarrow> cp_last_checkpoint r)"

text \<open>Looking a key up after an upsert.\<close>

lemma find_insert_on_conflict:
  assumes "\<And>q r. key (upd q r) = key q"
  shows "find (\<lambda>q. key q = k) (insert_on_conflict key upd r rows) =
    (if k = key r then Some (case find (\<lambda>q. key q = k) rows of None \<Rightarrow> r | Some old \<Rightarrow> upd old r)
     else find (\<lambda>q. key q = k) rows)"
proof -
  have app: "find P (xs @ ys) = (case find P xs of None \<Rightarrow> find P ys | Some x \<Rightarrow> Some x)" for P and xs ys :: "'a list"
    by (induction xs) auto
  have upd: "find (\<lambda>q. key q = k) (map (\<lambda>q. if key q = key r then upd q r else q) rows) =
      map_option (\<lambda>q. if key q = key r then upd q r else q) (find (\<lambda>q. key q = k) rows)"
    by (induction rows) (auto simp: assms)
  have key: "find (\<lambda>q. key q = k) rows = Some x \<Longrightarrow> key x = k" for x
    by (auto simp: find_Some_iff)
  show ?thesis
  proof (cases "key r \<in> key ` set rows")
    case True
    show ?thesis
    proof (cases "k = key r")
      case k: True
      with True obtain x where x: "find (\<lambda>q. key q = k) rows = Some x"
        by (cases "find (\<lambda>q. key q = k) rows") (auto simp: find_None_iff)
      with key [OF x] True k upd show ?thesis by (simp add: insert_on_conflict_def)
    next
      case False
      have "map_option (\<lambda>q. if key q = key r then upd q r else q) (find (\<lambda>q. key q = k) rows) =
          find (\<lambda>q. key q = k) rows"
        using key False by (cases "find (\<lambda>q. key q = k) rows") auto
      with True False upd show ?thesis by (simp add: insert_on_conflict_def)
    qed
  next
    case False
    have "find (\<lambda>q. key q = key r) rows = None"
      unfolding find_None_iff using False by (metis image_eqI)
    with False show ?thesis by (auto simp: insert_on_conflict_def app split: option.split)
  qed
qed

lemma checkpoint_saved [simp]:
  "get_last_indexed_checkpoint t (save_indexed_checkpoint t c p) = c"
  by (simp add: get_last_indexed_checkpoint_def save_indexed_checkpoint_def find_insert_on_conflict
      split: option.split)

section \<open>The update of the tables\<close>

definition AGGREGATE_TIPS :: string where
  "AGGREGATE_TIPS = ''aggregate_user_tips''"

definition LEADERBOARD_SIZE :: nat where
  "LEADERBOARD_SIZE = 5"

definition latest_sol_aggregate_tips_slot_key :: string where
  "latest_sol_aggregate_tips_slot_key = ''latest_sol_slot:aggregate_tips''"

abbreviation tip_pair :: "tip_row \<Rightarrow> int \<times> int" where
  "tip_pair t \<equiv> (tip_sender_user_id t, tip_receiver_user_id t)"

abbreviation at_pair :: "aggregate_tip_row \<Rightarrow> int \<times> int" where
  "at_pair r \<equiv> (at_sender_user_id r, at_receiver_user_id r)"

definition recent_tips :: "int \<Rightarrow> int \<Rightarrow> tip_row list \<Rightarrow> tip_row list" where
  "recent_tips prev_slot current_slot tips =
     filter (\<lambda>t. prev_slot < tip_slot t \<and> tip_slot t \<le> current_slot) tips"

text \<open>The sums per pair of users.\<close>

definition grouped_tips :: "tip_row list \<Rightarrow> aggregate_tip_row list" where
  "grouped_tips tips =
     map (\<lambda>(s, r). \<lparr>at_sender_user_id = s, at_receiver_user_id = r,
           at_amount = sum_list (map tip_amount (filter (\<lambda>t. tip_pair t = (s, r)) tips))\<rparr>)
       (remdups (map tip_pair tips))"

definition upsert_tips :: "tip_row list \<Rightarrow> aggregate_tip_row list \<Rightarrow> aggregate_tip_row list" where
  "upsert_tips tips rows =
     fold (insert_on_conflict at_pair (\<lambda>old excluded. old\<lparr>at_amount := at_amount excluded + at_amount old\<rparr>))
       (grouped_tips tips) rows"

text \<open>
  The counts. The columns of the query are named the wrong way round twice: \<open>supporting\<close> counts
  the senders of a receiver and goes into \<open>supporter_count\<close>.
\<close>

definition tip_counts :: "aggregate_tip_row list \<Rightarrow> int \<Rightarrow> aggregate_user_row" where
  "tip_counts rows u = \<lparr>au_user_id = u,
     au_supporter_count = int (sql_count (\<lambda>r. at_receiver_user_id r = u) rows),
     au_supporting_count = int (sql_count (\<lambda>r. at_sender_user_id r = u) rows)\<rparr>"

definition tip_user_ids :: "tip_row list \<Rightarrow> int list" where
  "tip_user_ids tips = remdups (map tip_sender_user_id tips @ map tip_receiver_user_id tips)"

definition upsert_counts ::
  "aggregate_tip_row list \<Rightarrow> tip_row list \<Rightarrow> aggregate_user_row list \<Rightarrow> aggregate_user_row list" where
  "upsert_counts rows tips counts =
     fold (insert_on_conflict au_user_id (\<lambda>old excluded. old\<lparr>au_supporting_count := au_supporting_count excluded,
         au_supporter_count := au_supporter_count excluded\<rparr>))
       (map (tip_counts rows) (tip_user_ids tips)) counts"

definition UPDATE_AGGREGATE_USER_TIPS_QUERY :: "int \<Rightarrow> int \<Rightarrow> program_tables \<Rightarrow> program_tables" where
  "UPDATE_AGGREGATE_USER_TIPS_QUERY prev_slot current_slot p =
     (let tips = recent_tips prev_slot current_slot (user_tips p);
          rows = upsert_tips tips (aggregate_user_tips p)
      in p\<lparr>aggregate_user_tips := rows, aggregate_users := upsert_counts rows tips (aggregate_users p)\<rparr>)"

text \<open>\<open>update_aggregate_table\<close> for a query of two checkpoints.\<close>

definition update_aggregate_table ::
  "string \<Rightarrow> (int \<Rightarrow> int \<Rightarrow> program_tables \<Rightarrow> program_tables) \<Rightarrow> int \<Rightarrow> program_tables \<Rightarrow> program_tables" where
  "update_aggregate_table table_name query current_checkpoint p =
     (let prev_checkpoint = get_last_indexed_checkpoint table_name p in
      if current_checkpoint = 0 \<or> current_checkpoint = prev_checkpoint then p
      else save_indexed_checkpoint table_name current_checkpoint (query prev_checkpoint current_checkpoint p))"

section \<open>Ranks\<close>

record tip_rank =
  tr_place :: nat
  tr_sender :: int
  tr_receiver :: int

text \<open>\<open>RANK() OVER (PARTITION BY receiver_user_id ORDER BY amount DESC)\<close>\<close>

definition rank_of :: "aggregate_tip_row list \<Rightarrow> aggregate_tip_row \<Rightarrow> nat" where
  "rank_of rows x = Suc (sql_count (\<lambda>q. at_receiver_user_id q = at_receiver_user_id x \<and> at_amount x < at_amount q) rows)"

text \<open>The result comes partition by partition, each in the order of its ranks.\<close>

definition get_ranks :: "int \<Rightarrow> int \<Rightarrow> program_tables \<Rightarrow> tip_rank list" where
  "get_ranks prev_slot current_slot p =
     concat (map (\<lambda>receiver.
         sort_key tr_place (filter (\<lambda>k. tr_place k \<le> LEADERBOARD_SIZE)
           (map (\<lambda>x. \<lparr>tr_place = rank_of (aggregate_user_tips p) x, tr_sender = at_sender_user_id x,
                      tr_receiver = receiver\<rparr>)
             (filter (\<lambda>x. at_receiver_user_id x = receiver) (aggregate_user_tips p)))))
       (remdups (map tip_receiver_user_id (recent_tips prev_slot current_slot (user_tips p)))))"

text \<open>\<open>itertools.groupby\<close>: runs of equal keys.\<close>

fun groupby :: "('a \<Rightarrow> 'k) \<Rightarrow> 'a list \<Rightarrow> ('k \<times> 'a list) list" where
  "groupby key [] = []"
| "groupby key (x # xs) =
     (case groupby key xs of
        [] \<Rightarrow> [(key x, [x])]
      | (k, ys) # rest \<Rightarrow> if k = key x then (k, x # ys) # rest else (key x, [x]) # (k, ys) # rest)"

text \<open>A dictionary comprehension: the last value of a key wins.\<close>

definition dict_of :: "('k \<times> 'v) list \<Rightarrow> 'k \<Rightarrow> 'v option" where
  "dict_of kvs = map_of (rev kvs)"

definition grouped_ranks :: "tip_rank list \<Rightarrow> int \<Rightarrow> (int \<Rightarrow> nat option) option" where
  "grouped_ranks ranks =
     dict_of (map (\<lambda>(key, subiter). (key, dict_of (map (\<lambda>r. (tr_sender r, tr_place r)) subiter)))
       (groupby tr_receiver ranks))"

definition ranked_up :: "(int \<Rightarrow> (int \<Rightarrow> nat option) option) \<Rightarrow> tip_rank \<Rightarrow> bool" where
  "ranked_up before row \<longleftrightarrow>
     (case before (tr_receiver row) of
        None \<Rightarrow> True
      | Some senders \<Rightarrow> (case senders (tr_sender row) of None \<Rightarrow> True | Some k \<Rightarrow> tr_place row < k))"

definition index_rank_ups :: "tip_rank list \<Rightarrow> tip_rank list \<Rightarrow> int \<Rightarrow> program_tables \<Rightarrow> program_tables" where
  "index_rank_ups ranks_before ranks_after slot p =
     p\<lparr>supporter_rank_ups := supporter_rank_ups p @
        map (\<lambda>r. \<lparr>ru_slot = slot, ru_sender_user_id = tr_sender r, ru_receiver_user_id = tr_receiver r,
                  ru_rank = int (tr_place r)\<rparr>)
          (filter (ranked_up (grouped_ranks ranks_before)) ranks_after)\<rparr>"

section \<open>The task\<close>

definition max_tip_slot :: "tip_row list \<Rightarrow> int" where
  "max_tip_slot tips = (if tips = [] then 0 else Max (set (map tip_slot tips)))"

definition report_tips_slot :: "json option \<Rightarrow> world \<Rightarrow> world" where
  "report_tips_slot latest_user_bank_slot w =
     (case latest_user_bank_slot of None \<Rightarrow> w | Some v \<Rightarrow> redis_set latest_sol_aggregate_tips_slot_key v w)"

definition aggregate_tips_tables :: "program_tables \<Rightarrow> program_tables" where
  "aggregate_tips_tables p =
     (let prev_slot = get_last_indexed_checkpoint AGGREGATE_TIPS p;
          max_slot = max_tip_slot (user_tips p)
      in if prev_slot = max_slot then p
         else
           let ranks_before = get_ranks prev_slot max_slot p;
               p' = update_aggregate_table AGGREGATE_TIPS UPDATE_AGGREGATE_USER_TIPS_QUERY max_slot p;
               ranks_after = get_ranks prev_slot max_slot p'
           in index_rank_ups ranks_before ranks_after max_slot p')"

definition update_aggregate_tips_body :: "(world, unit) py" where
  "update_aggregate_tips_body =
     py_bind (py_gets (redis_get latest_sol_user_bank_slot_key)) (\<lambda>latest_user_bank_slot.
     py_seq (py_modify (update_programs aggregate_tips_tables))
       (py_modify (report_tips_slot latest_user_bank_slot)))"

text \<open>The primary key of the rank-ups is checked when the session flushes.\<close>

definition commit_tips :: "(db \<Rightarrow> exc option) \<Rightarrow> db \<Rightarrow> exc option" where
  "commit_tips commit d =
     (if distinct (map (\<lambda>r. (ru_slot r, ru_sender_user_id r, ru_receiver_user_id r)) (supporter_rank_ups (programs d)))
      then commit d else Some (PyException ''duplicate key value violates unique constraint''))"

text \<open>\<open>init_task_and_acquire_lock\<close>\<close>

definition init_task_and_acquire_lock ::
  "(db \<Rightarrow> exc option) \<Rightarrow> bool \<Rightarrow> (world, unit) py \<Rightarrow> (world, unit) py" where
  "init_task_and_acquire_lock commit have_lock aggregate_func =
     (if have_lock then session_scope commit aggregate_func else py_return ())"

definition update_aggregate_tips :: "(db \<Rightarrow> exc option) \<Rightarrow> bool \<Rightarrow> (world, unit) py" where
  "update_aggregate_tips commit have_lock =
     init_task_and_acquire_lock (commit_tips commit) have_lock update_aggregate_tips_body"

section \<open>Totals\<close>

lemma insert_on_conflict_keys:
  assumes "\<And>q r. key (upd q r) = key q"
  shows "map key (insert_on_conflict key upd r rows) =
    (if key r \<in> key ` set rows then map key rows else map key rows @ [key r])"
  using assms by (simp add: insert_on_conflict_def comp_def if_distrib cong: if_cong)

lemma insert_on_conflict_distinct:
  "(\<And>q r. key (upd q r) = key q) \<Longrightarrow> distinct (map key rows) \<Longrightarrow>
    distinct (map key (insert_on_conflict key upd r rows))"
  by (simp add: insert_on_conflict_keys)

lemma fold_insert_keys:
  assumes "\<And>q r. key (upd q r) = key q"
  shows "distinct (map key rows) \<Longrightarrow> distinct (map key (fold (insert_on_conflict key upd) rs rows))"
    and "key ` set (fold (insert_on_conflict key upd) rs rows) = key ` set rows \<union> key ` set rs"
proof -
  show "distinct (map key rows) \<Longrightarrow> distinct (map key (fold (insert_on_conflict key upd) rs rows))"
  proof (induction rs arbitrary: rows)
    case (Cons r rs)
    from Cons.IH [OF insert_on_conflict_distinct [of key upd, OF assms Cons.prems]] show ?case by simp
  qed simp
  have keys: "key ` set (insert_on_conflict key upd r rows) = insert (key r) (key ` set rows)" for r rows
    using insert_on_conflict_keys [of key upd r rows] assms
    by (metis (no_types, lifting) Un_insert_right insert_absorb list.set(1) list.set(2) set_append set_map sup_bot_right)
  show "key ` set (fold (insert_on_conflict key upd) rs rows) = key ` set rows \<union> key ` set rs"
    by (induction rs arbitrary: rows) (auto simp: keys)
qed

text \<open>The stored total of a pair, and the total of the tips up to a slot.\<close>

definition agg_amount :: "aggregate_tip_row list \<Rightarrow> int \<Rightarrow> int \<Rightarrow> int" where
  "agg_amount rows s r = sum_list (map at_amount (filter (\<lambda>q. at_pair q = (s, r)) rows))"

definition tip_total :: "tip_row list \<Rightarrow> int \<Rightarrow> int \<Rightarrow> int \<Rightarrow> int" where
  "tip_total tips s r slot =
     sum_list (map tip_amount (filter (\<lambda>t. tip_pair t = (s, r) \<and> tip_slot t \<le> slot) tips))"

abbreviation add_amount :: "aggregate_tip_row \<Rightarrow> aggregate_tip_row \<Rightarrow> aggregate_tip_row" where
  "add_amount old excluded \<equiv> old\<lparr>at_amount := at_amount excluded + at_amount old\<rparr>"

lemma agg_amount_simps [simp]:
  "agg_amount [] s r = 0"
  "agg_amount (q # qs) s r = (if at_pair q = (s, r) then at_amount q else 0) + agg_amount qs s r"
  "agg_amount (xs @ ys) s r = agg_amount xs s r + agg_amount ys s r"
  by (simp_all add: agg_amount_def)

lemma agg_amount_none: "(s, r) \<notin> at_pair ` set rows \<Longrightarrow> agg_amount rows s r = 0"
  by (induction rows) auto

lemma agg_amount_update:
  "distinct (map at_pair rows) \<Longrightarrow> at_pair x \<in> at_pair ` set rows \<Longrightarrow>
    agg_amount (map (\<lambda>q. if at_pair q = at_pair x then add_amount q x else q) rows) s r =
      agg_amount rows s r + (if at_pair x = (s, r) then at_amount x else 0)"
proof (induction rows)
  case (Cons q qs)
  show ?case
  proof (cases "at_pair q = at_pair x")
    case True
    then have "map (\<lambda>q. if at_pair q = at_pair x then add_amount q x else q) qs = qs"
      using Cons.prems(1) by (intro map_idI) (auto simp: image_iff)
    with True show ?thesis by simp
  next
    case False
    with Cons show ?thesis by auto
  qed
qed simp

lemma agg_amount_insert:
  "distinct (map at_pair rows) \<Longrightarrow>
    agg_amount (insert_on_conflict at_pair add_amount x rows) s r =
      agg_amount rows s r + (if at_pair x = (s, r) then at_amount x else 0)"
proof -
  assume "distinct (map at_pair rows)"
  then show ?thesis
    by (cases "at_pair x \<in> at_pair ` set rows")
      (simp_all only: insert_on_conflict_def agg_amount_update if_True if_False agg_amount_simps add_0_right)
qed

lemma agg_amount_fold:
  "distinct (map at_pair rows) \<Longrightarrow>
    agg_amount (fold (insert_on_conflict at_pair add_amount) xs rows) s r = agg_amount rows s r + agg_amount xs s r"
proof (induction xs arbitrary: rows)
  case (Cons x xs)
  have "distinct (map at_pair (insert_on_conflict at_pair add_amount x rows))"
    by (rule insert_on_conflict_distinct) (simp_all add: Cons.prems)
  from Cons.IH [OF this] Cons.prems show ?case by (simp add: agg_amount_insert)
qed simp

lemma grouped_tips_amount:
  "agg_amount (grouped_tips tips) s r = sum_list (map tip_amount (filter (\<lambda>t. tip_pair t = (s, r)) tips))"
proof -
  have one: "agg_amount (map (\<lambda>(s, r). \<lparr>at_sender_user_id = s, at_receiver_user_id = r, at_amount = f s r\<rparr>) ps) s r =
      (if (s, r) \<in> set ps then f s r else 0)" if "distinct ps" for ps :: "(int \<times> int) list" and f
    using that by (induction ps) auto
  have none: "(s, r) \<notin> set (map tip_pair tips) \<Longrightarrow>
      sum_list (map tip_amount (filter (\<lambda>t. tip_pair t = (s, r)) tips)) = 0"
    by (induction tips) auto
  show ?thesis
    unfolding grouped_tips_def by (subst one) (use none in auto)
qed

lemma upsert_tips_amount:
  assumes "distinct (map at_pair rows)"
  shows "agg_amount (upsert_tips tips rows) s r =
    agg_amount rows s r + sum_list (map tip_amount (filter (\<lambda>t. tip_pair t = (s, r)) tips))"
  using agg_amount_fold [OF assms] by (simp add: upsert_tips_def grouped_tips_amount)

lemma upsert_tips_keys:
  "distinct (map at_pair rows) \<Longrightarrow> distinct (map at_pair (upsert_tips tips rows))"
  "at_pair ` set (upsert_tips tips rows) = at_pair ` set rows \<union> tip_pair ` set tips"
proof -
  show "distinct (map at_pair rows) \<Longrightarrow> distinct (map at_pair (upsert_tips tips rows))"
    unfolding upsert_tips_def by (rule fold_insert_keys(1)) simp_all
  have "at_pair ` set (grouped_tips tips) = tip_pair ` set tips"
    by (auto simp: grouped_tips_def image_image case_prod_beta)
  then show "at_pair ` set (upsert_tips tips rows) = at_pair ` set rows \<union> tip_pair ` set tips"
    unfolding upsert_tips_def by (subst fold_insert_keys(2)) simp_all
qed

lemma tip_total_split:
  "prev \<le> cur \<Longrightarrow> tip_total tips s r cur = tip_total tips s r prev +
    sum_list (map tip_amount (filter (\<lambda>t. tip_pair t = (s, r)) (recent_tips prev cur tips)))"
  by (induction tips) (auto simp: tip_total_def recent_tips_def)

lemma tip_total_beyond:
  "(\<And>t. t \<in> set tips \<Longrightarrow> tip_slot t \<le> a \<and> tip_slot t \<le> b) \<Longrightarrow> tip_total tips s r a = tip_total tips s r b"
  unfolding tip_total_def by (intro arg_cong [where f = "\<lambda>xs. sum_list (map tip_amount xs)"] filter_cong) auto

lemma max_tip_slot_ge: "t \<in> set tips \<Longrightarrow> tip_slot t \<le> max_tip_slot tips"
  by (auto simp: max_tip_slot_def)

abbreviation tips_checkpoint :: "program_tables \<Rightarrow> int" where
  "tips_checkpoint p \<equiv> get_last_indexed_checkpoint AGGREGATE_TIPS p"

text \<open>What is missing in the stored total of a pair.\<close>

definition tip_deficit :: "program_tables \<Rightarrow> int \<Rightarrow> int \<Rightarrow> int" where
  "tip_deficit p s r = tip_total (user_tips p) s r (tips_checkpoint p) - agg_amount (aggregate_user_tips p) s r"

lemma checkpoint_frame [simp]:
  "get_last_indexed_checkpoint t (UPDATE_AGGREGATE_USER_TIPS_QUERY a b p) = get_last_indexed_checkpoint t p"
  "get_last_indexed_checkpoint t (index_rank_ups x y n p) = get_last_indexed_checkpoint t p"
  by (simp_all add: get_last_indexed_checkpoint_def UPDATE_AGGREGATE_USER_TIPS_QUERY_def index_rank_ups_def Let_def)

lemma query_tables [simp]:
  "user_tips (UPDATE_AGGREGATE_USER_TIPS_QUERY a b p) = user_tips p"
  "aggregate_user_tips (UPDATE_AGGREGATE_USER_TIPS_QUERY a b p) =
    upsert_tips (recent_tips a b (user_tips p)) (aggregate_user_tips p)"
  by (simp_all add: UPDATE_AGGREGATE_USER_TIPS_QUERY_def Let_def)

lemma saved_tables [simp]:
  "user_tips (save_indexed_checkpoint t c p) = user_tips p"
  "aggregate_user_tips (save_indexed_checkpoint t c p) = aggregate_user_tips p"
  "aggregate_users (save_indexed_checkpoint t c p) = aggregate_users p"
  "user_tips (index_rank_ups x y n p) = user_tips p"
  "aggregate_user_tips (index_rank_ups x y n p) = aggregate_user_tips p"
  "aggregate_users (index_rank_ups x y n p) = aggregate_users p"
  by (simp_all add: save_indexed_checkpoint_def index_rank_ups_def)

section \<open>Supporters\<close>

abbreviation set_counts :: "aggregate_user_row \<Rightarrow> aggregate_user_row \<Rightarrow> aggregate_user_row" where
  "set_counts old excluded \<equiv> old\<lparr>au_supporting_count := au_supporting_count excluded,
     au_supporter_count := au_supporter_count excluded\<rparr>"

text \<open>The stored numbers of supporters and supported users.\<close>

definition support_counts :: "aggregate_user_row list \<Rightarrow> int \<Rightarrow> (int \<times> int) option" where
  "support_counts rows u =
     map_option (\<lambda>x. (au_supporter_count x, au_supporting_count x)) (find (\<lambda>x. au_user_id x = u) rows)"

lemma support_counts_insert:
  "support_counts (insert_on_conflict au_user_id set_counts x rows) u =
    (if u = au_user_id x then Some (au_supporter_count x, au_supporting_count x) else support_counts rows u)"
  by (simp add: support_counts_def find_insert_on_conflict split: option.split)

lemma support_counts_fold:
  "support_counts (fold (insert_on_conflict au_user_id set_counts) (map (tip_counts agg) us) rows) u =
    (if u \<in> set us then Some (au_supporter_count (tip_counts agg u), au_supporting_count (tip_counts agg u))
     else support_counts rows u)"
proof (induction us arbitrary: rows)
  case (Cons v us)
  show ?case
    by (simp add: Cons support_counts_insert) (auto simp: tip_counts_def)
qed simp

lemma support_counts_upsert:
  "support_counts (upsert_counts agg tips rows) u =
    (if u \<in> tip_sender_user_id ` set tips \<union> tip_receiver_user_id ` set tips
     then Some (int (sql_count (\<lambda>r. at_receiver_user_id r = u) agg), int (sql_count (\<lambda>r. at_sender_user_id r = u) agg))
     else support_counts rows u)"
  by (simp add: upsert_counts_def support_counts_fold tip_user_ids_def tip_counts_def)

lemma sql_count_keys:
  "distinct (map key rows) \<Longrightarrow> sql_count (\<lambda>r. P (key r)) rows = card {k \<in> key ` set rows. P k}"
proof -
  assume d: "distinct (map key rows)"
  have "sql_count (\<lambda>r. P (key r)) rows = length (filter P (map key rows))"
    by (simp add: sql_count_def filter_map comp_def)
  also have "\<dots> = card (set (filter P (map key rows)))"
    using d distinct_card distinct_filter by metis
  also have "set (filter P (map key rows)) = {k \<in> key ` set rows. P k}" by auto
  finally show ?thesis .
qed

text \<open>The pairs of the tips up to the checkpoint, and the counts they give.\<close>

definition counted_pairs :: "program_tables \<Rightarrow> (int \<times> int) set" where
  "counted_pairs p = tip_pair ` {t \<in> set (user_tips p). tip_slot t \<le> tips_checkpoint p}"

definition counts_correct :: "program_tables \<Rightarrow> bool" where
  "counts_correct p \<longleftrightarrow> (\<forall>u \<in> fst ` counted_pairs p \<union> snd ` counted_pairs p.
     support_counts (aggregate_users p) u =
       Some (int (card {s. (s, u) \<in> counted_pairs p}), int (card {r. (u, r) \<in> counted_pairs p})))"

definition sums_ok :: "program_tables \<Rightarrow> bool" where
  "sums_ok p \<longleftrightarrow> distinct (map at_pair (aggregate_user_tips p)) \<and> (\<forall>t\<in>set (user_tips p). 0 < tip_slot t)"

definition tips_ok :: "program_tables \<Rightarrow> bool" where
  "tips_ok p \<longleftrightarrow> sums_ok p \<and> at_pair ` set (aggregate_user_tips p) = counted_pairs p \<and>
     counts_correct p"

lemma count_pairs:
  assumes "distinct (map at_pair rows)" and "at_pair ` set rows = S"
  shows "sql_count (\<lambda>r. at_receiver_user_id r = u) rows = card {s. (s, u) \<in> S}"
    and "sql_count (\<lambda>r. at_sender_user_id r = u) rows = card {r. (u, r) \<in> S}"
proof -
  have "sql_count (\<lambda>r. at_receiver_user_id r = u) rows = card {k \<in> S. snd k = u}"
    using sql_count_keys [OF assms(1), of "\<lambda>k. snd k = u"] assms(2) by simp
  moreover have "{k \<in> S. snd k = u} = (\<lambda>s. (s, u)) ` {s. (s, u) \<in> S}" by auto
  ultimately show "sql_count (\<lambda>r. at_receiver_user_id r = u) rows = card {s. (s, u) \<in> S}"
    by (simp add: card_image inj_on_def)
  have "sql_count (\<lambda>r. at_sender_user_id r = u) rows = card {k \<in> S. fst k = u}"
    using sql_count_keys [OF assms(1), of "\<lambda>k. fst k = u"] assms(2) by simp
  moreover have "{k \<in> S. fst k = u} = Pair u ` {r. (u, r) \<in> S}" by auto
  ultimately show "sql_count (\<lambda>r. at_sender_user_id r = u) rows = card {r. (u, r) \<in> S}"
    by (simp add: card_image inj_on_def)
qed

lemma aggregate_cases [consumes 1, case_names same update]:
  assumes "\<forall>t\<in>set (user_tips p). 0 < tip_slot t"
  obtains (same) "aggregate_tips_tables p = p"
      "user_tips p = [] \<or> tips_checkpoint p = max_tip_slot (user_tips p)"
  | (update) rows where "user_tips p \<noteq> []" "tips_checkpoint p \<noteq> max_tip_slot (user_tips p)"
      "rows = upsert_tips (recent_tips (tips_checkpoint p) (max_tip_slot (user_tips p)) (user_tips p)) (aggregate_user_tips p)"
      "tips_checkpoint (aggregate_tips_tables p) = max_tip_slot (user_tips p)"
      "aggregate_user_tips (aggregate_tips_tables p) = rows"
      "aggregate_users (aggregate_tips_tables p) =
         upsert_counts rows (recent_tips (tips_checkpoint p) (max_tip_slot (user_tips p)) (user_tips p)) (aggregate_users p)"
      "user_tips (aggregate_tips_tables p) = user_tips p"
proof -
  let ?prev = "tips_checkpoint p" and ?max = "max_tip_slot (user_tips p)"
  let ?q = "UPDATE_AGGREGATE_USER_TIPS_QUERY ?prev ?max p"
  have pos: "?max \<noteq> 0" if "user_tips p \<noteq> []"
  proof -
    have "hd (user_tips p) \<in> set (user_tips p)" using that by simp
    with assms have "0 < tip_slot (hd (user_tips p))" by blast
    with max_tip_slot_ge [OF \<open>hd (user_tips p) \<in> set (user_tips p)\<close>] show ?thesis by simp
  qed
  consider "?prev = ?max" | "user_tips p = []" | "?prev \<noteq> ?max" "user_tips p \<noteq> []" by blast
  then show thesis
  proof cases
    case 1
    then show thesis by (intro same) (simp_all add: aggregate_tips_tables_def Let_def)
  next
    case 2
    then have "aggregate_tips_tables p = p"
      by (simp add: aggregate_tips_tables_def Let_def update_aggregate_table_def max_tip_slot_def
          index_rank_ups_def get_ranks_def recent_tips_def)
    with 2 show thesis by (intro same) simp_all
  next
    case 3
    then have t: "aggregate_tips_tables p = index_rank_ups (get_ranks ?prev ?max p)
        (get_ranks ?prev ?max (save_indexed_checkpoint AGGREGATE_TIPS ?max ?q)) ?max
        (save_indexed_checkpoint AGGREGATE_TIPS ?max ?q)"
      using pos by (auto simp: aggregate_tips_tables_def update_aggregate_table_def Let_def)
    show thesis
      by (rule update [OF 3(2,1) refl]) (simp_all add: t UPDATE_AGGREGATE_USER_TIPS_QUERY_def Let_def)
  qed
qed

lemma recent_empty:
  "max_tip_slot tips < prev \<Longrightarrow> recent_tips prev (max_tip_slot tips) tips = []"
  using max_tip_slot_ge by (force simp: recent_tips_def filter_empty_conv)

text \<open>
  An update keeps the deficit: the tips up to the new checkpoint are those up to the old one and
  the recent ones.
\<close>

lemma aggregate_keeps_deficit:
  assumes "sums_ok p"
  shows "sums_ok (aggregate_tips_tables p) \<and> tip_deficit (aggregate_tips_tables p) s r = tip_deficit p s r"
proof -
  have d: "distinct (map at_pair (aggregate_user_tips p))"
    and pos: "\<forall>t\<in>set (user_tips p). 0 < tip_slot t" using assms by (auto simp: sums_ok_def)
  let ?prev = "tips_checkpoint p" and ?max = "max_tip_slot (user_tips p)"
  show ?thesis
    using pos
  proof (cases rule: aggregate_cases)
    case same
    with assms show ?thesis by simp
  next
    case (update rows)
    have "distinct (map at_pair rows)" unfolding update(3) by (rule upsert_tips_keys(1) [OF d])
    then have ok: "sums_ok (aggregate_tips_tables p)" using pos by (simp add: sums_ok_def update)
    have "tip_total (user_tips p) s r ?max = tip_total (user_tips p) s r ?prev +
        sum_list (map tip_amount (filter (\<lambda>t. tip_pair t = (s, r)) (recent_tips ?prev ?max (user_tips p))))"
    proof (cases "?prev \<le> ?max")
      case True
      then show ?thesis by (rule tip_total_split)
    next
      case False
      then have "tip_slot t \<le> ?max \<and> tip_slot t \<le> ?prev" if "t \<in> set (user_tips p)" for t
        using max_tip_slot_ge [OF that] by simp
      with False show ?thesis
        using tip_total_beyond [of "user_tips p" ?max ?prev] by (simp add: recent_empty)
    qed
    with ok show ?thesis by (simp add: tip_deficit_def update upsert_tips_amount [OF d])
  qed
qed

lemma counted_pairs_update:
  assumes "user_tips q = user_tips p" and "tips_checkpoint q = max_tip_slot (user_tips p)"
  shows "counted_pairs q = counted_pairs p \<union>
    tip_pair ` set (recent_tips (tips_checkpoint p) (max_tip_slot (user_tips p)) (user_tips p))"
proof -
  have "{t \<in> set (user_tips p). tip_slot t \<le> max_tip_slot (user_tips p)} =
      {t \<in> set (user_tips p). tip_slot t \<le> tips_checkpoint p} \<union>
      set (recent_tips (tips_checkpoint p) (max_tip_slot (user_tips p)) (user_tips p))"
    using max_tip_slot_ge [of _ "user_tips p"] by (auto simp: recent_tips_def)
  then show ?thesis by (simp add: counted_pairs_def assms image_Un)
qed

lemma aggregate_keeps_ok:
  assumes "tips_ok p"
  shows "tips_ok (aggregate_tips_tables p)"
proof -
  have d: "distinct (map at_pair (aggregate_user_tips p))" and c: "counts_correct p"
    and keys: "at_pair ` set (aggregate_user_tips p) = counted_pairs p"
    and pos: "\<forall>t\<in>set (user_tips p). 0 < tip_slot t" using assms by (auto simp: tips_ok_def sums_ok_def)
  let ?recent = "recent_tips (tips_checkpoint p) (max_tip_slot (user_tips p)) (user_tips p)"
  show ?thesis
    using pos
  proof (cases rule: aggregate_cases)
    case same
    with assms show ?thesis by simp
  next
    case (update rows)
    let ?q = "aggregate_tips_tables p"
    have pairs: "counted_pairs ?q = counted_pairs p \<union> tip_pair ` set ?recent"
      using counted_pairs_update [OF update(7,4)] .
    have d': "distinct (map at_pair rows)" unfolding update(3) by (rule upsert_tips_keys(1) [OF d])
    have keys': "at_pair ` set rows = counted_pairs ?q"
      unfolding update(3) upsert_tips_keys(2) keys pairs ..
    have "support_counts (aggregate_users ?q) u =
        Some (int (card {s. (s, u) \<in> counted_pairs ?q}), int (card {r. (u, r) \<in> counted_pairs ?q}))"
      if u: "u \<in> fst ` counted_pairs ?q \<union> snd ` counted_pairs ?q" for u
    proof (cases "u \<in> tip_sender_user_id ` set ?recent \<union> tip_receiver_user_id ` set ?recent")
      case True
      then show ?thesis
        by (simp add: update(6) support_counts_upsert count_pairs [OF d' keys'])
    next
      case False
      then have same: "{s. (s, u) \<in> counted_pairs ?q} = {s. (s, u) \<in> counted_pairs p}"
        "{r. (u, r) \<in> counted_pairs ?q} = {r. (u, r) \<in> counted_pairs p}"
        by (auto simp: pairs image_iff)
      have "u \<in> fst ` counted_pairs p \<union> snd ` counted_pairs p"
        using u False by (auto simp: pairs image_Un image_image)
      with c False show ?thesis
        unfolding same counts_correct_def by (simp add: update(6) support_counts_upsert)
    qed
    then show ?thesis
      using d' keys' pos by (simp add: tips_ok_def sums_ok_def counts_correct_def update)
  qed
qed

section \<open>The life of the totals\<close>

text \<open>
  Tips arrive above the checkpoint, the task runs, and other parts of the server write other
  tables. \<open>tips_steps\<close> are any number of such steps.
\<close>

definition tables_of_tips :: "world \<Rightarrow> tip_row list \<times> aggregate_tip_row list \<times> aggregate_user_row list \<times> int" where
  "tables_of_tips w = (user_tips (w_programs w), aggregate_user_tips (w_programs w),
     aggregate_users (w_programs w), tips_checkpoint (w_programs w))"

inductive tips_step :: "world \<Rightarrow> world \<Rightarrow> bool" where
  tip: "user_tips (w_programs w') = user_tips (w_programs w) @ [t] \<Longrightarrow>
    snd (tables_of_tips w') = snd (tables_of_tips w) \<Longrightarrow> 0 < tip_slot t \<Longrightarrow>
    tips_checkpoint (w_programs w) < tip_slot t \<Longrightarrow> tips_step w w'"
| run: "update_aggregate_tips commit have_lock w = (r, w') \<Longrightarrow> tips_step w w'"
| other: "tables_of_tips w' = tables_of_tips w \<Longrightarrow> tips_step w w'"

abbreviation tips_steps :: "world \<Rightarrow> world \<Rightarrow> bool" where
  "tips_steps \<equiv> tips_step\<^sup>*\<^sup>*"

lemma report_db_same [simp]: "w_db (report_tips_slot v w) = w_db w"
  by (simp add: report_tips_slot_def split: option.split)

lemma body_run:
  "update_aggregate_tips_body w = (r, w') \<Longrightarrow>
    r = Inr () \<and> w_programs w' = aggregate_tips_tables (w_programs w)"
  by (auto simp: update_aggregate_tips_body_def py_defs)

lemma task_result:
  assumes "update_aggregate_tips commit have_lock w = (r, w')"
  shows "w_programs w' = w_programs w \<or> w_programs w' = aggregate_tips_tables (w_programs w)"
    and "r = Inr () \<Longrightarrow> have_lock \<Longrightarrow> w_programs w' = aggregate_tips_tables (w_programs w)"
proof -
  have "(w_programs w' = w_programs w \<or> w_programs w' = aggregate_tips_tables (w_programs w)) \<and>
    (r = Inr () \<longrightarrow> have_lock \<longrightarrow> w_programs w' = aggregate_tips_tables (w_programs w))"
  proof (cases have_lock)
    case True
    then have s: "session_scope (commit_tips commit) update_aggregate_tips_body w = (r, w')"
      using assms by (simp add: update_aggregate_tips_def init_task_and_acquire_lock_def)
    show ?thesis
    proof (cases r)
      case (Inl e)
      with s have "w_db w' = w_db w" by (auto dest: session_scope_InlD)
      with Inl show ?thesis by simp
    next
      case (Inr u)
      with s have "update_aggregate_tips_body w = (Inr u, w')" by (auto dest: session_scope_InrD)
      from body_run [OF this] show ?thesis by simp
    qed
  next
    case False
    with assms show ?thesis by (simp add: update_aggregate_tips_def init_task_and_acquire_lock_def py_return_def)
  qed
  then show "w_programs w' = w_programs w \<or> w_programs w' = aggregate_tips_tables (w_programs w)"
    and "r = Inr () \<Longrightarrow> have_lock \<Longrightarrow> w_programs w' = aggregate_tips_tables (w_programs w)" by blast+
qed

lemma step_tables:
  assumes "tips_step w w'"
  obtains (tip) t where "user_tips (w_programs w') = user_tips (w_programs w) @ [t]" "0 < tip_slot t"
      "tips_checkpoint (w_programs w) < tip_slot t" "tips_checkpoint (w_programs w') = tips_checkpoint (w_programs w)"
      "aggregate_user_tips (w_programs w') = aggregate_user_tips (w_programs w)"
      "aggregate_users (w_programs w') = aggregate_users (w_programs w)"
  | (run) "w_programs w' = aggregate_tips_tables (w_programs w)"
  | (other) "user_tips (w_programs w') = user_tips (w_programs w)"
      "tips_checkpoint (w_programs w') = tips_checkpoint (w_programs w)"
      "aggregate_user_tips (w_programs w') = aggregate_user_tips (w_programs w)"
      "aggregate_users (w_programs w') = aggregate_users (w_programs w)"
  using assms
proof cases
  case (tip t)
  then show thesis using that(1) [of t] by (simp add: tables_of_tips_def)
next
  case (run commit have_lock r)
  from task_result(1) [OF run] that(2,3) show thesis by auto
next
  case other
  then show thesis using that(3) by (simp add: tables_of_tips_def)
qed

lemma step_keeps_deficit:
  assumes "tips_step w w'" and "sums_ok (w_programs w)"
  shows "sums_ok (w_programs w') \<and> tip_deficit (w_programs w') s r = tip_deficit (w_programs w) s r"
  using assms(1)
proof (cases rule: step_tables)
  case (tip t)
  then show ?thesis using assms(2) by (simp add: sums_ok_def tip_deficit_def tip_total_def)
next
  case run
  with aggregate_keeps_deficit [OF assms(2)] show ?thesis by simp
next
  case other
  then show ?thesis using assms(2) by (simp add: sums_ok_def tip_deficit_def)
qed

lemma step_keeps_ok:
  assumes "tips_step w w'" and "tips_ok (w_programs w)"
  shows "tips_ok (w_programs w')"
  using assms(1)
proof (cases rule: step_tables)
  case (tip t)
  then have "counted_pairs (w_programs w') = counted_pairs (w_programs w)"
    by (auto simp: counted_pairs_def)
  with tip assms(2) show ?thesis by (simp add: tips_ok_def sums_ok_def counts_correct_def)
next
  case run
  with aggregate_keeps_ok [OF assms(2)] show ?thesis by simp
next
  case other
  then have "counted_pairs (w_programs w') = counted_pairs (w_programs w)"
    by (simp add: counted_pairs_def)
  with other assms(2) show ?thesis by (simp add: tips_ok_def sums_ok_def counts_correct_def)
qed

lemma steps_keep_deficit:
  assumes "tips_steps w w'" and "sums_ok (w_programs w)"
  shows "sums_ok (w_programs w') \<and> tip_deficit (w_programs w') s r = tip_deficit (w_programs w) s r"
  using assms
proof (induction rule: rtranclp_induct)
  case (step w1 w2)
  with step_keeps_deficit [OF step(2)] show ?case by simp
qed simp

lemma steps_keep_ok: "tips_steps w w' \<Longrightarrow> tips_ok (w_programs w) \<Longrightarrow> tips_ok (w_programs w')"
  by (induction rule: rtranclp_induct) (auto intro: step_keeps_ok)

text \<open>Before the first tip and the first update.\<close>

definition no_tips :: "program_tables \<Rightarrow> bool" where
  "no_tips p \<longleftrightarrow> user_tips p = [] \<and> aggregate_user_tips p = []"

lemma no_tips_ok:
  assumes "no_tips p"
  shows "tips_ok p" and "sums_ok p" and "tip_deficit p s r = 0"
  using assms by (auto simp: no_tips_def tips_ok_def sums_ok_def counts_correct_def counted_pairs_def tip_deficit_def tip_total_def)

lemma max_tip_slot_total:
  "user_tips p \<noteq> [] \<Longrightarrow> tips_checkpoint p = max_tip_slot (user_tips p) \<Longrightarrow>
    tip_total (user_tips p) s r (tips_checkpoint p) = sum_list (map tip_amount (filter (\<lambda>t. tip_pair t = (s, r)) (user_tips p)))"
  unfolding tip_total_def using max_tip_slot_ge
  by (intro arg_cong [where f = "\<lambda>xs. sum_list (map tip_amount xs)"] filter_cong) auto

lemma checkpoint_after:
  assumes "tips_ok p" and "user_tips p \<noteq> []"
  shows "tips_checkpoint (aggregate_tips_tables p) = max_tip_slot (user_tips p) \<and>
    user_tips (aggregate_tips_tables p) = user_tips p"
proof -
  have "\<forall>t\<in>set (user_tips p). 0 < tip_slot t" using assms(1) by (auto simp: tips_ok_def sums_ok_def)
  then show ?thesis
  proof (cases rule: aggregate_cases)
    case same
    with assms(2) show ?thesis by simp
  next
    case (update rows)
    then show ?thesis by simp
  qed
qed


text \<open>
  A tip that arrives late is never counted: when a tip is stored whose slot is not above the
  checkpoint, as when the tips of a slot are stored in two batches with a run of the task between
  them, every later total of its two users lacks its amount.
\<close>

theorem late_tip_never_counted:
  assumes "no_tips (w_programs w0)" and "tips_steps w0 w"
    and "0 < tip_slot t" and "tip_slot t \<le> tips_checkpoint (w_programs w)"
    and "tips_steps (update_programs (\<lambda>p. p\<lparr>user_tips := user_tips p @ [t]\<rparr>) w) w'"
  shows "agg_amount (aggregate_user_tips (w_programs w')) (tip_sender_user_id t) (tip_receiver_user_id t) =
    tip_total (user_tips (w_programs w')) (tip_sender_user_id t) (tip_receiver_user_id t)
      (tips_checkpoint (w_programs w')) - tip_amount t"
proof -
  let ?p = "w_programs w" and ?s = "tip_sender_user_id t" and ?r = "tip_receiver_user_id t"
  define q where "q = update_programs (\<lambda>p. p\<lparr>user_tips := user_tips p @ [t]\<rparr>) w"
  have q: "user_tips (w_programs q) = user_tips ?p @ [t]" "aggregate_user_tips (w_programs q) = aggregate_user_tips ?p"
    "tips_checkpoint (w_programs q) = tips_checkpoint ?p"
    by (simp_all add: q_def get_last_indexed_checkpoint_def)
  have ok: "sums_ok ?p" and zero: "tip_deficit ?p ?s ?r = 0"
    using steps_keep_deficit [OF assms(2) no_tips_ok(2) [OF assms(1)]] no_tips_ok(3) [OF assms(1)] by simp_all
  have ok': "sums_ok (w_programs q)" using ok assms(3) by (simp add: sums_ok_def q)
  have "tip_deficit (w_programs q) ?s ?r = tip_amount t"
    using zero assms(4) by (simp add: tip_deficit_def tip_total_def q)
  with steps_keep_deficit [OF assms(5) [folded q_def] ok', of ?s ?r]
  have "tip_deficit (w_programs w') ?s ?r = tip_amount t" by simp
  then show ?thesis by (simp add: tip_deficit_def)
qed

section \<open>The leaderboard\<close>

definition on_leaderboard :: "aggregate_tip_row list \<Rightarrow> int \<Rightarrow> int \<Rightarrow> nat \<Rightarrow> bool" where
  "on_leaderboard rows s r k \<longleftrightarrow> k \<le> LEADERBOARD_SIZE \<and> (\<exists>x\<in>set rows. at_pair x = (s, r) \<and> rank_of rows x = k)"

lemma groupby_run:
  "xs \<noteq> [] \<Longrightarrow> (\<And>x. x \<in> set xs \<Longrightarrow> key x = k) \<Longrightarrow> (ys = [] \<or> key (hd ys) \<noteq> k) \<Longrightarrow>
    groupby key (xs @ ys) = (k, xs) # groupby key ys"
proof (induction xs)
  case (Cons x xs)
  show ?case
  proof (cases xs)
    case Nil
    show ?thesis
    proof (cases ys)
      case (Cons y ys')
      have "groupby key ys \<noteq> [] \<and> fst (hd (groupby key ys)) = key y"
        unfolding Cons by (auto split: list.split)
      with Nil Cons \<open>ys = [] \<or> key (hd ys) \<noteq> k\<close> \<open>\<And>z. z \<in> set (x # xs) \<Longrightarrow> key z = k\<close>
      show ?thesis by (cases "groupby key ys") auto
    qed (use Nil Cons.prems in simp)
  next
    case (Cons z zs)
    then have "groupby key (xs @ ys) = (k, xs) # groupby key ys"
      using Cons.IH Cons.prems by simp
    with Cons.prems show ?thesis by simp
  qed
qed simp

lemma groupby_concat:
  "distinct rs \<Longrightarrow> (\<And>r x. r \<in> set rs \<Longrightarrow> x \<in> set (f r) \<Longrightarrow> key x = r) \<Longrightarrow>
    groupby key (concat (map f rs)) = map (\<lambda>r. (r, f r)) (filter (\<lambda>r. f r \<noteq> []) rs)"
proof (induction rs)
  case (Cons r rs)
  let ?rest = "concat (map f rs)"
  have IH: "groupby key ?rest = map (\<lambda>r. (r, f r)) (filter (\<lambda>r. f r \<noteq> []) rs)"
    using Cons by simp
  show ?case
  proof (cases "f r = []")
    case False
    have "?rest = [] \<or> key (hd ?rest) \<noteq> r"
    proof (cases "?rest = []")
      case nonempty: False
      then have "hd ?rest \<in> set ?rest" by (rule hd_in_set)
      then obtain q where "q \<in> set rs" "hd ?rest \<in> set (f q)" by auto
      then have "key (hd ?rest) = q" using Cons.prems(2) by simp
      with \<open>q \<in> set rs\<close> Cons.prems(1) show ?thesis by auto
    qed simp
    with groupby_run [OF False, of key r ?rest] Cons.prems(2) False IH show ?thesis by simp
  qed (simp add: IH)
qed simp

lemma dict_of_graph: "dict_of (map (\<lambda>r. (r, h r)) rs) r = (if r \<in> set rs then Some (h r) else None)"
  by (simp add: dict_of_def rev_map map_of_map_restrict restrict_map_def)

lemma dict_of_unique:
  "distinct (map fst kvs) \<Longrightarrow> dict_of kvs k = Some v \<longleftrightarrow> (k, v) \<in> set kvs"
  by (simp add: dict_of_def map_of_eq_Some_iff rev_map [symmetric])

text \<open>One partition of the ranks.\<close>

definition receiver_ranks :: "aggregate_tip_row list \<Rightarrow> int \<Rightarrow> tip_rank list" where
  "receiver_ranks rows receiver =
     sort_key tr_place (filter (\<lambda>k. tr_place k \<le> LEADERBOARD_SIZE)
       (map (\<lambda>x. \<lparr>tr_place = rank_of rows x, tr_sender = at_sender_user_id x, tr_receiver = receiver\<rparr>)
         (filter (\<lambda>x. at_receiver_user_id x = receiver) rows)))"

lemma get_ranks_partitions:
  "get_ranks a b p = concat (map (receiver_ranks (aggregate_user_tips p))
     (remdups (map tip_receiver_user_id (recent_tips a b (user_tips p)))))"
  by (simp add: get_ranks_def receiver_ranks_def [abs_def])

lemma receiver_ranks_iff:
  "x \<in> set (receiver_ranks rows r) \<longleftrightarrow> tr_receiver x = r \<and> on_leaderboard rows (tr_sender x) r (tr_place x)"
proof -
  have "x \<in> set (receiver_ranks rows r) \<longleftrightarrow> tr_place x \<le> LEADERBOARD_SIZE \<and>
      (\<exists>q\<in>set rows. at_receiver_user_id q = r \<and>
        x = \<lparr>tr_place = rank_of rows q, tr_sender = at_sender_user_id q, tr_receiver = r\<rparr>)"
    by (auto simp: receiver_ranks_def)
  also have "\<dots> \<longleftrightarrow> tr_receiver x = r \<and> on_leaderboard rows (tr_sender x) r (tr_place x)"
    unfolding on_leaderboard_def by (cases x) (simp, metis)
  finally show ?thesis .
qed

lemma receiver_ranks_distinct:
  assumes "distinct (map at_pair rows)"
  shows "distinct (map tr_sender (receiver_ranks rows r))"
proof -
  let ?mk = "\<lambda>x. \<lparr>tr_place = rank_of rows x, tr_sender = at_sender_user_id x, tr_receiver = r\<rparr>"
  let ?xs = "filter (\<lambda>x. at_receiver_user_id x = r) rows"
  have d: "distinct (map at_sender_user_id ?xs)"
    using assms by (induction rows) auto
  have "distinct (map tr_sender (map ?mk ?xs))" using d by (simp add: comp_def)
  then have "distinct (map tr_sender (filter (\<lambda>k. tr_place k \<le> LEADERBOARD_SIZE) (map ?mk ?xs)))"
    by (rule distinct_map_filter)
  then show ?thesis by (simp add: receiver_ranks_def distinct_map)
qed

lemma grouped_ranks_lookup:
  assumes "distinct (map at_pair (aggregate_user_tips p))"
    and "r \<in> tip_receiver_user_id ` set (recent_tips a b (user_tips p))"
  shows "ranked_up (grouped_ranks (get_ranks a b p)) \<lparr>tr_place = k, tr_sender = s, tr_receiver = r\<rparr> \<longleftrightarrow>
    \<not> (\<exists>j\<le>k. on_leaderboard (aggregate_user_tips p) s r j)"
proof -
  let ?f = "receiver_ranks (aggregate_user_tips p)"
    and ?rs = "remdups (map tip_receiver_user_id (recent_tips a b (user_tips p)))"
  let ?in = "\<lambda>r. dict_of (map (\<lambda>x. (tr_sender x, tr_place x)) (?f r))"
  have "groupby tr_receiver (get_ranks a b p) = map (\<lambda>r. (r, ?f r)) (filter (\<lambda>r. ?f r \<noteq> []) ?rs)"
    unfolding get_ranks_partitions by (rule groupby_concat) (simp_all add: receiver_ranks_iff)
  then have "grouped_ranks (get_ranks a b p) r = (if ?f r \<noteq> [] then Some (?in r) else None)"
    using assms(2) dict_of_graph [of ?in "filter (\<lambda>r. ?f r \<noteq> []) ?rs" r]
    by (simp add: grouped_ranks_def comp_def)
  moreover have inner: "?in r s = Some j \<longleftrightarrow> on_leaderboard (aggregate_user_tips p) s r j" for j
  proof -
    have "distinct (map fst (map (\<lambda>x. (tr_sender x, tr_place x)) (?f r)))"
      using receiver_ranks_distinct [OF assms(1), of r] by (simp add: comp_def)
    then have "?in r s = Some j \<longleftrightarrow> (s, j) \<in> set (map (\<lambda>x. (tr_sender x, tr_place x)) (?f r))"
      by (rule dict_of_unique)
    also have "\<dots> \<longleftrightarrow> on_leaderboard (aggregate_user_tips p) s r j"
    proof
      assume "on_leaderboard (aggregate_user_tips p) s r j"
      then have "\<lparr>tr_place = j, tr_sender = s, tr_receiver = r\<rparr> \<in> set (?f r)" by (simp add: receiver_ranks_iff)
      then show "(s, j) \<in> set (map (\<lambda>x. (tr_sender x, tr_place x)) (?f r))" by force
    qed (auto simp: receiver_ranks_iff)
    finally show ?thesis .
  qed
  moreover have "?f r = [] \<Longrightarrow> \<not> on_leaderboard (aggregate_user_tips p) s r j" for j
    using receiver_ranks_iff [of "\<lparr>tr_place = j, tr_sender = s, tr_receiver = r\<rparr>" "aggregate_user_tips p" r] by simp
  ultimately show ?thesis
    by (cases "?f r = []"; cases "?in r s") (auto simp: ranked_up_def not_less inner [symmetric])
qed

text \<open>
  C16. The leaderboard moves are exactly the improvements: when the task counts new tips, it records
  a rank-up at the new checkpoint for a supporter of a user who received one of them exactly when
  the supporter is now among the first five ranks and was not on this or a better rank before.
\<close>

theorem rank_up_iff:
  assumes "distinct (map at_pair (aggregate_user_tips p))" and "0 < max_tip_slot (user_tips p)"
    and "tips_checkpoint p \<noteq> max_tip_slot (user_tips p)"
  shows "\<exists>new. supporter_rank_ups (aggregate_tips_tables p) = supporter_rank_ups p @ new \<and>
    (\<forall>slot s r k. \<lparr>ru_slot = slot, ru_sender_user_id = s, ru_receiver_user_id = r, ru_rank = int k\<rparr> \<in> set new \<longleftrightarrow>
       slot = max_tip_slot (user_tips p) \<and>
       r \<in> tip_receiver_user_id ` set (recent_tips (tips_checkpoint p) (max_tip_slot (user_tips p)) (user_tips p)) \<and>
       on_leaderboard (aggregate_user_tips (aggregate_tips_tables p)) s r k \<and>
       \<not> (\<exists>j\<le>k. on_leaderboard (aggregate_user_tips p) s r j))"
proof -
  let ?prev = "tips_checkpoint p" and ?max = "max_tip_slot (user_tips p)"
  let ?q = "save_indexed_checkpoint AGGREGATE_TIPS ?max (UPDATE_AGGREGATE_USER_TIPS_QUERY ?prev ?max p)"
  let ?R = "tip_receiver_user_id ` set (recent_tips ?prev ?max (user_tips p))"
  let ?up = "filter (ranked_up (grouped_ranks (get_ranks ?prev ?max p))) (get_ranks ?prev ?max ?q)"
  let ?row = "\<lambda>x. \<lparr>ru_slot = ?max, ru_sender_user_id = tr_sender x, ru_receiver_user_id = tr_receiver x,
    ru_rank = int (tr_place x)\<rparr>"
  have t: "aggregate_tips_tables p = index_rank_ups (get_ranks ?prev ?max p) (get_ranks ?prev ?max ?q) ?max ?q"
    using assms(2,3) by (auto simp: aggregate_tips_tables_def update_aggregate_table_def Let_def)
  have ups: "supporter_rank_ups ?q = supporter_rank_ups p"
    by (simp add: save_indexed_checkpoint_def UPDATE_AGGREGATE_USER_TIPS_QUERY_def Let_def)
  have agg: "aggregate_user_tips (aggregate_tips_tables p) = aggregate_user_tips ?q" by (simp add: t)
  have after: "x \<in> set (get_ranks ?prev ?max ?q) \<longleftrightarrow>
      tr_receiver x \<in> ?R \<and> on_leaderboard (aggregate_user_tips ?q) (tr_sender x) (tr_receiver x) (tr_place x)" for x
    by (auto simp: get_ranks_partitions receiver_ranks_iff)
  have mem: "\<lparr>ru_slot = slot, ru_sender_user_id = s, ru_receiver_user_id = r, ru_rank = int k\<rparr> \<in> set (map ?row ?up) \<longleftrightarrow>
      slot = ?max \<and> \<lparr>tr_place = k, tr_sender = s, tr_receiver = r\<rparr> \<in> set ?up" for slot s r k
  proof -
    have "\<lparr>ru_slot = slot, ru_sender_user_id = s, ru_receiver_user_id = r, ru_rank = int k\<rparr> = ?row x \<longleftrightarrow>
        slot = ?max \<and> x = \<lparr>tr_place = k, tr_sender = s, tr_receiver = r\<rparr>" for x by (cases x) auto
    then show ?thesis by (auto simp: image_iff)
  qed
  have "supporter_rank_ups (aggregate_tips_tables p) = supporter_rank_ups p @ map ?row ?up"
    by (simp add: t index_rank_ups_def ups)
  moreover have "\<lparr>tr_place = k, tr_sender = s, tr_receiver = r\<rparr> \<in> set ?up \<longleftrightarrow>
      r \<in> ?R \<and> on_leaderboard (aggregate_user_tips ?q) s r k \<and>
      \<not> (\<exists>j\<le>k. on_leaderboard (aggregate_user_tips p) s r j)" for s r k
    using grouped_ranks_lookup [OF assms(1), of r ?prev ?max k s]
      after [of "\<lparr>tr_place = k, tr_sender = s, tr_receiver = r\<rparr>"] by auto
  ultimately show ?thesis
    unfolding agg by (intro exI [of _ "map ?row ?up"]) (simp only: mem simp_thms)
qed

text \<open>Examples: user 1 tipped user 2 with 30 in slot 7; then user 3 tips with 50 in slot 9.\<close>

definition ex_tip :: "int \<Rightarrow> int \<Rightarrow> tip_row" where
  "ex_tip sender slot = \<lparr>tip_signature = ''x'', tip_amount = 30 + 10 * (slot - 7), tip_sender_user_id = sender,
     tip_receiver_user_id = 2, tip_slot = slot, tip_created_at = 100\<rparr>"

definition ex_tips_world :: world where
  "ex_tips_world = update_programs (\<lambda>p. p\<lparr>user_tips := [ex_tip 1 7]\<rparr>) empty_world"

definition ex_tips_tables :: program_tables where
  "ex_tips_tables = empty_programs\<lparr>user_tips := [ex_tip 1 7, ex_tip 3 9],
     aggregate_user_tips := [\<lparr>at_sender_user_id = 1, at_receiver_user_id = 2, at_amount = 30\<rparr>],
     indexing_checkpoints := [\<lparr>cp_tablename = AGGREGATE_TIPS, cp_last_checkpoint = 7\<rparr>]\<rparr>"

lemma ex_no_tips: "no_tips (w_programs empty_world)"
  by (simp add: no_tips_def empty_world_def empty_db_def empty_programs_def)

lemma ex_tips_steps: "tips_steps empty_world ex_tips_world"
proof (rule r_into_rtranclp, rule tip)
  show "user_tips (w_programs ex_tips_world) = user_tips (w_programs empty_world) @ [ex_tip 1 7]"
    by (simp add: ex_tips_world_def empty_world_def empty_db_def empty_programs_def)
  show "snd (tables_of_tips ex_tips_world) = snd (tables_of_tips empty_world)"
    by (simp add: ex_tips_world_def tables_of_tips_def empty_world_def empty_db_def empty_programs_def
        get_last_indexed_checkpoint_def)
  show "0 < tip_slot (ex_tip 1 7)" by (simp add: ex_tip_def)
  show "tips_checkpoint (w_programs empty_world) < tip_slot (ex_tip 1 7)"
    by (simp add: ex_tip_def empty_world_def empty_db_def empty_programs_def get_last_indexed_checkpoint_def)
qed

lemma ex_tips_task: "\<exists>w'. update_aggregate_tips (\<lambda>d. None) True ex_tips_world = (Inr (), w')"
proof -
  have "distinct (map (\<lambda>r. (ru_slot r, ru_sender_user_id r, ru_receiver_user_id r))
      (supporter_rank_ups (aggregate_tips_tables (w_programs ex_tips_world))))"
    by code_simp
  then show ?thesis
    by (simp add: update_aggregate_tips_def init_task_and_acquire_lock_def session_scope_def
        update_aggregate_tips_body_def py_defs commit_tips_def)
qed


theorem late_tip_never_counted_witness:
  "\<exists>w w'. update_aggregate_tips (\<lambda>d. None) True ex_tips_world = (Inr (), w) \<and>
    w' = update_programs (\<lambda>p. p\<lparr>user_tips := user_tips p @ [ex_tip 1 7]\<rparr>) w \<and>
    agg_amount (aggregate_user_tips (w_programs w')) 1 2 =
      tip_total (user_tips (w_programs w')) 1 2 (tips_checkpoint (w_programs w')) - 30"
proof -
  obtain w where run: "update_aggregate_tips (\<lambda>d. None) True ex_tips_world = (Inr (), w)"
    using ex_tips_task by blast
  then have "tips_step ex_tips_world w" by (rule tips_step.run)
  with ex_tips_steps have steps: "tips_steps empty_world w" by (rule rtranclp.rtrancl_into_rtrancl)
  have w: "w_programs w = aggregate_tips_tables (w_programs ex_tips_world)"
    using task_result(2) [OF run] by simp
  have chk: "tips_checkpoint (aggregate_tips_tables (w_programs ex_tips_world)) = 7" by code_simp
  have pos: "0 < tip_slot (ex_tip 1 7)" and late: "tip_slot (ex_tip 1 7) \<le> tips_checkpoint (w_programs w)"
    by (simp_all add: ex_tip_def w chk)
  from late_tip_never_counted [OF ex_no_tips steps pos late rtranclp.rtrancl_refl] run show ?thesis
    by (intro exI conjI) (auto simp: ex_tip_def)
qed

theorem rank_up_iff_witness:
  "\<exists>new. supporter_rank_ups (aggregate_tips_tables ex_tips_tables) = supporter_rank_ups ex_tips_tables @ new \<and>
    \<lparr>ru_slot = 9, ru_sender_user_id = 3, ru_receiver_user_id = 2, ru_rank = int 1\<rparr> \<in> set new"
proof -
  have d: "distinct (map at_pair (aggregate_user_tips ex_tips_tables))"
    and pos: "0 < max_tip_slot (user_tips ex_tips_tables)"
    and chk: "tips_checkpoint ex_tips_tables \<noteq> max_tip_slot (user_tips ex_tips_tables)"
    by code_simp+
  have m: "max_tip_slot (user_tips ex_tips_tables) = 9" by code_simp
  have agg: "aggregate_user_tips (aggregate_tips_tables ex_tips_tables) =
      [\<lparr>at_sender_user_id = 1, at_receiver_user_id = 2, at_amount = 30\<rparr>,
       \<lparr>at_sender_user_id = 3, at_receiver_user_id = 2, at_amount = 50\<rparr>]" by code_simp
  have now: "on_leaderboard (aggregate_user_tips (aggregate_tips_tables ex_tips_tables)) 3 2 1"
    by (simp add: agg on_leaderboard_def rank_of_def sql_count_def LEADERBOARD_SIZE_def)
  have before: "\<not> on_leaderboard (aggregate_user_tips ex_tips_tables) 3 2 j" for j
    by (simp add: on_leaderboard_def ex_tips_tables_def)
  have "2 \<in> tip_receiver_user_id ` set (recent_tips (tips_checkpoint ex_tips_tables) 9 (user_tips ex_tips_tables))"
    by code_simp
  with rank_up_iff [OF d pos chk] now before show ?thesis unfolding m by (metis (no_types, lifting))
qed

end
