(* ===== verification/Eth_Scanner.thy ===== *)
theory Eth_Scanner
  imports Python_Numbers Solana_Client Users
begin

text \<open>
  eth_indexing/event_scanner.py and tasks/index_eth.py: the scan of the Ethereum chain for transfers
  of the token. The blocks are read in chunks whose size follows the number of events, a failing
  request is repeated with half the range, and the last scanned block is saved after each chunk, in
  Redis and in the table \<open>eth_blocks\<close>. A transfer puts the users of its wallets into the queue of
  balances to refresh.
\<close>

section \<open>Configuration and state\<close>

record transfer_event =
  te_logIndex :: "int option"
  te_transactionHash :: string
  te_blockNumber :: int
  te_from :: string
  te_to :: string
  te_value :: int

text \<open>
  The Ethereum node: the number of its latest block when the scanner is made, the answer to the
  request number \<open>i\<close> for the logs of a range of blocks, and the time of a block (None when the
  block is not found).
\<close>

record scanner_services =
  sc_block_number :: int
  sc_get_logs :: "int \<Rightarrow> int \<Rightarrow> nat \<Rightarrow> exc + transfer_event list"
  sc_get_block :: "int \<Rightarrow> exc + int option"
  sc_commit :: "db \<Rightarrow> exc option"
  sc_end_time :: int

definition eth_indexing_last_scanned_block_key :: string where
  "eth_indexing_last_scanned_block_key = ''eth_indexing_last_scanned_block_2''"

definition index_eth_last_completion_redis_key :: string where
  "index_eth_last_completion_redis_key = ''index_eth:last-completion''"

definition MAX_REQUEST_RETRIES :: nat where "MAX_REQUEST_RETRIES = 30"

definition MIN_SCAN_CHUNK_SIZE :: int where "MIN_SCAN_CHUNK_SIZE = 10"

definition MAX_CHUNK_SCAN_SIZE :: int where "MAX_CHUNK_SCAN_SIZE = 10000"

definition CHUNK_SIZE_INCREASE :: int where "CHUNK_SIZE_INCREASE = 2"

definition START_CHUNK_SIZE :: int where "START_CHUNK_SIZE = 20"

definition ETH_BLOCK_TAIL_OFFSET :: int where "ETH_BLOCK_TAIL_OFFSET = 1"

definition MIN_SCAN_START_BLOCK :: int where "MIN_SCAN_START_BLOCK = 11103292"

definition CHAIN_REORG_SAFETY_BLOCKS :: int where "CHAIN_REORG_SAFETY_BLOCKS = 10"

text \<open>The state: the world and the attribute \<open>last_scanned_block\<close>.\<close>

record scanner_state =
  ss_world :: world
  ss_last_scanned_block :: int

text \<open>A step that only touches the world.\<close>

definition on_scanner :: "(world, 'a) py \<Rightarrow> (scanner_state, 'a) py" where
  "on_scanner m s = (case m (ss_world s) of (r, w) \<Rightarrow> (r, s\<lparr>ss_world := w\<rparr>))"

section \<open>The scanner\<close>

definition get_suggested_scan_end_block :: "scanner_services \<Rightarrow> int" where
  "get_suggested_scan_end_block sv = sc_block_number sv - ETH_BLOCK_TAIL_OFFSET"

text \<open>
  \<open>restore\<close>: the value of Redis, else the row of the database; an empty or zero value gives the
  first block.
\<close>

definition restored_block :: "world \<Rightarrow> exc + int" where
  "restored_block w =
     (case redis_get eth_indexing_last_scanned_block_key w of
        Some (JStr (c # cs)) \<Rightarrow> py_int (c # cs)
      | _ \<Rightarrow> (case eth_blocks (w_programs w) of
                [] \<Rightarrow> Inr MIN_SCAN_START_BLOCK
              | b # bs \<Rightarrow> Inr (if b = 0 then MIN_SCAN_START_BLOCK else b)))"

definition restore :: "(scanner_state, unit) py" where
  "restore =
     py_bind (py_gets (\<lambda>s. restored_block (ss_world s))) (\<lambda>r.
     py_bind (py_lift r) (\<lambda>b. py_modify (\<lambda>s. s\<lparr>ss_last_scanned_block := b\<rparr>)))"

definition store_eth_block :: "int \<Rightarrow> program_tables \<Rightarrow> program_tables" where
  "store_eth_block n p = p\<lparr>eth_blocks := (case eth_blocks p of [] \<Rightarrow> [n] | b # bs \<Rightarrow> n # bs)\<rparr>"

definition save :: "scanner_services \<Rightarrow> int \<Rightarrow> (scanner_state, unit) py" where
  "save sv block_number =
     py_seq (py_modify (\<lambda>s. s\<lparr>ss_last_scanned_block := block_number\<rparr>))
    (py_seq (on_scanner (py_modify (redis_set eth_indexing_last_scanned_block_key (JStr (str_int block_number)))))
       (on_scanner (session_scope (sc_commit sv) (py_modify (update_programs (store_eth_block block_number))))))"

text \<open>The users a transfer concerns.\<close>

definition transfer_wallets :: "transfer_event \<Rightarrow> string list" where
  "transfer_wallets ev = [te_from ev, te_to ev, str_lower (te_from ev), str_lower (te_to ev)]"

definition transfer_users :: "db \<Rightarrow> transfer_event \<Rightarrow> int list" where
  "transfer_users d ev = remdups
     (map us_user_id (filter (\<lambda>u. us_is_current u \<and> us_wallet u \<in> Some ` set (transfer_wallets ev)) (users d)) @
      map aw_user_id (filter (\<lambda>a. aw_is_current a \<and> \<not> aw_is_delete a \<and> aw_wallet a \<in> set (transfer_wallets ev))
        (associated_wallets d)))"

definition process_event :: "int \<Rightarrow> transfer_event \<Rightarrow> (world, string) py" where
  "process_event log_index ev =
     py_bind (py_gets (\<lambda>w. transfer_users (w_db w) ev)) (\<lambda>user_ids.
     py_seq (if user_ids = [] then py_return () else py_modify (enqueue_immediate_balance_refresh user_ids))
       (py_return (str_int (te_blockNumber ev) @ ''-'' @ te_transactionHash ev @ ''-'' @ str_int log_index)))"

text \<open>
  \<open>_retry_web3_call\<close>: \<open>retries\<close> more attempts, this one with number \<open>i\<close>; the last exception is raised.
\<close>

fun retry_web3_call ::
  "(int \<Rightarrow> int \<Rightarrow> nat \<Rightarrow> exc + 'a) \<Rightarrow> int \<Rightarrow> int \<Rightarrow> nat \<Rightarrow> nat \<Rightarrow> exc + (int \<times> 'a)" where
  "retry_web3_call func start_block end_block 0 i = Inl (TypeError ''cannot unpack non-iterable NoneType object'')"
| "retry_web3_call func start_block end_block (Suc retries) i =
     (case func start_block end_block i of
        Inr x \<Rightarrow> Inr (end_block, x)
      | Inl e \<Rightarrow>
          if retries = 0 then Inl e
          else retry_web3_call func start_block (start_block + (end_block - start_block) div 2) retries (Suc i))"

definition scan_event :: "scanner_services \<Rightarrow> transfer_event \<Rightarrow> string list \<Rightarrow> (world, string list) py" where
  "scan_event sv evt all_processed =
     (case te_logIndex evt of
        None \<Rightarrow> py_raise (AssertionError ''Somehow tried to scan a pending block'')
      | Some idx \<Rightarrow>
          py_bind (py_lift (sc_get_block sv (te_blockNumber evt))) (\<lambda>block_timestamp.
          py_bind (process_event idx evt) (\<lambda>processed. py_return (all_processed @ [processed]))))"

definition scan_chunk :: "scanner_services \<Rightarrow> int \<Rightarrow> int \<Rightarrow> (world, int \<times> string list) py" where
  "scan_chunk sv start_block end_block =
     py_bind (py_lift (retry_web3_call (sc_get_logs sv) start_block end_block MAX_REQUEST_RETRIES 0))
       (\<lambda>(end_block, events).
     py_bind (py_for (scan_event sv) events []) (\<lambda>all_processed. py_return (end_block, all_processed)))"

definition estimate_next_chunk_size :: "int \<Rightarrow> nat \<Rightarrow> int" where
  "estimate_next_chunk_size current_chunk_size event_found_count =
     (let size = (if event_found_count > 0 then MIN_SCAN_CHUNK_SIZE else current_chunk_size * CHUNK_SIZE_INCREASE)
      in min MAX_CHUNK_SCAN_SIZE (max MIN_SCAN_CHUNK_SIZE size))"

text \<open>One pass through the loop: the end of the chunk and what was processed.\<close>

definition scan_step :: "scanner_services \<Rightarrow> int \<Rightarrow> int \<Rightarrow> (scanner_state, int \<times> string list) py" where
  "scan_step sv current_block chunk_size =
     (let estimated_end_block = min (current_block + chunk_size) (get_suggested_scan_end_block sv) in
      py_bind (on_scanner (scan_chunk sv current_block estimated_end_block)) (\<lambda>(current_end, new_entries).
      py_seq (save sv (min current_end (get_suggested_scan_end_block sv)))
        (py_return (current_end, new_entries))))"

text \<open>The loop \<open>while current_block <= end_block\<close>; None is a scan that does not end.\<close>

partial_function (option) scan_loop ::
  "scanner_services \<Rightarrow> int \<Rightarrow> int \<Rightarrow> int \<Rightarrow> string list \<Rightarrow> nat \<Rightarrow> scanner_state \<Rightarrow>
    ((exc + string list \<times> nat) \<times> scanner_state) option" where
  "scan_loop sv end_block current_block chunk_size all_processed total_chunks s =
     (if current_block \<le> end_block then
        (case scan_step sv current_block chunk_size s of
           (Inl e, s') \<Rightarrow> Some (Inl e, s')
         | (Inr (current_end, new_entries), s') \<Rightarrow>
             scan_loop sv end_block (current_end + 1)
               (estimate_next_chunk_size chunk_size (length new_entries))
               (all_processed @ new_entries) (Suc total_chunks) s')
      else Some (Inr (all_processed, total_chunks), s))"

declare scan_loop.simps [code]

definition scan ::
  "scanner_services \<Rightarrow> int \<Rightarrow> int \<Rightarrow> scanner_state \<Rightarrow> ((exc + string list \<times> nat) \<times> scanner_state) option" where
  "scan sv start_block end_block s = scan_loop sv end_block start_block START_CHUNK_SIZE [] 0 s"

section \<open>The task\<close>

definition index_eth_transfer_events :: "scanner_services \<Rightarrow> scanner_state \<Rightarrow> ((exc + unit) \<times> scanner_state) option" where
  "index_eth_transfer_events sv s =
     (case restore s of
        (Inl e, s1) \<Rightarrow> Some (Inl e, s1)
      | (Inr u, s1) \<Rightarrow>
          (let since_block = ss_last_scanned_block s1 - CHAIN_REORG_SAFETY_BLOCKS;
               start_block = max since_block 0;
               end_block = get_suggested_scan_end_block sv
           in if start_block > end_block then Some (Inr (), s1)
              else case scan sv start_block end_block s1 of
                None \<Rightarrow> None
              | Some (Inl e, s2) \<Rightarrow> Some (Inl e, s2)
              | Some (Inr res, s2) \<Rightarrow> Some (save sv end_block s2)))"

text \<open>A task makes a new scanner, whose last scanned block is the first block.\<close>

definition index_eth :: "scanner_services \<Rightarrow> bool \<Rightarrow> world \<Rightarrow> ((exc + unit) \<times> world) option" where
  "index_eth sv have_lock w =
     (if have_lock then
        (case index_eth_transfer_events sv \<lparr>ss_world = w, ss_last_scanned_block = MIN_SCAN_START_BLOCK\<rparr> of
           None \<Rightarrow> None
         | Some (Inl e, s) \<Rightarrow> Some (Inl e, ss_world s)
         | Some (Inr u, s) \<Rightarrow> Some (Inr (), redis_set index_eth_last_completion_redis_key (JInt (sc_end_time sv)) (ss_world s)))
      else Some (Inr (), w))"

section \<open>Chunks and requests\<close>

lemma chunk_size_bounds:
  "MIN_SCAN_CHUNK_SIZE \<le> estimate_next_chunk_size c n" "estimate_next_chunk_size c n \<le> MAX_CHUNK_SCAN_SIZE"
  by (auto simp: estimate_next_chunk_size_def MIN_SCAN_CHUNK_SIZE_def MAX_CHUNK_SCAN_SIZE_def Let_def)

lemma retry_Inr:
  "retry_web3_call f a b n i = Inr (e, x) \<Longrightarrow> a \<le> b \<Longrightarrow> a \<le> e \<and> e \<le> b \<and> (\<exists>j. f a e j = Inr x)"
proof (induction n arbitrary: b i)
  case (Suc n)
  show ?case
  proof (cases "f a b i")
    case (Inl err)
    have half: "a \<le> a + (b - a) div 2" "a + (b - a) div 2 \<le> b" using Suc.prems(2) by auto
    from Suc.prems(1) Inl have "retry_web3_call f a (a + (b - a) div 2) n (Suc i) = Inr (e, x)"
      by (cases "n = 0") auto
    from Suc.IH [OF this half(1)] half(2) show ?thesis by auto
  next
    case (Inr y)
    with Suc.prems show ?thesis by auto
  qed
qed simp

section \<open>What a scan leaves alone\<close>

text \<open>The users and wallets stay, and the queue of balances to refresh grows.\<close>

definition scan_frame :: "world \<Rightarrow> world \<Rightarrow> bool" where
  "scan_frame w w' \<longleftrightarrow> users (w_db w') = users (w_db w) \<and>
     associated_wallets (w_db w') = associated_wallets (w_db w) \<and>
     set (r_immediate_refresh (w_redis w)) \<subseteq> set (r_immediate_refresh (w_redis w'))"

lemma scan_frame_refl [simp]: "scan_frame w w"
  by (simp add: scan_frame_def)

lemma scan_frame_trans: "scan_frame w w1 \<Longrightarrow> scan_frame w1 w2 \<Longrightarrow> scan_frame w w2"
  unfolding scan_frame_def by (metis subset_trans)

lemma scan_frame_users: "scan_frame w w' \<Longrightarrow> transfer_users (w_db w') ev = transfer_users (w_db w) ev"
  by (simp add: scan_frame_def transfer_users_def)

text \<open>All users of the given transfers are in the queue.\<close>

definition enqueued :: "world \<Rightarrow> transfer_event set \<Rightarrow> bool" where
  "enqueued w evs \<longleftrightarrow> (\<forall>e\<in>evs. set (transfer_users (w_db w) e) \<subseteq> set (r_immediate_refresh (w_redis w)))"

lemma enqueued_Un [simp]: "enqueued w (A \<union> B) \<longleftrightarrow> enqueued w A \<and> enqueued w B"
  by (auto simp: enqueued_def)

lemma enqueued_empty [simp]: "enqueued w {}"
  by (simp add: enqueued_def)

lemma enqueued_mono: "scan_frame w w' \<Longrightarrow> enqueued w A \<Longrightarrow> enqueued w' A"
  unfolding enqueued_def by (auto simp: scan_frame_users) (auto simp: scan_frame_def)

lemma enqueued_subset: "enqueued w B \<Longrightarrow> A \<subseteq> B \<Longrightarrow> enqueued w A"
  by (auto simp: enqueued_def)

lemma fold_insert_set: "set (fold List.insert xs ys) = set xs \<union> set ys"
  by (induction xs arbitrary: ys) auto

lemma refresh_redis [simp]:
  "set (r_immediate_refresh (w_redis (enqueue_immediate_balance_refresh us w))) =
    set us \<union> set (r_immediate_refresh (w_redis w))"
  "redis_get k (enqueue_immediate_balance_refresh us w) = redis_get k w"
  by (simp_all add: enqueue_immediate_balance_refresh_def fold_insert_set redis_get_def)

lemma refresh_same_db [simp]: "w_db (enqueue_immediate_balance_refresh us w) = w_db w"
  by (simp add: enqueue_immediate_balance_refresh_def)

definition event_pointer :: "transfer_event \<Rightarrow> string" where
  "event_pointer ev = str_int (te_blockNumber ev) @ ''-'' @ te_transactionHash ev @ ''-'' @
     str_int (case te_logIndex ev of Some i \<Rightarrow> i | None \<Rightarrow> 0)"

text \<open>One event: nothing but the queue changes, and when the step returns the users are in it.\<close>

lemma scan_event_run:
  assumes "scan_event sv ev acc w = (r, w')"
  shows "w_db w' = w_db w \<and> (\<forall>k. redis_get k w' = redis_get k w) \<and> scan_frame w w' \<and>
    (\<forall>acc'. r = Inr acc' \<longrightarrow> acc' = acc @ [event_pointer ev] \<and> enqueued w' {ev})"
  using assms
  by (auto simp: scan_event_def process_event_def py_defs scan_frame_def enqueued_def event_pointer_def
      split: option.splits sum.splits if_splits)

lemma scan_events_run:
  assumes "py_for (scan_event sv) evs acc w = (r, w')"
  shows "w_db w' = w_db w \<and> (\<forall>k. redis_get k w' = redis_get k w) \<and> scan_frame w w' \<and>
    (\<forall>acc'. r = Inr acc' \<longrightarrow> acc' = acc @ map event_pointer evs \<and> enqueued w' (set evs))"
  using assms
proof (induction evs arbitrary: acc w)
  case Nil
  then show ?case by (auto simp: py_return_def)
next
  case (Cons ev evs)
  obtain r1 w1 where step: "scan_event sv ev acc w = (r1, w1)" by (metis surj_pair)
  note one = scan_event_run [OF step]
  show ?case
  proof (cases r1)
    case (Inl e)
    with Cons.prems step have "r = Inl e" "w' = w1" by (auto simp: py_bind_def)
    with one show ?thesis by simp
  next
    case (Inr acc1)
    with Cons.prems step have rest: "py_for (scan_event sv) evs acc1 w1 = (r, w')" by (simp add: py_bind_def)
    note more = Cons.IH [OF rest]
    have fr: "scan_frame w w'" using one more by (blast intro: scan_frame_trans)
    have "enqueued w' {ev}" using one more Inr by (blast intro: enqueued_mono)
    then have "enqueued w' (set evs) \<Longrightarrow> enqueued w' (set (ev # evs))" by (simp add: enqueued_def)
    with one more Inr fr show ?thesis by simp
  qed
qed

lemma scan_chunk_run:
  assumes "scan_chunk sv a b w = (r, w')" and "a \<le> b"
  shows "w_db w' = w_db w \<and> (\<forall>k. redis_get k w' = redis_get k w) \<and> scan_frame w w' \<and>
    (\<forall>e ps. r = Inr (e, ps) \<longrightarrow> a \<le> e \<and> e \<le> b \<and>
       (\<exists>i evs. sc_get_logs sv a e i = Inr evs \<and> ps = map event_pointer evs \<and> enqueued w' (set evs)))"
proof (cases "retry_web3_call (sc_get_logs sv) a b MAX_REQUEST_RETRIES 0")
  case (Inl err)
  with assms show ?thesis by (auto simp: scan_chunk_def py_defs)
next
  case (Inr x)
  obtain e evs where x: "x = (e, evs)" by (cases x)
  obtain r1 w1 where loop: "py_for (scan_event sv) evs [] w = (r1, w1)" by (metis surj_pair)
  have logs: "a \<le> e \<and> e \<le> b \<and> (\<exists>i. sc_get_logs sv a e i = Inr evs)"
    using retry_Inr [OF Inr [unfolded x] assms(2)] .
  have run: "(r, w') = (case r1 of Inl er \<Rightarrow> (Inl er, w1) | Inr ps \<Rightarrow> (Inr (e, ps), w1))"
    using assms(1) Inr x loop by (auto simp: scan_chunk_def py_bind_def py_lift_def py_return_def split: sum.splits)
  from scan_events_run [OF loop] logs run show ?thesis by (cases r1) auto
qed

section \<open>The scan covers its range\<close>

text \<open>A node whose answers are the transfers of a chain, or errors.\<close>

definition logs_between :: "transfer_event list \<Rightarrow> int \<Rightarrow> int \<Rightarrow> transfer_event list" where
  "logs_between logs a b = filter (\<lambda>e. a \<le> te_blockNumber e \<and> te_blockNumber e \<le> b) logs"

definition honest_logs :: "scanner_services \<Rightarrow> transfer_event list \<Rightarrow> bool" where
  "honest_logs sv logs \<longleftrightarrow> (\<forall>a b i evs. sc_get_logs sv a b i = Inr evs \<longrightarrow> evs = logs_between logs a b)"

lemma logs_between_split:
  "sorted (map te_blockNumber logs) \<Longrightarrow> a \<le> b + 1 \<Longrightarrow> b \<le> c \<Longrightarrow>
    logs_between logs a c = logs_between logs a b @ logs_between logs (b + 1) c"
proof (induction logs)
  case (Cons e logs)
  have "logs_between logs a b = []" if "te_blockNumber e > b"
    using that Cons.prems(1) by (force simp: logs_between_def filter_empty_conv)
  with Cons show ?case by (auto simp: logs_between_def)
qed (simp add: logs_between_def)

lemma logs_between_empty: "b < a \<Longrightarrow> logs_between logs a b = []"
  by (auto simp: logs_between_def filter_empty_conv)

text \<open>The block the next scan restores.\<close>

abbreviation saved_block :: "world \<Rightarrow> exc + int" where
  "saved_block w \<equiv> restored_block w"

lemma str_nat_Cons: "\<exists>c cs. str_nat n = c # cs"
  by (metis list.exhaust str_nat_nonempty)

lemma saved_block_set [simp]:
  assumes "redis_get eth_indexing_last_scanned_block_key w = Some (JStr (str_int b))"
  shows "saved_block w = Inr b"
proof -
  have "str_int b \<noteq> []" by (simp add: str_int_def)
  then obtain c cs where "str_int b = c # cs" by (cases "str_int b") auto
  with assms py_int_str_int [of b] show ?thesis by (simp add: restored_block_def)
qed

lemma saved_block_cong:
  "w_db w = w_db w' \<Longrightarrow> redis_get eth_indexing_last_scanned_block_key w = redis_get eth_indexing_last_scanned_block_key w' \<Longrightarrow>
    saved_block w = saved_block w'"
  by (simp only: restored_block_def)

lemma session_scope_redis:
  "session_scope commit (py_modify (update_programs f)) w = (r, w') \<Longrightarrow>
    w_redis w' = w_redis w \<and> (w_db w' = w_db w \<or> w_db w' = (w_db w)\<lparr>programs := f (w_programs w)\<rparr>)"
  by (auto simp: session_scope_def py_modify_def update_programs_def update_db_def split: option.splits)

lemma save_run:
  assumes "save sv b s = (r, s')"
  shows "scan_frame (ss_world s) (ss_world s') \<and> saved_block (ss_world s') = Inr b"
proof -
  let ?w1 = "redis_set eth_indexing_last_scanned_block_key (JStr (str_int b)) (ss_world s)"
  obtain r2 w2 where sess: "session_scope (sc_commit sv) (py_modify (update_programs (store_eth_block b))) ?w1 = (r2, w2)"
    by (metis surj_pair)
  have w2: "ss_world s' = w2"
    using assms sess by (auto simp: save_def py_defs on_scanner_def split: sum.splits)
  have redis: "w_redis w2 = w_redis ?w1" and db: "w_db w2 = w_db ?w1 \<or> w_db w2 = (w_db ?w1)\<lparr>programs := store_eth_block b (w_programs ?w1)\<rparr>"
    using session_scope_redis [OF sess] by auto
  have "r_immediate_refresh (w_redis ?w1) = r_immediate_refresh (w_redis (ss_world s))"
    by (simp add: redis_set_def)
  then have "scan_frame (ss_world s) w2" using redis db by (auto simp: scan_frame_def)
  moreover have "redis_get eth_indexing_last_scanned_block_key w2 = Some (JStr (str_int b))"
    using redis by (simp add: redis_get_def redis_set_def update_conv')
  ultimately show ?thesis by (simp add: w2)
qed

lemma scan_step_run:
  assumes "scan_step sv a c s = (r, s')" and honest: "honest_logs sv logs"
    and "0 \<le> c" and "a \<le> get_suggested_scan_end_block sv"
  shows "scan_frame (ss_world s) (ss_world s') \<and>
    (saved_block (ss_world s') = saved_block (ss_world s) \<or>
     (\<exists>e. a \<le> e \<and> e \<le> get_suggested_scan_end_block sv \<and> saved_block (ss_world s') = Inr e \<and>
        enqueued (ss_world s') (set (logs_between logs a e)))) \<and>
    (\<forall>e ps. r = Inr (e, ps) \<longrightarrow> a \<le> e \<and> e \<le> get_suggested_scan_end_block sv \<and> saved_block (ss_world s') = Inr e \<and>
        enqueued (ss_world s') (set (logs_between logs a e)) \<and> ps = map event_pointer (logs_between logs a e))"
proof -
  let ?b = "min (a + c) (get_suggested_scan_end_block sv)"
  have ab: "a \<le> ?b" using assms(3,4) by simp
  obtain r1 w1 where chunk: "scan_chunk sv a ?b (ss_world s) = (r1, w1)" by (metis surj_pair)
  note one = scan_chunk_run [OF chunk ab]
  have same: "saved_block w1 = saved_block (ss_world s)" using one by (intro saved_block_cong) simp_all
  show ?thesis
  proof (cases r1)
    case (Inl er)
    with assms(1) chunk have "r = Inl er" "ss_world s' = w1"
      by (auto simp: scan_step_def Let_def py_bind_def on_scanner_def)
    with one same show ?thesis by simp
  next
    case (Inr x)
    obtain e ps where x: "x = (e, ps)" by (cases x)
    have e: "a \<le> e" "e \<le> get_suggested_scan_end_block sv" and enq: "enqueued w1 (set (logs_between logs a e))"
      and ps: "ps = map event_pointer (logs_between logs a e)"
      using one Inr x honest by (auto simp: honest_logs_def)
    obtain r2 s2 where sv: "save sv e (s\<lparr>ss_world := w1\<rparr>) = (r2, s2)" by (metis surj_pair)
    note saved = save_run [OF sv]
    have fr: "scan_frame (ss_world s) (ss_world s2)"
      using one saved by (auto intro: scan_frame_trans)
    have enq2: "enqueued (ss_world s2) (set (logs_between logs a e))"
      using saved enq by (auto intro: enqueued_mono)
    have "s' = s2 \<and> (\<forall>e' ps'. r = Inr (e', ps') \<longrightarrow> e' = e \<and> ps' = ps)"
      using assms(1) chunk Inr x sv e(2)
      by (cases r2) (auto simp: scan_step_def Let_def py_bind_def py_seq_def py_return_def on_scanner_def min_absorb1)
    with fr saved e enq2 ps show ?thesis by auto
  qed
qed

lemma scan_loop_covers:
  assumes "honest_logs sv logs" and "sorted (map te_blockNumber logs)"
    and "0 \<le> c" and "start \<le> a" and "a \<le> end_block + 1"
    and "enqueued (ss_world s) (set (logs_between logs start (a - 1)))"
    and "acc = map event_pointer (logs_between logs start (a - 1))"
    and "end_block = get_suggested_scan_end_block sv"
  shows "\<exists>r s'. scan_loop sv end_block a c acc n s = Some (r, s') \<and> scan_frame (ss_world s) (ss_world s') \<and>
    (saved_block (ss_world s') = saved_block (ss_world s) \<or>
     (\<exists>e. start \<le> e \<and> e \<le> end_block \<and> saved_block (ss_world s') = Inr e \<and>
        enqueued (ss_world s') (set (logs_between logs start e)))) \<and>
    (\<forall>ps m. r = Inr (ps, m) \<longrightarrow> ps = map event_pointer (logs_between logs start end_block) \<and>
        enqueued (ss_world s') (set (logs_between logs start end_block)) \<and> int m \<le> int n + (end_block + 1 - a))"
  using assms(3-7)
proof (induction "nat (end_block + 1 - a)" arbitrary: a c acc n s rule: less_induct)
  case less
  show ?case
  proof (cases "a \<le> end_block")
    case False
    with less.prems have "a - 1 = end_block" by simp
    with False less.prems show ?thesis by (subst scan_loop.simps) simp
  next
    case True
    obtain r1 s1 where step: "scan_step sv a c s = (r1, s1)" by (metis surj_pair)
    note one = scan_step_run [OF step assms(1) less.prems(1) True [unfolded assms(8)]]
    have before: "enqueued (ss_world s1) (set (logs_between logs start (a - 1)))"
      using one less.prems(4) by (blast intro: enqueued_mono)
    have join: "logs_between logs start e = logs_between logs start (a - 1) @ logs_between logs a e" if "a \<le> e" for e
      using logs_between_split [OF assms(2), of start "a - 1" e] less.prems(2) that by simp
    show ?thesis
    proof (cases r1)
      case (Inl er)
      have "scan_loop sv end_block a c acc n s = Some (Inl er, s1)"
        using True step Inl by (subst scan_loop.simps) simp
      moreover have "saved_block (ss_world s1) = saved_block (ss_world s) \<or>
          (\<exists>e. start \<le> e \<and> e \<le> end_block \<and> saved_block (ss_world s1) = Inr e \<and>
             enqueued (ss_world s1) (set (logs_between logs start e)))"
      proof (cases "saved_block (ss_world s1) = saved_block (ss_world s)")
        case False
        with one obtain e where "a \<le> e" "e \<le> end_block" "saved_block (ss_world s1) = Inr e"
          "enqueued (ss_world s1) (set (logs_between logs a e))" by (auto simp: assms(8))
        with join [of e] before less.prems(2) show ?thesis by (intro disjI2 exI [of _ e]) simp
      qed simp
      ultimately show ?thesis using one by auto
    next
      case (Inr x)
      obtain e ps where x: "x = (e, ps)" by (cases x)
      have e: "a \<le> e" "e \<le> end_block" and sv: "saved_block (ss_world s1) = Inr e"
        and enq: "enqueued (ss_world s1) (set (logs_between logs start e))"
        and ps: "acc @ ps = map event_pointer (logs_between logs start e)"
        using one Inr x before join less.prems(5) by (auto simp: assms(8))
      let ?c = "estimate_next_chunk_size c (length ps)"
      have c: "0 \<le> ?c" using chunk_size_bounds(1) [of c "length ps"] by (simp add: MIN_SCAN_CHUNK_SIZE_def)
      have smaller: "nat (end_block + 1 - (e + 1)) < nat (end_block + 1 - a)" using e by simp
      have unfolded: "scan_loop sv end_block a c acc n s = scan_loop sv end_block (e + 1) ?c (acc @ ps) (Suc n) s1"
        using True step Inr x by (subst scan_loop.simps) simp
      have bounds: "start \<le> e + 1" "e + 1 \<le> end_block + 1" using e less.prems(2) by simp_all
      have enq': "enqueued (ss_world s1) (set (logs_between logs start (e + 1 - 1)))" using enq by simp
      have ps': "acc @ ps = map event_pointer (logs_between logs start (e + 1 - 1))" using ps by simp
      from less.hyps [OF smaller c bounds enq' ps', of "Suc n"]
      obtain r s' where rest: "scan_loop sv end_block (e + 1) ?c (acc @ ps) (Suc n) s1 = Some (r, s')"
        and fr: "scan_frame (ss_world s1) (ss_world s')"
        and sv': "saved_block (ss_world s') = saved_block (ss_world s1) \<or>
          (\<exists>e. start \<le> e \<and> e \<le> end_block \<and> saved_block (ss_world s') = Inr e \<and>
            enqueued (ss_world s') (set (logs_between logs start e)))"
        and res: "\<forall>ps m. r = Inr (ps, m) \<longrightarrow> ps = map event_pointer (logs_between logs start end_block) \<and>
          enqueued (ss_world s') (set (logs_between logs start end_block)) \<and> int m \<le> int (Suc n) + (end_block + 1 - (e + 1))"
        by auto
      have "\<exists>e. start \<le> e \<and> e \<le> end_block \<and> saved_block (ss_world s') = Inr e \<and>
          enqueued (ss_world s') (set (logs_between logs start e))"
        using sv' sv e enq fr less.prems(2) by (auto intro: enqueued_mono)
      moreover have "scan_frame (ss_world s) (ss_world s')" using one fr by (blast intro: scan_frame_trans)
      ultimately show ?thesis using rest unfolded res e by fastforce
    qed
  qed
qed

text \<open>
  C25. The scan for transfers leaves no gap: with a node that answers with the chain's transfers or
  an error, a run of the task always returns, whatever it leaves as the last scanned block is the
  old one or one up to which every transfer, from ten blocks before the old one on, has put its
  users into the queue; and when it returns without exception this is the suggested end block.
\<close>

theorem eth_scan_no_gap:
  assumes "honest_logs sv logs" and "sorted (map te_blockNumber logs)" and "restored_block w = Inr b"
  shows "\<exists>r w'. index_eth sv True w = Some (r, w') \<and>
    (restored_block w' = Inr b \<or>
     (\<exists>e\<le>get_suggested_scan_end_block sv. restored_block w' = Inr e \<and>
        enqueued w' (set (logs_between logs (max (b - CHAIN_REORG_SAFETY_BLOCKS) 0) e)))) \<and>
    (r = Inr () \<longrightarrow> max (b - CHAIN_REORG_SAFETY_BLOCKS) 0 \<le> get_suggested_scan_end_block sv \<longrightarrow>
       restored_block w' = Inr (get_suggested_scan_end_block sv) \<and>
       enqueued w' (set (logs_between logs (max (b - CHAIN_REORG_SAFETY_BLOCKS) 0) (get_suggested_scan_end_block sv))))"
proof -
  let ?start = "max (b - CHAIN_REORG_SAFETY_BLOCKS) 0" and ?stop = "get_suggested_scan_end_block sv"
  let ?s0 = "\<lparr>ss_world = w, ss_last_scanned_block = MIN_SCAN_START_BLOCK\<rparr>"
  let ?s1 = "\<lparr>ss_world = w, ss_last_scanned_block = b\<rparr>"
  have restore: "restore ?s0 = (Inr (), ?s1)" using assms(3) by (simp add: restore_def py_defs)
  have done_saved: "saved_block (redis_set index_eth_last_completion_redis_key v x) = saved_block x" for v x
    by (rule saved_block_cong)
      (simp_all add: index_eth_last_completion_redis_key_def eth_indexing_last_scanned_block_key_def)
  have done_frame: "scan_frame x (redis_set index_eth_last_completion_redis_key v x)" for v x
    by (simp add: scan_frame_def redis_set_def)
  show ?thesis
  proof (cases "?start \<le> ?stop")
    case False
    then have past: "?stop < ?start" by (simp only: not_le)
    then have "index_eth sv True w = Some (Inr (), redis_set index_eth_last_completion_redis_key (JInt (sc_end_time sv)) w)"
      by (simp add: index_eth_def index_eth_transfer_events_def restore Let_def)
    with False assms(3) show ?thesis by (auto simp: done_saved)
  next
    case True
    then have not_past: "\<not> ?stop < ?start" by (simp only: not_less)
    have "\<exists>r s'. scan_loop sv ?stop ?start START_CHUNK_SIZE [] 0 ?s1 = Some (r, s') \<and> scan_frame (ss_world ?s1) (ss_world s') \<and>
      (saved_block (ss_world s') = saved_block (ss_world ?s1) \<or>
       (\<exists>e. ?start \<le> e \<and> e \<le> ?stop \<and> saved_block (ss_world s') = Inr e \<and>
          enqueued (ss_world s') (set (logs_between logs ?start e)))) \<and>
      (\<forall>ps m. r = Inr (ps, m) \<longrightarrow> ps = map event_pointer (logs_between logs ?start ?stop) \<and>
          enqueued (ss_world s') (set (logs_between logs ?start ?stop)) \<and> int m \<le> int 0 + (?stop + 1 - ?start))"
      by (rule scan_loop_covers [OF assms(1,2)]) (use True in \<open>simp_all add: START_CHUNK_SIZE_def logs_between_empty\<close>)
    then obtain r s2 where scan: "scan sv ?start ?stop ?s1 = Some (r, s2)"
      and partial: "saved_block (ss_world s2) = Inr b \<or> (\<exists>e\<le>?stop. saved_block (ss_world s2) = Inr e \<and>
        enqueued (ss_world s2) (set (logs_between logs ?start e)))"
      and full: "\<And>x. r = Inr x \<Longrightarrow> enqueued (ss_world s2) (set (logs_between logs ?start ?stop))"
      using assms(3) by (fastforce simp: scan_def)
    show ?thesis
    proof (cases r)
      case (Inl er)
      then have "index_eth sv True w = Some (Inl er, ss_world s2)"
        using not_past scan by (simp add: index_eth_def index_eth_transfer_events_def restore Let_def)
      with partial show ?thesis by simp
    next
      case (Inr x)
      obtain r3 s3 where save: "save sv ?stop s2 = (r3, s3)" by (metis surj_pair)
      note saved = save_run [OF save]
      have ev: "index_eth_transfer_events sv ?s0 = Some (r3, s3)"
        using not_past scan Inr save by (simp add: index_eth_transfer_events_def restore Let_def)
      have enq: "enqueued (ss_world s3) (set (logs_between logs ?start ?stop))"
        using saved full [OF Inr] by (blast intro: enqueued_mono)
      show ?thesis
      proof (cases r3)
        case (Inl er)
        with ev have "index_eth sv True w = Some (Inl er, ss_world s3)" by (simp add: index_eth_def)
        with saved enq show ?thesis by auto
      next
        case (Inr u)
        let ?w' = "redis_set index_eth_last_completion_redis_key (JInt (sc_end_time sv)) (ss_world s3)"
        from ev Inr have "index_eth sv True w = Some (Inr (), ?w')" by (simp add: index_eth_def)
        moreover have "enqueued ?w' (set (logs_between logs ?start ?stop))" by (rule enqueued_mono [OF done_frame enq])
        moreover have "saved_block ?w' = Inr ?stop" using saved by (simp add: done_saved)
        ultimately show ?thesis by auto
      qed
    qed
  qed
qed

text \<open>
  A scan that returns has processed exactly the transfers of its range, each once and in the
  order of the chain, in at most as many chunks as there are blocks, none of which asks for more
  than MAX_CHUNK_SCAN_SIZE + 1 blocks.
\<close>

theorem scan_exact:
  assumes "honest_logs sv logs" and "sorted (map te_blockNumber logs)"
    and "start_block \<le> get_suggested_scan_end_block sv"
    and "scan sv start_block (get_suggested_scan_end_block sv) s = Some (Inr (processed, chunks), s')"
  shows "processed = map event_pointer (logs_between logs start_block (get_suggested_scan_end_block sv)) \<and>
    int chunks \<le> get_suggested_scan_end_block sv - start_block + 1 \<and>
    (\<forall>c n. MIN_SCAN_CHUNK_SIZE \<le> estimate_next_chunk_size c n \<and> estimate_next_chunk_size c n \<le> MAX_CHUNK_SCAN_SIZE)"
proof -
  let ?stop = "get_suggested_scan_end_block sv"
  have "\<exists>r s'. scan_loop sv ?stop start_block START_CHUNK_SIZE [] 0 s = Some (r, s') \<and> scan_frame (ss_world s) (ss_world s') \<and>
    (saved_block (ss_world s') = saved_block (ss_world s) \<or>
     (\<exists>e. start_block \<le> e \<and> e \<le> ?stop \<and> saved_block (ss_world s') = Inr e \<and>
        enqueued (ss_world s') (set (logs_between logs start_block e)))) \<and>
    (\<forall>ps m. r = Inr (ps, m) \<longrightarrow> ps = map event_pointer (logs_between logs start_block ?stop) \<and>
        enqueued (ss_world s') (set (logs_between logs start_block ?stop)) \<and> int m \<le> int 0 + (?stop + 1 - start_block))"
    by (rule scan_loop_covers [OF assms(1,2)]) (use assms(3) in \<open>simp_all add: START_CHUNK_SIZE_def logs_between_empty\<close>)
  with assms(4) show ?thesis by (auto simp: scan_def chunk_size_bounds)
qed

text \<open>An example: one transfer, in the third block after the start; the node fails on long ranges.\<close>

definition ex_transfer_event :: transfer_event where
  "ex_transfer_event = \<lparr>te_logIndex = Some 0, te_transactionHash = ''aa'', te_blockNumber = 11103294,
     te_from = ''0xA'', te_to = ''0xB'', te_value = 5\<rparr>"

definition ex_scanner :: scanner_services where
  "ex_scanner = \<lparr>sc_block_number = 11103300,
     sc_get_logs = (\<lambda>a b i. if b - a > 12 then Inl (PyException ''timeout'') else Inr (logs_between [ex_transfer_event] a b)),
     sc_get_block = (\<lambda>n. Inr (Some n)), sc_commit = (\<lambda>d. None), sc_end_time = 5\<rparr>"

lemma ex_honest_logs: "honest_logs ex_scanner [ex_transfer_event]"
  by (simp add: honest_logs_def ex_scanner_def)

lemma ex_restored: "restored_block empty_world = Inr MIN_SCAN_START_BLOCK"
  by (simp add: restored_block_def redis_get_def empty_world_def empty_redis_def empty_db_def empty_programs_def)

theorem eth_scan_no_gap_witness:
  "\<exists>r w'. index_eth ex_scanner True empty_world = Some (r, w') \<and>
    (r = Inr () \<longrightarrow> restored_block w' = Inr 11103299 \<and> enqueued w' {ex_transfer_event})"
proof -
  have ends: "get_suggested_scan_end_block ex_scanner = 11103299"
    "max (MIN_SCAN_START_BLOCK - CHAIN_REORG_SAFETY_BLOCKS) 0 = 11103282"
    by (simp_all add: get_suggested_scan_end_block_def ex_scanner_def ETH_BLOCK_TAIL_OFFSET_def
        MIN_SCAN_START_BLOCK_def CHAIN_REORG_SAFETY_BLOCKS_def)
  have logs: "set (logs_between [ex_transfer_event] 11103282 11103299) = {ex_transfer_event}"
    by (simp add: logs_between_def ex_transfer_event_def)
  have "sorted (map te_blockNumber [ex_transfer_event])" by simp
  from eth_scan_no_gap [OF ex_honest_logs this ex_restored] show ?thesis
    unfolding ends logs by auto
qed

theorem scan_exact_witness:
  "\<exists>processed chunks s'. scan ex_scanner 11103299 11103299
      \<lparr>ss_world = empty_world, ss_last_scanned_block = 0\<rparr> = Some (Inr (processed, chunks), s') \<and> processed = []"
proof -
  let ?s = "\<lparr>ss_world = empty_world, ss_last_scanned_block = 0\<rparr>"
  have ends: "get_suggested_scan_end_block ex_scanner = 11103299"
    by (simp add: get_suggested_scan_end_block_def ex_scanner_def ETH_BLOCK_TAIL_OFFSET_def)
  have retries: "MAX_REQUEST_RETRIES = Suc 29" by (simp add: MAX_REQUEST_RETRIES_def)
  have none: "logs_between [ex_transfer_event] 11103299 11103299 = []"
    by (simp add: logs_between_def ex_transfer_event_def)
  have "retry_web3_call (sc_get_logs ex_scanner) 11103299 11103299 MAX_REQUEST_RETRIES 0 = Inr (11103299, [])"
    unfolding retries by (subst retry_web3_call.simps) (simp add: ex_scanner_def none)
  then have "scan_chunk ex_scanner 11103299 11103299 empty_world = (Inr (11103299, []), empty_world)"
    by (simp add: scan_chunk_def py_defs)
  moreover obtain s1 where "save ex_scanner 11103299 ?s = (Inr (), s1)"
    by (simp add: save_def py_defs on_scanner_def session_scope_def ex_scanner_def)
  ultimately have step: "scan_step ex_scanner 11103299 START_CHUNK_SIZE ?s = (Inr (11103299, []), s1)"
    by (simp add: scan_step_def ends START_CHUNK_SIZE_def on_scanner_def py_bind_def py_seq_def py_return_def)
  have run: "scan ex_scanner 11103299 11103299 ?s = Some (Inr ([], 1), s1)"
    unfolding scan_def by (subst scan_loop.simps) (simp add: step scan_loop.simps)
  have sorted: "sorted (map te_blockNumber [ex_transfer_event])" by simp
  have start: "11103299 \<le> get_suggested_scan_end_block ex_scanner" by (simp add: ends)
  have "scan ex_scanner 11103299 (get_suggested_scan_end_block ex_scanner) ?s = Some (Inr ([], 1), s1)"
    by (simp only: ends run)
  from scan_exact [OF ex_honest_logs sorted start this] run show ?thesis
    by blast
qed

end
