(* ===== verification/Solana_Plays.thy ===== *)
theory Solana_Plays
  imports Program_Index Solana_Parser Python_Numbers "HOL-Library.Multiset"
begin

text \<open>
  tasks/index_solana_plays.py: the indexer of the listens that are recorded on Solana. It walks
  back through the program's signatures until it meets a stored play, then fetches the
  transactions in parts of a hundred and inserts a play for each that is a valid listen. The last
  transactions of the pages it has seen are kept in a Redis list, from which a later run takes the
  place to start at. \<open>json.loads\<close> and base 58 are parameters; the server's local time is UTC.
\<close>

section \<open>Instruction data\<close>

record play_services =
  ps_program :: string
  ps_signer_group :: string
  ps_b58decode :: "string \<Rightarrow> exc + bytes"
  ps_json_loads :: "bytes \<Rightarrow> exc + json"
  ps_nodes :: "solana_node list"
  ps_fetch_nodes :: "nat \<Rightarrow> solana_node list"
  ps_timeout :: "nat \<Rightarrow> string list \<Rightarrow> bool"
  ps_completion :: "nat \<Rightarrow> string list \<Rightarrow> string list"
  ps_commit :: "db \<Rightarrow> exc option"
  ps_rpush_ok :: "internal_event \<Rightarrow> bool"

definition SECP_PROGRAM :: string where
  "SECP_PROGRAM = ''KeccakSecp256k11111111111111111111111111111''"

definition REDIS_TX_CACHE_QUEUE_PREFIX :: string where
  "REDIS_TX_CACHE_QUEUE_PREFIX = ''plays-tx-cache-queue''"

definition TX_SIGNATURES_PROCESSING_SIZE :: nat where
  "TX_SIGNATURES_PROCESSING_SIZE = 100"

definition latest_sol_play_db_tx_key :: string where
  "latest_sol_play_db_tx_key = ''latest_sol_program_tx:play:db''"

definition latest_sol_play_program_tx_key :: string where
  "latest_sol_play_program_tx_key = ''latest_sol_program_tx:play:chain''"

definition latest_sol_plays_slot_key :: string where
  "latest_sol_plays_slot_key = ''latest_sol_slot:plays''"

text \<open>
  \<open>int\<close> of a byte string. The separators 28 to 31 are white space in a string but not in
  a byte string.
\<close>

definition bytes_int :: "bytes \<Rightarrow> exc + int" where
  "bytes_int bs =
     (if list_ex (\<lambda>b. 28 \<le> b \<and> b \<le> 31) bs then Inl (PyException ''ValueError'')
      else py_int (map char_of bs))"

text \<open>
  The source and the location. The location is only set when the JSON has both members; a source
  that is missing or falsy is replaced by the raw text, when it is UTF-8. None is \<open>JNull\<close>.
\<close>

definition json_source :: "exc + json \<Rightarrow> json \<times> json" where
  "json_source r =
     (case r of
        Inr (JObj sourceDict) \<Rightarrow>
          (case map_of sourceDict ''source'' of
             None \<Rightarrow> (JNull, JObj [])
           | Some source \<Rightarrow>
               (source, case map_of sourceDict ''location'' of None \<Rightarrow> JObj [] | Some location \<Rightarrow> location))
      | _ \<Rightarrow> (JNull, JObj []))"

definition play_source :: "(bytes \<Rightarrow> exc + json) \<Rightarrow> bytes \<Rightarrow> json \<times> json" where
  "play_source json_loads decoded_source =
     (case json_source (json_loads decoded_source) of (source, location) \<Rightarrow>
        (if json_truthy source then source
         else (case utf8_str decoded_source of Inl e \<Rightarrow> source | Inr s \<Rightarrow> JStr s), location))"

text \<open>A user id that is no number is that of an anonymous listener; the content id has to be one.\<close>

definition parse_play_data ::
  "play_services \<Rightarrow> string \<Rightarrow> exc + int option \<times> int \<times> json \<times> json \<times> nat" where
  "parse_play_data sv data =
     exc_bind (ps_b58decode sv data) (\<lambda>raw.
     let decoded = drop 1 raw;
         user_id_length = from_le (py_slice decoded 0 4);
         user_id_start = 4; user_id_end = 4 + user_id_length;
         user_id = (case bytes_int (py_slice decoded user_id_start user_id_end) of Inl e \<Rightarrow> None | Inr i \<Rightarrow> Some i);
         digital_content_id_length = from_le (py_slice decoded user_id_end (user_id_end + 4));
         digital_content_id_start = user_id_end + 4;
         digital_content_id_end = user_id_end + 4 + digital_content_id_length in
     exc_bind (bytes_int (py_slice decoded digital_content_id_start digital_content_id_end)) (\<lambda>digital_content_id.
     let source_length = from_le (py_slice decoded digital_content_id_end (digital_content_id_end + 4));
         source_start = digital_content_id_end + 4;
         source_end = digital_content_id_end + 4 + source_length in
     case play_source (ps_json_loads sv) (py_slice decoded source_start source_end) of (source, location) \<Rightarrow>
       Inr (user_id, digital_content_id, source, location, from_le (py_slice decoded source_end (source_end + 8)))))"

section \<open>Transactions\<close>

text \<open>\<open>datetime.utcfromtimestamp\<close>: the years end with 9999.\<close>

definition MAX_TIMESTAMP :: int where
  "MAX_TIMESTAMP = 253402300799"

definition utcfromtimestamp :: "nat \<Rightarrow> exc + timestamp" where
  "utcfromtimestamp n =
     (if int n \<le> MAX_TIMESTAMP then Inr (int n) else Inl (PyException ''year is out of range''))"

definition is_valid_tx :: "play_services \<Rightarrow> string list \<Rightarrow> bool" where
  "is_valid_tx sv account_keys \<longleftrightarrow> SECP_PROGRAM \<in> set account_keys \<and> ps_signer_group sv \<in> set account_keys"

text \<open>What a future returns; None when the transaction is no listen.\<close>

type_synonym play_info = "int option \<times> int \<times> timestamp \<times> json \<times> json \<times> int \<times> string"

definition play_in_tx :: "play_services \<Rightarrow> transaction_info \<Rightarrow> string \<Rightarrow> exc + play_info option" where
  "play_in_tx sv tx tx_sig =
     (if sx_err tx then Inr None
      else if is_valid_tx sv (sx_accountKeys tx) then
        exc_bind (index_of (ps_program sv) (sx_accountKeys tx)) (\<lambda>coliving_program_index.
          case find (\<lambda>i. in_programIdIndex i = coliving_program_index) (sx_instructions tx) of
            None \<Rightarrow> Inr None
          | Some instruction \<Rightarrow>
              exc_bind (parse_play_data sv (in_data instruction))
                (\<lambda>(user_id, digital_content_id, source, location, timestamp).
              exc_bind (utcfromtimestamp timestamp) (\<lambda>created_at.
                Inr (Some (user_id, digital_content_id, created_at, source, location, sx_slot tx, tx_sig)))))
      else Inr None)"

definition parse_sol_play_transaction ::
  "play_services \<Rightarrow> solana_node list \<Rightarrow> string \<Rightarrow> exc + play_info option" where
  "parse_sol_play_transaction sv nodes tx_sig =
     exc_bind (get_sol_tx_info nodes tx_sig) (\<lambda>tx_info. play_in_tx sv tx_info tx_sig)"

section \<open>Batches\<close>

text \<open>\<open>location.get(key)\<close>: an AttributeError when the location is no dictionary.\<close>

definition location_get :: "json \<Rightarrow> string \<Rightarrow> exc + json" where
  "location_get location key =
     (case location of
        JObj d \<Rightarrow> Inr (case map_of d key of None \<Rightarrow> JNull | Some v \<Rightarrow> v)
      | _ \<Rightarrow> Inl (AttributeError ''get''))"

definition play_row_of :: "play_info \<Rightarrow> exc + play_row" where
  "play_row_of result =
     (case result of (user_id, digital_content_id, created_at, source, location, slot, tx_sig) \<Rightarrow>
        exc_bind (location_get location ''city'') (\<lambda>city.
        exc_bind (location_get location ''region'') (\<lambda>region.
        exc_bind (location_get location ''country'') (\<lambda>country.
          Inr \<lparr>pl_user_id = user_id, pl_play_item_id = digital_content_id, pl_created_at = created_at,
            pl_source = source, pl_city = city, pl_region = region, pl_country = country,
            pl_slot = Some slot, pl_signature = Some tx_sig\<rparr>))))"

text \<open>The loop over the futures as they complete: the plays and the challenge events.\<close>

fun collect_plays ::
  "play_services \<Rightarrow> solana_node list \<Rightarrow> string list \<Rightarrow> play_row list \<Rightarrow> (int \<times> int \<times> timestamp) list \<Rightarrow>
    exc + play_row list \<times> (int \<times> int \<times> timestamp) list" where
  "collect_plays sv nodes [] new_plays challenge_bus_events = Inr (new_plays, challenge_bus_events)"
| "collect_plays sv nodes (future # futures) new_plays challenge_bus_events =
     exc_bind (parse_sol_play_transaction sv nodes future) (\<lambda>result.
       case result of
         None \<Rightarrow> collect_plays sv nodes futures new_plays challenge_bus_events
       | Some info \<Rightarrow>
           exc_bind (play_row_of info) (\<lambda>play.
             case info of (user_id, digital_content_id, created_at, source, location, slot, tx_sig) \<Rightarrow>
               collect_plays sv nodes futures (new_plays @ [play])
                 (case user_id of None \<Rightarrow> challenge_bus_events
                  | Some u \<Rightarrow> challenge_bus_events @ [(slot, u, created_at)])))"

text \<open>
  Fetching with the retries: an attempt fails when a future raises, when a location is no
  dictionary, or when 45 seconds pass first; the number of retries left numbers the attempts.
\<close>

fun fetch_plays ::
  "play_services \<Rightarrow> string list \<Rightarrow> nat \<Rightarrow> exc + play_row list \<times> (int \<times> int \<times> timestamp) list" where
  "fetch_plays sv tx_sigs retries =
     (case (if ps_timeout sv retries tx_sigs then Inl (PyException ''TimeoutError'')
            else collect_plays sv (ps_fetch_nodes sv retries) (ps_completion sv retries tx_sigs) [] []) of
        Inr r \<Rightarrow> Inr r
      | Inl e \<Rightarrow> (case retries of 0 \<Rightarrow> Inl e | Suc n \<Rightarrow> fetch_plays sv tx_sigs n))"

declare fetch_plays.simps [simp del]

definition redis_list :: "string \<Rightarrow> world \<Rightarrow> json list" where
  "redis_list key w = (case map_of (r_lists (w_redis w)) key of None \<Rightarrow> [] | Some xs \<Rightarrow> xs)"

definition redis_set_list :: "string \<Rightarrow> json list \<Rightarrow> world \<Rightarrow> world" where
  "redis_set_list key xs w = w\<lparr>w_redis := (w_redis w)\<lparr>r_lists := AList.update key xs (r_lists (w_redis w))\<rparr>\<rparr>"

text \<open>Inserting the plays in bulk; what the insert or the commit raises is \<open>ps_commit\<close>.\<close>

definition insert_plays :: "play_services \<Rightarrow> play_row list \<Rightarrow> (world, unit) py" where
  "insert_plays sv new_plays =
     session_scope (ps_commit sv) (py_modify (update_programs (\<lambda>p. p\<lparr>plays := plays p @ new_plays\<rparr>)))"

definition dispatch_listen :: "int \<times> int \<times> timestamp \<Rightarrow> unit \<Rightarrow> (world, unit) py" where
  "dispatch_listen e u =
     (case e of (slot, user_id, created_at) \<Rightarrow>
        py_modify (dispatch digital_content_listen (Some slot) (Some user_id) [(''created_at'', JInt created_at)]))"

text \<open>
  A part that has no play clears the Redis list. The latest transaction is cached before the
  plays are inserted, when it is a play.
\<close>

definition cache_last_play :: "string \<Rightarrow> play_row list \<Rightarrow> world \<Rightarrow> world" where
  "cache_last_play last_tx_in_batch new_plays w =
     (case find (\<lambda>p. pl_signature p = Some last_tx_in_batch) new_plays of
        None \<Rightarrow> w
      | Some p \<Rightarrow> cache_latest_sol_db_tx latest_sol_play_db_tx_key last_tx_in_batch
          (case pl_slot p of None \<Rightarrow> 0 | Some n \<Rightarrow> n) (pl_created_at p) w)"

definition parse_sol_tx_batch :: "play_services \<Rightarrow> string list \<Rightarrow> unit \<Rightarrow> (world, unit) py" where
  "parse_sol_tx_batch sv tx_sig_batch_records u =
     (case tx_sig_batch_records of
        [] \<Rightarrow> py_raise (PyException ''IndexError'')
      | last_tx_in_batch # others \<Rightarrow>
          py_bind (py_lift (fetch_plays sv tx_sig_batch_records 10)) (\<lambda>(new_plays, challenge_bus_events).
          py_seq (if new_plays = [] then py_modify (redis_set_list REDIS_TX_CACHE_QUEUE_PREFIX []) else py_return ())
         (py_seq (py_modify (cache_last_play last_tx_in_batch new_plays))
           (if new_plays = [] then py_return ()
            else py_seq (insert_plays sv new_plays) (py_for dispatch_listen challenge_bus_events ())))))"

section \<open>The task\<close>

definition tx_json :: "signature_info \<Rightarrow> json" where
  "tx_json tx = JObj [(''signature'', JStr (si_signature tx)), (''slot'', JInt (si_slot tx)),
     (''blockTime'', JInt (si_blockTime tx))]"

definition cache_traversed_tx :: "signature_info \<Rightarrow> world \<Rightarrow> world" where
  "cache_traversed_tx tx w =
     redis_set_list REDIS_TX_CACHE_QUEUE_PREFIX (tx_json tx # redis_list REDIS_TX_CACHE_QUEUE_PREFIX w) w"

definition json_slot :: "json \<Rightarrow> exc + int" where
  "json_slot j =
     (case j of JObj d \<Rightarrow> (case map_of d ''slot'' of Some (JInt n) \<Rightarrow> Inr n | _ \<Rightarrow> Inl (KeyError ''slot''))
      | _ \<Rightarrow> Inl (TypeError ''slot''))"

definition json_signature :: "json \<Rightarrow> exc + string" where
  "json_signature j =
     (case j of JObj d \<Rightarrow> (case map_of d ''signature'' of Some (JStr s) \<Rightarrow> Inr s | _ \<Rightarrow> Inl (KeyError ''signature''))
      | _ \<Rightarrow> Inl (TypeError ''signature''))"

text \<open>
  The loop over the cached transactions: each is removed, a single remaining one is removed with
  it, and the first one above the latest slot is the place to start at.
\<close>

function fetch_traversed_tx_from_cache :: "int \<Rightarrow> json list \<Rightarrow> (exc + string option) \<times> json list" where
  "fetch_traversed_tx_from_cache latest_db_slot [] = (Inr None, [])"
| "fetch_traversed_tx_from_cache latest_db_slot (last_cached_tx # others) =
     (let remaining = (if length others = 1 then [] else others) in
      case json_slot last_cached_tx of
        Inl e \<Rightarrow> (Inl e, remaining)
      | Inr slot \<Rightarrow>
          if slot > latest_db_slot
          then (exc_bind (json_signature last_cached_tx) (\<lambda>s. Inr (Some s)), remaining)
          else fetch_traversed_tx_from_cache latest_db_slot remaining)"
  by pat_completeness auto
termination by (relation "measure (\<lambda>(n, xs). length xs)") auto

definition get_latest_slot :: "db \<Rightarrow> int" where
  "get_latest_slot d =
     (case first_desc pl_slot (filter (\<lambda>p. pl_slot p \<noteq> None \<and> pl_signature p \<noteq> None) (plays (programs d))) of
        None \<Rightarrow> 0
      | Some p \<Rightarrow> (case pl_slot p of None \<Rightarrow> 0 | Some n \<Rightarrow> n))"

definition get_play_tx_in_db :: "db \<Rightarrow> string \<Rightarrow> bool" where
  "get_play_tx_in_db d tx_sig \<longleftrightarrow> sql_count (\<lambda>p. pl_signature p = Some tx_sig) (plays (programs d)) > 0"

function split_list :: "nat \<Rightarrow> 'a list \<Rightarrow> 'a list list" where
  "split_list n xs = (if xs = [] \<or> n = 0 then [] else take n xs # split_list n (drop n xs))"
  by pat_completeness auto
termination by (relation "measure (\<lambda>(n, xs). length xs)") auto

declare split_list.simps [simp del]

definition plays_rpc :: "play_services \<Rightarrow> signatures_rpc" where
  "plays_rpc sv before =
     get_signatures_for_address (ps_nodes sv) (ps_program sv) before (Some FETCH_TX_SIGNATURES_BATCH_SIZE)"

text \<open>
  The walk is that of the program indexer, page after page, with no bound on the number of
  batches; the last transaction of each page is pushed to the Redis list.
\<close>

definition walk_plays ::
  "play_services \<Rightarrow> db \<Rightarrow> string option \<Rightarrow> ((exc + signature_info list list) \<times> signature_info list) option" where
  "walk_plays sv d last_tx_signature =
     walk (plays_rpc sv) (scan_unindexed (get_latest_slot d) (get_play_tx_in_db d) []) (\<lambda>batches. batches)
       last_tx_signature [] []"

text \<open>
  \<open>latest_play_slot\<close>: a page with transactions to process starts with one of them, so the
  first transaction of the page is the first of the batch; a slot of zero is taken for none.
\<close>

definition latest_play_slot :: "signature_info list list \<Rightarrow> int option" where
  "latest_play_slot transaction_signatures =
     find (\<lambda>n. n \<noteq> 0) (map (\<lambda>batch. si_slot (hd batch)) transaction_signatures)"

definition report_plays_progress :: "play_services \<Rightarrow> signature_info list list \<Rightarrow> (world, unit) py" where
  "report_plays_progress sv transaction_signatures =
     (case latest_play_slot transaction_signatures of
        Some slot \<Rightarrow> py_modify (redis_set latest_sol_plays_slot_key (JInt slot))
      | None \<Rightarrow>
          (case get_slot (ps_nodes sv) of
             Inl e \<Rightarrow> py_raise (PyException ''UnboundLocalError'')
           | Inr latest_global_slot \<Rightarrow> py_modify (redis_set latest_sol_plays_slot_key (JInt latest_global_slot))))"

definition process_play_page :: "play_services \<Rightarrow> signature_info list \<Rightarrow> unit \<Rightarrow> (world, unit) py" where
  "process_play_page sv tx_sig_batch u =
     py_for (parse_sol_tx_batch sv) (split_list TX_SIGNATURES_PROCESSING_SIZE (map si_signature tx_sig_batch)) ()"

definition process_play_signatures :: "play_services \<Rightarrow> signature_info list list \<Rightarrow> (world, unit) py" where
  "process_play_signatures sv transaction_signatures =
     py_seq (py_for (process_play_page sv) (rev transaction_signatures) ())
       (report_plays_progress sv transaction_signatures)"

text \<open>None is a walk that does not return.\<close>

definition process_solana_plays :: "play_services \<Rightarrow> world \<Rightarrow> ((exc + unit) \<times> world) option" where
  "process_solana_plays sv w =
     (case ps_b58decode sv (ps_program sv) of
        Inl e \<Rightarrow> Some (Inr (), w)
      | Inr program \<Rightarrow>
          (case fetch_traversed_tx_from_cache (get_latest_slot (w_db w)) (redis_list REDIS_TX_CACHE_QUEUE_PREFIX w) of
             (cached_offset_tx, remaining) \<Rightarrow>
               let w1 = redis_set_list REDIS_TX_CACHE_QUEUE_PREFIX remaining w in
               case cached_offset_tx of
                 Inl e \<Rightarrow> Some (Inl e, w1)
               | Inr last_tx_signature \<Rightarrow>
                   map_option (\<lambda>(transaction_signatures, seen).
                       py_bind (py_lift transaction_signatures) (process_play_signatures sv)
                         (fold cache_traversed_tx seen w1))
                     (walk_plays sv (w_db w) last_tx_signature)))"

definition index_solana_plays :: "play_services \<Rightarrow> bool \<Rightarrow> world \<Rightarrow> ((exc + unit) \<times> world) option" where
  "index_solana_plays sv have_lock w =
     (case fetch_and_cache_latest_program_tx_redis (ps_nodes sv) (ps_program sv)
             latest_sol_play_program_tx_key w of
        (Inl e, w') \<Rightarrow> Some (Inl e, w')
      | (Inr u, w') \<Rightarrow>
          if have_lock
          then map_option (\<lambda>(r, w''). (r, flush (ps_rpush_ok sv) w'')) (process_solana_plays sv w')
          else Some (Inr (), w'))"


section \<open>What a part adds\<close>

text \<open>The nodes agree on the transactions: \<open>chain\<close> gives the transaction of a signature.\<close>

definition nodes_agree :: "play_services \<Rightarrow> (string \<Rightarrow> transaction_info) \<Rightarrow> bool" where
  "nodes_agree sv chain \<longleftrightarrow>
     (\<forall>a s tx. get_sol_tx_info (ps_fetch_nodes sv a) s = Inr tx \<longrightarrow> tx = chain s)"

text \<open>The play of a transaction, if it is a listen.\<close>

definition play_of :: "play_services \<Rightarrow> (string \<Rightarrow> transaction_info) \<Rightarrow> string \<Rightarrow> play_row option" where
  "play_of sv chain s =
     (case exc_bind (play_in_tx sv (chain s) s) (\<lambda>r. case r of
          None \<Rightarrow> Inr None | Some info \<Rightarrow> exc_bind (play_row_of info) (\<lambda>p. Inr (Some p))) of
        Inl e \<Rightarrow> None | Inr found \<Rightarrow> found)"

lemma play_in_tx_Some:
  "play_in_tx sv tx s = Inr (Some (u, d, c, src, l, n, s')) \<Longrightarrow> n = sx_slot tx \<and> s' = s"
  unfolding play_in_tx_def by (auto simp: exc_bind_Inr_iff split: if_splits option.splits)

lemma play_row_of_columns:
  "play_row_of (u, d, c, src, l, n, s) = Inr p \<Longrightarrow> pl_signature p = Some s \<and> pl_slot p = Some n \<and> pl_user_id p = u"
  by (auto simp: play_row_of_def exc_bind_Inr_iff)

lemma play_of_columns:
  "play_of sv chain s = Some p \<Longrightarrow> pl_signature p = Some s \<and> pl_slot p = Some (sx_slot (chain s))"
  unfolding play_of_def
  by (auto split: sum.splits option.splits simp: exc_bind_Inr_iff dest!: play_row_of_columns play_in_tx_Some)

lemma collect_plays_Inr:
  assumes "nodes_agree sv chain"
    and "collect_plays sv (ps_fetch_nodes sv a) sigs ps es = Inr (ps', es')"
  shows "ps' = ps @ List.map_filter (play_of sv chain) sigs"
  using assms(2)
proof (induction sigs arbitrary: ps es)
  case (Cons s sigs)
  from Cons.prems obtain tx r where tx: "get_sol_tx_info (ps_fetch_nodes sv a) s = Inr tx"
    and r: "play_in_tx sv tx s = Inr r"
    by (auto simp: parse_sol_play_transaction_def exc_bind_Inr_iff)
  have chain: "chain s = tx" using assms(1) tx unfolding nodes_agree_def by blast
  show ?case
  proof (cases r)
    case None
    with Cons tx r show ?thesis
      by (simp add: parse_sol_play_transaction_def List.map_filter_simps play_of_def chain)
  next
    case (Some info)
    with Cons.prems tx r obtain p where p: "play_row_of info = Inr p"
      by (auto simp: parse_sol_play_transaction_def exc_bind_Inr_iff)
    obtain u d c src l n s' where info: "info = (u, d, c, src, l, n, s')" by (metis prod.collapse)
    have "play_of sv chain s = Some p" by (simp add: play_of_def chain r Some p)
    moreover have "collect_plays sv (ps_fetch_nodes sv a) sigs (ps @ [p])
        (case u of None \<Rightarrow> es | Some u \<Rightarrow> es @ [(n, u, c)]) = Inr (ps', es')"
      using Cons.prems tx r p Some by (simp add: parse_sol_play_transaction_def info)
    ultimately show ?thesis using Cons.IH [of "ps @ [p]"] by (simp add: List.map_filter_simps)
  qed
qed (simp add: List.map_filter_simps)

lemma fetch_plays_Inr:
  assumes "nodes_agree sv chain" and "\<And>a b. mset (ps_completion sv a b) = mset b"
    and "fetch_plays sv sigs n = Inr (ps, es)"
  shows "\<exists>L. mset L = mset sigs \<and> ps = List.map_filter (play_of sv chain) L"
  using assms(3)
proof (induction n)
  case 0
  then have "collect_plays sv (ps_fetch_nodes sv 0) (ps_completion sv 0 sigs) [] [] = Inr (ps, es)"
    by (auto simp: fetch_plays.simps [of _ _ 0] split: sum.splits if_splits)
  from collect_plays_Inr [OF assms(1) this] assms(2) show ?case by auto
next
  case (Suc n)
  show ?case
  proof (cases "fetch_plays sv sigs n = Inr (ps, es)")
    case True
    then show ?thesis by (rule Suc.IH)
  next
    case False
    with Suc.prems have "collect_plays sv (ps_fetch_nodes sv (Suc n)) (ps_completion sv (Suc n) sigs) [] [] = Inr (ps, es)"
      by (auto simp: fetch_plays.simps [of _ _ "Suc n"] split: sum.splits if_splits)
    from collect_plays_Inr [OF assms(1) this] assms(2) show ?thesis by auto
  qed
qed

abbreviation w_plays :: "world \<Rightarrow> play_row list" where
  "w_plays w \<equiv> plays (programs (w_db w))"

lemma redis_set_list_db [simp]: "w_db (redis_set_list k xs w) = w_db w"
  by (simp add: redis_set_list_def)

lemma cache_last_play_db [simp]: "w_db (cache_last_play s ps w) = w_db w"
  by (simp add: cache_last_play_def split: option.split)

lemma dispatch_listens_db:
  "py_for dispatch_listen es u w = (r, w') \<Longrightarrow> r = Inr () \<and> w_db w' = w_db w"
proof (induction es arbitrary: u w)
  case (Cons e es)
  obtain w1 where "dispatch_listen e u w = (Inr (), w1)" "w_db w1 = w_db w"
    by (cases e) (simp add: dispatch_listen_def py_modify_def)
  with Cons show ?case by (simp add: py_bind_def)
qed (simp add: py_return_def)

lemma insert_plays_run:
  "insert_plays sv ps w = (r, w') \<Longrightarrow> w_plays w' = w_plays w @ (if isl r then [] else ps)"
  by (auto simp: insert_plays_def session_scope_def py_modify_def split: option.splits)

text \<open>
  \<open>adds_plays\<close>: a step adds the plays of some of the given transactions, each at most once, and
  of all of them when it returns.
\<close>

definition adds_plays ::
  "(string \<Rightarrow> play_row option) \<Rightarrow> string list \<Rightarrow> play_row list \<Rightarrow> exc + unit \<Rightarrow> play_row list \<Rightarrow> bool" where
  "adds_plays f sigs before r after \<longleftrightarrow>
     (\<exists>L. after = before @ List.map_filter f L \<and> mset L \<subseteq># mset sigs \<and> (\<not> isl r \<longrightarrow> mset L = mset sigs))"

lemma adds_nothing: "adds_plays f sigs before (Inl e) before"
  by (simp add: adds_plays_def List.map_filter_simps exI [of _ "[]"])

lemma batch_adds_plays:
  assumes "nodes_agree sv chain" and "\<And>a b. mset (ps_completion sv a b) = mset b"
    and "parse_sol_tx_batch sv sigs u w = (r, w')"
  shows "adds_plays (play_of sv chain) sigs (w_plays w) r (w_plays w')"
proof (cases sigs)
  case Nil
  with assms(3) show ?thesis by (auto simp: parse_sol_tx_batch_def py_raise_def adds_nothing)
next
  case (Cons s ss)
  show ?thesis
  proof (cases "fetch_plays sv sigs 10")
    case (Inl e)
    with assms(3) Cons show ?thesis
      by (auto simp: parse_sol_tx_batch_def py_bind_def py_lift_def adds_nothing)
  next
    case (Inr pe)
    obtain ps es where pe: "pe = (ps, es)" by (cases pe)
    obtain L where L: "mset L = mset sigs" "ps = List.map_filter (play_of sv chain) L"
      using fetch_plays_Inr [OF assms(1,2)] Inr pe by blast
    have adds: "adds_plays (play_of sv chain) sigs (w_plays w) r (w_plays w @ (if isl r then [] else ps))"
      by (cases r) (auto simp: adds_plays_def L(1) intro: exI [of _ L] simp flip: L(2) simp: List.map_filter_simps exI [of _ "[]"])
    have "w_plays w' = w_plays w @ (if isl r then [] else ps)"
    proof (cases "ps = []")
      case True
      with assms(3) Cons Inr pe show ?thesis
        by (auto simp: parse_sol_tx_batch_def py_defs)
    next
      case False
      then obtain r1 w1 w2 where i: "insert_plays sv ps w1 = (r1, w2)" and w1: "w_db w1 = w_db w"
        and rest: "(case r1 of Inl e \<Rightarrow> (Inl e, w2) | Inr x \<Rightarrow> py_for dispatch_listen es x w2) = (r, w')"
        using assms(3) Cons Inr pe
        by (cases "insert_plays sv ps (cache_last_play s ps w)")
          (simp add: parse_sol_tx_batch_def py_seq_def py_bind_def py_lift_def py_return_def py_modify_def)
      from insert_plays_run [OF i] rest w1 show ?thesis
        by (cases r1) (auto dest: dispatch_listens_db)
    qed
    with adds show ?thesis by simp
  qed
qed

lemma py_for_adds_plays:
  assumes "\<And>x acc w r w'. body x acc w = (r, w') \<Longrightarrow> adds_plays f (g x) (w_plays w) r (w_plays w')"
    and "py_for body xs acc w = (r, w')"
  shows "adds_plays f (concat (map g xs)) (w_plays w) r (w_plays w')"
  using assms(2)
proof (induction xs arbitrary: acc w)
  case Nil
  then show ?case by (auto simp: py_return_def adds_plays_def List.map_filter_simps)
next
  case (Cons x xs)
  obtain r1 w1 where step: "body x acc w = (r1, w1)" by (metis surj_pair)
  from assms(1) [OF this] obtain L where L: "w_plays w1 = w_plays w @ List.map_filter f L"
    "mset L \<subseteq># mset (g x)" "\<not> isl r1 \<longrightarrow> mset L = mset (g x)" by (auto simp: adds_plays_def)
  show ?case
  proof (cases r1)
    case (Inl e)
    with Cons.prems step have "r = Inl e" "w' = w1" by (auto simp: py_bind_def)
    with L show ?thesis unfolding adds_plays_def
      by (intro exI [of _ L]) (auto intro: subset_mset.order_trans mset_subset_eq_add_left)
  next
    case (Inr acc1)
    with Cons.prems step have "py_for body xs acc1 w1 = (r, w')" by (simp add: py_bind_def)
    from Cons.IH [OF this] obtain M where M: "w_plays w' = w_plays w1 @ List.map_filter f M"
      "mset M \<subseteq># mset (concat (map g xs))" "\<not> isl r \<longrightarrow> mset M = mset (concat (map g xs))" by (auto simp: adds_plays_def)
    have mf: "List.map_filter f (L @ M) = List.map_filter f L @ List.map_filter f M"
      by (simp add: List.map_filter_def)
    from L M Inr show ?thesis unfolding adds_plays_def
      by (intro exI [of _ "L @ M"]) (simp add: mf subset_mset.add_mono)
  qed
qed

lemma concat_split_list: "n \<noteq> 0 \<Longrightarrow> concat (split_list n xs) = xs"
proof (induction n xs rule: split_list.induct)
  case (1 n xs)
  then show ?case by (subst split_list.simps) simp
qed

lemma page_adds_plays:
  assumes "nodes_agree sv chain" and "\<And>a b. mset (ps_completion sv a b) = mset b"
    and "process_play_page sv page u w = (r, w')"
  shows "adds_plays (play_of sv chain) (map si_signature page) (w_plays w) r (w_plays w')"
proof -
  have "adds_plays (play_of sv chain)
      (concat (map (\<lambda>x. x) (split_list TX_SIGNATURES_PROCESSING_SIZE (map si_signature page)))) (w_plays w) r (w_plays w')"
    using assms(3) unfolding process_play_page_def
    by (rule py_for_adds_plays [rotated]) (rule batch_adds_plays [OF assms(1,2)])
  then show ?thesis by (simp add: concat_split_list TX_SIGNATURES_PROCESSING_SIZE_def)
qed

lemma report_plays_db: "report_plays_progress sv bs w = (r, w') \<Longrightarrow> w_db w' = w_db w"
  by (auto simp: report_plays_progress_def py_modify_def py_raise_def split: option.splits sum.splits)

lemma signatures_add_plays:
  assumes "nodes_agree sv chain" and "\<And>a b. mset (ps_completion sv a b) = mset b"
    and "process_play_signatures sv bs w = (r, w')"
  shows "adds_plays (play_of sv chain) (map si_signature (concat (rev bs))) (w_plays w) r (w_plays w')"
proof -
  obtain r1 w1 where run: "py_for (process_play_page sv) (rev bs) () w = (r1, w1)" by (metis surj_pair)
  have adds: "adds_plays (play_of sv chain) (concat (map (map si_signature) (rev bs))) (w_plays w) r1 (w_plays w1)"
    using run by (rule py_for_adds_plays [rotated]) (rule page_adds_plays [OF assms(1,2)])
  have "w_plays w' = w_plays w1 \<and> (isl r \<or> \<not> isl r1)"
    using assms(3) run unfolding process_play_signatures_def py_seq_def py_bind_def
    by (auto split: sum.splits dest: report_plays_db)
  with adds show ?thesis by (auto simp: adds_plays_def map_concat)
qed


section \<open>Runs\<close>

text \<open>
  The table and a history: no signature has two plays, and the plays of the history's transactions
  have their slots.
\<close>

definition plays_ok :: "signature_info list \<Rightarrow> play_row list \<Rightarrow> bool" where
  "plays_ok history ps \<longleftrightarrow> distinct (List.map_filter pl_signature ps) \<and>
     (\<forall>p\<in>set ps. \<forall>t\<in>set history. pl_signature p = Some (si_signature t) \<longrightarrow> pl_slot p = Some (si_slot t))"

definition is_stored :: "play_row list \<Rightarrow> signature_info \<Rightarrow> bool" where
  "is_stored ps t \<longleftrightarrow> Some (si_signature t) \<in> pl_signature ` set ps"

lemma get_latest_slot_max:
  assumes "p \<in> set (plays (programs d))" and "pl_slot p = Some n" and "pl_signature p = Some s"
  shows "n \<le> get_latest_slot d"
proof -
  let ?ps = "filter (\<lambda>p. pl_slot p \<noteq> None \<and> pl_signature p \<noteq> None) (plays (programs d))"
  have p: "p \<in> set ?ps" using assms by simp
  then have "?ps \<noteq> []" by (simp only: length_pos_if_in_set length_greater_0_conv [symmetric])
  then obtain q where q: "first_desc pl_slot ?ps = Some q"
    by (cases "first_desc pl_slot ?ps") (simp_all only: first_desc_None)
  have "\<not> desc_before (pl_slot p) (pl_slot q)" by (rule first_desc_max [OF q p])
  moreover have "pl_slot q \<noteq> None" using first_desc_mem [OF q] by simp
  ultimately show ?thesis
    using assms(2) unfolding get_latest_slot_def q option.case by (auto simp: not_less)
qed

lemma get_play_tx_in_db_iff: "get_play_tx_in_db d s \<longleftrightarrow> Some s \<in> pl_signature ` set (plays (programs d))"
  by (simp add: get_play_tx_in_db_def sql_count_def filter_empty_conv image_iff)
    (simp only: eq_commute [of "Some s"])

lemma stops_at_stored:
  assumes "plays_ok history (plays (programs d))" and "t \<in> set history"
  shows "si_slot t \<le> get_latest_slot d \<and> get_play_tx_in_db d (si_signature t) \<longleftrightarrow>
    is_stored (plays (programs d)) t"
  using assms get_latest_slot_max [of _ d] unfolding get_play_tx_in_db_iff is_stored_def plays_ok_def by force

lemma fresh_transactions:
  assumes "plays_ok history (plays (programs d))"
  shows "un.wanted (get_latest_slot d) (get_play_tx_in_db d) history =
    takeWhile (\<lambda>t. \<not> is_stored (plays (programs d)) t) history"
  unfolding un.wanted_def using stops_at_stored [OF assms] by (simp cong: takeWhile_cong)

lemma cache_traversed_db [simp]: "w_db (fold cache_traversed_tx ts w) = w_db w"
  by (induction ts arbitrary: w) (simp_all add: cache_traversed_tx_def)

text \<open>A run that starts at the newest transaction.\<close>

lemma run_from_head:
  assumes serves: "serves history (plays_rpc sv)" and dist: "distinct (map si_signature history)"
    and ok: "plays_ok history (w_plays w)" and program: "ps_b58decode sv (ps_program sv) = Inr key"
    and start: "fst (fetch_traversed_tx_from_cache (get_latest_slot (w_db w))
      (redis_list REDIS_TX_CACHE_QUEUE_PREFIX w)) = Inr None"
    and agree: "nodes_agree sv chain" and compl: "\<And>a b. mset (ps_completion sv a b) = mset b"
  obtains r w' where "process_solana_plays sv w = Some (r, w')"
    and "adds_plays (play_of sv chain) (map si_signature (takeWhile (\<lambda>t. \<not> is_stored (w_plays w) t) history))
      (w_plays w) r (w_plays w')"
proof -
  let ?latest = "get_latest_slot (w_db w)" and ?in_db = "get_play_tx_in_db (w_db w)"
  obtain bs seen where walk: "walk (plays_rpc sv) (scan_unindexed ?latest ?in_db []) (\<lambda>bs. bs) None [] [] = Some (Inr bs, seen)"
    and found: "takeWhile (\<lambda>t. \<not> is_stored (w_plays w) t) history = concat bs"
  proof (rule un.walk_history [OF dist serves, of ?latest ?in_db])
    fix bs seen dropped
    assume "walk (plays_rpc sv) (scan_unindexed ?latest ?in_db []) (\<lambda>bs. bs) None [] [] = Some (Inr bs, seen)"
      and "un.wanted ?latest ?in_db history = dropped @ concat bs"
      and "un.unbounded \<or> length (takeWhile (\<lambda>t. \<not> (si_slot t \<le> ?latest \<and> ?in_db (si_signature t))) history) <
        TX_SIGNATURES_MAX_BATCHES * FETCH_TX_SIGNATURES_BATCH_SIZE \<Longrightarrow> dropped = []"
    then show thesis by (intro that) (simp_all add: un.unbounded_def fresh_transactions [OF ok])
  qed
  obtain remaining where cached: "fetch_traversed_tx_from_cache ?latest (redis_list REDIS_TX_CACHE_QUEUE_PREFIX w) = (Inr None, remaining)"
    using start by (metis prod.collapse)
  define w1 where "w1 = fold cache_traversed_tx seen (redis_set_list REDIS_TX_CACHE_QUEUE_PREFIX remaining w)"
  obtain r w' where run: "process_play_signatures sv bs w1 = (r, w')" by (metis surj_pair)
  have "w_db w1 = w_db w" by (simp add: w1_def)
  moreover have "adds_plays (play_of sv chain) (map si_signature (concat (rev bs))) (w_plays w1) r (w_plays w')"
    by (rule signatures_add_plays [OF agree compl run])
  moreover have "mset (map si_signature (concat (rev bs))) = mset (map si_signature (concat bs))"
    by (simp add: mset_concat rev_map [symmetric] sum_list.rev)
  ultimately have "adds_plays (play_of sv chain) (map si_signature (concat bs)) (w_plays w) r (w_plays w')"
    by (simp add: adds_plays_def)
  moreover have "process_solana_plays sv w = Some (r, w')"
    using run by (simp add: process_solana_plays_def program cached walk_plays_def walk py_bind_def py_lift_def w1_def)
  ultimately show thesis by (intro that) (simp_all add: found)
qed


section \<open>Properties\<close>

lemma map_filter_append: "List.map_filter f (xs @ ys) = List.map_filter f xs @ List.map_filter f ys"
  by (induction xs) (auto split: option.split)

lemma distinct_map_takeWhile: "distinct (map f xs) \<Longrightarrow> distinct (map f (takeWhile P xs))"
  by (metis distinct_append map_append takeWhile_dropWhile_id)

lemma map_filter_signatures:
  "(\<And>s p. f s = Some p \<Longrightarrow> pl_signature p = Some s) \<Longrightarrow>
    List.map_filter pl_signature (List.map_filter f L) = filter (\<lambda>s. f s \<noteq> None) L"
  by (induction L) (auto simp: List.map_filter_simps split: option.split)

lemma distinct_of_submset:
  assumes "distinct ys" and "mset xs \<subseteq># mset ys"
  shows "distinct xs"
proof -
  obtain M where "mset ys = mset xs + M" using assms(2) by (auto simp: mset_subset_eq_exists_conv)
  moreover obtain zs where "mset zs = M" using ex_mset by blast
  ultimately have "mset ys = mset (xs @ zs)" by simp
  then have "distinct (xs @ zs)" using assms(1) mset_eq_imp_distinct_iff by blast
  then show ?thesis by simp
qed

lemma adds_plays_ok:
  assumes adds: "adds_plays (play_of sv chain) (map si_signature new) ps r ps'"
    and ok: "plays_ok history ps" and fresh: "\<And>t. t \<in> set new \<Longrightarrow> t \<in> set history \<and> \<not> is_stored ps t"
    and dist: "distinct (map si_signature history)" "distinct (map si_signature new)"
    and slots: "\<And>t. t \<in> set history \<Longrightarrow> sx_slot (chain (si_signature t)) = si_slot t"
  shows "plays_ok history ps'"
proof -
  obtain L where L: "ps' = ps @ List.map_filter (play_of sv chain) L" "mset L \<subseteq># mset (map si_signature new)"
    using adds by (auto simp: adds_plays_def)
  have sub: "set L \<subseteq> si_signature ` set new" using set_mset_mono [OF L(2)] by simp
  have "distinct L" by (rule distinct_of_submset [OF dist(2) L(2)])
  moreover have "set (List.map_filter pl_signature ps) \<inter> set L = {}"
    using sub fresh by (force simp: set_map_filter is_stored_def image_iff)
  moreover have "List.map_filter pl_signature ps' =
      List.map_filter pl_signature ps @ filter (\<lambda>s. play_of sv chain s \<noteq> None) L"
    using map_filter_signatures [of "play_of sv chain" L] play_of_columns
    by (simp add: L(1) map_filter_append)
  ultimately have "distinct (List.map_filter pl_signature ps')"
    using ok by (auto simp: plays_ok_def)
  moreover have "pl_slot p = Some (si_slot t)"
    if p: "p \<in> set ps'" and t: "t \<in> set history" "pl_signature p = Some (si_signature t)" for p t
  proof (cases "p \<in> set ps")
    case True
    with ok t show ?thesis by (simp add: plays_ok_def)
  next
    case False
    then obtain s where "play_of sv chain s = Some p" using p by (auto simp: L(1) set_map_filter)
    from play_of_columns [OF this] t(2) slots [OF t(1)] show ?thesis by simp
  qed
  ultimately show ?thesis by (simp add: plays_ok_def)
qed


lemma run_adds:
  assumes "serves history (plays_rpc sv)" and "distinct (map si_signature history)"
    and "plays_ok history (w_plays w)" and "ps_b58decode sv (ps_program sv) = Inr key"
    and "fst (fetch_traversed_tx_from_cache (get_latest_slot (w_db w))
      (redis_list REDIS_TX_CACHE_QUEUE_PREFIX w)) = Inr None"
    and "nodes_agree sv chain" and "\<And>a b. mset (ps_completion sv a b) = mset b"
    and slots: "\<And>t. t \<in> set history \<Longrightarrow> sx_slot (chain (si_signature t)) = si_slot t"
  shows "\<exists>r w' added. process_solana_plays sv w = Some (r, w') \<and> w_plays w' = w_plays w @ added \<and>
    plays_ok history (w_plays w') \<and>
    (\<forall>p\<in>set added. \<exists>t\<in>set (takeWhile (\<lambda>t. \<not> is_stored (w_plays w) t) history).
       play_of sv chain (si_signature t) = Some p) \<and>
    (r = Inr () \<longrightarrow> (\<forall>t\<in>set (takeWhile (\<lambda>t. \<not> is_stored (w_plays w) t) history).
       \<forall>p. play_of sv chain (si_signature t) = Some p \<longrightarrow> p \<in> set added))"
proof -
  let ?new = "takeWhile (\<lambda>t. \<not> is_stored (w_plays w) t) history"
  obtain r w' where run: "process_solana_plays sv w = Some (r, w')"
    and adds: "adds_plays (play_of sv chain) (map si_signature ?new) (w_plays w) r (w_plays w')"
    by (rule run_from_head [OF assms(1-7)])
  have "t \<in> set history \<and> \<not> is_stored (w_plays w) t" if "t \<in> set ?new" for t
    using set_takeWhileD [OF that] by simp
  moreover have "distinct (map si_signature ?new)"
    by (rule distinct_map_takeWhile [OF assms(2)])
  ultimately have ok: "plays_ok history (w_plays w')"
    using adds_plays_ok [OF adds assms(3) _ assms(2)] slots by blast
  obtain L where L: "w_plays w' = w_plays w @ List.map_filter (play_of sv chain) L"
    "mset L \<subseteq># mset (map si_signature ?new)" "\<not> isl r \<longrightarrow> mset L = mset (map si_signature ?new)"
    using adds by (auto simp: adds_plays_def)
  have sub: "set L \<subseteq> si_signature ` set ?new" using set_mset_mono [OF L(2)] by simp
  have all: "si_signature ` set ?new \<subseteq> set L" if "r = Inr ()"
    using L(3) that by (metis isl_def list.set_map order_refl set_mset_mset sum.distinct(1))
  show ?thesis
  proof (intro exI conjI ballI impI allI)
    show "\<exists>t\<in>set ?new. play_of sv chain (si_signature t) = Some p"
      if "p \<in> set (List.map_filter (play_of sv chain) L)" for p
      using that sub by (auto simp: set_map_filter)
    show "p \<in> set (List.map_filter (play_of sv chain) L)"
      if "r = Inr ()" "t \<in> set ?new" "play_of sv chain (si_signature t) = Some p" for t p
      using all [OF that(1)] that(2,3) unfolding set_map_filter by blast
  qed (fact run L(1) ok)+
qed

text \<open>
  C17. The listens are indexed once. When the Redis list gives no other place to start at, a run of
  the indexer ends; it only adds plays of the transactions above the newest stored one, each the
  play its transaction describes, and none twice; and when it returns without exception it has
  added all of them.
\<close>

theorem plays_indexed:
  assumes "serves history (plays_rpc sv)" and "distinct (map si_signature history)"
    and "plays_ok history (w_plays w)" and "ps_b58decode sv (ps_program sv) = Inr key"
    and "fst (fetch_traversed_tx_from_cache (get_latest_slot (w_db w))
      (redis_list REDIS_TX_CACHE_QUEUE_PREFIX w)) = Inr None"
    and "nodes_agree sv chain" and "\<And>a b. mset (ps_completion sv a b) = mset b"
    and "\<And>t. t \<in> set history \<Longrightarrow> sx_slot (chain (si_signature t)) = si_slot t"
  shows "\<exists>r w' added. process_solana_plays sv w = Some (r, w') \<and> w_plays w' = w_plays w @ added \<and>
    plays_ok history (w_plays w') \<and>
    (\<forall>p\<in>set added. \<exists>t\<in>set (takeWhile (\<lambda>t. \<not> is_stored (w_plays w) t) history).
       play_of sv chain (si_signature t) = Some p) \<and>
    (r = Inr () \<longrightarrow> (\<forall>t\<in>set (takeWhile (\<lambda>t. \<not> is_stored (w_plays w) t) history).
       \<forall>p. play_of sv chain (si_signature t) = Some p \<longrightarrow> p \<in> set added))"
  by (rule run_adds [OF assms])



text \<open>An example: three listens of user 1; the nodes answer from a history.\<close>

definition ex_play_bytes :: bytes where
  "ex_play_bytes = 0 # encode_field (FString ''1'') @ encode_field (FString ''23'') @ encode_field (FString ''x'') @
     encode_field (FTime 100)"

definition ex_play_tx :: "int \<Rightarrow> transaction_info" where
  "ex_play_tx n = \<lparr>sx_slot = n, sx_blockTime = 100, sx_err = False, sx_logMessages = [],
     sx_accountKeys = [SECP_PROGRAM, ''G'', ''P''],
     sx_instructions = [\<lparr>in_accounts = [], in_data = ''d'', in_programIdIndex = 2\<rparr>],
     sx_preTokenBalances = None, sx_postTokenBalances = None\<rparr>"

definition ex_play_node :: "(string \<times> int) list \<Rightarrow> signature_info list \<Rightarrow> solana_node" where
  "ex_play_node slots history = \<lparr>
     sn_signatures = (\<lambda>account before limit i. Inr (take (case limit of None \<Rightarrow> 1000 | Some n \<Rightarrow> n) (older_than before history))),
     sn_interrupted = (\<lambda>account before. False),
     sn_transaction = (\<lambda>s i. Inr (map_option ex_play_tx (map_of slots s))), sn_slot = (\<lambda>i. Inr 9)\<rparr>"

definition ex_play_services :: "(string \<times> int) list \<Rightarrow> signature_info list \<Rightarrow> play_services" where
  "ex_play_services slots history = \<lparr>ps_program = ''P'', ps_signer_group = ''G'',
     ps_b58decode = (\<lambda>s. Inr ex_play_bytes), ps_json_loads = (\<lambda>b. Inl (PyException ''JSONDecodeError'')),
     ps_nodes = [ex_play_node slots history], ps_fetch_nodes = (\<lambda>a. [ex_play_node slots history]),
     ps_timeout = (\<lambda>a s. False), ps_completion = (\<lambda>a s. rev s), ps_commit = (\<lambda>d. None), ps_rpush_ok = (\<lambda>e. True)\<rparr>"

definition ex_play :: "string \<Rightarrow> int \<Rightarrow> play_row" where
  "ex_play s n = \<lparr>pl_user_id = Some 1, pl_play_item_id = 23, pl_created_at = 100, pl_source = JStr ''x'',
     pl_city = JNull, pl_region = JNull, pl_country = JNull, pl_slot = Some n, pl_signature = Some s\<rparr>"

lemma ex_play_of: "play_in_tx (ex_play_services slots history) (ex_play_tx n) s =
    Inr (Some (Some 1, 23, 100, JStr ''x'', JObj [], n, s))"
  by code_simp


definition ex_chain :: "(string \<times> int) list \<Rightarrow> string \<Rightarrow> transaction_info" where
  "ex_chain slots s = ex_play_tx (case map_of slots s of None \<Rightarrow> 0 | Some n \<Rightarrow> n)"

lemma ex_serves: "serves history (plays_rpc (ex_play_services slots history))"
  by (simp add: serves_def plays_rpc_def get_signatures_for_address_def try_all_with_timeout_def
      ex_play_services_def ex_play_node_def DEFAULT_MAX_RETRIES_def eval_nat_numeral(3) [of "Num.Bit0 Num.One"]
      eval_nat_numeral)

lemma ex_agree: "nodes_agree (ex_play_services slots history) (ex_chain slots)"
  by (auto simp: nodes_agree_def get_sol_tx_info_def ex_play_services_def ex_play_node_def ex_chain_def
      DEFAULT_MAX_RETRIES_def eval_nat_numeral found_tx_def split: option.splits)

lemma ex_play_of_chain:
  "play_of (ex_play_services slots history) (ex_chain slots) s =
    Some (ex_play s (case map_of slots s of None \<Rightarrow> 0 | Some n \<Rightarrow> n))"
  by (simp add: play_of_def ex_chain_def ex_play_of play_row_of_def location_get_def ex_play_def)

definition ex_plays_world :: "play_row list \<Rightarrow> world" where
  "ex_plays_world ps = empty_world\<lparr>w_db := empty_db\<lparr>programs := empty_programs\<lparr>plays := ps\<rparr>\<rparr>\<rparr>"

lemma ex_plays_world_simps [simp]:
  "w_plays (ex_plays_world ps) = ps" "redis_list k (ex_plays_world ps) = []"
  by (simp_all add: ex_plays_world_def redis_list_def empty_world_def empty_redis_def)

definition ex_slots :: "(string \<times> int) list" where
  "ex_slots = [(''c'', 8), (''b'', 7), (''a'', 5)]"

definition ex_history :: "signature_info list" where
  "ex_history = [ex_tx ''c'' 8, ex_tx ''b'' 7, ex_tx ''a'' 5]"

lemma ex_slots_agree: "t \<in> set ex_history \<Longrightarrow> sx_slot (ex_chain ex_slots (si_signature t)) = si_slot t"
  by (auto simp: ex_history_def ex_chain_def ex_slots_def ex_play_tx_def)

lemma ex_plays_ok: "plays_ok ex_history [ex_play ''a'' 5]" "plays_ok ex_history [ex_play ''b'' 7]"
  by (simp_all add: plays_ok_def ex_history_def ex_play_def)

abbreviation ex_sv :: play_services where
  "ex_sv \<equiv> ex_play_services ex_slots ex_history"

lemma ex_sv_facts: "ps_b58decode ex_sv (ps_program ex_sv) = Inr ex_play_bytes" "mset (ps_completion ex_sv a b) = mset b"
  by (simp_all add: ex_play_services_def)

lemma ex_run_returns: "map_option fst (process_solana_plays ex_sv (ex_plays_world [ex_play ''a'' 5])) = Some (Inr ())"
  by code_simp

theorem plays_indexed_witness:
  "\<exists>w' added. process_solana_plays ex_sv (ex_plays_world [ex_play ''a'' 5]) = Some (Inr (), w') \<and>
    w_plays w' = ex_play ''a'' 5 # added \<and> ex_play ''c'' 8 \<in> set added \<and> ex_play ''b'' 7 \<in> set added"
proof -
  have new: "takeWhile (\<lambda>t. \<not> is_stored [ex_play ''a'' 5] t) ex_history = [ex_tx ''c'' 8, ex_tx ''b'' 7]"
    by (simp add: is_stored_def ex_history_def ex_play_def)
  have dist: "distinct (map si_signature ex_history)" by (simp add: ex_history_def)
  have ok: "plays_ok ex_history (w_plays (ex_plays_world [ex_play ''a'' 5]))" by (simp add: ex_plays_ok)
  have no_cache: "fst (fetch_traversed_tx_from_cache (get_latest_slot (w_db (ex_plays_world [ex_play ''a'' 5])))
      (redis_list REDIS_TX_CACHE_QUEUE_PREFIX (ex_plays_world [ex_play ''a'' 5]))) = Inr None" by simp
  from plays_indexed [OF ex_serves dist ok ex_sv_facts(1) no_cache ex_agree ex_sv_facts(2) ex_slots_agree]
  obtain r w' added where run: "process_solana_plays ex_sv (ex_plays_world [ex_play ''a'' 5]) = Some (r, w')"
    and rest: "w_plays w' = ex_play ''a'' 5 # added"
      "r = Inr () \<longrightarrow> ex_play ''c'' 8 \<in> set added \<and> ex_play ''b'' 7 \<in> set added"
    by (simp add: new ex_play_of_chain ex_slots_def) blast
  from run ex_run_returns have "r = Inr ()" by simp
  with run rest show ?thesis by blast
qed


end
