(* ===== verification/User_Balances.thy ===== *)
theory User_Balances
  imports Python_Numbers Users
begin

text \<open>
  The cached token balances of the users: queries/get_balances.py serves them and enqueues the
  users whose balance has to be looked up, and tasks/cache_user_balance.py looks the balances up
  in the token contracts and logs the changes. The contracts, the two chains and the order in
  which Python enumerates a set are parameters; amounts, which the tables hold as decimal strings,
  are numbers.
\<close>

section \<open>Serving balances\<close>

definition BALANCE_REFRESH :: int where
  "BALANCE_REFRESH = 12 * 60 * 60"

definition does_user_balance_need_refresh :: "timestamp \<Rightarrow> balance_row \<Rightarrow> bool" where
  "does_user_balance_need_refresh now user_balance \<longleftrightarrow>
     ub_updated_at user_balance = ub_created_at user_balance \<or> ub_updated_at user_balance < now - BALANCE_REFRESH"

definition enqueue_lazy_balance_refresh :: "int list \<Rightarrow> world \<Rightarrow> world" where
  "enqueue_lazy_balance_refresh user_ids w =
     w\<lparr>w_redis := (w_redis w)\<lparr>r_lazy_refresh := fold List.insert user_ids (r_lazy_refresh (w_redis w))\<rparr>\<rparr>"

record served_balance =
  sb_owner_wallet_balance :: int
  sb_associated_wallets_balance :: int
  sb_associated_sol_wallets_balance :: int
  sb_wei_digitalcoin_balance :: "int option"
  sb_total_balance :: int

definition served :: "balance_row \<Rightarrow> served_balance" where
  "served b = \<lparr>sb_owner_wallet_balance = ub_balance b,
     sb_associated_wallets_balance = ub_associated_wallets_balance b,
     sb_associated_sol_wallets_balance = ub_associated_sol_wallets_balance b,
     sb_wei_digitalcoin_balance = ub_wei_digitalcoin b,
     sb_total_balance = ub_balance b + ub_associated_wallets_balance b +
       to_wei (Some (ub_associated_sol_wallets_balance b)) + to_wei (ub_wei_digitalcoin b)\<rparr>"

definition no_balance :: served_balance where
  "no_balance = \<lparr>sb_owner_wallet_balance = 0, sb_associated_wallets_balance = 0,
     sb_associated_sol_wallets_balance = 0, sb_wei_digitalcoin_balance = Some 0, sb_total_balance = 0\<rparr>"

definition balances_of :: "int list \<Rightarrow> db \<Rightarrow> balance_row list" where
  "balances_of user_ids d = filter (\<lambda>b. ub_user_id b \<in> set user_ids) (user_balances (programs d))"

text \<open>The users without a row; the set difference is enumerated as \<open>remdups\<close>.\<close>

definition without_balance :: "int list \<Rightarrow> db \<Rightarrow> int list" where
  "without_balance user_ids d =
     filter (\<lambda>u. u \<notin> ub_user_id ` set (balances_of user_ids d)) (remdups user_ids)"

definition get_balances :: "timestamp \<Rightarrow> int list \<Rightarrow> world \<Rightarrow> (int \<times> served_balance) list \<times> world" where
  "get_balances now user_ids w =
     (let query = balances_of user_ids (w_db w);
          needs_balance_set = without_balance user_ids (w_db w);
          needs_refresh = map ub_user_id (filter (does_user_balance_need_refresh now) query)
      in (map (\<lambda>b. (ub_user_id b, served b)) query @ map (\<lambda>u. (u, no_balance)) needs_balance_set,
          enqueue_lazy_balance_refresh (needs_balance_set @ needs_refresh) w))"

section \<open>Looking balances up\<close>

record balance_services =
  bl_toChecksumAddress :: "string \<Rightarrow> exc + string"
  bl_balanceOf :: "string \<Rightarrow> exc + int"
  bl_getTotalDelegatorStake :: "string \<Rightarrow> exc + int"
  bl_totalStakedFor :: "string \<Rightarrow> exc + int"
  bl_has_token :: bool
  bl_derived_account :: "string \<Rightarrow> exc + string"
  bl_PublicKey :: "string \<Rightarrow> exc + string"
  bl_get_balance :: "string \<Rightarrow> exc + int"
  bl_block_number :: "exc + int"
  bl_now :: timestamp
  bl_set_order :: "int list \<Rightarrow> int list"
  bl_contracts :: "exc + unit"
  bl_commit :: "db \<Rightarrow> exc option"

definition MAX_LAZY_REFRESH_USER_IDS :: nat where
  "MAX_LAZY_REFRESH_USER_IDS = 100"

definition user_balances_refresh_last_completion_redis_key :: string where
  "user_balances_refresh_last_completion_redis_key = ''user_balances:last-completion''"

definition get_lazy_refresh_user_ids :: "balance_services \<Rightarrow> world \<Rightarrow> int list" where
  "get_lazy_refresh_user_ids sv w =
     bl_set_order sv (map ub_user_id (filter (does_user_balance_need_refresh (bl_now sv))
       (balances_of (r_lazy_refresh (w_redis w)) (w_db w))))"

definition get_immediate_refresh_user_ids :: "world \<Rightarrow> int list" where
  "get_immediate_refresh_user_ids w = r_immediate_refresh (w_redis w)"

text \<open>A new row; both timestamps are the time of the transaction.\<close>

definition new_balance :: "timestamp \<Rightarrow> int \<Rightarrow> balance_row" where
  "new_balance now user_id = \<lparr>ub_user_id = user_id, ub_balance = 0, ub_associated_wallets_balance = 0,
     ub_wei_digitalcoin = Some 0, ub_associated_sol_wallets_balance = 0, ub_created_at = now, ub_updated_at = now\<rparr>"

definition add_new_balances :: "balance_services \<Rightarrow> int list \<Rightarrow> db \<Rightarrow> db" where
  "add_new_balances sv user_ids d =
     d\<lparr>programs := (programs d)\<lparr>user_balances := user_balances (programs d) @
       map (new_balance (bl_now sv)) (bl_set_order sv (without_balance user_ids d))\<rparr>\<rparr>"

text \<open>The rows of the outer join of the users with their associated wallets.\<close>

definition wallet_rows :: "int list \<Rightarrow> db \<Rightarrow> (int \<times> string option \<times> (string \<times> wallet_chain) option) list" where
  "wallet_rows user_ids d = concat (map (\<lambda>u.
     let ws = filter (\<lambda>a. aw_user_id a = us_user_id u \<and> aw_is_current a \<and> \<not> aw_is_delete a) (associated_wallets d)
     in if ws = [] then [(us_user_id u, us_wallet u, None)]
        else map (\<lambda>a. (us_user_id u, us_wallet u, Some (aw_wallet a, aw_chain a))) ws)
     (filter (\<lambda>u. us_user_id u \<in> set user_ids \<and> us_is_current u) (users d)))"

text \<open>\<open>dict\<close> of the rows of the join with the bank accounts: the last one counts.\<close>

definition bank_account_of :: "db \<Rightarrow> int \<Rightarrow> string option" where
  "bank_account_of d user_id =
     map_option snd (find (\<lambda>p. fst p = user_id) (rev (concat (map (\<lambda>u.
       map (\<lambda>b. (us_user_id u, ba_bank_account b))
         (filter (\<lambda>b. us_wallet u = Some (ba_ethereum_address b)) (user_bank_accounts (programs d))))
       (filter us_is_current (users d))))))"

record wallet_metadata =
  wm_owner_wallet :: "string option"
  wm_eth :: "string list"
  wm_sol :: "string list"
  wm_bank_account :: "string option"

text \<open>One pass of the loop that builds \<open>user_id_metadata\<close>; an empty wallet is passed over.\<close>

definition add_wallet_row ::
  "db \<Rightarrow> int \<times> string option \<times> (string \<times> wallet_chain) option \<Rightarrow> (int \<times> wallet_metadata) list \<Rightarrow>
    (int \<times> wallet_metadata) list" where
  "add_wallet_row d row metadata =
     (case row of (user_id, user_wallet, associated_wallet) \<Rightarrow>
        let m = (case map_of metadata user_id of
              None \<Rightarrow> \<lparr>wm_owner_wallet = user_wallet, wm_eth = [], wm_sol = [], wm_bank_account = bank_account_of d user_id\<rparr>
            | Some m \<Rightarrow> m)
        in AList.update user_id
          (case associated_wallet of
             None \<Rightarrow> m
           | Some (wallet, chain) \<Rightarrow>
               if wallet = [] then m
               else (case chain of Eth \<Rightarrow> m\<lparr>wm_eth := wm_eth m @ [wallet]\<rparr>
                     | Sol \<Rightarrow> m\<lparr>wm_sol := wm_sol m @ [wallet]\<rparr>)) metadata)"

definition user_id_metadata :: "int list \<Rightarrow> db \<Rightarrow> (int \<times> wallet_metadata) list" where
  "user_id_metadata user_ids d = fold (add_wallet_row d) (wallet_rows user_ids d) []"

text \<open>What the contracts say of a user: the owner's balance and the three others.\<close>

record fetched =
  fb_owner_wallet_balance :: int
  fb_associated_balance :: int
  fb_wei_digitalcoin_balance :: int
  fb_associated_sol_balance :: int

definition eth_wallet_balance :: "balance_services \<Rightarrow> string \<Rightarrow> exc + int" where
  "eth_wallet_balance sv wallet =
     exc_bind (bl_toChecksumAddress sv wallet) (\<lambda>wallet.
     exc_bind (bl_balanceOf sv wallet) (\<lambda>balance.
     exc_bind (bl_getTotalDelegatorStake sv wallet) (\<lambda>delegation_balance.
     exc_bind (bl_totalStakedFor sv wallet) (\<lambda>stake_balance.
       Inr (balance + delegation_balance + stake_balance)))))"

fun eth_wallets_balance :: "balance_services \<Rightarrow> string list \<Rightarrow> int \<Rightarrow> exc + int" where
  "eth_wallets_balance sv [] associated_balance = Inr associated_balance"
| "eth_wallets_balance sv (wallet # wallets) associated_balance =
     exc_bind (eth_wallet_balance sv wallet) (\<lambda>b. eth_wallets_balance sv wallets (associated_balance + b))"

text \<open>The errors of the wallets on Solana are logged and passed over.\<close>

definition sol_wallet_balance :: "balance_services \<Rightarrow> string \<Rightarrow> int" where
  "sol_wallet_balance sv wallet =
     (case exc_bind (bl_derived_account sv wallet) (bl_get_balance sv) of Inl e \<Rightarrow> 0 | Inr n \<Rightarrow> n)"

definition fetch_balances :: "balance_services \<Rightarrow> wallet_metadata \<Rightarrow> exc + fetched" where
  "fetch_balances sv wallets =
     (case wm_owner_wallet wallets of
        None \<Rightarrow> Inl (TypeError ''toChecksumAddress'')
      | Some owner_wallet \<Rightarrow>
          exc_bind (bl_toChecksumAddress sv owner_wallet) (\<lambda>owner_wallet.
          exc_bind (bl_balanceOf sv owner_wallet) (\<lambda>owner_wallet_balance.
          exc_bind (eth_wallets_balance sv (wm_eth wallets) 0) (\<lambda>associated_balance.
          let associated_sol_balance = (if bl_has_token sv then sum_list (map (sol_wallet_balance sv) (wm_sol wallets)) else 0) in
          exc_bind (case wm_bank_account wallets of
              None \<Rightarrow> Inr 0
            | Some bank_account \<Rightarrow>
                if bl_has_token sv then exc_bind (bl_PublicKey sv bank_account) (bl_get_balance sv) else Inr 0)
            (\<lambda>wei_digitalcoin_balance.
              Inr \<lparr>fb_owner_wallet_balance = owner_wallet_balance, fb_associated_balance = associated_balance,
                fb_wei_digitalcoin_balance = wei_digitalcoin_balance,
                fb_associated_sol_balance = associated_sol_balance\<rparr>)))))"

definition fetched_total :: "fetched \<Rightarrow> int" where
  "fetched_total f = fb_owner_wallet_balance f + fb_associated_balance f +
     to_wei (Some (fb_wei_digitalcoin_balance f)) + to_wei (Some (fb_associated_sol_balance f))"

definition previous_total :: "balance_row \<Rightarrow> int" where
  "previous_total b = ub_balance b + ub_associated_wallets_balance b +
     to_wei (ub_wei_digitalcoin b) + to_wei (Some (ub_associated_sol_wallets_balance b))"

definition apply_fetched :: "fetched \<Rightarrow> balance_row \<Rightarrow> balance_row" where
  "apply_fetched f b = b\<lparr>ub_balance := fb_owner_wallet_balance f,
     ub_associated_wallets_balance := fb_associated_balance f,
     ub_wei_digitalcoin := Some (fb_wei_digitalcoin_balance f),
     ub_associated_sol_wallets_balance := fb_associated_sol_balance f\<rparr>"

text \<open>
  One user of the loop: the row of the user is updated and the change noted, unless a call
  raises, which is logged.
\<close>

definition look_up :: "balance_services \<Rightarrow> wallet_metadata \<Rightarrow> exc + fetched \<times> int" where
  "look_up sv wallets =
     exc_bind (fetch_balances sv wallets) (\<lambda>f. exc_bind (bl_block_number sv) (\<lambda>n. Inr (f, n)))"

definition refresh_user ::
  "balance_services \<Rightarrow> int \<times> wallet_metadata \<Rightarrow> balance_row list \<times> balance_change_row list \<Rightarrow>
    balance_row list \<times> balance_change_row list" where
  "refresh_user sv um state =
     (case um of (user_id, wallets) \<Rightarrow> case state of (balances, changes) \<Rightarrow>
        case look_up sv wallets of
          Inl e \<Rightarrow> state
        | Inr (f, blocknumber) \<Rightarrow>
            (case find (\<lambda>b. ub_user_id b = user_id) balances of
               None \<Rightarrow> state
             | Some user_balance \<Rightarrow>
                 (sql_update (\<lambda>b. ub_user_id b = user_id) (apply_fetched f) balances,
                  changes @ [\<lparr>bc_user_id = user_id, bc_blocknumber = blocknumber,
                    bc_current_balance = fetched_total f, bc_previous_balance = previous_total user_balance\<rparr>])))"

text \<open>The existing rows of the log are updated, the others created.\<close>

definition change_of :: "balance_change_row list \<Rightarrow> int \<Rightarrow> balance_change_row option" where
  "change_of changes user_id = find (\<lambda>c. bc_user_id c = user_id) changes"

definition save_changes :: "balance_change_row list \<Rightarrow> balance_change_row list \<Rightarrow> balance_change_row list" where
  "save_changes changes tbl =
     map (\<lambda>c. case change_of changes (bc_user_id c) of None \<Rightarrow> c | Some new_values \<Rightarrow> new_values) tbl @
     filter (\<lambda>c. bc_user_id c \<notin> bc_user_id ` set tbl) changes"

definition refresh_db :: "balance_services \<Rightarrow> int list \<Rightarrow> db \<Rightarrow> db" where
  "refresh_db sv user_ids d =
     (let d1 = add_new_balances sv user_ids d in
      case fold (refresh_user sv) (user_id_metadata user_ids d1) (user_balances (programs d1), []) of
        (balances, changes) \<Rightarrow>
          d1\<lparr>programs := (programs d1)\<lparr>user_balances := balances,
            user_balance_changes := save_changes changes (user_balance_changes (programs d1))\<rparr>\<rparr>)"

definition remove_refreshed :: "int list \<Rightarrow> int list \<Rightarrow> world \<Rightarrow> world" where
  "remove_refreshed lazy_user_ids immediate_user_ids w =
     w\<lparr>w_redis := (w_redis w)\<lparr>r_lazy_refresh := filter (\<lambda>u. u \<notin> set lazy_user_ids) (r_lazy_refresh (w_redis w)),
       r_immediate_refresh := filter (\<lambda>u. u \<notin> set immediate_user_ids) (r_immediate_refresh (w_redis w))\<rparr>\<rparr>"

definition refresh_user_ids :: "balance_services \<Rightarrow> (world, unit) py" where
  "refresh_user_ids sv w =
     (let lazy_refresh_user_ids = take MAX_LAZY_REFRESH_USER_IDS (get_lazy_refresh_user_ids sv w);
          immediate_refresh_user_ids = get_immediate_refresh_user_ids w;
          user_ids = bl_set_order sv (lazy_refresh_user_ids @ immediate_refresh_user_ids);
          d = refresh_db sv user_ids (w_db w)
      in case bl_commit sv d of
        Some e \<Rightarrow> (Inl e, w)
      | None \<Rightarrow> (Inr (), remove_refreshed lazy_refresh_user_ids immediate_refresh_user_ids (w\<lparr>w_db := d\<rparr>)))"

definition update_user_balances_task :: "balance_services \<Rightarrow> bool \<Rightarrow> (world, unit) py" where
  "update_user_balances_task sv have_lock =
     (if have_lock
      then py_seq (py_lift (bl_contracts sv))
        (py_seq (refresh_user_ids sv)
          (py_modify (redis_set user_balances_refresh_last_completion_redis_key (JInt (bl_now sv)))))
      else py_return ())"


section \<open>What a refresh does\<close>

definition balance_for :: "balance_row list \<Rightarrow> int \<Rightarrow> balance_row option" where
  "balance_for bs u = find (\<lambda>b. ub_user_id b = u) bs"

lemma apply_fetched_simps [simp]:
  "ub_user_id (apply_fetched f b) = ub_user_id b" "ub_created_at (apply_fetched f b) = ub_created_at b"
  "ub_updated_at (apply_fetched f b) = ub_updated_at b"
  by (simp_all add: apply_fetched_def)

lemma find_map_same: "(\<And>x. P (g x) = P x) \<Longrightarrow> find P (map g xs) = map_option g (find P xs)"
  by (induction xs) auto

lemma balance_for_map:
  "(\<And>b. ub_user_id (g b) = ub_user_id b) \<Longrightarrow> balance_for (map g bs) u = map_option g (balance_for bs u)"
  by (simp add: balance_for_def find_map_same)

lemma balance_for_user: "balance_for bs u = Some b \<Longrightarrow> ub_user_id b = u \<and> b \<in> set bs"
  by (auto simp: balance_for_def find_Some_iff)

lemma balance_for_None: "balance_for bs u = None \<longleftrightarrow> u \<notin> ub_user_id ` set bs"
  by (auto simp: balance_for_def find_None_iff)

lemma map_filter_cong:
  "(\<And>x. x \<in> set xs \<Longrightarrow> f x = g x) \<Longrightarrow> List.map_filter f xs = List.map_filter g xs"
  by (induction xs) (auto split: option.split)

text \<open>The result for one user, when every call succeeds.\<close>

definition result_of :: "balance_services \<Rightarrow> (int \<times> wallet_metadata) list \<Rightarrow> int \<Rightarrow> (fetched \<times> int) option" where
  "result_of sv metadata u =
     (case map_of metadata u of
        None \<Rightarrow> None
      | Some m \<Rightarrow> (case look_up sv m of Inl e \<Rightarrow> None | Inr r \<Rightarrow> Some r))"

definition with_result :: "(int \<Rightarrow> (fetched \<times> int) option) \<Rightarrow> balance_row \<Rightarrow> balance_row" where
  "with_result res b = (case res (ub_user_id b) of None \<Rightarrow> b | Some (f, n) \<Rightarrow> apply_fetched f b)"

lemma with_result_simps [simp]:
  "ub_user_id (with_result res b) = ub_user_id b" "ub_created_at (with_result res b) = ub_created_at b"
  "ub_updated_at (with_result res b) = ub_updated_at b"
  by (simp_all add: with_result_def split: option.split prod.split)

definition change_from :: "balance_row list \<Rightarrow> (int \<Rightarrow> (fetched \<times> int) option) \<Rightarrow> int \<Rightarrow> balance_change_row option" where
  "change_from bs res u =
     (case (res u, balance_for bs u) of
        (Some (f, n), Some b) \<Rightarrow> Some \<lparr>bc_user_id = u, bc_blocknumber = n,
          bc_current_balance = fetched_total f, bc_previous_balance = previous_total b\<rparr>
      | _ \<Rightarrow> None)"

lemma change_from_user: "change_from bs res u = Some c \<Longrightarrow> bc_user_id c = u"
  by (auto simp: change_from_def split: option.splits prod.splits)

lemma refresh_users_run:
  assumes "distinct (map fst metadata)"
  shows "fold (refresh_user sv) metadata (bs, cs) =
    (map (with_result (result_of sv metadata)) bs,
     cs @ List.map_filter (change_from bs (result_of sv metadata)) (map fst metadata))"
  using assms
proof (induction metadata arbitrary: bs cs)
  case Nil
  then show ?case by (simp add: with_result_def result_of_def)
next
  case (Cons um metadata)
  obtain u m where um: "um = (u, m)" by (cases um)
  let ?rest = "result_of sv metadata" and ?all = "result_of sv ((u, m) # metadata)"
  have u: "?rest u = None" using Cons.prems by (auto simp: um result_of_def split: option.splits dest: map_of_SomeD) (metis fst_conv image_eqI map_of_SomeD)
  have other: "?all v = ?rest v" if "v \<noteq> u" for v using that by (simp add: result_of_def)
  have others: "List.map_filter (change_from bs' ?rest) (map fst metadata) = List.map_filter (change_from bs ?all) (map fst metadata)"
    if "\<And>v. v \<noteq> u \<Longrightarrow> balance_for bs' v = balance_for bs v" for bs'
  proof -
    have "change_from bs' ?rest v = change_from bs ?all v" if "v \<in> set (map fst metadata)" for v
    proof -
      have "v \<noteq> u" using that Cons.prems by (auto simp: um)
      with other \<open>\<And>v. v \<noteq> u \<Longrightarrow> balance_for bs' v = balance_for bs v\<close> show ?thesis by (simp add: change_from_def)
    qed
    then show ?thesis by (rule map_filter_cong)
  qed
  show ?case
  proof (cases "case look_up sv m of Inl e \<Rightarrow> None | Inr r \<Rightarrow> if balance_for bs u = None then None else Some r")
    case None
    have same: "refresh_user sv (u, m) (bs, cs) = (bs, cs)"
      using None by (auto simp: refresh_user_def balance_for_def split: sum.splits prod.splits option.splits if_splits)
    have "with_result ?rest b = with_result ?all b" if "b \<in> set bs" for b
    proof (cases "ub_user_id b = u")
      case True
      with that have "balance_for bs u \<noteq> None" by (auto simp: balance_for_None)
      with None have "?all u = None" by (auto simp: result_of_def split: sum.splits)
      with True u show ?thesis by (simp add: with_result_def)
    qed (simp add: with_result_def other)
    moreover have "change_from bs ?all u = None"
      using None by (auto simp: change_from_def result_of_def split: sum.splits option.splits)
    ultimately show ?thesis
      using Cons others [of bs] by (simp add: um same)
  next
    case (Some r)
    obtain f n where r: "r = (f, n)" by (cases r)
    from Some obtain b where look: "look_up sv m = Inr (f, n)" and b: "balance_for bs u = Some b"
      by (auto simp: r split: sum.splits if_splits)
    let ?bs = "sql_update (\<lambda>b. ub_user_id b = u) (apply_fetched f) bs"
    have step: "refresh_user sv (u, m) (bs, cs) = (?bs, cs @ [\<lparr>bc_user_id = u, bc_blocknumber = n,
        bc_current_balance = fetched_total f, bc_previous_balance = previous_total b\<rparr>])"
      using b by (simp add: refresh_user_def look balance_for_def)
    have "balance_for ?bs v = balance_for bs v" if "v \<noteq> u" for v
      using that unfolding sql_update_def balance_for_def by (induction bs) auto
    note ch = others [OF this]
    have all: "?all u = Some (f, n)" by (simp add: result_of_def look)
    have rows: "map (with_result ?rest) ?bs = map (with_result ?all) bs"
      unfolding sql_update_def map_map
      by (rule map_cong) (use all u other in \<open>auto simp: with_result_def\<close>)
    have "change_from bs ?all u = Some \<lparr>bc_user_id = u, bc_blocknumber = n,
        bc_current_balance = fetched_total f, bc_previous_balance = previous_total b\<rparr>"
      by (simp add: change_from_def all b)
    with Cons rows ch show ?thesis by (simp add: um step)
  qed
qed


lemma add_wallet_row_keys:
  "fst ` set (add_wallet_row d row metadata) = insert (fst row) (fst ` set metadata)"
  "distinct (map fst metadata) \<Longrightarrow> distinct (map fst (add_wallet_row d row metadata))"
  by (cases row; simp add: add_wallet_row_def Let_def dom_update distinct_update)+

lemma metadata_keys:
  "distinct (map fst metadata) \<Longrightarrow> distinct (map fst (fold (add_wallet_row d) rows metadata)) \<and>
    fst ` set (fold (add_wallet_row d) rows metadata) = fst ` set rows \<union> fst ` set metadata"
  by (induction rows arbitrary: metadata) (auto simp: add_wallet_row_keys)

lemma user_id_metadata_keys:
  "distinct (map fst (user_id_metadata ids d))"
  "fst ` set (user_id_metadata ids d) \<subseteq> set ids"
  using metadata_keys [of "[]" d "wallet_rows ids d"]
  by (auto simp: user_id_metadata_def wallet_rows_def Let_def split: if_splits)

lemma user_id_metadata_cong:
  assumes "set ids = set ids'" and "users d = users d'" and "associated_wallets d = associated_wallets d'"
    and "user_bank_accounts (programs d) = user_bank_accounts (programs d')"
  shows "user_id_metadata ids d = user_id_metadata ids' d'"
proof -
  have bank: "bank_account_of d = bank_account_of d'" using assms by (simp add: bank_account_of_def fun_eq_iff)
  have "add_wallet_row d = add_wallet_row d'" by (intro ext) (simp only: add_wallet_row_def bank)
  moreover have "wallet_rows ids d = wallet_rows ids' d'" using assms by (simp add: wallet_rows_def)
  ultimately show ?thesis by (simp add: user_id_metadata_def)
qed

lemma add_new_balances_frame:
  "users (add_new_balances sv ids d) = users d"
  "associated_wallets (add_new_balances sv ids d) = associated_wallets d"
  "user_bank_accounts (programs (add_new_balances sv ids d)) = user_bank_accounts (programs d)"
  "user_balance_changes (programs (add_new_balances sv ids d)) = user_balance_changes (programs d)"
  by (simp_all add: add_new_balances_def)

text \<open>Who is looked up, the row of a user after the new rows were added, and the results.\<close>

definition refresh_queue :: "balance_services \<Rightarrow> world \<Rightarrow> int list" where
  "refresh_queue sv w = take MAX_LAZY_REFRESH_USER_IDS (get_lazy_refresh_user_ids sv w) @ get_immediate_refresh_user_ids w"

definition row_before :: "balance_services \<Rightarrow> world \<Rightarrow> int \<Rightarrow> balance_row option" where
  "row_before sv w u =
     (case balance_for (user_balances (w_programs w)) u of
        Some b \<Rightarrow> Some b
      | None \<Rightarrow> if u \<in> set (refresh_queue sv w) then Some (new_balance (bl_now sv) u) else None)"

definition looked_up :: "balance_services \<Rightarrow> world \<Rightarrow> int \<Rightarrow> (fetched \<times> int) option" where
  "looked_up sv w = result_of sv (user_id_metadata (refresh_queue sv w) (w_db w))"

definition enumerates :: "(int list \<Rightarrow> int list) \<Rightarrow> bool" where
  "enumerates order \<longleftrightarrow> (\<forall>xs. set (order xs) = set xs \<and> distinct (order xs))"

lemma looked_up_queue: "looked_up sv w u = Some r \<Longrightarrow> u \<in> set (refresh_queue sv w)"
  using user_id_metadata_keys(2) [of "refresh_queue sv w" "w_db w"]
  by (auto simp: looked_up_def result_of_def dest!: map_of_SomeD split: option.splits sum.splits)

lemma balance_for_append:
  "balance_for (xs @ ys) u = (case balance_for xs u of Some b \<Rightarrow> Some b | None \<Rightarrow> balance_for ys u)"
  by (induction xs) (auto simp: balance_for_def)

lemma balance_for_new: "balance_for (map (new_balance now) us) u = (if u \<in> set us then Some (new_balance now u) else None)"
  by (induction us) (auto simp: balance_for_def new_balance_def)

lemma balances_of_users: "u \<in> set ids \<Longrightarrow> u \<in> ub_user_id ` set (balances_of ids d) \<longleftrightarrow> u \<in> ub_user_id ` set (user_balances (programs d))"
  by (auto simp: balances_of_def)

lemma change_of_Some: "change_of cs u = Some c \<Longrightarrow> bc_user_id c = u \<and> c \<in> set cs"
  by (auto simp: change_of_def find_Some_iff)

lemma change_of_None: "change_of cs u = None \<longleftrightarrow> u \<notin> bc_user_id ` set cs"
  by (auto simp: change_of_def find_None_iff)

lemma change_of_save:
  "change_of (save_changes cs tbl) u = (case change_of cs u of Some c \<Rightarrow> Some c | None \<Rightarrow> change_of tbl u)"
proof -
  let ?g = "\<lambda>c. case change_of cs (bc_user_id c) of None \<Rightarrow> c | Some new_values \<Rightarrow> new_values"
  have g: "bc_user_id (?g c) = bc_user_id c" for c
    by (auto split: option.split dest: change_of_Some)
  have old: "change_of (map ?g tbl) u = map_option ?g (change_of tbl u)"
    unfolding change_of_def by (rule find_map_same) (simp add: g [unfolded change_of_def])
  have app: "change_of (xs @ ys) u = (case change_of xs u of Some c \<Rightarrow> Some c | None \<Rightarrow> change_of ys u)" for xs ys
    by (induction xs) (auto simp: change_of_def)
  show ?thesis
  proof (cases "change_of tbl u")
    case None
    then have "u \<notin> bc_user_id ` set tbl" by (simp add: change_of_None)
    then have "change_of (filter (\<lambda>c. bc_user_id c \<notin> bc_user_id ` set tbl) cs) u = change_of cs u"
      unfolding change_of_def by (induction cs) auto
    with None old show ?thesis by (simp add: save_changes_def app split: option.split)
  next
    case (Some c)
    with old show ?thesis using change_of_Some [OF Some]
      by (simp add: save_changes_def app split: option.split)
  qed
qed

lemma change_of_map_filter:
  assumes "distinct us" and "\<And>u c. f u = Some c \<Longrightarrow> bc_user_id c = u"
  shows "change_of (List.map_filter f us) u = (if u \<in> set us then f u else None)"
  using assms(1)
proof (induction us)
  case (Cons v us)
  show ?case
  proof (cases "f v")
    case None
    with Cons show ?thesis by auto
  next
    case (Some c)
    with assms(2) have "bc_user_id c = v" by blast
    with Cons Some show ?thesis by (auto simp: change_of_def)
  qed
qed (simp add: change_of_def)

lemma refresh_returned:
  assumes "refresh_user_ids sv w = (Inr (), w')" and order: "enumerates (bl_set_order sv)"
  shows "user_balances (w_programs w') = map (with_result (looked_up sv w)) (user_balances (w_programs w) @
      map (new_balance (bl_now sv)) (bl_set_order sv (without_balance (bl_set_order sv (refresh_queue sv w)) (w_db w))))"
    and "balance_for (user_balances (w_programs w')) u = map_option (with_result (looked_up sv w)) (row_before sv w u)"
    and "change_of (user_balance_changes (w_programs w')) u =
      (case (looked_up sv w u, row_before sv w u) of
         (Some (f, n), Some b) \<Rightarrow> Some \<lparr>bc_user_id = u, bc_blocknumber = n,
           bc_current_balance = fetched_total f, bc_previous_balance = previous_total b\<rparr>
       | _ \<Rightarrow> change_of (user_balance_changes (w_programs w)) u)"
    and "r_immediate_refresh (w_redis w') = []"
    and "r_lazy_refresh (w_redis w') = filter (\<lambda>u. u \<notin> set (take MAX_LAZY_REFRESH_USER_IDS (get_lazy_refresh_user_ids sv w)))
      (r_lazy_refresh (w_redis w))"
proof -
  define ids where "ids = bl_set_order sv (refresh_queue sv w)"
  have ids: "set ids = set (refresh_queue sv w)" using order by (simp add: ids_def enumerates_def)
  define d1 where "d1 = add_new_balances sv ids (w_db w)"
  define M where "M = user_id_metadata ids d1"
  have "M = user_id_metadata (refresh_queue sv w) (w_db w)"
    unfolding M_def d1_def by (rule user_id_metadata_cong) (simp_all add: ids add_new_balances_frame)
  then have res: "result_of sv M = looked_up sv w" by (simp add: looked_up_def)
  have keys: "distinct (map fst M)" unfolding M_def by (rule user_id_metadata_keys)
  have w': "w' = remove_refreshed (take MAX_LAZY_REFRESH_USER_IDS (get_lazy_refresh_user_ids sv w))
      (get_immediate_refresh_user_ids w) (w\<lparr>w_db := refresh_db sv ids (w_db w)\<rparr>)"
    using assms(1) by (simp add: refresh_user_ids_def Let_def ids_def refresh_queue_def split: option.splits)
  have db: "w_db w' = refresh_db sv ids (w_db w)" by (simp add: w' remove_refreshed_def)
  have rdb: "user_balances (programs (refresh_db sv ids (w_db w))) = map (with_result (looked_up sv w)) (user_balances (programs d1))"
    "user_balance_changes (programs (refresh_db sv ids (w_db w))) =
      save_changes (List.map_filter (change_from (user_balances (programs d1)) (looked_up sv w)) (map fst M)) (user_balance_changes (w_programs w))"
    using refresh_users_run [OF keys, of sv "user_balances (programs d1)" "[]"]
    by (simp_all add: refresh_db_def Let_def res add_new_balances_frame flip: d1_def M_def) (simp add: d1_def add_new_balances_frame)
  show rows: "user_balances (w_programs w') = map (with_result (looked_up sv w)) (user_balances (w_programs w) @
      map (new_balance (bl_now sv)) (bl_set_order sv (without_balance (bl_set_order sv (refresh_queue sv w)) (w_db w))))"
    unfolding db rdb(1) by (simp add: d1_def add_new_balances_def ids_def)
  have before: "balance_for (user_balances (programs d1)) v = row_before sv w v" for v
  proof (cases "balance_for (user_balances (w_programs w)) v")
    case None
    then have "v \<notin> ub_user_id ` set (user_balances (w_programs w))" by (simp add: balance_for_None)
    then have "v \<in> set (without_balance ids (w_db w)) \<longleftrightarrow> v \<in> set ids"
      using balances_of_users [of v ids "w_db w"] by (auto simp: without_balance_def)
    with None show ?thesis
      using order by (simp add: d1_def add_new_balances_def balance_for_append balance_for_new row_before_def ids enumerates_def)
  qed (simp add: d1_def add_new_balances_def balance_for_append row_before_def)
  show "balance_for (user_balances (w_programs w')) u = map_option (with_result (looked_up sv w)) (row_before sv w u)"
    by (simp add: db rdb balance_for_map before)
  have key: "u \<in> set (map fst M)" if "looked_up sv w u \<noteq> None"
    using that by (auto simp: result_of_def simp flip: res split: option.splits dest!: map_of_SomeD intro: rev_image_eqI)
  have ch: "change_of (List.map_filter (change_from (user_balances (programs d1)) (looked_up sv w)) (map fst M)) u =
      change_from (user_balances (programs d1)) (looked_up sv w) u"
    using key by (subst change_of_map_filter [OF keys change_from_user]) (auto simp: change_from_def split: option.split)
  show "change_of (user_balance_changes (w_programs w')) u =
      (case (looked_up sv w u, row_before sv w u) of
         (Some (f, n), Some b) \<Rightarrow> Some \<lparr>bc_user_id = u, bc_blocknumber = n,
           bc_current_balance = fetched_total f, bc_previous_balance = previous_total b\<rparr>
       | _ \<Rightarrow> change_of (user_balance_changes (w_programs w)) u)"
    by (simp add: db rdb change_of_save ch) (simp add: change_from_def before split: option.split prod.split)
qed (use assms(1) in \<open>auto simp: refresh_user_ids_def remove_refreshed_def get_immediate_refresh_user_ids_def Let_def split: option.splits\<close>)


section \<open>Properties\<close>

lemma served_total: "sb_total_balance (served b) = previous_total b"
  by (simp add: served_def previous_total_def)

lemma fetched_total: "previous_total (apply_fetched f b) = fetched_total f"
  by (simp add: previous_total_def apply_fetched_def fetched_total_def)

text \<open>Every entry of the log has the balance that is served for its user.\<close>

definition log_matches :: "world \<Rightarrow> bool" where
  "log_matches w \<longleftrightarrow> (\<forall>u c. change_of (user_balance_changes (w_programs w)) u = Some c \<longrightarrow>
     (\<exists>b. balance_for (user_balances (w_programs w)) u = Some b \<and> sb_total_balance (served b) = bc_current_balance c))"

lemma row_before_Some: "balance_for (user_balances (w_programs w)) u = Some b \<Longrightarrow> row_before sv w u = Some b"
  by (simp add: row_before_def)

lemma row_before_queue: "u \<in> set (refresh_queue sv w) \<Longrightarrow> row_before sv w u \<noteq> None"
  by (simp add: row_before_def split: option.split)

text \<open>
  C19. The log of balance changes is a chain: a refresh that returns keeps every entry's current
  balance equal to the total that is served for its user, and an entry that is replaced hands its
  current balance on as the previous balance of the new one.
\<close>

theorem balance_log_chains:
  assumes "log_matches w" and "refresh_user_ids sv w = (Inr (), w')" and "enumerates (bl_set_order sv)"
  shows "log_matches w' \<and> (\<forall>u c c'. change_of (user_balance_changes (w_programs w)) u = Some c \<longrightarrow>
    change_of (user_balance_changes (w_programs w')) u = Some c' \<longrightarrow>
    c' = c \<or> bc_previous_balance c' = bc_current_balance c)"
proof (intro conjI allI impI)
  note after = refresh_returned [OF assms(2,3)]
  show "log_matches w'"
    unfolding log_matches_def
  proof (intro allI impI)
    fix u c
    assume c: "change_of (user_balance_changes (w_programs w')) u = Some c"
    show "\<exists>b. balance_for (user_balances (w_programs w')) u = Some b \<and> sb_total_balance (served b) = bc_current_balance c"
    proof (cases "looked_up sv w u")
      case None
      with c have "change_of (user_balance_changes (w_programs w)) u = Some c" by (simp add: after(3))
      with assms(1) obtain b where "balance_for (user_balances (w_programs w)) u = Some b"
        "sb_total_balance (served b) = bc_current_balance c" by (auto simp: log_matches_def)
      with None show ?thesis
        by (simp add: after(2) row_before_Some with_result_def balance_for_user split: option.split)
    next
      case (Some r)
      obtain f n where r: "r = (f, n)" by (cases r)
      obtain b where b: "row_before sv w u = Some b" using row_before_queue looked_up_queue [OF Some] by blast
      then have "ub_user_id b = u"
        by (auto simp: row_before_def new_balance_def split: option.splits if_splits dest: balance_for_user)
      with Some r b c show ?thesis by (auto simp: after(2,3) with_result_def served_total fetched_total)
    qed
  qed
  fix u c c'
  assume c: "change_of (user_balance_changes (w_programs w)) u = Some c"
    and c': "change_of (user_balance_changes (w_programs w')) u = Some c'"
  from assms(1) c obtain b where b: "balance_for (user_balances (w_programs w)) u = Some b"
    "sb_total_balance (served b) = bc_current_balance c" by (auto simp: log_matches_def)
  show "c' = c \<or> bc_previous_balance c' = bc_current_balance c"
    using c c' b by (auto simp: after(3) row_before_Some served_total split: option.splits prod.splits)
qed

text \<open>
  C20. A balance is never up to date: since no code sets \<open>updated_at\<close>, a refresh leaves it equal to
  \<open>created_at\<close>, which stands for a balance that was never looked up. So every later request
  for the user's balance, at whatever time, enqueues the user again.
\<close>

theorem balance_never_fresh:
  assumes "\<forall>b\<in>set (user_balances (w_programs w)). ub_updated_at b = ub_created_at b"
    and "refresh_user_ids sv w = (Inr (), w')" and "enumerates (bl_set_order sv)"
    and "u \<in> set (refresh_queue sv w)"
  shows "(\<forall>b\<in>set (user_balances (w_programs w')). ub_updated_at b = ub_created_at b) \<and>
    u \<in> set (r_lazy_refresh (w_redis (snd (get_balances now [u] w'))))"
proof
  note after = refresh_returned [OF assms(2,3)]
  show same: "\<forall>b\<in>set (user_balances (w_programs w')). ub_updated_at b = ub_created_at b"
    unfolding after(1) using assms(1) by (auto simp: new_balance_def)
  have insert: "set (fold List.insert us xs) = set us \<union> set xs" for us xs :: "int list"
    by (induction us arbitrary: xs) auto
  show "u \<in> set (r_lazy_refresh (w_redis (snd (get_balances now [u] w'))))"
  proof (cases "u \<in> ub_user_id ` set (user_balances (w_programs w'))")
    case True
    then obtain b where "b \<in> set (user_balances (w_programs w'))" "ub_user_id b = u" by auto
    with same show ?thesis
      by (auto simp: get_balances_def Let_def enqueue_lazy_balance_refresh_def insert balances_of_def
          does_user_balance_need_refresh_def intro: rev_image_eqI)
  next
    case False
    then show ?thesis
      by (auto simp: get_balances_def Let_def enqueue_lazy_balance_refresh_def insert without_balance_def balances_of_def)
  qed
qed

text \<open>
  C21. A user without a row is not looked up on request: \<open>get_balances\<close> enqueues the user in the
  lazy queue, but a refresh only takes users of this queue that have a row; the user gets none
  and stays in the queue, until an immediate refresh is asked for.
\<close>

theorem lazy_user_never_looked_up:
  assumes "balance_for (user_balances (w_programs w)) u = None"
    and "u \<notin> set (r_immediate_refresh (w_redis w))"
    and "refresh_user_ids sv (snd (get_balances now [u] w)) = (Inr (), w')" and "enumerates (bl_set_order sv)"
  shows "u \<in> set (r_lazy_refresh (w_redis (snd (get_balances now [u] w)))) \<and>
    u \<in> set (r_lazy_refresh (w_redis w')) \<and> balance_for (user_balances (w_programs w')) u = None"
proof -
  let ?w = "snd (get_balances now [u] w)"
  note after = refresh_returned [OF assms(3,4)]
  have insert: "set (fold List.insert us xs) = set us \<union> set xs" for us xs :: "int list"
    by (induction us arbitrary: xs) auto
  have db: "w_db ?w = w_db w" "r_immediate_refresh (w_redis ?w) = r_immediate_refresh (w_redis w)"
    by (simp_all add: get_balances_def Let_def enqueue_lazy_balance_refresh_def)
  have none: "u \<notin> ub_user_id ` set (user_balances (w_programs w))"
    using assms(1) by (simp add: balance_for_None)
  then have lazy: "u \<in> set (r_lazy_refresh (w_redis ?w))"
    by (auto simp: get_balances_def Let_def enqueue_lazy_balance_refresh_def insert without_balance_def balances_of_def)
  have not_lazy: "u \<notin> set (get_lazy_refresh_user_ids sv ?w)"
    using none assms(4) by (auto simp: get_lazy_refresh_user_ids_def enumerates_def balances_of_def db)
  then have "u \<notin> set (take MAX_LAZY_REFRESH_USER_IDS (get_lazy_refresh_user_ids sv ?w))"
    by (metis in_set_takeD)
  moreover from this have "row_before sv ?w u = None"
    using assms(1,2) by (auto simp: row_before_def refresh_queue_def get_immediate_refresh_user_ids_def db)
  ultimately show ?thesis using lazy by (simp add: after(2,5))
qed


text \<open>An example: user 1 with a wallet that holds 7, whose row and log say 5.\<close>

definition ex_balance_services :: balance_services where
  "ex_balance_services = \<lparr>bl_toChecksumAddress = Inr, bl_balanceOf = (\<lambda>a. Inr 7),
     bl_getTotalDelegatorStake = (\<lambda>a. Inr 0), bl_totalStakedFor = (\<lambda>a. Inr 0), bl_has_token = False,
     bl_derived_account = Inr, bl_PublicKey = Inr, bl_get_balance = (\<lambda>a. Inr 0), bl_block_number = Inr 9,
     bl_now = 1000, bl_set_order = remdups, bl_contracts = Inr (), bl_commit = (\<lambda>d. None)\<rparr>"

definition ex_balance_user :: user_row where
  "ex_balance_user = (ex_user 1)\<lparr>us_user_id := 1, us_is_current := True, us_wallet := Some ''0xa''\<rparr>"

definition ex_balance_world :: world where
  "ex_balance_world = empty_world\<lparr>w_db := empty_db\<lparr>users := [ex_balance_user],
     programs := empty_programs\<lparr>user_balances := [(new_balance 3 1)\<lparr>ub_balance := 5\<rparr>],
       user_balance_changes := [\<lparr>bc_user_id = 1, bc_blocknumber = 4, bc_current_balance = 5, bc_previous_balance = 0\<rparr>]\<rparr>\<rparr>,
     w_redis := empty_redis\<lparr>r_immediate_refresh := [1]\<rparr>\<rparr>"

lemma ex_refresh: "refresh_user_ids ex_balance_services w = (Inr (), snd (refresh_user_ids ex_balance_services w))"
  by (simp add: refresh_user_ids_def Let_def ex_balance_services_def)

lemma ex_order: "enumerates (bl_set_order ex_balance_services)"
  by (simp add: ex_balance_services_def enumerates_def)

lemma ex_change: "change_of (user_balance_changes (w_programs (snd (refresh_user_ids ex_balance_services ex_balance_world)))) 1 =
    Some \<lparr>bc_user_id = 1, bc_blocknumber = 9, bc_current_balance = 7, bc_previous_balance = 5\<rparr>"
  by code_simp

theorem balance_log_chains_witness:
  "log_matches (snd (refresh_user_ids ex_balance_services ex_balance_world)) \<and>
    (\<exists>c c'. change_of (user_balance_changes (w_programs ex_balance_world)) 1 = Some c \<and>
      change_of (user_balance_changes (w_programs (snd (refresh_user_ids ex_balance_services ex_balance_world)))) 1 = Some c' \<and>
      c' \<noteq> c \<and> bc_previous_balance c' = bc_current_balance c)"
proof -
  have "log_matches ex_balance_world"
    by (simp add: log_matches_def ex_balance_world_def change_of_def balance_for_def served_def new_balance_def to_wei_def)
  note chain = balance_log_chains [OF this ex_refresh ex_order]
  obtain c where c: "change_of (user_balance_changes (w_programs ex_balance_world)) 1 = Some c" "bc_blocknumber c = 4"
    by (simp add: ex_balance_world_def change_of_def)
  obtain c' where c': "change_of (user_balance_changes (w_programs (snd (refresh_user_ids ex_balance_services ex_balance_world)))) 1 = Some c'"
    "bc_blocknumber c' = 9"
    by (simp add: ex_change)
  from c(2) c'(2) have "c' \<noteq> c" by auto
  moreover from this chain c(1) c'(1) have "bc_previous_balance c' = bc_current_balance c" by blast
  ultimately show ?thesis using chain c(1) c'(1) by blast
qed

theorem balance_never_fresh_witness:
  "1 \<in> set (r_lazy_refresh (w_redis (snd (get_balances 2000 [1] (snd (refresh_user_ids ex_balance_services ex_balance_world))))))"
proof -
  have "\<forall>b\<in>set (user_balances (w_programs ex_balance_world)). ub_updated_at b = ub_created_at b"
    by (simp add: ex_balance_world_def new_balance_def)
  moreover have "1 \<in> set (refresh_queue ex_balance_services ex_balance_world)"
    by (simp add: refresh_queue_def get_immediate_refresh_user_ids_def ex_balance_world_def)
  ultimately show ?thesis using balance_never_fresh [OF _ ex_refresh ex_order] by blast
qed

theorem lazy_user_never_looked_up_witness:
  "2 \<in> set (r_lazy_refresh (w_redis (snd (refresh_user_ids ex_balance_services (snd (get_balances 50 [2] ex_balance_world))))))"
proof -
  have "balance_for (user_balances (w_programs ex_balance_world)) 2 = None" "2 \<notin> set (r_immediate_refresh (w_redis ex_balance_world))"
    by (simp_all add: ex_balance_world_def balance_for_def new_balance_def)
  from lazy_user_never_looked_up [OF this ex_refresh ex_order] show ?thesis by blast
qed

end
