(* ===== verification/Challenge_Queries.thy ===== *)
theory Challenge_Queries
  imports Challenge_Bus Attestation
begin

text \<open>
  queries/get_challenges.py: the challenges a user is shown. Those the user has entered are
  listed with what was paid out, those with several completions are rolled up into one entry, and
  the active ones the user has not entered are listed empty. No updater overrides the metadata,
  which is the empty dictionary throughout.
\<close>

section \<open>Responses\<close>

record challenge_response =
  cr_challenge_id :: string
  cr_user_id :: int
  cr_specifier :: string
  cr_is_complete :: bool
  cr_is_active :: bool
  cr_is_disbursed :: bool
  cr_current_step_count :: "int option"
  cr_max_steps :: "int option"
  cr_challenge_type :: challenge_type
  cr_amount :: string
  cr_metadata :: "(string \<times> json) list"

text \<open>A step count that is None or 0 makes the rolled up challenge complete.\<close>

definition rollup_aggregates :: "user_challenge_row list \<Rightarrow> challenge_row \<Rightarrow> exc + challenge_response" where
  "rollup_aggregates rows parent_challenge =
     (let num_complete = int (length (filter uc_is_complete rows));
          is_complete = (case ch_step_count parent_challenge of
             None \<Rightarrow> True | Some n \<Rightarrow> if n = 0 then True else num_complete \<ge> n) in
      case rows of
        [] \<Rightarrow> Inl (PyException ''IndexError'')
      | uc # others \<Rightarrow> Inr \<lparr>cr_challenge_id = ch_id parent_challenge, cr_user_id = uc_user_id uc, cr_specifier = '''',
          cr_is_complete = is_complete, cr_is_active = ch_active parent_challenge, cr_is_disbursed = False,
          cr_current_step_count = Some num_complete, cr_max_steps = ch_step_count parent_challenge,
          cr_challenge_type = ch_type parent_challenge, cr_amount = ch_amount parent_challenge, cr_metadata = []\<rparr>)"

definition to_challenge_response ::
  "user_challenge_row \<Rightarrow> challenge_row \<Rightarrow> disbursement_row option \<Rightarrow> (string \<times> json) list \<Rightarrow> challenge_response" where
  "to_challenge_response user_challenge challenge disbursement metadata =
     \<lparr>cr_challenge_id = ch_id challenge, cr_user_id = uc_user_id user_challenge,
      cr_specifier = uc_specifier user_challenge, cr_is_complete = uc_is_complete user_challenge,
      cr_is_active = ch_active challenge, cr_is_disbursed = (disbursement \<noteq> None),
      cr_current_step_count = uc_current_step_count user_challenge, cr_max_steps = ch_step_count challenge,
      cr_challenge_type = ch_type challenge, cr_amount = ch_amount challenge, cr_metadata = metadata\<rparr>"

definition empty_user_challenge :: "int \<Rightarrow> challenge_row \<Rightarrow> (string \<times> json) list \<Rightarrow> challenge_response" where
  "empty_user_challenge user_id challenge metadata =
     \<lparr>cr_challenge_id = ch_id challenge, cr_user_id = user_id, cr_specifier = '''', cr_is_complete = False,
      cr_is_active = ch_active challenge, cr_is_disbursed = False, cr_current_step_count = Some 0,
      cr_max_steps = ch_step_count challenge, cr_challenge_type = ch_type challenge,
      cr_amount = ch_amount challenge, cr_metadata = metadata\<rparr>"

definition create_empty_user_challenges ::
  "int \<Rightarrow> challenge_row list \<Rightarrow> (string \<times> json) list list \<Rightarrow> challenge_response list" where
  "create_empty_user_challenges user_id challenges_to_add metadatas =
     map (\<lambda>(challenge, metadata). empty_user_challenge user_id challenge metadata) (zip challenges_to_add metadatas)"

section \<open>Managers\<close>

definition bus_managers :: "manager list" where
  "bus_managers = [profile_challenge_manager, listen_streak_challenge_manager, digital_content_upload_challenge_manager,
     referral_challenge_manager, verified_referral_challenge_manager, referred_challenge_manager,
     connect_verified_challenge_manager, mobile_install_challenge_manager,
     trending_digital_content_challenge_manager, trending_underground_digital_content_challenge_manager,
     trending_content_list_challenge_manager, send_first_tip_challenge_manager, first_content_list_challenge_manager]"

definition does_manager_exist :: "string \<Rightarrow> bool" where
  "does_manager_exist challenge_id \<longleftrightarrow> challenge_id \<in> set (map manager_challenge_id bus_managers)"

definition get_manager :: "string \<Rightarrow> exc + manager" where
  "get_manager challenge_id =
     (case find (\<lambda>m. manager_challenge_id m = challenge_id) bus_managers of
        None \<Rightarrow> Inl (KeyError challenge_id) | Some m \<Rightarrow> Inr m)"

definition should_show_challenge_for_user :: "manager \<Rightarrow> db \<Rightarrow> int \<Rightarrow> exc + bool" where
  "should_show_challenge_for_user m d user_id =
     (case m of
        referral_challenge_manager \<Rightarrow> does_user_exist_with_verification_status False d user_id
      | verified_referral_challenge_manager \<Rightarrow> does_user_exist_with_verification_status True d user_id
      | _ \<Rightarrow> Inr True)"

definition get_override_challenge_step_count :: "int \<Rightarrow> manager \<Rightarrow> db \<Rightarrow> int \<Rightarrow> int option" where
  "get_override_challenge_step_count now m d user_id =
     (case m of listen_streak_challenge_manager \<Rightarrow> get_listen_streak_override now d user_id | _ \<Rightarrow> None)"

section \<open>The query\<close>

definition user_challenges_and_disbursements ::
  "db \<Rightarrow> int \<Rightarrow> (user_challenge_row \<times> disbursement_row option) list" where
  "user_challenges_and_disbursements d user_id =
     concat (map (\<lambda>uc. map (\<lambda>x. (uc, x))
         (outer_rows (filter (\<lambda>x. cd_specifier x = uc_specifier uc \<and> cd_challenge_id x = uc_challenge_id uc)
            (challenge_disbursements (programs d)))))
       (filter (\<lambda>uc. uc_user_id uc = user_id) (user_challenges d)))"

text \<open>\<open>all_challenges_map[challenge_id]\<close>\<close>

definition challenge_with_id :: "db \<Rightarrow> string \<Rightarrow> exc + challenge_row" where
  "challenge_with_id d challenge_id =
     (case find (\<lambda>c. ch_id c = challenge_id) (rev (challenges d)) of
        None \<Rightarrow> Inl (KeyError challenge_id) | Some c \<Rightarrow> Inr c)"

text \<open>A comprehension whose condition may raise.\<close>

fun exc_filter :: "('a \<Rightarrow> exc + bool) \<Rightarrow> 'a list \<Rightarrow> exc + 'a list" where
  "exc_filter P [] = Inr []"
| "exc_filter P (x # xs) =
     exc_bind (P x) (\<lambda>b. exc_bind (exc_filter P xs) (\<lambda>ys. Inr (if b then x # ys else ys)))"

definition existing_user_challenges ::
  "db \<Rightarrow> bool \<Rightarrow> (user_challenge_row \<times> disbursement_row option) list \<Rightarrow> exc + user_challenge_row list" where
  "existing_user_challenges d show_historical rows =
     exc_filter (\<lambda>uc. if show_historical then Inr True
       else exc_bind (challenge_with_id d (uc_challenge_id uc)) (\<lambda>c. Inr (ch_active c))) (map fst rows)"

text \<open>
  The loop over the existing user challenges; \<open>disbursements[i]\<close> is the disbursement of the
  \<open>i\<close>-th row of the join, of which the inactive ones have not been removed.
\<close>

definition regular_response ::
  "int \<Rightarrow> db \<Rightarrow> int \<Rightarrow> challenge_row \<Rightarrow> user_challenge_row \<Rightarrow> disbursement_row option \<Rightarrow> exc + challenge_response" where
  "regular_response now d user_id parent_challenge user_challenge disbursement =
     (let user_challenge_dict = to_challenge_response user_challenge parent_challenge disbursement [] in
      exc_bind (get_manager (ch_id parent_challenge)) (\<lambda>m.
        case get_override_challenge_step_count now m d user_id of
          Some override_step_count \<Rightarrow>
            Inr (if uc_is_complete user_challenge then user_challenge_dict
                 else user_challenge_dict\<lparr>cr_current_step_count := Some override_step_count\<rparr>)
        | None \<Rightarrow> Inr user_challenge_dict))"

fun sort_user_challenges ::
  "int \<Rightarrow> db \<Rightarrow> int \<Rightarrow> (user_challenge_row \<times> disbursement_row option) list \<Rightarrow>
    exc + challenge_response list \<times> user_challenge_row list" where
  "sort_user_challenges now d user_id [] = Inr ([], [])"
| "sort_user_challenges now d user_id ((user_challenge, disbursement) # rest) =
     exc_bind (challenge_with_id d (uc_challenge_id user_challenge)) (\<lambda>parent_challenge.
     if ch_type parent_challenge = ChAggregate then
       exc_bind (sort_user_challenges now d user_id rest) (\<lambda>(regular, aggregate).
         Inr (regular, if uc_is_complete user_challenge then user_challenge # aggregate else aggregate))
     else if ch_type parent_challenge = ChTrending \<and> \<not> uc_is_complete user_challenge then
       sort_user_challenges now d user_id rest
     else
       exc_bind (regular_response now d user_id parent_challenge user_challenge disbursement) (\<lambda>response.
       exc_bind (sort_user_challenges now d user_id rest) (\<lambda>(regular, aggregate).
         Inr (response # regular, aggregate))))"

text \<open>The aggregate challenges in the order in which their first completion was met.\<close>

definition roll_up :: "db \<Rightarrow> user_challenge_row list \<Rightarrow> exc + challenge_response list" where
  "roll_up d aggregate =
     exc_map (\<lambda>challenge_id. exc_bind (challenge_with_id d challenge_id)
         (rollup_aggregates (filter (\<lambda>uc. uc_challenge_id uc = challenge_id) aggregate)))
       (rev (remdups (rev (map uc_challenge_id aggregate))))"

definition active_non_hidden_challenges :: "db \<Rightarrow> int \<Rightarrow> exc + challenge_row list" where
  "active_non_hidden_challenges d user_id =
     exc_filter (\<lambda>c. if ch_active c \<and> ch_type c \<noteq> ChTrending
       then exc_bind (get_manager (ch_id c)) (\<lambda>m. should_show_challenge_for_user m d user_id)
       else Inr False) (challenges d)"

definition get_challenges :: "int \<Rightarrow> int \<Rightarrow> bool \<Rightarrow> db \<Rightarrow> exc + challenge_response list" where
  "get_challenges now user_id show_historical d =
     (let rows = filter (\<lambda>r. does_manager_exist (uc_challenge_id (fst r))) (user_challenges_and_disbursements d user_id);
          disbursements = map snd rows in
      exc_bind (existing_user_challenges d show_historical rows) (\<lambda>existing.
      exc_bind (sort_user_challenges now d user_id (zip existing disbursements)) (\<lambda>(regular, aggregate).
      exc_bind (roll_up d aggregate) (\<lambda>rolled_up.
      exc_bind (active_non_hidden_challenges d user_id) (\<lambda>active.
        let needs_user_challenge = filter (\<lambda>c. ch_id c \<notin> uc_challenge_id ` set existing) active in
        exc_bind (exc_map (\<lambda>c. exc_bind (get_manager (ch_id c)) (\<lambda>m. Inr [])) needs_user_challenge) (\<lambda>empty_metadata.
          Inr (regular @ rolled_up @ create_empty_user_challenges user_id needs_user_challenge empty_metadata)))))))"


section \<open>What is listed\<close>

lemma exc_filter_Inr: "exc_filter P xs = Inr ys \<Longrightarrow> ys = filter (\<lambda>x. P x = Inr True) xs"
  by (induction xs arbitrary: ys) (auto simp: exc_bind_Inr_iff split: if_splits)

lemma outer_rows_Some: "x \<in> set (outer_rows rows) \<Longrightarrow> x \<noteq> None \<longleftrightarrow> rows \<noteq> []"
  by (auto simp: outer_rows_def split: if_splits)

lemma joined_disbursed:
  assumes "(uc, x) \<in> set (user_challenges_and_disbursements d user_id)"
  shows "uc \<in> set (user_challenges d) \<and> uc_user_id uc = user_id \<and>
    (x \<noteq> None \<longleftrightarrow> disbursed d (uc_challenge_id uc) (uc_specifier uc))"
proof -
  let ?F = "filter (\<lambda>x. cd_specifier x = uc_specifier uc \<and> cd_challenge_id x = uc_challenge_id uc) (challenge_disbursements (programs d))"
  have uc: "uc \<in> set (user_challenges d)" "uc_user_id uc = user_id" and x: "x \<in> set (outer_rows ?F)"
    using assms by (auto simp: user_challenges_and_disbursements_def)
  have "disbursed d (uc_challenge_id uc) (uc_specifier uc) \<longleftrightarrow> ?F \<noteq> []"
    by (simp add: disbursed_def disbursement_key_def filter_empty_conv) blast
  with outer_rows_Some [OF x] uc show ?thesis by simp
qed

lemma concat_mapI: "y \<in> set xs \<Longrightarrow> z \<in> set (f y) \<Longrightarrow> z \<in> set (concat (map f xs))"
  by auto

lemma joined_all:
  assumes "uc \<in> set (user_challenges d)" and "uc_user_id uc = user_id"
  shows "\<exists>x. (uc, x) \<in> set (user_challenges_and_disbursements d user_id)"
proof -
  let ?F = "filter (\<lambda>x. cd_specifier x = uc_specifier uc \<and> cd_challenge_id x = uc_challenge_id uc) (challenge_disbursements (programs d))"
  have "outer_rows ?F \<noteq> []" by (simp only: outer_rows_def) simp
  then have "hd (outer_rows ?F) \<in> set (outer_rows ?F)" by (rule hd_in_set)
  then have row: "(uc, hd (outer_rows ?F)) \<in> set (map (\<lambda>x. (uc, x)) (outer_rows ?F))" by simp
  have mem: "uc \<in> set (filter (\<lambda>uc. uc_user_id uc = user_id) (user_challenges d))" using assms by simp
  show ?thesis
    unfolding user_challenges_and_disbursements_def
    by (rule exI [of _ "hd (outer_rows ?F)"], rule concat_mapI [where y = uc, OF mem], rule row)
qed

lemma get_manager_Inr: "get_manager i = Inr m \<Longrightarrow> does_manager_exist i"
  by (auto simp: get_manager_def does_manager_exist_def bus_managers_def split: option.splits if_splits)

lemma challenge_with_id_Inr:
  assumes "challenge_with_id d i = Inr c"
  shows "ch_id c = i \<and> c \<in> set (challenges d)"
proof -
  have found: "find P xs = Some y \<Longrightarrow> P y \<and> y \<in> set xs" for P xs and y :: challenge_row
    by (induction xs) (auto split: if_splits)
  from assms have "find (\<lambda>c. ch_id c = i) (rev (challenges d)) = Some c"
    by (auto simp: challenge_with_id_def split: option.splits)
  from found [OF this] show ?thesis by simp
qed

text \<open>The entry of a user challenge, up to the step count.\<close>

definition entry_of :: "user_challenge_row \<Rightarrow> challenge_row \<Rightarrow> disbursement_row option \<Rightarrow> challenge_response \<Rightarrow> bool" where
  "entry_of uc c x r \<longleftrightarrow> cr_challenge_id r = ch_id c \<and> cr_specifier r = uc_specifier uc \<and>
     cr_is_complete r = uc_is_complete uc \<and> cr_is_disbursed r = (x \<noteq> None) \<and> cr_user_id r = uc_user_id uc"

lemma regular_entry: "regular_response now d u c uc x = Inr r \<Longrightarrow> entry_of uc c x r"
  by (auto simp: regular_response_def entry_of_def to_challenge_response_def Let_def exc_bind_Inr_iff
      split: option.splits if_splits)

lemma sort_ConsE:
  assumes "sort_user_challenges now d u ((uc, x) # ps) = Inr (regular, aggregate)"
  obtains (agg) c reg0 agg0 where "challenge_with_id d (uc_challenge_id uc) = Inr c"
      "sort_user_challenges now d u ps = Inr (reg0, agg0)" "ch_type c = ChAggregate" "regular = reg0"
      "aggregate = (if uc_is_complete uc then uc # agg0 else agg0)"
    | (skip) c reg0 agg0 where "challenge_with_id d (uc_challenge_id uc) = Inr c"
      "sort_user_challenges now d u ps = Inr (reg0, agg0)" "ch_type c = ChTrending" "\<not> uc_is_complete uc"
      "regular = reg0" "aggregate = agg0"
    | (reg) c reg0 agg0 r where "challenge_with_id d (uc_challenge_id uc) = Inr c"
      "sort_user_challenges now d u ps = Inr (reg0, agg0)" "ch_type c \<noteq> ChAggregate"
      "ch_type c = ChTrending \<longrightarrow> uc_is_complete uc" "entry_of uc c x r" "regular = r # reg0" "aggregate = agg0"
proof -
  from assms obtain c where c: "challenge_with_id d (uc_challenge_id uc) = Inr c" by (auto simp: exc_bind_Inr_iff)
  show thesis
  proof (cases "ch_type c = ChAggregate")
    case True
    with assms c show ?thesis by (auto simp: exc_bind_Inr_iff intro: agg)
  next
    case False
    show ?thesis
    proof (cases "ch_type c = ChTrending \<and> \<not> uc_is_complete uc")
      case True
      with assms c show ?thesis by (auto intro: skip)
    next
      case no_skip: False
      from assms c have "exc_bind (regular_response now d u c uc x) (\<lambda>response.
          exc_bind (sort_user_challenges now d u ps) (\<lambda>(regular, aggregate). Inr (response # regular, aggregate))) =
          Inr (regular, aggregate)"
        by (simp only: sort_user_challenges.simps exc_bind_simps False no_skip if_False)
      then obtain r reg0 agg0 where "regular_response now d u c uc x = Inr r"
        "sort_user_challenges now d u ps = Inr (reg0, agg0)" "regular = r # reg0" "aggregate = agg0"
        by (auto simp: exc_bind_Inr_iff)
      then show ?thesis using c False no_skip by (intro reg) (auto dest: regular_entry)
    qed
  qed
qed

lemma sorted_regular:
  "sort_user_challenges now d u ps = Inr (regular, aggregate) \<Longrightarrow> r \<in> set regular \<Longrightarrow>
    \<exists>uc x c. (uc, x) \<in> set ps \<and> challenge_with_id d (uc_challenge_id uc) = Inr c \<and>
      ch_type c \<noteq> ChAggregate \<and> entry_of uc c x r"
proof (induction ps arbitrary: regular aggregate)
  case (Cons p ps)
  obtain uc x where p: "p = (uc, x)" by (cases p)
  from Cons.prems(1) [unfolded p] show ?case
  proof (cases rule: sort_ConsE)
    case (reg c reg0 agg0 r')
    show ?thesis
    proof (cases "r = r'")
      case True
      with reg show ?thesis by (auto simp: p)
    next
      case False
      with reg Cons.prems(2) have "r \<in> set reg0" by simp
      from Cons.IH [OF reg(2) this] show ?thesis by (metis list.set_intros(2))
    qed
  next
    case (agg c reg0 agg0)
    with Cons.prems(2) have "r \<in> set reg0" by simp
    from Cons.IH [OF agg(2) this] show ?thesis by (metis list.set_intros(2))
  next
    case (skip c reg0 agg0)
    with Cons.prems(2) have "r \<in> set reg0" by simp
    from Cons.IH [OF skip(2) this] show ?thesis by (metis list.set_intros(2))
  qed
qed simp

lemma sorted_aggregate:
  "sort_user_challenges now d u ps = Inr (regular, aggregate) \<Longrightarrow> uc \<in> set aggregate \<longleftrightarrow>
    uc \<in> fst ` set ps \<and> uc_is_complete uc \<and>
    (\<exists>c. challenge_with_id d (uc_challenge_id uc) = Inr c \<and> ch_type c = ChAggregate)"
proof (induction ps arbitrary: regular aggregate)
  case (Cons p ps)
  obtain uc' x where p: "p = (uc', x)" by (cases p)
  from Cons.prems(1) [unfolded p] show ?case
  proof (cases rule: sort_ConsE)
    case (agg c reg0 agg0)
    with Cons.IH [OF agg(2)] show ?thesis by (auto simp: p)
  next
    case (skip c reg0 agg0)
    with Cons.IH [OF skip(2)] show ?thesis by (auto simp: p)
  next
    case (reg c reg0 agg0 r)
    with Cons.IH [OF reg(2)] show ?thesis by (auto simp: p)
  qed
qed simp

lemma sorted_complete:
  "sort_user_challenges now d u ps = Inr (regular, aggregate) \<Longrightarrow> (uc, x) \<in> set ps \<Longrightarrow>
    challenge_with_id d (uc_challenge_id uc) = Inr c \<Longrightarrow> ch_type c \<noteq> ChAggregate \<Longrightarrow>
    (ch_type c = ChTrending \<longrightarrow> uc_is_complete uc) \<Longrightarrow> \<exists>r\<in>set regular. entry_of uc c x r"
proof (induction ps arbitrary: regular aggregate)
  case (Cons p ps)
  obtain uc' x' where p: "p = (uc', x')" by (cases p)
  from Cons.prems(1) [unfolded p] show ?case
  proof (cases rule: sort_ConsE)
    case (agg c' reg0 agg0)
    with Cons.IH [OF agg(2)] Cons.prems(2-) show ?thesis by (auto simp: p)
  next
    case (skip c' reg0 agg0)
    with Cons.IH [OF skip(2)] Cons.prems(2-) show ?thesis by (auto simp: p)
  next
    case (reg c' reg0 agg0 r)
    with Cons.IH [OF reg(2)] Cons.prems(2-) show ?thesis by (auto simp: p)
  qed
qed simp


section \<open>Properties\<close>

lemma rollup_entry:
  "rollup_aggregates rows c = Inr r \<Longrightarrow> cr_challenge_id r = ch_id c \<and> \<not> cr_is_disbursed r"
  by (cases rows) (auto simp: rollup_aggregates_def Let_def)

lemma roll_up_entries:
  assumes "roll_up d aggregate = Inr rs"
  shows "r \<in> set rs \<Longrightarrow> \<not> cr_is_disbursed r"
    and "cr_challenge_id ` set rs = uc_challenge_id ` set aggregate"
proof -
  have "list_all2 (\<lambda>i r. exc_bind (challenge_with_id d i) (rollup_aggregates (filter (\<lambda>uc. uc_challenge_id uc = i) aggregate)) = Inr r)
      (rev (remdups (rev (map uc_challenge_id aggregate)))) rs"
    using exc_map_list_all2 [OF assms [unfolded roll_up_def]] .
  then have "list_all2 (\<lambda>i r. cr_challenge_id r = i \<and> \<not> cr_is_disbursed r) (rev (remdups (rev (map uc_challenge_id aggregate)))) rs"
    by (rule list_all2_mono) (auto simp: exc_bind_Inr_iff dest: challenge_with_id_Inr rollup_entry)
  then have "map cr_challenge_id rs = rev (remdups (rev (map uc_challenge_id aggregate))) \<and> (\<forall>r\<in>set rs. \<not> cr_is_disbursed r)"
    by (induction rule: list_all2_induct) auto
  then show "r \<in> set rs \<Longrightarrow> \<not> cr_is_disbursed r" and "cr_challenge_id ` set rs = uc_challenge_id ` set aggregate"
    by (auto simp flip: set_map)
qed

lemma create_empty_entries:
  assumes "length cs = length ms"
  shows "r \<in> set (create_empty_user_challenges u cs ms) \<Longrightarrow> \<not> cr_is_disbursed r"
    and "cr_challenge_id ` set (create_empty_user_challenges u cs ms) = ch_id ` set cs"
proof -
  have "map cr_challenge_id (create_empty_user_challenges u cs ms) = map ch_id cs \<and>
      (\<forall>r\<in>set (create_empty_user_challenges u cs ms). \<not> cr_is_disbursed r)"
    using assms by (induction cs ms rule: list_induct2) (auto simp: create_empty_user_challenges_def empty_user_challenge_def)
  then show "r \<in> set (create_empty_user_challenges u cs ms) \<Longrightarrow> \<not> cr_is_disbursed r"
    and "cr_challenge_id ` set (create_empty_user_challenges u cs ms) = ch_id ` set cs"
    by (auto simp flip: set_map)
qed

text \<open>The parts of a result.\<close>

definition managed_rows :: "db \<Rightarrow> int \<Rightarrow> (user_challenge_row \<times> disbursement_row option) list" where
  "managed_rows d user_id =
     filter (\<lambda>r. does_manager_exist (uc_challenge_id (fst r))) (user_challenges_and_disbursements d user_id)"

lemma get_challengesE:
  assumes "get_challenges now user_id show_historical d = Inr rs"
  obtains existing regular aggregate rolled_up active empties where
    "existing_user_challenges d show_historical (managed_rows d user_id) = Inr existing"
    "sort_user_challenges now d user_id (zip existing (map snd (managed_rows d user_id))) = Inr (regular, aggregate)"
    "roll_up d aggregate = Inr rolled_up" "active_non_hidden_challenges d user_id = Inr active"
    "rs = regular @ rolled_up @ empties"
    "\<And>r. r \<in> set empties \<Longrightarrow> \<not> cr_is_disbursed r"
    "cr_challenge_id ` set empties = ch_id ` {c \<in> set active. ch_id c \<notin> uc_challenge_id ` set existing}"
proof -
  from assms obtain existing regular aggregate rolled_up active ms where
    parts: "existing_user_challenges d show_historical (managed_rows d user_id) = Inr existing"
    "sort_user_challenges now d user_id (zip existing (map snd (managed_rows d user_id))) = Inr (regular, aggregate)"
    "roll_up d aggregate = Inr rolled_up" "active_non_hidden_challenges d user_id = Inr active"
    and ms: "exc_map (\<lambda>c. exc_bind (get_manager (ch_id c)) (\<lambda>m. Inr []))
      (filter (\<lambda>c. ch_id c \<notin> uc_challenge_id ` set existing) active) = Inr ms"
    and rs: "rs = regular @ rolled_up @ create_empty_user_challenges user_id
      (filter (\<lambda>c. ch_id c \<notin> uc_challenge_id ` set existing) active) ms"
    by (auto simp: get_challenges_def Let_def exc_bind_Inr_iff managed_rows_def)
  have "length (filter (\<lambda>c. ch_id c \<notin> uc_challenge_id ` set existing) active) = length ms"
    using exc_map_list_all2 [OF ms] by (rule list_all2_lengthD)
  note e = create_empty_entries [OF this]
  from parts rs show thesis by (rule that) (use e in auto)
qed


lemma existing_rows:
  assumes "existing_user_challenges d show_historical rows = Inr existing"
  shows "set existing \<subseteq> fst ` set rows"
    and "show_historical \<or> (\<forall>(uc, x)\<in>set rows. \<forall>c. challenge_with_id d (uc_challenge_id uc) = Inr c \<longrightarrow> ch_active c) \<Longrightarrow>
      existing = map fst rows"
    and "uc \<in> fst ` set rows \<Longrightarrow> show_historical \<or> (\<exists>c. challenge_with_id d (uc_challenge_id uc) = Inr c \<and> ch_active c) \<Longrightarrow>
      uc \<in> set existing"
proof -
  let ?P = "\<lambda>uc. if show_historical then Inr True else exc_bind (challenge_with_id d (uc_challenge_id uc)) (\<lambda>c. Inr (ch_active c))"
  have e: "existing = filter (\<lambda>uc. ?P uc = Inr True) (map fst rows)"
    by (rule exc_filter_Inr) (rule assms [unfolded existing_user_challenges_def])
  show "set existing \<subseteq> fst ` set rows" by (auto simp: e)
  show "uc \<in> set existing" if "uc \<in> fst ` set rows" "show_historical \<or> (\<exists>c. challenge_with_id d (uc_challenge_id uc) = Inr c \<and> ch_active c)"
    using that by (auto simp: e)
  have defined: "\<exists>b. ?P uc = Inr b" if "uc \<in> fst ` set rows" for uc
    using assms that unfolding existing_user_challenges_def
    by (induction rows arbitrary: existing) (auto simp: exc_bind_Inr_iff split: if_splits)
  show "existing = map fst rows"
    if all: "show_historical \<or> (\<forall>(uc, x)\<in>set rows. \<forall>c. challenge_with_id d (uc_challenge_id uc) = Inr c \<longrightarrow> ch_active c)"
  proof -
    have "?P uc = Inr True" if "uc \<in> set (map fst rows)" for uc
    proof -
      from that defined [of uc] obtain b where b: "?P uc = Inr b" by auto
      from that obtain x where "(uc, x) \<in> set rows" by auto
      with all b show ?thesis by (auto simp: exc_bind_Inr_iff split: if_splits)
    qed
    then show ?thesis unfolding e by (intro filter_True ballI)
  qed
qed



text \<open>
  C22. Every active challenge a user may see is listed, unless it is a trending challenge or one of
  several completions of which the user has entered some but completed none.
\<close>

theorem active_challenge_listed_iff:
  assumes "get_challenges now user_id show_historical d = Inr rs"
    and c: "c \<in> set (challenges d)" "challenge_with_id d (ch_id c) = Inr c" "ch_active c" "ch_type c \<noteq> ChTrending"
    and m: "get_manager (ch_id c) = Inr m" "should_show_challenge_for_user m d user_id = Inr True"
  shows "(\<exists>r\<in>set rs. cr_challenge_id r = ch_id c) \<longleftrightarrow>
    \<not> (ch_type c = ChAggregate \<and>
       (\<exists>uc\<in>set (user_challenges d). uc_user_id uc = user_id \<and> uc_challenge_id uc = ch_id c) \<and>
       (\<forall>uc\<in>set (user_challenges d). uc_user_id uc = user_id \<and> uc_challenge_id uc = ch_id c \<longrightarrow> \<not> uc_is_complete uc))"
proof -
  obtain existing regular aggregate rolled_up active empties where
    ex: "existing_user_challenges d show_historical (managed_rows d user_id) = Inr existing"
    and so: "sort_user_challenges now d user_id (zip existing (map snd (managed_rows d user_id))) = Inr (regular, aggregate)"
    and ro: "roll_up d aggregate = Inr rolled_up" and ac: "active_non_hidden_challenges d user_id = Inr active"
    and rs: "rs = regular @ rolled_up @ empties"
    and em: "cr_challenge_id ` set empties = ch_id ` {c \<in> set active. ch_id c \<notin> uc_challenge_id ` set existing}"
    by (rule get_challengesE [OF assms(1)]) blast
  have exist: "does_manager_exist (ch_id c)" by (rule get_manager_Inr [OF m(1)])
  have len: "length existing \<le> length (managed_rows d user_id)"
    using exc_filter_Inr [OF ex [unfolded existing_user_challenges_def]] by (metis length_filter_le length_map)
  have zipped: "uc \<in> fst ` set (zip existing (map snd (managed_rows d user_id))) \<longleftrightarrow> uc \<in> set existing" for uc
    using len by (auto simp: set_zip in_set_conv_nth image_iff)
  have existing: "uc \<in> set existing \<longleftrightarrow> uc \<in> set (user_challenges d) \<and> uc_user_id uc = user_id"
    if "uc_challenge_id uc = ch_id c" for uc
  proof
    assume "uc \<in> set existing"
    with existing_rows(1) [OF ex] show "uc \<in> set (user_challenges d) \<and> uc_user_id uc = user_id"
      using joined_disbursed by (fastforce simp: managed_rows_def)
  next
    assume uc: "uc \<in> set (user_challenges d) \<and> uc_user_id uc = user_id"
    then obtain x where "(uc, x) \<in> set (user_challenges_and_disbursements d user_id)" using joined_all by blast
    with exist that have "uc \<in> fst ` set (managed_rows d user_id)" by (force simp: managed_rows_def)
    then show "uc \<in> set existing" using c that by (intro existing_rows(3) [OF ex]) auto
  qed
  have "c \<in> set active"
    using exc_filter_Inr [OF ac [unfolded active_non_hidden_challenges_def]] c m by simp
  then have "ch_id c \<in> ch_id ` {x \<in> set active. ch_id x \<notin> E} \<longleftrightarrow> ch_id c \<notin> E" for E by auto
  then have empty: "ch_id c \<in> cr_challenge_id ` set empties \<longleftrightarrow> ch_id c \<notin> uc_challenge_id ` set existing"
    by (simp only: em)
  have rolled: "ch_id c \<in> cr_challenge_id ` set rolled_up \<longleftrightarrow>
      ch_type c = ChAggregate \<and> (\<exists>uc\<in>set existing. uc_challenge_id uc = ch_id c \<and> uc_is_complete uc)"
  proof -
    have "ch_id c \<in> cr_challenge_id ` set rolled_up \<longleftrightarrow> (\<exists>uc. uc \<in> set aggregate \<and> uc_challenge_id uc = ch_id c)"
      unfolding roll_up_entries(2) [OF ro] by (auto simp: image_iff intro: sym)
    also have "\<dots> \<longleftrightarrow> (\<exists>uc. uc \<in> set existing \<and> uc_is_complete uc \<and> ch_type c = ChAggregate \<and> uc_challenge_id uc = ch_id c)"
      unfolding sorted_aggregate [OF so] zipped by (rule ex_cong1) (auto simp: c(2))
    finally show ?thesis by blast
  qed
  have regular: "ch_id c \<in> cr_challenge_id ` set regular \<longleftrightarrow>
      ch_type c \<noteq> ChAggregate \<and> ch_id c \<in> uc_challenge_id ` set existing"
  proof
    assume "ch_id c \<in> cr_challenge_id ` set regular"
    then obtain r where "r \<in> set regular" "cr_challenge_id r = ch_id c" by auto
    with sorted_regular [OF so] obtain uc x c' where
      uc: "(uc, x) \<in> set (zip existing (map snd (managed_rows d user_id)))" and c': "challenge_with_id d (uc_challenge_id uc) = Inr c'"
      "ch_type c' \<noteq> ChAggregate" and "entry_of uc c' x r" by metis
    then have "uc_challenge_id uc = ch_id c" "c' = c"
      using challenge_with_id_Inr [OF c'(1)] c(2) \<open>cr_challenge_id r = ch_id c\<close> by (auto simp: entry_of_def)
    with uc c'(2) zipped show "ch_type c \<noteq> ChAggregate \<and> ch_id c \<in> uc_challenge_id ` set existing"
      by (metis fst_conv image_eqI)
  next
    assume *: "ch_type c \<noteq> ChAggregate \<and> ch_id c \<in> uc_challenge_id ` set existing"
    then obtain uc where uc: "uc \<in> set existing" "uc_challenge_id uc = ch_id c" by auto
    then obtain x where "(uc, x) \<in> set (zip existing (map snd (managed_rows d user_id)))" using zipped [of uc] by auto
    from sorted_complete [OF so this] * c uc obtain r where "r \<in> set regular" "entry_of uc c x r" by metis
    then show "ch_id c \<in> cr_challenge_id ` set regular" by (auto simp: entry_of_def intro: rev_image_eqI)
  qed
  have "(\<exists>r\<in>set rs. cr_challenge_id r = ch_id c) \<longleftrightarrow> ch_id c \<in> cr_challenge_id ` set rs"
    by (auto simp: image_iff intro: sym)
  also have "\<dots> \<longleftrightarrow> ch_id c \<in> cr_challenge_id ` set regular \<or> ch_id c \<in> cr_challenge_id ` set rolled_up \<or>
      ch_id c \<in> cr_challenge_id ` set empties"
    by (auto simp: rs)
  finally have listed: "(\<exists>r\<in>set rs. cr_challenge_id r = ch_id c) \<longleftrightarrow>
      ch_type c \<noteq> ChAggregate \<or> ch_id c \<notin> uc_challenge_id ` set existing \<or>
      (\<exists>uc\<in>set existing. uc_challenge_id uc = ch_id c \<and> uc_is_complete uc)"
    unfolding empty rolled regular by blast
  have "ch_id c \<in> uc_challenge_id ` set existing \<longleftrightarrow>
      (\<exists>uc\<in>set (user_challenges d). uc_user_id uc = user_id \<and> uc_challenge_id uc = ch_id c)"
    unfolding image_iff using existing by metis
  moreover have "(\<exists>uc\<in>set existing. uc_challenge_id uc = ch_id c \<and> uc_is_complete uc) \<longleftrightarrow>
      (\<exists>uc\<in>set (user_challenges d). uc_user_id uc = user_id \<and> uc_challenge_id uc = ch_id c \<and> uc_is_complete uc)"
    using existing by metis
  ultimately show ?thesis unfolding listed by blast
qed


text \<open>
  An example: user 1 has completed the inactive challenge "mobile-install" and the active one
  "referred"; only the first was paid out.
\<close>

definition ex_challenge :: "string \<Rightarrow> bool \<Rightarrow> challenge_row" where
  "ex_challenge i active = \<lparr>ch_id = i, ch_type = ChBoolean, ch_amount = ''1'', ch_active = active,
     ch_step_count = None, ch_starting_block = None\<rparr>"

definition ex_completed :: "string \<Rightarrow> user_challenge_row" where
  "ex_completed i = \<lparr>uc_challenge_id = i, uc_user_id = 1, uc_specifier = ''1'', uc_is_complete = True,
     uc_current_step_count = None, uc_completed_blocknumber = Some 5\<rparr>"

definition ex_paid :: disbursement_row where
  "ex_paid = \<lparr>cd_challenge_id = ''mobile-install'', cd_user_id = 1, cd_specifier = ''1'', cd_signature = ''s'',
     cd_slot = 3, cd_amount = ''1''\<rparr>"

definition ex_challenge_db :: db where
  "ex_challenge_db = empty_db\<lparr>challenges := [ex_challenge ''mobile-install'' False, ex_challenge ''referred'' True],
     user_challenges := [ex_completed ''mobile-install'', ex_completed ''referred''],
     programs := empty_programs\<lparr>challenge_disbursements := [ex_paid]\<rparr>\<rparr>"

lemma ex_result: "\<exists>rs. get_challenges 0 1 show_historical ex_challenge_db = Inr rs"
proof -
  have "\<not> isl (get_challenges 0 1 True ex_challenge_db)" "\<not> isl (get_challenges 0 1 False ex_challenge_db)"
    by code_simp+
  then show ?thesis by (cases show_historical) (metis sum.collapse(2))+
qed

lemma ex_with_id:
  "challenge_with_id ex_challenge_db ''mobile-install'' = Inr (ex_challenge ''mobile-install'' False)"
  "challenge_with_id ex_challenge_db ''referred'' = Inr (ex_challenge ''referred'' True)"
  by (simp_all add: challenge_with_id_def ex_challenge_db_def ex_challenge_def)

lemma ex_managed: "managed_rows ex_challenge_db 1 =
    [(ex_completed ''mobile-install'', Some ex_paid), (ex_completed ''referred'', None)]"
  by code_simp

lemma ex_disbursed: "disbursed ex_challenge_db ''mobile-install'' ''1''"
  by (simp add: disbursed_def disbursement_key_def ex_challenge_db_def ex_paid_def)



theorem active_challenge_listed_iff_witness:
  "\<exists>rs. get_challenges 0 1 False ex_challenge_db = Inr rs \<and> (\<exists>r\<in>set rs. cr_challenge_id r = ''referred'')"
proof -
  obtain rs where rs: "get_challenges 0 1 False ex_challenge_db = Inr rs" using ex_result by blast
  let ?c = "ex_challenge ''referred'' True"
  have c: "?c \<in> set (challenges ex_challenge_db)" "challenge_with_id ex_challenge_db (ch_id ?c) = Inr ?c"
    "ch_active ?c" "ch_type ?c \<noteq> ChTrending"
    using ex_with_id(2) by (simp_all add: ex_challenge_db_def ex_challenge_def)
  have m: "get_manager (ch_id ?c) = Inr referred_challenge_manager"
    "should_show_challenge_for_user referred_challenge_manager ex_challenge_db 1 = Inr True"
    by (simp_all add: get_manager_def bus_managers_def ex_challenge_def should_show_challenge_for_user_def)
  from active_challenge_listed_iff [OF rs c m] rs show ?thesis by (simp add: ex_challenge_def)
qed

end
