(* ===== verification/Spec2Isabelle.thy ===== *)
theory Spec2Isabelle
  imports Indexing Challenge_Bus Rewards_Manager Attestation Aggregate_Tips Eth_Scanner Solana_Plays User_Balances Challenge_Queries
begin

text \<open>
  A verification development for the discovery node of the Coliving protocol
  (src/discovery-node/src; all paths below are relative to it).

  The discovery node keeps a relational database of what happened on the chain. The task
  \<open>update_task\<close> (tasks/index.py) compares the chain with the blocks table, undoes the blocks that
  left the chain, and indexes the new ones: each transaction goes to the handler of the
  contract it was sent to, which turns the decoded events into rows. Handlers dispatch events
  on the challenge event bus; another task consumes them and updates the users' progress in the
  rewards challenges.

  THEORIES. Prelude has Python exceptions, the state-and-exception shape of effectful code
  (\<open>py\<close>: an exception leaves the state as it was mutated so far) and the rules for
  invariants of such code. Sql has the database operations and the locales \<open>versioned\<close>
  and \<open>versioned_blocks\<close>, the contract of a table of versioned rows; Tables has one record
  per model class of models/, the Redis keys, the state \<open>world\<close> of a handler, and
  interprets the locales for the six versioned tables.
  Helpers (utils/varint.py, utils/multihash.py, utils/helpers.py) and Slugs (utils/helpers.py)
  have the encodings. One theory per handler: Social_Features, User_Library, Content_Lists, Users,
  User_Replica_Set, Digital_Contents (the files of tasks/ with these names), each with the records of
  its events, one function per function of the file, and the handler \<open>..._state_update\<close>.
  Metadata (utils/cid_metadata_client.py, tasks/metadata.py, \<open>fetch_cid_metadata\<close> of tasks/index.py)
  fetches the documents the events mention. Skipped_Transactions
  (queries/get_skipped_transactions.py, queries/skipped_transactions.py,
  queries/confirm_indexing_transaction_error.py) records errors. Revert and Index are
  \<open>revert_blocks\<close> and \<open>update_task\<close> of tasks/index.py; Indexing has what they guarantee.
  Event_Bus and Challenge_Bus are the two sides of challenges/challenge_event_bus.py, Challenges is
  challenges/challenge.py and Updaters the challenges themselves.

  Challenge_Queries (queries/get_challenges.py) lists the challenges of a user, and Attestation
  (queries/get_attestation.py, queries/get_undisbursed_challenges.py, tasks/index_oracles.py) has the messages
  that let an oracle pay them out.

  The indexers of the Solana programs share Solana_Client (solana/solana_client_manager.py: retries
  and failover), Solana_Signatures (the walk back through the signatures of a program, with the locale
  \<open>page_scan\<close> of what a walk relies on), Program_Index (the locale \<open>indexed_program\<close>: batches that
  are stored whole, so that the table of the indexed transactions has no gap), Solana_Parser
  (solana/solana_parser.py) and Python_Numbers (\<open>int\<close> of a text, utils/spl_digitalcoin.py). On these
  rest Rewards_Manager (tasks/index_rewards_manager.py), User_Bank (tasks/index_user_bank.py: bank
  accounts and tips) and Solana_Plays (tasks/index_solana_plays.py: listens). Aggregate_Tips
  (tasks/index_aggregate_tips.py) sums the tips and ranks the supporters. Eth_Scanner
  (eth_indexing/event_scanner.py, tasks/index_eth.py) scans the token contract for
  transfers in chunks, and User_Balances (queries/get_balances.py, tasks/cache_user_balance.py) caches the
  balances and logs their changes.

  STATE. A table is the list of its rows in insertion order, a row is a record. A handler
  is a function \<open>world \<Rightarrow> (exc + result) \<times> world\<close>. The session of a block is committed or
  rolled back as a whole (\<open>scoped_session\<close> in Index).

  LEMMAS. Every handler is shown to be a refinement of an abstract relation (the follow graph,
  the saves, the replica sets) under the block's events, or to keep one current row per key;
  the facts come from the locales of Sql through their interpretations. The theory
  Indexing has the locale of what a handler may not touch, and from it the atomicity of blocks.
  The indexers of the Solana programs and the scanner of the token contract are shown to leave no gap
  or, where the code does lose transactions, that it does (\<open>older_plays_lost\<close>,
  \<open>tip_before_account_lost\<close>).
  The locales \<open>challenge_updates\<close> and \<open>completing_updates\<close> are the contract of the updaters, on
  which the properties of the managers rest.

  LOOPS. A loop that need not end (the undo walk, the walk back along the chain, the walks
  through signatures) is a \<open>partial_function (option)\<close>; None is not returning, and the
  theorems say when a result exists. The search for a free slug and the retries are total
  recursions with measures; no fuel is used.

  PARAMETERS. What is not in the repository is an argument: the decoding of receipts and the
  chain (web3), the answers of other nodes and of the metadata gateways, signature checks and
  base 58, the hash of ids, the database's collation and whether a commit succeeds, clocks and
  the order in which threads finish. They are gathered in one record per theory
  (\<open>..._services\<close>).

  NOT MODELLED. The HTTP interface (api/) and most of the read side (queries/, trending strategies,
  search) only select and format rows. The migrations (alembic/) are DDL. Monitors, metrics and
  health checks report numbers. The content node, identity service, libs, and contracts of the
  repository are other programs in JavaScript, TypeScript, Rust and Solidity. Locks of Celery
  tasks, logging and time measurements are left out of the modelled functions.
\<close>

section \<open>From the indexer to the rewards\<close>

text \<open>
  With at most one current row per pair, counting the live follow rows of a user counts the
  users followed.
\<close>

lemma distinct_cur_keys:
  assumes "\<And>k. length (cur_rows key cur tbl k) \<le> 1"
  shows "distinct (map key (filter cur tbl))"
  using assms
proof (induction tbl)
  case (Cons r tbl)
  have tail: "length (cur_rows key cur tbl k) \<le> 1" for k
    using Cons.prems [of k] by (auto simp: cur_rows_def split: if_splits)
  have "cur r \<Longrightarrow> cur_rows key cur tbl (key r) = []"
    using Cons.prems [of "key r"] by (simp add: cur_rows_def)
  then have "cur r \<Longrightarrow> key r \<notin> key ` set (filter cur tbl)"
    by (auto simp: cur_rows_def filter_empty_conv)
  with Cons.IH [OF tail] show ?case by auto
qed simp

lemma live_follows_count:
  assumes "\<And>k. length (cur_rows follow_key fl_is_current (follows d) k) \<le> 1"
  shows "sql_count (\<lambda>r. fl_is_current r \<and> fl_follower_user_id r = u \<and> \<not> fl_is_delete r) (follows d) =
    card {v. (u, v) \<in> follow_graph d}"
proof -
  let ?rows = "filter (\<lambda>r. fl_is_current r \<and> fl_follower_user_id r = u \<and> \<not> fl_is_delete r) (follows d)"
  have "distinct (map follow_key (filter fl_is_current (follows d)))"
    using assms by (rule distinct_cur_keys)
  then have "distinct (map follow_key (filter (\<lambda>r. fl_follower_user_id r = u \<and> \<not> fl_is_delete r)
      (filter fl_is_current (follows d))))"
    by (rule distinct_map_filter)
  then have "distinct (map follow_key ?rows)" by (simp add: conj_ac)
  then have "distinct (map fl_followee_user_id ?rows)"
    by (auto simp: distinct_map inj_on_def)
  then have "card (fl_followee_user_id ` set ?rows) = length ?rows"
    using distinct_card by fastforce
  moreover have "fl_followee_user_id ` set ?rows = {v. (u, v) \<in> follow_graph d}"
    by (auto simp: follow_graph_def)
  ultimately show ?thesis by (simp add: sql_count_def)
qed

text \<open>
  From follow events to the profile challenge: after a block whose follow and unfollow events
  the social feature handler stored, the profile challenge marks the follow step of a user as
  done exactly when the user follows at least five users in the relation the block's events
  lead to.
\<close>

theorem follow_step_from_events:
  assumes "\<And>k. length (cur_rows follow_key fl_is_current (follows (w_db w)) k) \<le> 1"
    and "social_feature_state_update txs n ts bh w = (Inr res, w')"
    and "update_profile cs follow ucs k metas b (w_db w') = (Inr ucs', d')"
    and "p \<in> set (profile_completions d')" and "pc_user_id p \<in> uc_user_id ` set ucs"
  shows "pc_follows p = (5 \<le> card {v. (pc_user_id p, v) \<in>
    fold apply_edge (concat (map follow_events txs)) (follow_graph (w_db w))})"
proof -
  have "d' = handle_follow (map uc_user_id ucs) (w_db w')"
    using assms(3) by (auto simp: update_profile_def Let_def py_defs split: sum.splits)
  with assms(4,5) have "pc_follows p = (FOLLOW_THRESHOLD \<le> sql_count (\<lambda>r. fl_is_current r \<and>
      fl_follower_user_id r = pc_user_id p \<and> \<not> fl_is_delete r) (follows (w_db w')))"
    by (auto simp: handle_follow_def sql_update_def)
  moreover have "length (cur_rows follow_key fl_is_current (follows (w_db w')) j) \<le> 1" for j
    using assms(2) by (rule social_run_Inr) (simp only: follow_rows_current [OF assms(1)])
  ultimately show ?thesis
    by (simp add: live_follows_count FOLLOW_THRESHOLD_def follow_events_applied [OF assms(2)])
qed

definition ex_follow_challenges :: "user_challenge_row list" where
  "ex_follow_challenges = [\<lparr>uc_challenge_id = ''profile-completion'', uc_user_id = 1, uc_specifier = ''1'',
     uc_is_complete = False, uc_current_step_count = Some 0, uc_completed_blocknumber = None\<rparr>]"

definition ex_profile_world :: world where
  "ex_profile_world = empty_world\<lparr>w_db := empty_db\<lparr>profile_completions :=
     [new_profile_completion \<lparr>em_block_number = 7, em_user_id = 1, em_extra = [], em_specifier = ''1''\<rparr>]\<rparr>\<rparr>"

theorem follow_step_from_events_witness:
  "\<exists>w' ucs' d'. social_feature_state_update [ex_social] 7 100 ''0xb'' ex_profile_world = (Inr (4, []), w') \<and>
     update_profile ex_challenge_services follow ex_follow_challenges (Some 7) [] None (w_db w') = (Inr ucs', d') \<and>
     (\<exists>p\<in>set (profile_completions d'). pc_user_id p = 1 \<and>
        pc_follows p = (5 \<le> card {v. (1, v) \<in> fold apply_edge (follow_events ex_social) {}}))"
proof -
  let ?upd = "\<lambda>w'. update_profile ex_challenge_services follow ex_follow_challenges (Some 7) [] None (w_db w')"
  obtain w' where w': "social_feature_state_update [ex_social] 7 100 ''0xb'' ex_profile_world = (Inr (4, []), w')"
    and "\<not> isl (fst (?upd w'))" and ids: "map pc_user_id (profile_completions (snd (?upd w'))) = [1]"
  proof -
    let ?run = "social_feature_state_update [ex_social] 7 100 ''0xb'' ex_profile_world"
    have "fst ?run = Inr (4, [])" "\<not> isl (fst (?upd (snd ?run)))"
      "map pc_user_id (profile_completions (snd (?upd (snd ?run)))) = [1]" by code_simp+
    then show thesis using that by (metis prod.collapse)
  qed
  then obtain ucs' d' where d': "?upd w' = (Inr ucs', d')" by (metis prod.collapse sum.collapse(2))
  with ids obtain p where p: "p \<in> set (profile_completions d')" "pc_user_id p = 1" by auto
  have cur: "length (cur_rows follow_key fl_is_current (follows (w_db ex_profile_world)) k) \<le> 1" for k
    by (simp add: cur_rows_def ex_profile_world_def empty_db_def)
  have mem: "pc_user_id p \<in> uc_user_id ` set ex_follow_challenges" by (simp add: p ex_follow_challenges_def)
  have none: "follow_graph (w_db ex_profile_world) = {}"
    by (simp add: follow_graph_def ex_profile_world_def empty_db_def)
  from follow_step_from_events [OF cur w' d' p(1) mem] w' d' p show ?thesis by (auto simp: none)
qed

end
